(* ===== verification/Prelude.thy ===== *)
theory Prelude
  imports Main "HOL-Library.Word"
begin

text \<open>
  Shared vocabulary of the development: machine integers and byte strings, the
  \<open>Result\<close> type with its combinators, the fixed-width big-endian integers of
  the Rust standard library, and the generic lemmas the component theories use.

  A Rust \<open>Result<T, E>\<close> is the sum \<open>'e + 't\<close> with the error on the left. The
  operator \<open>?\<close> is \<open>and_then\<close>; the conversion it applies to the error is
  \<open>map_err\<close>.
\<close>

unbundle bit_operations_syntax

type_synonym u8 = "8 word"
type_synonym u32 = "32 word"
type_synonym u64 = "64 word"
type_synonym bytes = "u8 list"

named_theorems result_simps \<open>evaluation of the Result combinators\<close>
named_theorems len_simps \<open>lengths of encoded values\<close>

section \<open>Results\<close>

definition and_then :: "'e + 'a \<Rightarrow> ('a \<Rightarrow> 'e + 'b) \<Rightarrow> 'e + 'b" where
  "and_then m f = (case m of Inl e \<Rightarrow> Inl e | Inr x \<Rightarrow> f x)"

definition map_err :: "('e \<Rightarrow> 'f) \<Rightarrow> 'e + 'a \<Rightarrow> 'f + 'a" where
  "map_err g m = (case m of Inl e \<Rightarrow> Inl (g e) | Inr x \<Rightarrow> Inr x)"

definition ok_or :: "'e \<Rightarrow> 'a option \<Rightarrow> 'e + 'a" where
  "ok_or e m = (case m of None \<Rightarrow> Inl e | Some x \<Rightarrow> Inr x)"

definition is_ok :: "'e + 'a \<Rightarrow> bool" where
  "is_ok m = (case m of Inl _ \<Rightarrow> False | Inr _ \<Rightarrow> True)"

lemma and_then_Inl [simp, result_simps]: "and_then (Inl e) f = Inl e"
  by (simp add: and_then_def)

lemma and_then_Inr [simp, result_simps]: "and_then (Inr x) f = f x"
  by (simp add: and_then_def)

lemma map_err_Inl [simp, result_simps]: "map_err g (Inl e) = Inl (g e)"
  by (simp add: map_err_def)

lemma map_err_Inr [simp, result_simps]: "map_err g (Inr x) = Inr x"
  by (simp add: map_err_def)

lemma ok_or_None [simp, result_simps]: "ok_or e None = Inl e"
  by (simp add: ok_or_def)

lemma ok_or_Some [simp, result_simps]: "ok_or e (Some x) = Inr x"
  by (simp add: ok_or_def)

lemma is_ok_simps [simp, result_simps]: "is_ok (Inl e) = False" "is_ok (Inr x) = True"
  by (simp_all add: is_ok_def)

lemma and_then_eq_Inr [simp]:
  "and_then m f = Inr y \<longleftrightarrow> (\<exists>x. m = Inr x \<and> f x = Inr y)"
  by (cases m) auto

text \<open>Elimination rules that follow a successful chain one step at a time.\<close>

lemma and_thenE:
  assumes "and_then m f = Inr y"
  obtains x where "m = Inr x" "f x = Inr y"
  using assms by auto

lemma and_then_pairE:
  assumes "and_then m (\<lambda>(a, b). f a b) = Inr y"
  obtains a b where "m = Inr (a, b)" "f a b = Inr y"
  using assms by auto

lemma if_okE:
  assumes "(if c then Inl e else m) = Inr y"
  obtains "\<not> c" "m = Inr y"
  using assms by (auto split: if_splits)

lemma and_then_eq_Inl:
  "and_then m f = Inl e \<longleftrightarrow> m = Inl e \<or> (\<exists>x. m = Inr x \<and> f x = Inl e)"
  by (cases m) auto

lemma map_err_eq_Inr [simp]: "map_err g m = Inr y \<longleftrightarrow> m = Inr y"
  by (cases m) auto

lemma ok_or_eq_Inr [simp]: "ok_or e m = Inr y \<longleftrightarrow> m = Some y"
  by (cases m) auto

lemma if_error_eq_Inr [simp]: "(if c then Inl e else m) = Inr y \<longleftrightarrow> \<not> c \<and> m = Inr y"
  by auto

lemma and_then_cong [fundef_cong]:
  "m = n \<Longrightarrow> (\<And>x. n = Inr x \<Longrightarrow> f x = g x) \<Longrightarrow> and_then m f = and_then n g"
  by (cases n) auto

lemma is_ok_iff: "is_ok m \<longleftrightarrow> (\<exists>x. m = Inr x)"
  by (cases m) auto

section \<open>Fixed-width integers as bytes\<close>

text \<open>\<open>to_be_bytes\<close> and \<open>from_be_bytes\<close> of the unsigned integer types.\<close>

definition to_be_bytes :: "nat \<Rightarrow> 'a::len word \<Rightarrow> bytes" where
  "to_be_bytes n w = map (\<lambda>i. ucast (drop_bit (8 * i) w)) (rev [0..<n])"

definition from_be_bytes :: "bytes \<Rightarrow> 'a::len word" where
  "from_be_bytes bs = foldl (\<lambda>acc b. push_bit 8 acc OR ucast b) 0 bs"

definition u32_to_be :: "u32 \<Rightarrow> bytes" where
  "u32_to_be w = to_be_bytes 4 w"

definition u64_to_be :: "u64 \<Rightarrow> bytes" where
  "u64_to_be w = to_be_bytes 8 w"

lemma to_be_bytes_Suc:
  "to_be_bytes (Suc n) w = ucast (drop_bit (8 * n) w) # to_be_bytes n w"
  by (simp add: to_be_bytes_def)

lemma length_to_be_bytes [simp, len_simps]: "length (to_be_bytes n w) = n"
  by (simp add: to_be_bytes_def)

lemma length_u32_to_be [simp, len_simps]: "length (u32_to_be w) = 4"
  by (simp add: u32_to_be_def)

lemma length_u64_to_be [simp, len_simps]: "length (u64_to_be w) = 8"
  by (simp add: u64_to_be_def)

lemma foldl_be_bytes:
  "foldl (\<lambda>acc b. push_bit 8 acc OR ucast b) acc (to_be_bytes n w)
     = push_bit (8 * n) acc OR take_bit (8 * n) (w :: 'a::len word)"
proof (induction n arbitrary: acc)
  case 0
  then show ?case by (simp add: to_be_bytes_def)
next
  case (Suc n)
  have split: "push_bit (8 * n) (ucast (ucast (drop_bit (8 * n) w) :: u8)) OR take_bit (8 * n) w
      = (take_bit (8 * Suc n) w :: 'a word)"
    by (rule bit_word_eqI) (auto simp: bit_simps)
  have push: "push_bit (8 * n) (push_bit 8 acc) = push_bit (8 * Suc n) acc"
    by (simp add: algebra_simps)
  have "foldl (\<lambda>acc b. push_bit 8 acc OR ucast b) acc (to_be_bytes (Suc n) w)
      = push_bit (8 * n) (push_bit 8 acc OR ucast (ucast (drop_bit (8 * n) w) :: u8))
          OR take_bit (8 * n) w"
    by (simp add: to_be_bytes_Suc Suc.IH)
  also have "\<dots> = push_bit (8 * Suc n) acc OR
      (push_bit (8 * n) (ucast (ucast (drop_bit (8 * n) w) :: u8)) OR take_bit (8 * n) w)"
    by (simp only: push_bit_or push or.assoc)
  finally show ?case by (simp only: split)
qed

lemma from_be_u32 [simp]: "from_be_bytes (u32_to_be w) = w"
  unfolding from_be_bytes_def u32_to_be_def foldl_be_bytes
  by (simp add: take_bit_word_eq_self)

lemma from_be_u64 [simp]: "from_be_bytes (u64_to_be w) = w"
  unfolding from_be_bytes_def u64_to_be_def foldl_be_bytes
  by (simp add: take_bit_word_eq_self)

lemma u32_to_be_inject [simp]: "u32_to_be v = u32_to_be w \<longleftrightarrow> v = w"
  using from_be_u32 by metis

lemma u64_to_be_inject [simp]: "u64_to_be v = u64_to_be w \<longleftrightarrow> v = w"
  using from_be_u64 by metis

section \<open>Stateful operations that can fail\<close>

text \<open>
  A \<open>&mut self\<close> method returning \<open>Result\<close> yields the new state beside the result:
  what was written before an early return stays written.
\<close>

definition then_do :: "'s \<times> ('e + 'a) \<Rightarrow> ('s \<Rightarrow> 'a \<Rightarrow> 's \<times> ('e + 'b)) \<Rightarrow> 's \<times> ('e + 'b)" where
  "then_do p f = (case snd p of Inl e \<Rightarrow> (fst p, Inl e) | Inr x \<Rightarrow> f (fst p) x)"

lemma then_do_Inl [simp, result_simps]: "then_do (s, Inl e) f = (s, Inl e)"
  by (simp add: then_do_def)

lemma then_do_Inr [simp, result_simps]: "then_do (s, Inr x) f = f s x"
  by (simp add: then_do_def)

lemma then_do_cases:
  assumes "then_do p f = (s', r)"
  obtains (err) e where "p = (s', Inl e)" "r = Inl e" | (ok) s x where "p = (s, Inr x)" "f s x = (s', r)"
  using assms by (cases p; cases "snd p") auto

section \<open>Byte strings and integer helpers\<close>

text \<open>A Rust byte-string literal.\<close>

definition bstr :: "string \<Rightarrow> bytes" where
  "bstr s = map of_char s"

lemma length_bstr [simp, len_simps]: "length (bstr s) = length s"
  by (simp add: bstr_def)

text \<open>\<open>u32::saturating_add\<close>.\<close>

definition saturating_add :: "u32 \<Rightarrow> u32 \<Rightarrow> u32" where
  "saturating_add a b = (if unat a + unat b < 2 ^ 32 then a + b else - 1)"

lemma unat_saturating_add: "unat (saturating_add a b) = min (unat a + unat b) (2 ^ 32 - 1)"
proof -
  have "unat (- 1 :: u32) = 2 ^ 32 - 1" by (simp add: unsigned_minus_1_eq_mask mask_eq_exp_minus_1)
  then show ?thesis by (auto simp: saturating_add_def unat_word_ariths)
qed

section \<open>Words as numbers\<close>

lemma unat_u32_less: "unat (w :: u32) < 2 ^ 32"
  using unsigned_less [of w] by simp

lemma unat_u64_less: "unat (w :: u64) < 2 ^ 64"
  using unsigned_less [of w] by simp

lemma unat_Suc_u32: "unat (w :: u32) < n \<Longrightarrow> n < 2 ^ 32 \<Longrightarrow> unat (w + 1) = Suc (unat w)"
  by (simp add: unat_word_ariths)

lemma unat_next_u32:
  assumes "(w :: u32) < v"
  shows "unat (w + 1) = Suc (unat w)"
proof -
  from assms have "unat w < unat v" by (simp add: word_less_nat_alt)
  then show ?thesis using unat_u32_less [of v] by (rule unat_Suc_u32)
qed

section \<open>Encoders with a decoder\<close>

text \<open>
  The contract of an encode/decode pair: on a platform that can hold the values
  (\<open>env\<close>), decoding inverts encoding on well-formed values. A \<open>checked_codec\<close> also
  promises that whatever decodes is well-formed, which makes decoding followed by
  encoding stable.
\<close>

locale codec =
  fixes env :: bool
    and enc :: "'a \<Rightarrow> bytes"
    and dec :: "bytes \<Rightarrow> 'e + 'a"
    and ok :: "'a \<Rightarrow> bool"
  assumes dec_enc: "env \<Longrightarrow> ok x \<Longrightarrow> dec (enc x) = Inr x"
begin

lemma enc_inject: "env \<Longrightarrow> ok x \<Longrightarrow> ok y \<Longrightarrow> enc x = enc y \<longleftrightarrow> x = y"
  by (metis dec_enc sum.inject(2))

lemma enc_accepted: "env \<Longrightarrow> ok x \<Longrightarrow> is_ok (dec (enc x))"
  by (simp add: dec_enc)

end

locale checked_codec = codec +
  assumes dec_ok: "dec b = Inr x \<Longrightarrow> ok x"
begin

lemma reencode_stable: "env \<Longrightarrow> dec b = Inr x \<Longrightarrow> dec (enc x) = Inr x"
  by (rule dec_enc) (auto dest: dec_ok)

lemma canonical_unique:
  "env \<Longrightarrow> dec b = Inr x \<Longrightarrow> dec b' = Inr y \<Longrightarrow> enc x = enc y \<Longrightarrow> x = y"
  using enc_inject dec_ok by blast

end

section \<open>Splitting text\<close>

text \<open>\<open>str::split\<close> at every occurrence of a character.\<close>

fun split_on :: "'a \<Rightarrow> 'a list \<Rightarrow> 'a list list" where
  "split_on c [] = [[]]"
| "split_on c (x # xs) =
     (if x = c then [] # split_on c xs
      else case split_on c xs of [] \<Rightarrow> [[x]] | w # ws \<Rightarrow> (x # w) # ws)"

lemma split_on_nonempty [simp]: "split_on c s \<noteq> []"
  by (cases s) (auto split: list.splits)

definition join_with :: "'a \<Rightarrow> 'a list list \<Rightarrow> 'a list" where
  "join_with c ws = (case ws of [] \<Rightarrow> [] | w # ws \<Rightarrow> w @ concat (map (\<lambda>v. c # v) ws))"

lemma join_split: "join_with c (split_on c s) = s"
proof (induction s)
  case (Cons x xs)
  then show ?case
    by (cases "split_on c xs") (auto simp: join_with_def split: list.splits)
qed (simp add: join_with_def)

lemma split_inject: "split_on c s = split_on c t \<longleftrightarrow> s = t"
  by (metis join_split)

lemma split_on_append_last:
  "c \<notin> set t \<Longrightarrow> split_on c (s @ t) = butlast (split_on c s) @ [last (split_on c s) @ t]"
proof (induction s)
  case Nil
  then show ?case by (induction t) auto
next
  case (Cons x xs)
  then show ?case by (cases "split_on c xs") auto
qed

text \<open>\<open>str::strip_prefix\<close>.\<close>

definition strip_prefix :: "'a list \<Rightarrow> 'a list \<Rightarrow> 'a list option" where
  "strip_prefix p s = (if take (length p) s = p then Some (drop (length p) s) else None)"

text \<open>Association lists sorted by their keys.\<close>

lemma distinct_sort_key_fst [simp]: "distinct (map fst (sort_key f xs)) = distinct (map fst xs)"
  by (metis distinct_map distinct_sort set_sort)

lemma map_of_sort_key: "distinct (map fst xs) \<Longrightarrow> map_of (sort_key f xs) = map_of xs"
  by (rule map_of_inject_set [THEN iffD2]) simp_all

end
