(* ===== verification/Entities.thy ===== *)
theory Entities
  imports Prelude
begin

text \<open>
  The domain types of the node: \<open>crates/buh-entities/src\<close> (\<open>error.rs\<close>, \<open>ids.rs\<close>,
  \<open>queue.rs\<close>, \<open>envelope.rs\<close>, \<open>dto.rs\<close>, \<open>settlement.rs\<close>) and the error type of
  \<open>crates/buh-core/src/error.rs\<close>.

  A Rust string is the list of its UTF-8 bytes (\<open>string\<close>) where the code only
  compares, concatenates or splits at ASCII characters, and the list of its scalar
  values (\<open>ustring\<close>) where it works character by character. An \<open>i64\<close> is an \<open>int\<close>;
  the operations that saturate do so explicitly. A \<open>DateTime<Utc>\<close> is its timestamp in
  milliseconds, which is all the node stores and compares.

  The crates \<open>hex\<close>, \<open>uuid\<close>, \<open>chrono\<close> and \<open>sha2\<close> are the fields of the record
  \<open>libs\<close>; the laws below state their documented behaviour.
\<close>

type_synonym ustring = "nat list"
type_synonym uuid = "128 word"
type_synonym envelope_id = uuid
type_synonym queue_id = bytes

text \<open>A string literal as scalar values.\<close>

definition ustr :: "string \<Rightarrow> ustring" where
  "ustr s = map of_char s"

lemma ustr_append [simp]: "ustr (s @ t) = ustr s @ ustr t"
  by (simp add: ustr_def)

lemma ustr_inject [simp]: "ustr s = ustr t \<longleftrightarrow> s = t"
proof -
  have "inj (of_char :: char \<Rightarrow> nat)" by (rule injI) simp
  then show ?thesis by (simp add: ustr_def inj_map_eq_map)
qed

section \<open>Decimal rendering\<close>

definition digit :: "nat \<Rightarrow> char" where
  "digit d = char_of (48 + d)"

fun show_nat :: "nat \<Rightarrow> string" where
  "show_nat n = (if n < 10 then [digit n] else show_nat (n div 10) @ [digit (n mod 10)])"

declare show_nat.simps [simp del]

definition show_int :: "int \<Rightarrow> string" where
  "show_int i = (if i < 0 then ''-'' @ show_nat (nat (- i)) else show_nat (nat i))"

section \<open>Errors\<close>

datatype entity_error =
    InvalidQueueId string
  | InvalidTtl string
  | InvalidPayload string
  | InvalidBase64 string
  | Empty string

fun entity_error_display :: "entity_error \<Rightarrow> string" where
  "entity_error_display (InvalidQueueId s) = ''invalid queue id: '' @ s"
| "entity_error_display (InvalidTtl s) = ''invalid ttl: '' @ s"
| "entity_error_display (InvalidPayload s) = ''invalid payload: '' @ s"
| "entity_error_display (InvalidBase64 s) = ''invalid base64: '' @ s"
| "entity_error_display (Empty s) = ''field must not be empty: '' @ s"

datatype core_error =
    NotFound
  | Conflict string
  | Validation entity_error
  | Repo string
  | Storage string
  | Unimplemented string
  | Internal string

fun core_error_display :: "core_error \<Rightarrow> string" where
  "core_error_display NotFound = ''not found''"
| "core_error_display (Conflict s) = ''conflict: '' @ s"
| "core_error_display (Validation e) = entity_error_display e"
| "core_error_display (Repo s) = ''repository error: '' @ s"
| "core_error_display (Storage s) = ''storage error: '' @ s"
| "core_error_display (Unimplemented s) = ''not implemented: '' @ s"
| "core_error_display (Internal s) = ''internal error: '' @ s"

section \<open>Third-party crates\<close>

record libs =
  hex_encode :: "bytes \<Rightarrow> string"
  hex_decode :: "string \<Rightarrow> string + bytes"
  uuid_to_string :: "uuid \<Rightarrow> string"
  uuid_parse :: "ustring \<Rightarrow> string + uuid"
  from_timestamp_millis :: "int \<Rightarrow> int option"
  sha256 :: "bytes \<Rightarrow> bytes"

text \<open>\<open>char::to_ascii_lowercase\<close>.\<close>

definition ascii_lower :: "char \<Rightarrow> char" where
  "ascii_lower c = (if 65 \<le> (of_char c :: nat) \<and> of_char c \<le> (90 :: nat)
     then char_of (of_char c + 32 :: nat) else c)"

text \<open>
  The crate \<open>hex\<close>: two lowercase digits per byte; decoding takes digits of either
  case and nothing else.
\<close>

definition hex_laws :: "libs \<Rightarrow> bool" where
  "hex_laws L \<longleftrightarrow>
     (\<forall>b. hex_decode L (hex_encode L b) = Inr b)
   \<and> (\<forall>b. length (hex_encode L b) = 2 * length b)
   \<and> (\<forall>b. set (hex_encode L b) \<subseteq> set ''0123456789abcdef'')
   \<and> (\<forall>s b. hex_decode L s = Inr b \<longrightarrow> hex_encode L b = map ascii_lower s)"

text \<open>The crate \<open>uuid\<close>: the hyphenated form parses back.\<close>

definition uuid_laws :: "libs \<Rightarrow> bool" where
  "uuid_laws L \<longleftrightarrow> (\<forall>u. uuid_parse L (ustr (uuid_to_string L u)) = Inr u)"

text \<open>
  The crate \<open>chrono\<close>: timestamps from the epoch to the end of the year 9999 are
  representable, and a representable timestamp is kept.
\<close>

definition LAST_MS :: int where "LAST_MS = 253402300799999"

definition chrono_laws :: "libs \<Rightarrow> bool" where
  "chrono_laws L \<longleftrightarrow>
     (\<forall>t. 0 \<le> t \<and> t \<le> LAST_MS \<longrightarrow> from_timestamp_millis L t = Some t)
   \<and> (\<forall>t u. from_timestamp_millis L t = Some u \<longrightarrow> u = t)"

text \<open>SHA-256 has 32 bytes of output.\<close>

definition sha256_laws :: "libs \<Rightarrow> bool" where
  "sha256_laws L \<longleftrightarrow> (\<forall>b. length (sha256 L b) = 32)"

definition libs_laws :: "libs \<Rightarrow> bool" where
  "libs_laws L \<longleftrightarrow> hex_laws L \<and> uuid_laws L \<and> chrono_laws L \<and> sha256_laws L"

lemma hex_decode_encode [simp]: "hex_laws L \<Longrightarrow> hex_decode L (hex_encode L b) = Inr b"
  unfolding hex_laws_def by blast

lemma length_hex_encode [simp]: "hex_laws L \<Longrightarrow> length (hex_encode L b) = 2 * length b"
  unfolding hex_laws_def by blast

lemma hex_encode_decoded: "hex_laws L \<Longrightarrow> hex_decode L s = Inr b \<Longrightarrow> hex_encode L b = map ascii_lower s"
  unfolding hex_laws_def by blast

lemma hex_encode_digits: "hex_laws L \<Longrightarrow> set (hex_encode L b) \<subseteq> set ''0123456789abcdef''"
  unfolding hex_laws_def by blast

lemma hex_encode_inject: "hex_laws L \<Longrightarrow> hex_encode L a = hex_encode L b \<longleftrightarrow> a = b"
  by (metis hex_decode_encode sum.inject(2))

lemma uuid_parse_string [simp]: "uuid_laws L \<Longrightarrow> uuid_parse L (ustr (uuid_to_string L u)) = Inr u"
  by (simp add: uuid_laws_def)

lemma uuid_string_inject: "uuid_laws L \<Longrightarrow> uuid_to_string L u = uuid_to_string L v \<longleftrightarrow> u = v"
  by (metis uuid_parse_string sum.inject(2))

lemma chrono_in_range [simp]:
  "chrono_laws L \<Longrightarrow> 0 \<le> t \<Longrightarrow> t \<le> LAST_MS \<Longrightarrow> from_timestamp_millis L t = Some t"
  unfolding chrono_laws_def by blast

lemma chrono_keeps: "chrono_laws L \<Longrightarrow> from_timestamp_millis L t = Some u \<Longrightarrow> u = t"
  unfolding chrono_laws_def by blast

lemma libs_lawsD [dest]:
  assumes "libs_laws L"
  shows "hex_laws L" "uuid_laws L" "chrono_laws L" "sha256_laws L"
  using assms by (simp_all add: libs_laws_def)

section \<open>Queue identifiers\<close>

definition queue_id_len :: nat where "queue_id_len = 32"

definition from_slice :: "bytes \<Rightarrow> entity_error + queue_id" where
  "from_slice bs =
     (if length bs = queue_id_len then Inr bs
      else Inl (InvalidQueueId (''expected 32 bytes, got '' @ show_nat (length bs))))"

definition queue_id_display :: "libs \<Rightarrow> queue_id \<Rightarrow> string" where
  "queue_id_display L q = hex_encode L q"

definition queue_id_from_str :: "libs \<Rightarrow> string \<Rightarrow> entity_error + queue_id" where
  "queue_id_from_str L s =
     and_then (map_err (\<lambda>e. InvalidQueueId (''not valid hex: '' @ e)) (hex_decode L s)) from_slice"

text \<open>The type invariant of \<open>QueueId\<close>, a \<open>[u8; 32]\<close>.\<close>

definition queue_id_ok :: "queue_id \<Rightarrow> bool" where
  "queue_id_ok q \<longleftrightarrow> length q = queue_id_len"

lemma from_slice_ok [simp]: "from_slice s = Inr q \<longleftrightarrow> q = s \<and> queue_id_ok s"
  by (auto simp: from_slice_def queue_id_ok_def)

lemma from_str_display: "hex_laws L \<Longrightarrow> queue_id_ok q \<Longrightarrow> queue_id_from_str L (queue_id_display L q) = Inr q"
  by (simp add: queue_id_from_str_def queue_id_display_def)

lemma from_str_ok: "queue_id_from_str L s = Inr q \<Longrightarrow> queue_id_ok q"
  by (auto simp: queue_id_from_str_def)

lemma display_from_str:
  "hex_laws L \<Longrightarrow> queue_id_from_str L s = Inr q \<Longrightarrow> queue_id_display L q = map ascii_lower s"
  by (auto simp: queue_id_from_str_def queue_id_display_def hex_encode_decoded)

section \<open>Envelopes\<close>

record new_envelope =
  ne_payload :: bytes
  ne_ttl :: int

record stored_envelope =
  se_id :: envelope_id
  se_payload :: bytes
  se_received_at :: int
  se_expires_at :: int

record push_envelope =
  pe_payload :: bytes
  pe_ttl :: int

section \<open>Service credits\<close>

record credit =
  credit_units :: u64

type_synonym deposit_instructions = string
type_synonym deposit_proof = string
type_synonym payout = string
type_synonym tx_ref = string
type_synonym solvency_proof = string

section \<open>64-bit saturation\<close>

definition I64_MAX :: int where "I64_MAX = 9223372036854775807"
definition I64_MIN :: int where "I64_MIN = - 9223372036854775808"

text \<open>\<open>i64::saturating_add\<close> and \<open>i64::saturating_mul\<close>.\<close>

definition sat64 :: "int \<Rightarrow> int" where
  "sat64 x = max I64_MIN (min I64_MAX x)"

definition i64_saturating_add :: "int \<Rightarrow> int \<Rightarrow> int" where
  "i64_saturating_add a b = sat64 (a + b)"

definition i64_saturating_mul :: "int \<Rightarrow> int \<Rightarrow> int" where
  "i64_saturating_mul a b = sat64 (a * b)"

lemma sat64_id [simp]: "I64_MIN \<le> x \<Longrightarrow> x \<le> I64_MAX \<Longrightarrow> sat64 x = x"
  by (simp add: sat64_def)

lemma sat64_bounds: "I64_MIN \<le> sat64 x" "sat64 x \<le> I64_MAX"
  by (auto simp: sat64_def I64_MIN_def I64_MAX_def)

section \<open>White space\<close>

text \<open>The code points with the property \<open>White_Space\<close>.\<close>

definition is_whitespace :: "nat \<Rightarrow> bool" where
  "is_whitespace c \<longleftrightarrow> 9 \<le> c \<and> c \<le> 13 \<or> c = 32 \<or> c = 133 \<or> c = 160 \<or> c = 5760
     \<or> 8192 \<le> c \<and> c \<le> 8202 \<or> c \<in> {8232, 8233, 8239, 8287, 12288}"

text \<open>\<open>str::trim\<close>.\<close>

definition trim :: "ustring \<Rightarrow> ustring" where
  "trim s = rev (dropWhile is_whitespace (rev (dropWhile is_whitespace s)))"

end
