(* ===== verification/Node_Core.thy ===== *)
theory Node_Core
  imports Entities
begin

text \<open>
  The business logic of the node, \<open>crates/buh-core/src\<close>: the configuration and the
  context of ports (\<open>context.rs\<close>, \<open>ports.rs\<close>), the relay (\<open>mailbox.rs\<close>) and the blob
  role (\<open>blob.rs\<close>).

  A port trait is a record of operations on the state \<open>'s\<close> behind it; an operation
  that writes returns the new state beside its result, so that what was written before
  a failure stays written. What the code reads from its environment, the clock and
  fresh identifiers, is the argument \<open>moment\<close>. Each trait has a locale that states
  what its implementations promise; the behaviour of the core functions is proved
  inside it.
\<close>

section \<open>Configuration and ports\<close>

record core_config =
  default_ttl_seconds :: int
  max_ttl_seconds :: int
  max_payload_bytes :: nat
  max_pull_limit :: int
  max_blob_bytes :: nat

definition core_config_default :: core_config where
  "core_config_default = \<lparr>
     default_ttl_seconds = 60 * 60 * 24 * 7,
     max_ttl_seconds = 60 * 60 * 24 * 30,
     max_payload_bytes = 256 * 1024,
     max_pull_limit = 100,
     max_blob_bytes = 64 * 1024 * 1024\<rparr>"

record moment =
  now_ms :: int
  fresh_uuid :: uuid

record 's mailbox_port =
  mb_push :: "moment \<Rightarrow> queue_id \<Rightarrow> new_envelope \<Rightarrow> 's \<Rightarrow> 's \<times> (core_error + envelope_id)"
  mb_pull :: "moment \<Rightarrow> queue_id \<Rightarrow> int \<Rightarrow> 's \<Rightarrow> core_error + stored_envelope list"
  mb_ack :: "queue_id \<Rightarrow> envelope_id \<Rightarrow> int \<Rightarrow> 's \<Rightarrow> 's \<times> (core_error + bool)"
  mb_expire :: "int \<Rightarrow> 's \<Rightarrow> 's \<times> (core_error + nat)"

record 's blob_port =
  bs_exists :: "string \<Rightarrow> string \<Rightarrow> 's \<Rightarrow> core_error + bool"
  bs_put :: "string \<Rightarrow> string \<Rightarrow> bytes \<Rightarrow> 's \<Rightarrow> 's \<times> (core_error + unit)"
  bs_get :: "string \<Rightarrow> string \<Rightarrow> 's \<Rightarrow> core_error + bytes"
  bs_presign_get :: "string \<Rightarrow> string \<Rightarrow> u64 \<Rightarrow> 's \<Rightarrow> core_error + string"

record node_leaf =
  chain_der :: "bytes list"
  private_key_der :: bytes
  not_after_ms :: int

record 's ctx =
  ctx_mailbox :: "'s mailbox_port"
  ctx_blob :: "'s blob_port option"
  ctx_pki_fingerprint :: "string option"
  ctx_config :: core_config

section \<open>The relay\<close>

definition clamp_ttl :: "int \<Rightarrow> core_config \<Rightarrow> int" where
  "clamp_ttl requested cfg =
     (if requested \<le> 0 then default_ttl_seconds cfg else min requested (max_ttl_seconds cfg))"

definition mailbox_push ::
  "'s ctx \<Rightarrow> moment \<Rightarrow> queue_id \<Rightarrow> push_envelope \<Rightarrow> 's \<Rightarrow> 's \<times> (core_error + envelope_id)" where
  "mailbox_push ctx mo q req s =
     (if pe_payload req = [] then (s, Inl (Validation (InvalidPayload ''empty'')))
      else if length (pe_payload req) > max_payload_bytes (ctx_config ctx)
      then (s, Inl (Validation (InvalidPayload ''exceeds size limit'')))
      else
        let ttl = clamp_ttl (pe_ttl req) (ctx_config ctx)
        in mb_push (ctx_mailbox ctx) mo q \<lparr>ne_payload = pe_payload req, ne_ttl = ttl\<rparr> s)"

text \<open>\<open>Ord::clamp\<close>, which panics (\<open>None\<close>) when the bounds are the wrong way round.\<close>

definition i64_clamp :: "int \<Rightarrow> int \<Rightarrow> int \<Rightarrow> int option" where
  "i64_clamp x lo hi = (if lo > hi then None else Some (max lo (min hi x)))"

text \<open>\<open>None\<close> is a panic.\<close>

definition mailbox_pull ::
  "'s ctx \<Rightarrow> moment \<Rightarrow> queue_id \<Rightarrow> int \<Rightarrow> 's \<Rightarrow> (core_error + stored_envelope list) option" where
  "mailbox_pull ctx mo q limit s =
     (case i64_clamp limit 1 (max_pull_limit (ctx_config ctx)) of
        None \<Rightarrow> None
      | Some n \<Rightarrow> Some (mb_pull (ctx_mailbox ctx) mo q n s))"

definition mailbox_ack ::
  "'s ctx \<Rightarrow> moment \<Rightarrow> queue_id \<Rightarrow> envelope_id \<Rightarrow> 's \<Rightarrow> 's \<times> (core_error + bool)" where
  "mailbox_ack ctx mo q i s = mb_ack (ctx_mailbox ctx) q i (now_ms mo) s"

definition mailbox_sweep :: "'s ctx \<Rightarrow> moment \<Rightarrow> 's \<Rightarrow> 's \<times> (core_error + nat)" where
  "mailbox_sweep ctx mo s = mb_expire (ctx_mailbox ctx) (now_ms mo) s"

section \<open>The blob role\<close>

definition blob_store_of :: "'s ctx \<Rightarrow> core_error + 's blob_port" where
  "blob_store_of ctx = ok_or (Unimplemented ''node does not run the blob role'') (ctx_blob ctx)"

definition blob_put :: "'s ctx \<Rightarrow> string \<Rightarrow> string \<Rightarrow> bytes \<Rightarrow> 's \<Rightarrow> 's \<times> (core_error + unit)" where
  "blob_put ctx bucket key bs s =
     (if bs = [] then (s, Inl (Validation (InvalidPayload ''empty'')))
      else if length bs > max_blob_bytes (ctx_config ctx)
      then (s, Inl (Validation (InvalidPayload ''exceeds size limit'')))
      else then_do (s, blob_store_of ctx) (\<lambda>s st. bs_put st bucket key bs s))"

definition blob_get :: "'s ctx \<Rightarrow> string \<Rightarrow> string \<Rightarrow> 's \<Rightarrow> core_error + bytes" where
  "blob_get ctx bucket key s = and_then (blob_store_of ctx) (\<lambda>st. bs_get st bucket key s)"

definition blob_exists :: "'s ctx \<Rightarrow> string \<Rightarrow> string \<Rightarrow> 's \<Rightarrow> core_error + bool" where
  "blob_exists ctx bucket key s = and_then (blob_store_of ctx) (\<lambda>st. bs_exists st bucket key s)"

section \<open>What a mailbox promises\<close>

text \<open>
  The abstract mailbox: the envelopes in the order they were accepted, each with its
  queue and the time of its acknowledgement, and the delivery receipts.
\<close>

record mail =
  mail_queue :: queue_id
  mail_envelope :: stored_envelope
  mail_delivered :: "int option"

type_synonym receipt = "queue_id \<times> envelope_id \<times> int"

text \<open>What a pull at time \<open>t\<close> may return.\<close>

definition live :: "queue_id \<Rightarrow> int \<Rightarrow> mail \<Rightarrow> bool" where
  "live q t m \<longleftrightarrow> mail_queue m = q \<and> mail_delivered m = None \<and> se_expires_at (mail_envelope m) > t"

definition live_envelopes :: "queue_id \<Rightarrow> int \<Rightarrow> mail list \<Rightarrow> stored_envelope list" where
  "live_envelopes q t ms = map mail_envelope
     (sort_key (\<lambda>m. se_received_at (mail_envelope m)) (filter (live q t) ms))"

definition pending :: "queue_id \<Rightarrow> envelope_id \<Rightarrow> mail \<Rightarrow> bool" where
  "pending q i m \<longleftrightarrow> mail_queue m = q \<and> se_id (mail_envelope m) = i \<and> mail_delivered m = None"

definition deliver :: "queue_id \<Rightarrow> envelope_id \<Rightarrow> int \<Rightarrow> mail list \<Rightarrow> mail list" where
  "deliver q i t ms = map (\<lambda>m. if pending q i m then m\<lparr>mail_delivered := Some t\<rparr> else m) ms"

definition unexpired :: "int \<Rightarrow> mail list \<Rightarrow> mail list" where
  "unexpired t ms = filter (\<lambda>m. se_expires_at (mail_envelope m) > t) ms"

text \<open>At most one envelope per queue and identifier.\<close>

definition mail_key :: "mail \<Rightarrow> queue_id \<times> envelope_id" where
  "mail_key m = (mail_queue m, se_id (mail_envelope m))"

definition mails_ok :: "mail list \<Rightarrow> bool" where
  "mails_ok ms \<longleftrightarrow> distinct (map mail_key ms)"

text \<open>The envelope an accepted push adds.\<close>

definition expiry :: "moment \<Rightarrow> int \<Rightarrow> int" where
  "expiry mo ttl = i64_saturating_add (now_ms mo) (i64_saturating_mul ttl 1000)"

definition new_mail :: "moment \<Rightarrow> queue_id \<Rightarrow> new_envelope \<Rightarrow> mail" where
  "new_mail mo q e = \<lparr>mail_queue = q,
     mail_envelope = \<lparr>se_id = fresh_uuid mo, se_payload = ne_payload e,
       se_received_at = now_ms mo, se_expires_at = expiry mo (ne_ttl e)\<rparr>,
     mail_delivered = None\<rparr>"

text \<open>Lists of mail: what each operation does to the envelopes a pull can see.\<close>

lemma live_deliver:
  "filter (live q t) (deliver q' i t' ms) = filter (\<lambda>m. mail_key m \<noteq> (q', i)) (filter (live q t) ms)"
  by (induction ms) (auto simp: deliver_def live_def pending_def mail_key_def)

lemma live_deliver_other: "q' \<noteq> q \<Longrightarrow> filter (live q t) (deliver q' i t' ms) = filter (live q t) ms"
  by (induction ms) (auto simp: deliver_def live_def pending_def)

lemma live_key: "live q t m \<Longrightarrow> mail_key m = (q, se_id (mail_envelope m))"
  by (simp add: live_def mail_key_def)

lemma live_envelopes_deliver:
  "live_envelopes q t (deliver q i t' ms) = filter (\<lambda>e. se_id e \<noteq> i) (live_envelopes q t ms)"
proof -
  have "filter (\<lambda>m. mail_key m \<noteq> (q, i)) (filter (live q t) ms)
      = filter (\<lambda>m. se_id (mail_envelope m) \<noteq> i) (filter (live q t) ms)"
    by (rule filter_cong) (auto simp: live_key)
  then show ?thesis
    by (simp add: live_envelopes_def live_deliver filter_map comp_def filter_sort)
qed

lemma live_envelopes_other:
  "q' \<noteq> q \<Longrightarrow> live_envelopes q t (deliver q' i t' ms) = live_envelopes q t ms"
  by (simp add: live_envelopes_def live_deliver_other)

lemma live_envelopes_unexpired: "t' \<le> t \<Longrightarrow> live_envelopes q t (unexpired t' ms) = live_envelopes q t ms"
proof -
  assume "t' \<le> t"
  then have "filter (live q t) (unexpired t' ms) = filter (live q t) ms"
    by (induction ms) (auto simp: unexpired_def live_def)
  then show ?thesis by (simp add: live_envelopes_def)
qed

lemma live_envelopes_not_live: "\<not> live q t m \<Longrightarrow> live_envelopes q t (ms @ [m]) = live_envelopes q t ms"
  by (simp add: live_envelopes_def)

lemma set_live_envelopes: "set (live_envelopes q t ms) = mail_envelope ` {m \<in> set ms. live q t m}"
  by (simp add: live_envelopes_def)

lemma insort_key_snoc: "f a \<le> f m \<Longrightarrow> insort_key f a (xs @ [m]) = insort_key f a xs @ [m]"
  by (induction xs) auto

lemma sort_key_snoc: "(\<And>x. x \<in> set xs \<Longrightarrow> f x \<le> f m) \<Longrightarrow> sort_key f (xs @ [m]) = sort_key f xs @ [m]"
  by (induction xs) (simp_all add: insort_key_snoc)

lemma live_envelopes_snoc:
  assumes "live q t m"
    and "\<And>x. x \<in> set ms \<Longrightarrow> live q t x \<Longrightarrow>
      se_received_at (mail_envelope x) \<le> se_received_at (mail_envelope m)"
  shows "live_envelopes q t (ms @ [m]) = live_envelopes q t ms @ [mail_envelope m]"
proof -
  let ?k = "\<lambda>m. se_received_at (mail_envelope m)"
  have "sort_key ?k (filter (live q t) ms @ [m]) = sort_key ?k (filter (live q t) ms) @ [m]"
    by (rule sort_key_snoc) (auto simp: assms)
  then show ?thesis using assms(1) by (simp add: live_envelopes_def)
qed

lemma mails_ok_ids:
  assumes "mails_ok ms"
  shows "distinct (map se_id (live_envelopes q t ms))"
proof -
  have "distinct (map mail_key (filter (live q t) ms))"
    using assms unfolding mails_ok_def by (rule distinct_map_filter)
  also have "map mail_key (filter (live q t) ms) = map (\<lambda>m. (q, se_id (mail_envelope m))) (filter (live q t) ms)"
    by (rule map_cong) (auto simp: live_key)
  finally have "distinct (map (\<lambda>m. (q, se_id (mail_envelope m))) (filter (live q t) ms))" .
  then have "distinct (map (\<lambda>m. se_id (mail_envelope m)) (filter (live q t) ms))"
    by (auto simp: distinct_map inj_on_def)
  then show ?thesis by (simp add: live_envelopes_def distinct_map inj_on_def)
qed

lemma deliver_keys [simp]: "map mail_key (deliver q i t ms) = map mail_key ms"
  by (simp add: deliver_def mail_key_def)

lemma mails_ok_deliver: "mails_ok ms \<Longrightarrow> mails_ok (deliver q i t ms)"
  by (simp add: mails_ok_def)

lemma mails_ok_unexpired: "mails_ok ms \<Longrightarrow> mails_ok (unexpired t ms)"
  unfolding mails_ok_def unexpired_def by (rule distinct_map_filter)

lemma not_pending_deliver: "m \<in> set (deliver q i t ms) \<Longrightarrow> \<not> pending q i m"
  by (induction ms) (auto simp: deliver_def pending_def split: if_splits)

locale mailbox_repo =
  fixes env :: bool
    and repo :: "'s mailbox_port"
    and inv :: "'s \<Rightarrow> bool"
    and mails :: "'s \<Rightarrow> mail list"
    and receipts :: "'s \<Rightarrow> receipt list"
  assumes inv_mails: "env \<Longrightarrow> inv s \<Longrightarrow> mails_ok (mails s)"
    and push_law: "env \<Longrightarrow> inv s \<Longrightarrow> mb_push repo mo q e s = (s', r) \<Longrightarrow>
      inv s' \<and> receipts s' = receipts s \<and>
      (case r of Inl _ \<Rightarrow> mails s' = mails s
       | Inr i \<Rightarrow> i = fresh_uuid mo \<and> mails s' = mails s @ [new_mail mo q e])"
    and pull_law: "env \<Longrightarrow> inv s \<Longrightarrow> 0 \<le> n \<Longrightarrow> mb_pull repo mo q n s = Inr es \<Longrightarrow>
      es = take (nat n) (live_envelopes q (now_ms mo) (mails s))"
    and ack_law: "env \<Longrightarrow> inv s \<Longrightarrow> mb_ack repo q i t s = (s', ra) \<Longrightarrow>
      inv s' \<and>
      (case ra of Inl _ \<Rightarrow> receipts s' = receipts s \<and> (mails s' = mails s \<or> mails s' = deliver q i t (mails s))
       | Inr b \<Rightarrow> mails s' = deliver q i t (mails s) \<and> (b \<longleftrightarrow> (\<exists>m \<in> set (mails s). pending q i m)) \<and>
           receipts s' = receipts s @ (if b then [(q, i, t)] else []))"
    and expire_law: "env \<Longrightarrow> inv s \<Longrightarrow> mb_expire repo t s = (s', rn) \<Longrightarrow>
      inv s' \<and> receipts s' = receipts s \<and>
      (case rn of Inl _ \<Rightarrow> mails s' = mails s
       | Inr n \<Rightarrow> mails s' = unexpired t (mails s) \<and> n + length (mails s') = length (mails s))"
begin

text \<open>
  The core functions of a node whose mailbox is \<open>repo\<close>: the guards of \<open>mailbox.rs\<close>
  come first, then the laws above.
\<close>

lemma mailbox_push_cases:
  assumes "env" "inv s" "ctx_mailbox ctx = repo" "mailbox_push ctx mo q req s = (s', r)"
  shows "inv s' \<and> receipts s' = receipts s \<and>
    (case r of Inl _ \<Rightarrow> mails s' = mails s
     | Inr i \<Rightarrow> i = fresh_uuid mo \<and>
         mails s' = mails s @ [new_mail mo q \<lparr>ne_payload = pe_payload req, ne_ttl = clamp_ttl (pe_ttl req) (ctx_config ctx)\<rparr>])"
  using assms push_law [of s mo q _ s' r]
  by (auto simp: mailbox_push_def Let_def split: if_splits)

lemma mailbox_ack_cases:
  assumes "env" "inv s" "ctx_mailbox ctx = repo" "mailbox_ack ctx mo q i s = (s', r)"
  shows "inv s' \<and>
    (case r of Inl _ \<Rightarrow> receipts s' = receipts s \<and> (mails s' = mails s \<or> mails s' = deliver q i (now_ms mo) (mails s))
     | Inr b \<Rightarrow> mails s' = deliver q i (now_ms mo) (mails s) \<and> (b \<longleftrightarrow> (\<exists>m \<in> set (mails s). pending q i m)) \<and>
         receipts s' = receipts s @ (if b then [(q, i, now_ms mo)] else []))"
  using assms ack_law [of s q i "now_ms mo" s' r] by (simp add: mailbox_ack_def)

lemma mailbox_sweep_cases:
  assumes "env" "inv s" "ctx_mailbox ctx = repo" "mailbox_sweep ctx mo s = (s', r)"
  shows "inv s' \<and> receipts s' = receipts s \<and>
    (case r of Inl _ \<Rightarrow> mails s' = mails s
     | Inr n \<Rightarrow> mails s' = unexpired (now_ms mo) (mails s) \<and> n + length (mails s') = length (mails s))"
  using assms expire_law [of s "now_ms mo" s' r] by (simp add: mailbox_sweep_def)

lemma mailbox_pull_ok:
  assumes "env" "inv s" "ctx_mailbox ctx = repo" "mailbox_pull ctx mo q limit s = Some (Inr es)"
  shows "es = take (nat (max 1 (min (max_pull_limit (ctx_config ctx)) limit)))
      (live_envelopes q (now_ms mo) (mails s))"
  using assms pull_law [of s _ mo q es]
  by (auto simp: mailbox_pull_def i64_clamp_def split: if_splits)

end

end
