(* ===== verification/File_System.thy ===== *)
theory File_System
  imports Entities "HOL-Library.Sublist"
begin

text \<open>
  The part of \<open>std::fs\<close> (and \<open>tokio::fs\<close>, the same calls made asynchronously) the node
  uses, on a tree of files and directories. A path is the list of its components below
  the root of the tree. A call fails as POSIX prescribes on the tree, and it may fail for
  any other reason the operating system finds: the argument \<open>io\<close> decides that, call by
  call. A failed write may leave part of the data behind, and a failed \<open>create_dir_all\<close>
  some of the directories; every other failed call leaves the tree as it was.
\<close>

type_synonym path = "string list"

datatype node = File bytes | Dir

type_synonym fs = "path \<Rightarrow> node option"

datatype io_error = NotFoundError string | OtherError string

text \<open>
  Failures injected by the system. For a write, the second component is what is
  left at the path; for \<open>create_dir_all\<close>, how many components were there by then.
\<close>

record os =
  os_stat :: "path \<Rightarrow> fs \<Rightarrow> string option"
  os_read :: "path \<Rightarrow> fs \<Rightarrow> string option"
  os_mkdirs :: "path \<Rightarrow> fs \<Rightarrow> (string \<times> nat) option"
  os_write :: "path \<Rightarrow> bytes \<Rightarrow> fs \<Rightarrow> (string \<times> bytes option) option"
  os_rename :: "path \<Rightarrow> path \<Rightarrow> fs \<Rightarrow> string option"
  os_chmod :: "path \<Rightarrow> nat \<Rightarrow> fs \<Rightarrow> string option"

definition no_faults :: os where
  "no_faults = \<lparr>os_stat = (\<lambda>_ _. None), os_read = (\<lambda>_ _. None), os_mkdirs = (\<lambda>_ _. None),
     os_write = (\<lambda>_ _ _. None), os_rename = (\<lambda>_ _ _. None), os_chmod = (\<lambda>_ _ _. None)\<rparr>"

section \<open>Calls\<close>

datatype walk_result = Found node | Missing | NotDir

fun walk :: "fs \<Rightarrow> path \<Rightarrow> path \<Rightarrow> walk_result" where
  "walk F pre [] = (case F pre of None \<Rightarrow> Missing | Some n \<Rightarrow> Found n)"
| "walk F pre (c # cs) = (case F pre of
     None \<Rightarrow> Missing | Some (File _) \<Rightarrow> NotDir | Some Dir \<Rightarrow> walk F (pre @ [c]) cs)"

definition fs_metadata :: "os \<Rightarrow> path \<Rightarrow> fs \<Rightarrow> io_error + node" where
  "fs_metadata io p F = (case os_stat io p F of
       Some e \<Rightarrow> Inl (OtherError e)
     | None \<Rightarrow> (case walk F [] p of
           Found n \<Rightarrow> Inr n
         | Missing \<Rightarrow> Inl (NotFoundError ''No such file or directory'')
         | NotDir \<Rightarrow> Inl (OtherError ''Not a directory'')))"

definition fs_read :: "os \<Rightarrow> path \<Rightarrow> fs \<Rightarrow> io_error + bytes" where
  "fs_read io p F = (case os_read io p F of
       Some e \<Rightarrow> Inl (OtherError e)
     | None \<Rightarrow> (case walk F [] p of
           Found (File b) \<Rightarrow> Inr b
         | Found Dir \<Rightarrow> Inl (OtherError ''Is a directory'')
         | Missing \<Rightarrow> Inl (NotFoundError ''No such file or directory'')
         | NotDir \<Rightarrow> Inl (OtherError ''Not a directory'')))"

text \<open>\<open>create_dir_all\<close>.\<close>

fun mkdirs :: "fs \<Rightarrow> path \<Rightarrow> path \<Rightarrow> io_error + fs" where
  "mkdirs F pre [] = (case F pre of
     None \<Rightarrow> Inr (F(pre \<mapsto> Dir)) | Some Dir \<Rightarrow> Inr F | Some (File _) \<Rightarrow> Inl (OtherError ''File exists''))"
| "mkdirs F pre (c # cs) = (case F pre of
     None \<Rightarrow> mkdirs (F(pre \<mapsto> Dir)) (pre @ [c]) cs
   | Some Dir \<Rightarrow> mkdirs F (pre @ [c]) cs
   | Some (File _) \<Rightarrow> Inl (OtherError ''Not a directory''))"

definition fs_create_dir_all :: "os \<Rightarrow> path \<Rightarrow> fs \<Rightarrow> fs \<times> (io_error + unit)" where
  "fs_create_dir_all io p F = (case os_mkdirs io p F of
       Some (e, n) \<Rightarrow> (case mkdirs F [] (take n p) of Inl _ \<Rightarrow> F | Inr F' \<Rightarrow> F', Inl (OtherError e))
     | None \<Rightarrow> (case mkdirs F [] p of Inl e \<Rightarrow> (F, Inl e) | Inr F' \<Rightarrow> (F', Inr ())))"

text \<open>Where a file can be created: the parent is a directory and no directory is in the way.\<close>

definition can_create :: "fs \<Rightarrow> path \<Rightarrow> io_error + unit" where
  "can_create F p =
     (if p = [] then Inl (OtherError ''Is a directory'')
      else case walk F [] (butlast p) of
        Found Dir \<Rightarrow> (if F p = Some Dir then Inl (OtherError ''Is a directory'') else Inr ())
      | Found (File _) \<Rightarrow> Inl (OtherError ''Not a directory'')
      | Missing \<Rightarrow> Inl (NotFoundError ''No such file or directory'')
      | NotDir \<Rightarrow> Inl (OtherError ''Not a directory''))"

definition fs_write :: "os \<Rightarrow> path \<Rightarrow> bytes \<Rightarrow> fs \<Rightarrow> fs \<times> (io_error + unit)" where
  "fs_write io p b F = (case can_create F p of
       Inl e \<Rightarrow> (F, Inl e)
     | Inr _ \<Rightarrow> (case os_write io p b F of
           Some (e, part) \<Rightarrow> (case part of None \<Rightarrow> F | Some b' \<Rightarrow> F(p \<mapsto> File b'), Inl (OtherError e))
         | None \<Rightarrow> (F(p \<mapsto> File b), Inr ())))"

text \<open>\<open>rename\<close> of a file; the target is replaced in one step.\<close>

definition fs_rename :: "os \<Rightarrow> path \<Rightarrow> path \<Rightarrow> fs \<Rightarrow> fs \<times> (io_error + unit)" where
  "fs_rename io src dst F = (case os_rename io src dst F of
       Some e \<Rightarrow> (F, Inl (OtherError e))
     | None \<Rightarrow> (case walk F [] src of
           Found (File b) \<Rightarrow> (case can_create F dst of
               Inl e \<Rightarrow> (F, Inl e)
             | Inr _ \<Rightarrow> ((F(src := None))(dst \<mapsto> File b), Inr ()))
         | Found Dir \<Rightarrow> (F, Inl (OtherError ''Is a directory''))
         | Missing \<Rightarrow> (F, Inl (NotFoundError ''No such file or directory''))
         | NotDir \<Rightarrow> (F, Inl (OtherError ''Not a directory''))))"

text \<open>\<open>set_permissions\<close>; the mode itself is not part of the tree.\<close>

definition fs_chmod :: "os \<Rightarrow> path \<Rightarrow> nat \<Rightarrow> fs \<Rightarrow> fs \<times> (io_error + unit)" where
  "fs_chmod io p mode F = (case os_chmod io p mode F of
       Some e \<Rightarrow> (F, Inl (OtherError e))
     | None \<Rightarrow> (case walk F [] p of
           Found _ \<Rightarrow> (F, Inr ())
         | Missing \<Rightarrow> (F, Inl (NotFoundError ''No such file or directory''))
         | NotDir \<Rightarrow> (F, Inl (OtherError ''Not a directory''))))"

text \<open>\<open>Path::exists\<close>: a failing look-up counts as absent.\<close>

definition fs_exists :: "os \<Rightarrow> path \<Rightarrow> fs \<Rightarrow> bool" where
  "fs_exists io p F = is_ok (fs_metadata io p F)"

definition io_text :: "io_error \<Rightarrow> string" where
  "io_text e = (case e of NotFoundError s \<Rightarrow> s | OtherError s \<Rightarrow> s)"

section \<open>Trees\<close>

text \<open>The root is a directory and so is the parent of everything that exists.\<close>

definition fs_ok :: "fs \<Rightarrow> bool" where
  "fs_ok F \<longleftrightarrow> F [] = Some Dir \<and> (\<forall>p c. F (p @ [c]) \<noteq> None \<longrightarrow> F p = Some Dir)"

lemma fs_okD: "fs_ok F \<Longrightarrow> F [] = Some Dir" "fs_ok F \<Longrightarrow> F (p @ [c]) \<noteq> None \<Longrightarrow> F p = Some Dir"
  by (auto simp: fs_ok_def)

lemma fs_ok_ancestor:
  assumes "fs_ok F" "F (p @ cs) \<noteq> None" "cs \<noteq> []"
  shows "F p = Some Dir"
  using assms(2,3)
proof (induction cs rule: rev_induct)
  case (snoc c cs)
  then have "F (p @ cs) = Some Dir" using fs_okD(2) [OF assms(1), of "p @ cs" c] by simp
  then show ?case using snoc by (cases "cs = []") auto
qed simp

text \<open>In a tree, looking a path up and walking to it agree.\<close>

lemma walk_found:
  assumes "fs_ok F" "F (pre @ cs) = Some n"
  shows "walk F pre cs = Found n"
  using assms(2)
proof (induction cs arbitrary: pre)
  case (Cons c cs)
  have "F pre = Some Dir" by (rule fs_ok_ancestor [OF assms(1), of pre "c # cs"]) (use Cons.prems in auto)
  then show ?case using Cons by simp
qed simp

lemma walk_not_found:
  assumes "F (pre @ cs) = None"
  shows "walk F pre cs \<noteq> Found n"
  using assms by (induction cs arbitrary: pre) (auto split: option.splits node.splits)

lemma walk_iff: "fs_ok F \<Longrightarrow> walk F [] p = Found n \<longleftrightarrow> F p = Some n"
  using walk_found [of F "[]" p] walk_not_found [of F "[]" p] by (cases "F p") auto

lemma walk_some: "fs_ok F \<Longrightarrow> F p = Some n \<Longrightarrow> walk F [] p = Found n"
  by (simp add: walk_iff)

lemma fs_read_ok: "fs_ok F \<Longrightarrow> fs_read io p F = Inr b \<longleftrightarrow> os_read io p F = None \<and> F p = Some (File b)"
  by (auto simp: fs_read_def walk_iff dest: walk_some split: option.splits walk_result.splits node.splits)

lemma can_create_ok:
  "fs_ok F \<Longrightarrow> can_create F p = Inr u \<longleftrightarrow> p \<noteq> [] \<and> F (butlast p) = Some Dir \<and> F p \<noteq> Some Dir"
  by (auto simp: can_create_def walk_iff dest: walk_some split: walk_result.splits node.splits)

text \<open>A file has no children, so files come and go without breaking the tree.\<close>

lemma fs_ok_set_file:
  assumes "fs_ok F" "p \<noteq> []" "F (butlast p) = Some Dir" "F p \<noteq> Some Dir"
  shows "fs_ok (F(p \<mapsto> File b))"
proof -
  have "F (p @ [c]) = None" for c using assms(1,4) by (metis fs_okD(2))
  moreover have "F q = Some Dir" if "p = q @ [c]" for q c using assms(3) that by simp
  ultimately show ?thesis using assms(1,2) by (auto simp: fs_ok_def) blast
qed

lemma fs_ok_remove_file:
  assumes "fs_ok F" "F p = Some (File b)"
  shows "fs_ok (F(p := None))"
proof -
  have "F (p @ [c]) = None" for c using assms by (metis fs_okD(2) node.distinct(1) option.inject)
  then show ?thesis using assms by (auto simp: fs_ok_def)
qed

lemma mkdirs_effect:
  assumes "mkdirs F pre cs = Inr F'"
  shows "F' p = (if F p = None \<and> (\<exists>n \<le> length cs. p = pre @ take n cs) then Some Dir else F p)"
  using assms
proof (induction cs arbitrary: F pre)
  case Nil
  then show ?case by (auto split: option.splits node.splits)
next
  case (Cons c cs)
  have split: "(\<exists>n \<le> length (c # cs). p = pre @ take n (c # cs)) \<longleftrightarrow>
      p = pre \<or> (\<exists>n \<le> length cs. p = (pre @ [c]) @ take n cs)"
  proof
    assume "\<exists>n \<le> length (c # cs). p = pre @ take n (c # cs)"
    then obtain n where "n \<le> Suc (length cs)" "p = pre @ take n (c # cs)" by auto
    then show "p = pre \<or> (\<exists>n \<le> length cs. p = (pre @ [c]) @ take n cs)" by (cases n) auto
  next
    assume "p = pre \<or> (\<exists>n \<le> length cs. p = (pre @ [c]) @ take n cs)"
    then show "\<exists>n \<le> length (c # cs). p = pre @ take n (c # cs)"
    proof
      assume "p = pre" then show ?thesis by (intro exI [of _ 0]) simp
    next
      assume "\<exists>n \<le> length cs. p = (pre @ [c]) @ take n cs"
      then obtain n where "n \<le> length cs" "p = (pre @ [c]) @ take n cs" by blast
      then show ?thesis by (intro exI [of _ "Suc n"]) simp
    qed
  qed
  show ?case
  proof (cases "F pre")
    case None
    with Cons.prems have "mkdirs (F(pre \<mapsto> Dir)) (pre @ [c]) cs = Inr F'" by simp
    from Cons.IH [OF this] show ?thesis unfolding split using None by auto
  next
    case (Some n)
    with Cons.prems have dir: "n = Dir" and mk: "mkdirs F (pre @ [c]) cs = Inr F'" by (cases n; simp)+
    from Cons.IH [OF mk] show ?thesis unfolding split using Some dir by auto
  qed
qed

text \<open>Whatever happens, the tree is the old one or one with directories made.\<close>

lemma fs_create_dir_all_cases:
  assumes "fs_create_dir_all io p F = (F', r)"
  shows "F' = F \<and> \<not> is_ok r \<or> (\<exists>n. mkdirs F [] (take n p) = Inr F' \<and> (is_ok r \<longrightarrow> length p \<le> n))"
proof (cases "os_mkdirs io p F")
  case None
  then show ?thesis using assms
    by (cases "mkdirs F [] p") (auto simp: fs_create_dir_all_def intro: exI [of _ "length p"])
next
  case (Some en)
  then show ?thesis using assms
    by (cases en; cases "mkdirs F [] (take (snd en) p)") (auto simp: fs_create_dir_all_def)
qed

text \<open>Creating directories keeps every file, and makes the whole path directories.\<close>

lemma fs_create_dir_all_keeps:
  assumes "fs_create_dir_all io p F = (F', r)" "F q = Some n"
  shows "F' q = Some n"
  using fs_create_dir_all_cases [OF assms(1)] assms(2) by (auto dest: mkdirs_effect [of _ _ _ _ q])

lemma fs_create_dir_all_no_file:
  assumes "fs_create_dir_all io p F = (F', r)" "F q = None"
  shows "F' q = None \<or> F' q = Some Dir"
  using fs_create_dir_all_cases [OF assms(1)]
proof (elim disjE exE conjE)
  fix n assume "mkdirs F [] (take n p) = Inr F'"
  from mkdirs_effect [OF this, of q] show ?thesis using assms(2) by auto
qed (use assms(2) in simp)

lemma mkdirs_dirs:
  assumes "mkdirs F pre cs = Inr F'" "n \<le> length cs"
  shows "F' (pre @ take n cs) = Some Dir"
  using assms
proof (induction cs arbitrary: F pre n)
  case Nil
  then show ?case by (auto split: option.splits node.splits)
next
  case (Cons c cs)
  from Cons.prems(1) obtain G where G: "G pre = Some Dir" "mkdirs G (pre @ [c]) cs = Inr F'"
    by (auto split: option.splits node.splits) (metis fun_upd_same)
  show ?case
  proof (cases n)
    case 0
    have "F' pre = Some Dir" using mkdirs_effect [OF G(2), of pre] G(1) by simp
    then show ?thesis using 0 by simp
  next
    case (Suc m)
    then show ?thesis using Cons.IH [OF G(2), of m] Cons.prems(2) by simp
  qed
qed

lemma mkdirs_ok:
  assumes "fs_ok F" and mk: "mkdirs F [] p = Inr F'"
  shows "fs_ok F' \<and> F' p = Some Dir"
proof -
  have "F' q = Some Dir" if ex: "F' (q @ [c]) \<noteq> None" for q c
  proof (cases "F (q @ [c])")
    case (Some n)
    then have "F q = Some Dir" using fs_okD(2) [OF assms(1)] by auto
    then show ?thesis using mkdirs_effect [OF mk, of q] by simp
  next
    case None
    with ex mkdirs_effect [OF mk, of "q @ [c]"] obtain n where n: "n \<le> length p" "q @ [c] = take n p"
      by (auto split: if_splits)
    then have "q = take (n - 1) p" by (metis butlast_snoc butlast_take)
    then show ?thesis using mkdirs_dirs [OF mk, of "n - 1"] n(1) by simp
  qed
  moreover have "F' [] = Some Dir" using mkdirs_dirs [OF mk, of 0] by simp
  ultimately show ?thesis using mkdirs_dirs [OF mk, of "length p"] by (auto simp: fs_ok_def)
qed

lemma fs_create_dir_all_ok:
  assumes "fs_ok F" "fs_create_dir_all io p F = (F', r)"
  shows "fs_ok F' \<and> (is_ok r \<longrightarrow> F' p = Some Dir)"
  using fs_create_dir_all_cases [OF assms(2)] mkdirs_ok [OF assms(1)] assms(1) by fastforce

lemma fs_write_ok:
  assumes "fs_ok F" "fs_write io p b F = (F', r)"
  shows "fs_ok F' \<and> (\<forall>q. q \<noteq> p \<longrightarrow> F' q = F q) \<and> (is_ok r \<longrightarrow> F' p = Some (File b))"
proof (cases "can_create F p")
  case (Inl e)
  have "F' = F \<and> r = Inl e" using assms(2) unfolding fs_write_def Inl by auto
  then show ?thesis using assms(1) by simp
next
  case (Inr u)
  then have "p \<noteq> []" "F (butlast p) = Some Dir" "F p \<noteq> Some Dir"
    using can_create_ok [OF assms(1)] by auto
  from fs_ok_set_file [OF assms(1) this] show ?thesis
    using assms Inr by (auto simp: fs_write_def split: option.splits)
qed

lemma fs_rename_ok:
  assumes "fs_ok F" "fs_rename io src dst F = (F', r)" "src \<noteq> dst"
  shows "fs_ok F' \<and> (\<forall>q. q \<noteq> src \<and> q \<noteq> dst \<longrightarrow> F' q = F q)
    \<and> (if is_ok r then \<exists>b. F src = Some (File b) \<and> F' src = None \<and> F' dst = Some (File b) else F' = F)"
proof (cases "is_ok r")
  case False
  then show ?thesis using assms
    by (auto simp: fs_rename_def is_ok_def split: option.splits walk_result.splits node.splits sum.splits)
next
  case True
  have no_fault: "os_rename io src dst F = None"
    using True assms(2) by (auto simp: fs_rename_def split: option.splits)
  obtain b where src: "walk F [] src = Found (File b)"
    using True assms(2) no_fault by (auto simp: fs_rename_def split: walk_result.splits node.splits)
  have "is_ok (can_create F dst)"
  proof (cases "can_create F dst")
    case (Inl e)
    have "r = Inl e" using assms(2) unfolding fs_rename_def no_fault src Inl by simp
    then show ?thesis using True by simp
  qed simp
  then obtain u where create: "can_create F dst = Inr u" by (auto simp: is_ok_iff)
  have F': "F' = (F(src := None))(dst \<mapsto> File b)"
    using assms(2) no_fault src create by (simp add: fs_rename_def)
  note b = src [unfolded walk_iff [OF assms(1)]] create
  from b(2) have dst: "dst \<noteq> []" "F (butlast dst) = Some Dir" "F dst \<noteq> Some Dir"
    using can_create_ok [OF assms(1)] by auto
  have "fs_ok F'" unfolding F'
    by (rule fs_ok_set_file [OF fs_ok_remove_file [OF assms(1) b(1)]]) (use dst b(1) assms(3) in auto)
  then show ?thesis using True F' b(1) assms(3) by auto
qed

end
