(* ===== verification/Fs_Blob.thy ===== *)
theory Fs_Blob
  imports Node_Core File_System
begin

text \<open>
  The filesystem object store, \<open>crates/buh-data/src/fs_blob.rs\<close>, the contract of the
  port \<open>BlobStore\<close> of \<open>ports.rs\<close>, and the proof that the store keeps it: locators are
  confined below the root and distinct locators are distinct files, an object reads
  back as it was put, and a put that fails at any call leaves the object as it was.
\<close>

section \<open>The contract of an object store\<close>

text \<open>
  \<open>obj\<close> gives the object at a bucket and key. A put that fails leaves the old object or
  has stored the new one (the answer of a remote store can be lost); a put may disturb
  the objects that \<open>clobbers\<close> relates to it, and no others.
\<close>

type_synonym locator = "string \<times> string"

locale blob_store =
  fixes env :: bool
    and store :: "'s blob_port"
    and inv :: "'s \<Rightarrow> bool"
    and obj :: "'s \<Rightarrow> locator \<Rightarrow> bytes option"
    and clobbers :: "locator \<Rightarrow> locator \<Rightarrow> bool"
  assumes put_law: "env \<Longrightarrow> inv s \<Longrightarrow> bs_put store b k bs s = (s', r) \<Longrightarrow>
      inv s' \<and> obj s' (b, k) \<in> (if is_ok r then {Some bs} else {obj s (b, k), Some bs})
      \<and> (\<forall>l. l \<noteq> (b, k) \<and> \<not> clobbers (b, k) l \<longrightarrow> obj s' l = obj s l)"
    and get_law: "env \<Longrightarrow> inv s \<Longrightarrow> bs_get store b k s = Inr bs \<Longrightarrow> obj s (b, k) = Some bs"
    and get_missing: "env \<Longrightarrow> inv s \<Longrightarrow> bs_get store b k s = Inl NotFound \<Longrightarrow> obj s (b, k) = None"
    and exists_law: "env \<Longrightarrow> inv s \<Longrightarrow> bs_exists store b k s = Inr x \<Longrightarrow> x \<longleftrightarrow> obj s (b, k) \<noteq> None"
begin

text \<open>The functions of \<open>blob.rs\<close> on a node that runs the blob role with this store.\<close>

lemma blob_put_cases:
  assumes "env" "inv s" "ctx_blob ctx = Some store" "blob_put ctx b k bs s = (s', r)"
  shows "inv s' \<and> obj s' (b, k) \<in> (if is_ok r then {Some bs} else {obj s (b, k), Some bs})
    \<and> (\<forall>l. l \<noteq> (b, k) \<and> \<not> clobbers (b, k) l \<longrightarrow> obj s' l = obj s l)
    \<and> (is_ok r \<longrightarrow> bs \<noteq> [] \<and> length bs \<le> max_blob_bytes (ctx_config ctx))"
proof -
  consider "s' = s" "\<not> is_ok r" | "bs \<noteq> []" "length bs \<le> max_blob_bytes (ctx_config ctx)" "bs_put store b k bs s = (s', r)"
    using assms(3,4) by (auto simp: blob_put_def blob_store_of_def split: if_splits)
  then show ?thesis using assms(1,2) put_law by cases auto
qed

lemma blob_put_others:
  assumes "env" "inv s" "ctx_blob ctx = Some store" "blob_put ctx b k bs s = (s', r)"
    and "l \<noteq> (b, k)" "\<not> clobbers (b, k) l"
  shows "obj s' l = obj s l"
  using blob_put_cases [OF assms(1-4), THEN conjunct2, THEN conjunct2, THEN conjunct1, THEN spec [of _ l]] assms(5,6)
  by simp

lemma blob_get_after_put:
  assumes "env" "inv s" "ctx_blob ctx = Some store" "blob_put ctx b k bs s = (s', Inr u)"
    and "blob_get ctx b k s' = Inr bs'"
  shows "bs' = bs"
proof -
  have s': "inv s'" "obj s' (b, k) = Some bs" using blob_put_cases [OF assms(1-4)] by simp_all
  have "bs_get store b k s' = Inr bs'" using assms(3,5) by (simp add: blob_get_def blob_store_of_def)
  from get_law [OF assms(1) s'(1) this] s'(2) show ?thesis by simp
qed

text \<open>Any number of later puts elsewhere, successful or not, leave an object alone.\<close>

lemma puts_keep:
  assumes "env" "inv s" "ctx_blob ctx = Some store"
    and "\<forall>(b', k', _) \<in> set puts. (b', k') \<noteq> l \<and> \<not> clobbers (b', k') l"
  shows "inv (fold (\<lambda>(b, k, bs) s. fst (blob_put ctx b k bs s)) puts s)
    \<and> obj (fold (\<lambda>(b, k, bs) s. fst (blob_put ctx b k bs s)) puts s) l = obj s l"
  using assms
proof (induction puts arbitrary: s)
  case (Cons p puts)
  obtain b k bs where p: "p = (b, k, bs)" by (cases p)
  obtain s1 r where put: "blob_put ctx b k bs s = (s1, r)" by (cases "blob_put ctx b k bs s")
  have "(b, k) \<noteq> l" "\<not> clobbers (b, k) l" using Cons.prems(4) p by simp_all
  then have "obj s1 l = obj s l" using blob_put_others [OF Cons.prems(1-3) put, of l] by simp
  moreover have "inv s1" using blob_put_cases [OF Cons.prems(1-3) put] by (rule conjunct1)
  ultimately show ?case using Cons.IH [of s1] Cons.prems put p by simp
qed simp

end

section \<open>Locators and paths\<close>

definition safe_segment :: "string \<Rightarrow> core_error + string" where
  "safe_segment segment =
     (let bad = segment = [] \<or> segment = ''.'' \<or> segment = ''..''
        \<or> CHR ''/'' \<in> set segment \<or> CHR 0x5C \<in> set segment \<or> CHR 0x00 \<in> set segment
      in if bad then Inl (Validation (InvalidPayload ''unsafe blob path component'')) else Inr segment)"

fun safe_segments :: "string list \<Rightarrow> core_error + path" where
  "safe_segments [] = Inr []"
| "safe_segments (x # xs) =
     and_then (safe_segment x) (\<lambda>y. and_then (safe_segments xs) (\<lambda>ys. Inr (y # ys)))"

definition fs_resolve :: "path \<Rightarrow> string \<Rightarrow> string \<Rightarrow> core_error + path" where
  "fs_resolve root bucket key =
     and_then (safe_segment bucket) (\<lambda>b.
       if key = [] then Inl (Validation (Empty ''blob key''))
       else and_then (safe_segments (split_on CHR ''/'' key)) (\<lambda>segs. Inr (root @ b # segs)))"

definition tmp_path :: "path \<Rightarrow> path" where
  "tmp_path p = butlast p @ [(if p = [] then [] else last p) @ ''.tmp'']"

section \<open>Operations\<close>

definition storage :: "io_error \<Rightarrow> core_error" where
  "storage e = Storage (io_text e)"

definition fsblob_exists :: "os \<Rightarrow> path \<Rightarrow> string \<Rightarrow> string \<Rightarrow> fs \<Rightarrow> core_error + bool" where
  "fsblob_exists io root bucket key F =
     and_then (fs_resolve root bucket key) (\<lambda>p.
       case fs_metadata io p F of
         Inr n \<Rightarrow> Inr (n \<noteq> Dir)
       | Inl (NotFoundError _) \<Rightarrow> Inr False
       | Inl e \<Rightarrow> Inl (storage e))"

definition fsblob_put :: "os \<Rightarrow> path \<Rightarrow> string \<Rightarrow> string \<Rightarrow> bytes \<Rightarrow> fs \<Rightarrow> fs \<times> (core_error + unit)" where
  "fsblob_put io root bucket key bs F =
     then_do (F, fs_resolve root bucket key) (\<lambda>F p.
     then_do (if p = [] then (F, Inr ()) else map_prod id (map_err storage) (fs_create_dir_all io (butlast p) F)) (\<lambda>F _.
       let tmp = tmp_path p in
       then_do (map_prod id (map_err storage) (fs_write io tmp bs F)) (\<lambda>F _.
         map_prod id (map_err storage) (fs_rename io tmp p F))))"

definition fsblob_get :: "os \<Rightarrow> path \<Rightarrow> string \<Rightarrow> string \<Rightarrow> fs \<Rightarrow> core_error + bytes" where
  "fsblob_get io root bucket key F =
     and_then (fs_resolve root bucket key) (\<lambda>p.
       case fs_read io p F of
         Inr bs \<Rightarrow> Inr bs
       | Inl (NotFoundError _) \<Rightarrow> Inl NotFound
       | Inl e \<Rightarrow> Inl (storage e))"

definition fsblob_presign_get :: "string \<Rightarrow> string \<Rightarrow> u64 \<Rightarrow> fs \<Rightarrow> core_error + string" where
  "fsblob_presign_get bucket key ttl F =
     Inl (Unimplemented ''filesystem blob store does not support presigned URLs'')"

definition fs_blob_store :: "os \<Rightarrow> path \<Rightarrow> fs blob_port" where
  "fs_blob_store io root = \<lparr>bs_exists = fsblob_exists io root, bs_put = fsblob_put io root,
     bs_get = fsblob_get io root, bs_presign_get = fsblob_presign_get\<rparr>"

section \<open>Paths\<close>

lemma safe_segment_ok: "safe_segment x = Inr y \<Longrightarrow> y = x \<and> x \<noteq> [] \<and> x \<noteq> ''.'' \<and> x \<noteq> ''..'' \<and> CHR ''/'' \<notin> set x"
  by (auto simp: safe_segment_def Let_def split: if_splits)

lemma safe_segment_tmp: "safe_segment x = Inr x \<Longrightarrow> safe_segment (x @ ''.tmp'') = Inr (x @ ''.tmp'')"
  by (auto simp: safe_segment_def Let_def split: if_splits)

lemma safe_segments_ok: "safe_segments xs = Inr ys \<Longrightarrow> ys = xs \<and> (\<forall>x \<in> set xs. safe_segment x = Inr x)"
  by (induction xs arbitrary: ys) (auto dest: safe_segment_ok)

lemma safe_segments_all: "(\<forall>x \<in> set xs. safe_segment x = Inr x) \<Longrightarrow> safe_segments xs = Inr xs"
  by (induction xs) auto

lemma fs_resolve_ok:
  "fs_resolve root b k = Inr p \<longleftrightarrow> k \<noteq> [] \<and> safe_segment b = Inr b \<and>
     (\<forall>x \<in> set (split_on CHR ''/'' k). safe_segment x = Inr x) \<and> p = root @ b # split_on CHR ''/'' k"
  by (auto simp: fs_resolve_def dest!: safe_segments_ok dest: safe_segment_ok intro: safe_segments_all)

lemma fs_resolve_inject:
  assumes "fs_resolve root b k = Inr p" "fs_resolve root b' k' = Inr p"
  shows "b' = b \<and> k' = k"
  using assms by (auto simp: fs_resolve_ok split_inject)

lemma fs_resolve_tmp:
  assumes "fs_resolve root b k = Inr p"
  shows "fs_resolve root b (k @ ''.tmp'') = Inr (tmp_path p)" "tmp_path p \<noteq> p" "p \<noteq> []"
proof -
  let ?ws = "split_on CHR ''/'' k"
  from assms have p: "p = root @ b # ?ws" "k \<noteq> []" "safe_segment b = Inr b"
      and safe: "\<forall>x \<in> set ?ws. safe_segment x = Inr x"
    by (auto simp: fs_resolve_ok)
  have "split_on CHR ''/'' (k @ ''.tmp'') = butlast ?ws @ [last ?ws @ ''.tmp'']"
    by (rule split_on_append_last) simp
  moreover have "safe_segment (last ?ws @ ''.tmp'') = Inr (last ?ws @ ''.tmp'')"
    by (rule safe_segment_tmp) (use safe in simp)
  ultimately show "fs_resolve root b (k @ ''.tmp'') = Inr (tmp_path p)"
    using p safe by (auto simp: fs_resolve_ok tmp_path_def butlast_append dest: in_set_butlastD)
  show ne: "p \<noteq> []" using p by simp
  have "last (tmp_path p) \<noteq> last p" using ne by (simp add: tmp_path_def)
  then show "tmp_path p \<noteq> p" by auto
qed

section \<open>The store keeps the contract\<close>

definition fs_object :: "path \<Rightarrow> fs \<Rightarrow> locator \<Rightarrow> bytes option" where
  "fs_object root F l = (case fs_resolve root (fst l) (snd l) of
       Inl _ \<Rightarrow> None
     | Inr p \<Rightarrow> (case F p of Some (File b) \<Rightarrow> Some b | _ \<Rightarrow> None))"

text \<open>The name the store writes to before it renames.\<close>

definition tmp_of :: "locator \<Rightarrow> locator \<Rightarrow> bool" where
  "tmp_of l l' \<longleftrightarrow> l' = (fst l, snd l @ ''.tmp'')"

lemma fs_object_cong:
  assumes "\<And>p. fs_resolve root (fst l) (snd l) = Inr p \<Longrightarrow> F' p = F p"
  shows "fs_object root F' l = fs_object root F l"
  using assms by (auto simp: fs_object_def split: sum.splits)

lemma fs_object_mkdirs:
  assumes "fs_create_dir_all io q F = (F', r)"
  shows "fs_object root F' l = fs_object root F l"
proof (cases "fs_resolve root (fst l) (snd l)")
  case (Inr p)
  then show ?thesis
    using fs_create_dir_all_keeps [OF assms, of p] fs_create_dir_all_no_file [OF assms, of p]
    by (cases "F p") (auto simp: fs_object_def)
qed (simp add: fs_object_def)

lemma map_prod_result: "map_prod id (map_err g) x = (F', r) \<Longrightarrow> \<exists>r0. x = (F', r0) \<and> is_ok r = is_ok r0"
  by (cases x; cases "snd x") auto

text \<open>Write to the temporary name, then rename: all or nothing at the target.\<close>

lemma fs_commit:
  assumes inv: "fs_ok F" and ne: "tmp \<noteq> p"
    and commit: "then_do (map_prod id (map_err storage) (fs_write io tmp bs F))
      (\<lambda>F _. map_prod id (map_err storage) (fs_rename io tmp p F)) = (F', r)"
  shows "fs_ok F' \<and> (\<forall>q. q \<noteq> p \<and> q \<noteq> tmp \<longrightarrow> F' q = F q)
    \<and> F' p = (if is_ok r then Some (File bs) else F p)"
  using commit
proof (cases rule: then_do_cases)
  case (err e)
  obtain r1 where "fs_write io tmp bs F = (F', r1)" using map_prod_result [OF err(1)] by auto
  from fs_write_ok [OF inv this] show ?thesis using ne err by auto
next
  case (ok F2 u)
  obtain r1 where wr: "fs_write io tmp bs F = (F2, r1)" "is_ok r1" using map_prod_result [OF ok(1)] by auto
  note w = fs_write_ok [OF inv wr(1)]
  obtain r2 where mv: "fs_rename io tmp p F2 = (F', r2)" "is_ok r = is_ok r2"
    using map_prod_result [OF ok(2)] by auto
  from w fs_rename_ok [OF _ mv(1) ne] have m: "fs_ok F'" "\<And>q. q \<noteq> tmp \<Longrightarrow> q \<noteq> p \<Longrightarrow> F' q = F2 q"
      "if is_ok r2 then \<exists>b. F2 tmp = Some (File b) \<and> F' tmp = None \<and> F' p = Some (File b) else F' = F2"
    by auto
  show ?thesis using m w wr(2) mv(2) ne by auto
qed

lemma fsblob_put_law:
  assumes inv: "fs_ok F" and put: "fsblob_put io root b k bs F = (F', r)"
  shows "fs_ok F' \<and> fs_object root F' (b, k) = (if is_ok r then Some bs else fs_object root F (b, k))
    \<and> (\<forall>l. l \<noteq> (b, k) \<and> \<not> tmp_of (b, k) l \<longrightarrow> fs_object root F' l = fs_object root F l)"
  using put unfolding fsblob_put_def
proof (cases rule: then_do_cases)
  case (err e)
  then show ?thesis using inv by auto
next
  case (ok F0 p)
  then have F0: "F0 = F" and p: "fs_resolve root b k = Inr p" by auto
  note tmp = fs_resolve_tmp [OF p]
  have apart: "q \<noteq> p \<and> q \<noteq> tmp_path p"
    if "fs_resolve root (fst l) (snd l) = Inr q" "l \<noteq> (b, k)" "\<not> tmp_of (b, k) l" for l q
    using that fs_resolve_inject [OF p] fs_resolve_inject [OF tmp(1)] by (cases l) (force simp: tmp_of_def)
  from ok(2) tmp(3) have "then_do (map_prod id (map_err storage) (fs_create_dir_all io (butlast p) F))
      (\<lambda>F _. then_do (map_prod id (map_err storage) (fs_write io (tmp_path p) bs F))
        (\<lambda>F _. map_prod id (map_err storage) (fs_rename io (tmp_path p) p F))) = (F', r)"
    by (simp add: F0 Let_def)
  then show ?thesis
  proof (cases rule: then_do_cases)
    case (err e)
    obtain r0 where mk: "fs_create_dir_all io (butlast p) F = (F', r0)" using map_prod_result [OF err(1)] by auto
    show ?thesis using fs_create_dir_all_ok [OF inv mk] fs_object_mkdirs [OF mk] err by simp
  next
    case (ok F1 u)
    obtain r0 where mk: "fs_create_dir_all io (butlast p) F = (F1, r0)" using map_prod_result [OF ok(1)] by auto
    have F1: "fs_ok F1" "\<And>l. fs_object root F1 l = fs_object root F l"
      using fs_create_dir_all_ok [OF inv mk] fs_object_mkdirs [OF mk] by simp_all
    note c = fs_commit [OF F1(1) tmp(2) ok(2)]
    have "fs_object root F' (b, k) = (if is_ok r then Some bs else fs_object root F1 (b, k))"
      using c p by (simp add: fs_object_def)
    moreover have "fs_object root F' l = fs_object root F1 l" if "l \<noteq> (b, k)" "\<not> tmp_of (b, k) l" for l
      by (rule fs_object_cong) (use c apart that in blast)
    ultimately show ?thesis using c F1(2) by simp
  qed
qed

lemma fsblob_get_ok:
  assumes "fs_ok F" "fsblob_get io root b k F = Inr bs"
  shows "\<exists>p. fs_resolve root b k = Inr p \<and> F p = Some (File bs)"
proof -
  from assms(2) obtain p where p: "fs_resolve root b k = Inr p" by (auto simp: fsblob_get_def)
  with assms(2) have "fs_read io p F = Inr bs"
    by (cases "fs_read io p F") (auto simp: fsblob_get_def split: io_error.splits)
  then show ?thesis using p fs_read_ok [OF assms(1)] by blast
qed

lemma fsblob_get_law:
  assumes "fs_ok F"
  shows "fsblob_get io root b k F = Inr bs \<Longrightarrow> fs_object root F (b, k) = Some bs"
    and "fsblob_get io root b k F = Inl NotFound \<Longrightarrow> fs_object root F (b, k) = None"
proof -
  show "fs_object root F (b, k) = Some bs" if "fsblob_get io root b k F = Inr bs"
    using fsblob_get_ok [OF assms that] by (auto simp: fs_object_def)
  assume nf: "fsblob_get io root b k F = Inl NotFound"
  show "fs_object root F (b, k) = None"
  proof (cases "fs_resolve root b k")
    case (Inr p)
    with nf obtain e where "fs_read io p F = Inl (NotFoundError e)"
      by (auto simp: fsblob_get_def storage_def split: sum.splits io_error.splits)
    then have "walk F [] p = Missing"
      by (auto simp: fs_read_def split: option.splits walk_result.splits node.splits)
    then have "F p = None" using walk_some [OF assms, of p] by (cases "F p") auto
    then show ?thesis using Inr by (simp add: fs_object_def)
  qed (simp add: fs_object_def)
qed

lemma fsblob_exists_law:
  assumes "fs_ok F" "fsblob_exists io root b k F = Inr x"
  shows "x \<longleftrightarrow> fs_object root F (b, k) \<noteq> None"
proof -
  obtain p where p: "fs_resolve root b k = Inr p" using assms(2) by (auto simp: fsblob_exists_def)
  show ?thesis
  proof (cases "F p")
    case None
    then have "walk F [] p = Missing \<or> walk F [] p = NotDir"
      using walk_not_found [of F "[]" p] by (cases "walk F [] p") auto
    then show ?thesis using p None assms(2)
      by (auto simp: fsblob_exists_def fs_metadata_def fs_object_def split: option.splits)
  next
    case (Some n)
    then show ?thesis using p walk_some [OF assms(1) Some] assms(2)
      by (auto simp: fsblob_exists_def fs_metadata_def fs_object_def split: option.splits node.splits)
  qed
qed

interpretation fs_blob: blob_store True "fs_blob_store io root" fs_ok "fs_object root" tmp_of for io root
proof (unfold_locales, unfold fs_blob_store_def blob_port.simps)
  fix F b k bs F' and r :: "core_error + unit"
  assume "fs_ok F" "fsblob_put io root b k bs F = (F', r)"
  from fsblob_put_law [OF this] show "fs_ok F'
      \<and> fs_object root F' (b, k) \<in> (if is_ok r then {Some bs} else {fs_object root F (b, k), Some bs})
      \<and> (\<forall>l. l \<noteq> (b, k) \<and> \<not> tmp_of (b, k) l \<longrightarrow> fs_object root F' l = fs_object root F l)"
    by simp
qed (rule fsblob_get_law fsblob_exists_law; assumption)+

section \<open>A store without faults answers\<close>

lemma fsblob_get_present:
  assumes "fs_ok F" "fs_object root F (b, k) = Some bs" "\<And>p F. os_read io p F = None"
  shows "fsblob_get io root b k F = Inr bs"
proof -
  from assms(2) obtain p where "fs_resolve root b k = Inr p" "F p = Some (File bs)"
    by (auto simp: fs_object_def split: sum.splits option.splits node.splits)
  then show ?thesis using fs_read_ok [OF assms(1), of io p bs] assms(3) by (simp add: fsblob_get_def)
qed

end
