(* ===== verification/S3_Blob.thy ===== *)
theory S3_Blob
  imports Fs_Blob
begin

text \<open>
  The object store over S3, \<open>crates/buh-data/src/s3_blob.rs\<close>. The AWS client is the
  record \<open>s3_client\<close>, an argument of every operation; its state \<open>'s\<close> is the remote
  service. \<open>s3_sound\<close> states what the adapter relies on: reads return what is stored,
  the error for a missing key is the documented one, and a put that reports success has
  stored the object. A put that reports a failure may have stored it nevertheless.
\<close>

section \<open>The client\<close>

text \<open>A service error with the classifications the adapter asks for.\<close>

record s3_error =
  s3_text :: string
  s3_is_not_found :: bool
  s3_is_no_such_key :: bool
  s3_is_bucket_already_owned_by_you :: bool
  s3_is_bucket_already_exists :: bool

text \<open>A download is answered first and its body collected afterwards.\<close>

record 's s3_client =
  s3_create_bucket :: "string \<Rightarrow> 's \<Rightarrow> 's \<times> (s3_error + unit)"
  s3_head_object :: "string \<Rightarrow> string \<Rightarrow> 's \<Rightarrow> s3_error + unit"
  s3_put_object :: "string \<Rightarrow> string \<Rightarrow> string \<Rightarrow> bytes \<Rightarrow> 's \<Rightarrow> 's \<times> (s3_error + unit)"
  s3_get_object :: "string \<Rightarrow> string \<Rightarrow> 's \<Rightarrow> s3_error + (string + bytes)"
  s3_presigning_config :: "u64 \<Rightarrow> string + unit"
  s3_presigned :: "string \<Rightarrow> string \<Rightarrow> u64 \<Rightarrow> 's \<Rightarrow> string + string"

section \<open>Operations\<close>

definition s3_ensure_bucket :: "'s s3_client \<Rightarrow> string \<Rightarrow> 's \<Rightarrow> 's \<times> (core_error + unit)" where
  "s3_ensure_bucket C bucket s = (case s3_create_bucket C bucket s of
       (s', Inr _) \<Rightarrow> (s', Inr ())
     | (s', Inl svc) \<Rightarrow>
         if s3_is_bucket_already_owned_by_you svc \<or> s3_is_bucket_already_exists svc
         then (s', Inr ()) else (s', Inl (Storage (s3_text svc))))"

definition s3blob_exists :: "'s s3_client \<Rightarrow> string \<Rightarrow> string \<Rightarrow> 's \<Rightarrow> core_error + bool" where
  "s3blob_exists C bucket key s = (case s3_head_object C bucket key s of
       Inr _ \<Rightarrow> Inr True
     | Inl svc \<Rightarrow> if s3_is_not_found svc then Inr False else Inl (Storage (s3_text svc)))"

definition s3blob_put :: "'s s3_client \<Rightarrow> string \<Rightarrow> string \<Rightarrow> bytes \<Rightarrow> 's \<Rightarrow> 's \<times> (core_error + unit)" where
  "s3blob_put C bucket key bs s =
     map_prod id (map_err (\<lambda>e. Storage (s3_text e)))
       (s3_put_object C bucket key ''application/octet-stream'' bs s)"

definition s3blob_get :: "'s s3_client \<Rightarrow> string \<Rightarrow> string \<Rightarrow> 's \<Rightarrow> core_error + bytes" where
  "s3blob_get C bucket key s =
     and_then (map_err (\<lambda>svc. if s3_is_no_such_key svc then NotFound else Storage (s3_text svc))
       (s3_get_object C bucket key s)) (\<lambda>out. map_err Storage out)"

definition s3blob_presign_get :: "'s s3_client \<Rightarrow> string \<Rightarrow> string \<Rightarrow> u64 \<Rightarrow> 's \<Rightarrow> core_error + string" where
  "s3blob_presign_get C bucket key ttl s =
     and_then (map_err Storage (s3_presigning_config C ttl)) (\<lambda>_.
       map_err Storage (s3_presigned C bucket key ttl s))"

definition s3_blob_store :: "'s s3_client \<Rightarrow> 's blob_port" where
  "s3_blob_store C = \<lparr>bs_exists = s3blob_exists C, bs_put = s3blob_put C,
     bs_get = s3blob_get C, bs_presign_get = s3blob_presign_get C\<rparr>"

section \<open>The adapter keeps the contract\<close>

definition s3_sound :: "'s s3_client \<Rightarrow> ('s \<Rightarrow> locator \<Rightarrow> bytes option) \<Rightarrow> bool" where
  "s3_sound C objects \<longleftrightarrow>
     (\<forall>b k ct bs s s' u. s3_put_object C b k ct bs s = (s', Inr u) \<longrightarrow> objects s' = (objects s)((b, k) \<mapsto> bs))
   \<and> (\<forall>b k ct bs s s' e. s3_put_object C b k ct bs s = (s', Inl e) \<longrightarrow>
        objects s' = objects s \<or> objects s' = (objects s)((b, k) \<mapsto> bs))
   \<and> (\<forall>b k s u. s3_head_object C b k s = Inr u \<longrightarrow> objects s (b, k) \<noteq> None)
   \<and> (\<forall>b k s e. s3_head_object C b k s = Inl e \<and> s3_is_not_found e \<longrightarrow> objects s (b, k) = None)
   \<and> (\<forall>b k s bs. s3_get_object C b k s = Inr (Inr bs) \<longrightarrow> objects s (b, k) = Some bs)
   \<and> (\<forall>b k s e. s3_get_object C b k s = Inl e \<and> s3_is_no_such_key e \<longrightarrow> objects s (b, k) = None)"

lemma s3_soundD:
  assumes "s3_sound C objects"
  shows "s3_put_object C b k ct bs s = (s', Inr u) \<Longrightarrow> objects s' = (objects s)((b, k) \<mapsto> bs)"
    and "s3_put_object C b k ct bs s = (s', Inl e) \<Longrightarrow> objects s' = objects s \<or> objects s' = (objects s)((b, k) \<mapsto> bs)"
    and "s3_head_object C b k s = Inr u \<Longrightarrow> objects s (b, k) \<noteq> None"
    and "s3_head_object C b k s = Inl e \<Longrightarrow> s3_is_not_found e \<Longrightarrow> objects s (b, k) = None"
    and "s3_get_object C b k s = Inr (Inr bs) \<Longrightarrow> objects s (b, k) = Some bs"
    and "s3_get_object C b k s = Inl e \<Longrightarrow> s3_is_no_such_key e \<Longrightarrow> objects s (b, k) = None"
  using assms unfolding s3_sound_def by metis+

lemma s3blob_put_law:
  assumes sound: "s3_sound C objects" and put: "s3blob_put C b k bs s = (s', r)"
  shows "objects s' (b, k) \<in> (if is_ok r then {Some bs} else {objects s (b, k), Some bs})
    \<and> (\<forall>l. l \<noteq> (b, k) \<longrightarrow> objects s' l = objects s l)"
proof -
  obtain r0 where r0: "s3_put_object C b k ''application/octet-stream'' bs s = (s', r0)" "is_ok r = is_ok r0"
    using map_prod_result [OF put [unfolded s3blob_put_def]] by auto
  show ?thesis
  proof (cases r0)
    case (Inl e)
    from s3_soundD(2) [OF sound r0(1) [unfolded Inl]] show ?thesis using r0(2) Inl by (elim disjE) simp_all
  next
    case (Inr u)
    from s3_soundD(1) [OF sound r0(1) [unfolded Inr]] show ?thesis using r0(2) Inr by simp
  qed
qed

lemma s3blob_get_law:
  assumes "s3_sound C objects"
  shows "s3blob_get C b k s = Inr bs \<Longrightarrow> objects s (b, k) = Some bs"
    and "s3blob_get C b k s = Inl NotFound \<Longrightarrow> objects s (b, k) = None"
proof -
  show "s3blob_get C b k s = Inr bs \<Longrightarrow> objects s (b, k) = Some bs"
    using s3_soundD(5) [OF assms] by (auto simp: s3blob_get_def)
  assume nf: "s3blob_get C b k s = Inl NotFound"
  then obtain e where "s3_get_object C b k s = Inl e" "s3_is_no_such_key e"
    by (cases "s3_get_object C b k s") (auto simp: s3blob_get_def map_err_def split: if_splits sum.splits)
  then show "objects s (b, k) = None" by (rule s3_soundD(6) [OF assms])
qed

lemma s3blob_exists_law:
  assumes "s3_sound C objects" "s3blob_exists C b k s = Inr x"
  shows "x \<longleftrightarrow> objects s (b, k) \<noteq> None"
  using assms(2) s3_soundD(3,4) [OF assms(1), of b k s]
  by (cases "s3_head_object C b k s") (auto simp: s3blob_exists_def split: if_splits)

interpretation s3_blob: blob_store "s3_sound C objects" "s3_blob_store C" "\<lambda>_. True" objects "\<lambda>_ _. False"
  for C objects
proof (unfold_locales, unfold s3_blob_store_def blob_port.simps)
  fix s b k bs s' and r :: "core_error + unit"
  assume "s3_sound C objects" "s3blob_put C b k bs s = (s', r)"
  from s3blob_put_law [OF this] show "True
      \<and> objects s' (b, k) \<in> (if is_ok r then {Some bs} else {objects s (b, k), Some bs})
      \<and> (\<forall>l. l \<noteq> (b, k) \<and> \<not> False \<longrightarrow> objects s' l = objects s l)"
    by simp
qed (rule s3blob_get_law s3blob_exists_law; assumption)+

end
