(* ===== verification/Relay.thy ===== *)
theory Relay
  imports Node_Core
begin

text \<open>
  Sequences of relay operations: what any interleaving of pushes, acknowledgements and
  sweeps by any clients leaves in a queue, and what a client obtains that pulls and
  acknowledges until its queue is empty. Everything is proved from the contract of the
  mailbox port; an extension of the contract adds availability, from which the results
  are shown to exist.
\<close>

section \<open>Interleaved operations\<close>

datatype relay_op =
    OpPush moment queue_id push_envelope
  | OpAck moment queue_id envelope_id
  | OpSweep moment

fun relay_exec :: "'s ctx \<Rightarrow> relay_op \<Rightarrow> 's \<Rightarrow> 's" where
  "relay_exec ctx (OpPush mo q req) s = fst (mailbox_push ctx mo q req s)"
| "relay_exec ctx (OpAck mo q i) s = fst (mailbox_ack ctx mo q i s)"
| "relay_exec ctx (OpSweep mo) s = fst (mailbox_sweep ctx mo s)"

text \<open>Operations that may end the life of an envelope \<open>i\<close> of queue \<open>q\<close> valid until \<open>t\<close>.\<close>

fun removes :: "queue_id \<Rightarrow> envelope_id \<Rightarrow> int \<Rightarrow> relay_op \<Rightarrow> bool" where
  "removes q i t (OpPush _ _ _) = False"
| "removes q i t (OpAck _ q' i') = (q' = q \<and> i' = i)"
| "removes q i t (OpSweep mo) = (t \<le> now_ms mo)"

text \<open>Operations on another queue, or sweeps no later than \<open>t\<close>.\<close>

fun elsewhere :: "queue_id \<Rightarrow> int \<Rightarrow> relay_op \<Rightarrow> bool" where
  "elsewhere q t (OpPush _ q' _) = (q' \<noteq> q)"
| "elsewhere q t (OpAck _ q' _) = (q' \<noteq> q)"
| "elsewhere q t (OpSweep mo) = (now_ms mo \<le> t)"

section \<open>Draining a queue\<close>

fun ack_all ::
  "'s ctx \<Rightarrow> moment \<Rightarrow> queue_id \<Rightarrow> stored_envelope list \<Rightarrow> 's \<Rightarrow> 's \<times> (core_error + unit)" where
  "ack_all ctx mo q [] s = (s, Inr ())"
| "ack_all ctx mo q (e # es) s =
     then_do (mailbox_ack ctx mo q (se_id e) s) (\<lambda>s _. ack_all ctx mo q es s)"

text \<open>\<open>n\<close> rounds of pull and acknowledge; \<open>None\<close> is a panic of the node.\<close>

fun drain ::
  "'s ctx \<Rightarrow> moment \<Rightarrow> queue_id \<Rightarrow> int \<Rightarrow> nat \<Rightarrow> 's \<Rightarrow> ('s \<times> (core_error + stored_envelope list)) option" where
  "drain ctx mo q limit 0 s = Some (s, Inr [])"
| "drain ctx mo q limit (Suc n) s =
     (case mailbox_pull ctx mo q limit s of
        None \<Rightarrow> None
      | Some (Inl e) \<Rightarrow> Some (s, Inl e)
      | Some (Inr es) \<Rightarrow>
          (case ack_all ctx mo q es s of
             (s', Inl e) \<Rightarrow> Some (s', Inl e)
           | (s', Inr _) \<Rightarrow>
               (case drain ctx mo q limit n s' of
                  None \<Rightarrow> None
                | Some (s'', Inl e) \<Rightarrow> Some (s'', Inl e)
                | Some (s'', Inr rest) \<Rightarrow> Some (s'', Inr (es @ rest)))))"

text \<open>The number of envelopes one pull returns at most.\<close>

definition batch :: "'s ctx \<Rightarrow> int \<Rightarrow> nat" where
  "batch ctx limit = nat (max 1 (min (max_pull_limit (ctx_config ctx)) limit))"

lemma filter_not_prefix:
  assumes "distinct (map f (xs @ ys))"
  shows "filter (\<lambda>e. f e \<notin> set (map f xs)) (xs @ ys) = ys"
  using assms by (auto simp: filter_empty_conv intro!: filter_True)

context mailbox_repo
begin

lemma relay_exec_inv:
  assumes "env" "inv s" "ctx_mailbox ctx = repo"
  shows "inv (relay_exec ctx op s)"
proof (cases op)
  case (OpPush mo q req)
  then show ?thesis
    using mailbox_push_cases [OF assms, of mo q req] by (cases "mailbox_push ctx mo q req s") simp
next
  case (OpAck mo q i)
  then show ?thesis
    using mailbox_ack_cases [OF assms, of mo q i] by (cases "mailbox_ack ctx mo q i s") simp
next
  case (OpSweep mo)
  then show ?thesis
    using mailbox_sweep_cases [OF assms, of mo] by (cases "mailbox_sweep ctx mo s") simp
qed

lemma run_inv: "env \<Longrightarrow> inv s \<Longrightarrow> ctx_mailbox ctx = repo \<Longrightarrow> inv (fold (relay_exec ctx) ops s)"
  by (induction ops arbitrary: s) (simp_all add: relay_exec_inv)

lemma exec_keeps:
  assumes "env" "inv s" "ctx_mailbox ctx = repo"
    and m: "m \<in> set (mails s)" "pending q i m"
    and op: "\<not> removes q i (se_expires_at (mail_envelope m)) op"
  shows "m \<in> set (mails (relay_exec ctx op s))"
proof (cases op)
  case (OpPush mo q' req)
  then show ?thesis
    using m mailbox_push_cases [OF assms(1-3), of mo q' req]
    by (cases "mailbox_push ctx mo q' req s") (auto split: sum.splits)
next
  case (OpAck mo q' i')
  with op m have "\<not> pending q' i' m" by (auto simp: pending_def)
  with m(1) have "m \<in> set (deliver q' i' (now_ms mo) (mails s))"
    by (force simp: deliver_def)
  then show ?thesis
    using OpAck m mailbox_ack_cases [OF assms(1-3), of mo q' i']
    by (cases "mailbox_ack ctx mo q' i' s") (auto split: sum.splits)
next
  case (OpSweep mo)
  then show ?thesis
    using op m mailbox_sweep_cases [OF assms(1-3), of mo]
    by (cases "mailbox_sweep ctx mo s") (auto simp: unexpired_def split: sum.splits)
qed

lemma run_keeps:
  assumes "env" "inv s" "ctx_mailbox ctx = repo"
    and "m \<in> set (mails s)" "pending q i m"
    and "\<forall>op \<in> set ops. \<not> removes q i (se_expires_at (mail_envelope m)) op"
  shows "inv (fold (relay_exec ctx) ops s) \<and> m \<in> set (mails (fold (relay_exec ctx) ops s))"
  using assms
proof (induction ops arbitrary: s)
  case (Cons op ops)
  have "inv (relay_exec ctx op s)" using Cons.prems by (intro relay_exec_inv)
  moreover have "m \<in> set (mails (relay_exec ctx op s))"
    using Cons.prems by (intro exec_keeps [of s ctx m q i op]) auto
  ultimately show ?case using Cons by simp
qed simp

lemma accepted_kept:
  assumes "env" "inv s" "ctx_mailbox ctx = repo" "mailbox_push ctx mo q req s = (s', Inr i)"
    and "\<forall>op \<in> set ops. \<not> removes q i (expiry mo (clamp_ttl (pe_ttl req) (ctx_config ctx))) op"
    and "now_ms mo' < expiry mo (clamp_ttl (pe_ttl req) (ctx_config ctx))"
  shows "\<lparr>se_id = i, se_payload = pe_payload req, se_received_at = now_ms mo,
      se_expires_at = expiry mo (clamp_ttl (pe_ttl req) (ctx_config ctx))\<rparr>
    \<in> set (live_envelopes q (now_ms mo') (mails (fold (relay_exec ctx) ops s')))"
proof -
  let ?m = "new_mail mo q \<lparr>ne_payload = pe_payload req, ne_ttl = clamp_ttl (pe_ttl req) (ctx_config ctx)\<rparr>"
  have s': "inv s'" "?m \<in> set (mails s')" "i = fresh_uuid mo"
    using mailbox_push_cases [OF assms(1-4)] by simp_all
  have "?m \<in> set (mails (fold (relay_exec ctx) ops s'))"
    using run_keeps [of s' ctx ?m q i ops] s' assms by (simp add: new_mail_def pending_def)
  moreover have "live q (now_ms mo') ?m" using assms(6) by (simp add: live_def new_mail_def)
  ultimately show ?thesis
    unfolding set_live_envelopes using s'(3) by (force simp: new_mail_def)
qed

lemma exec_elsewhere:
  assumes "env" "inv s" "ctx_mailbox ctx = repo" "elsewhere q t op"
  shows "live_envelopes q t (mails (relay_exec ctx op s)) = live_envelopes q t (mails s)"
proof (cases op)
  case (OpPush mo q' req)
  then have "\<not> live q t (new_mail mo q' e)" for e
    using assms(4) by (simp add: live_def new_mail_def)
  then show ?thesis
    using OpPush mailbox_push_cases [OF assms(1-3), of mo q' req]
    by (cases "mailbox_push ctx mo q' req s") (auto simp: live_envelopes_not_live split: sum.splits)
next
  case (OpAck mo q' i')
  then show ?thesis
    using assms(4) mailbox_ack_cases [OF assms(1-3), of mo q' i']
    by (cases "mailbox_ack ctx mo q' i' s") (auto simp: live_envelopes_other split: sum.splits)
next
  case (OpSweep mo)
  then show ?thesis
    using assms(4) mailbox_sweep_cases [OF assms(1-3), of mo]
    by (cases "mailbox_sweep ctx mo s") (auto simp: live_envelopes_unexpired split: sum.splits)
qed

lemma run_elsewhere:
  assumes "env" "inv s" "ctx_mailbox ctx = repo" "\<forall>op \<in> set ops. elsewhere q t op"
  shows "live_envelopes q t (mails (fold (relay_exec ctx) ops s)) = live_envelopes q t (mails s)"
  using assms
proof (induction ops arbitrary: s)
  case (Cons op ops)
  have "inv (relay_exec ctx op s)" using Cons.prems by (intro relay_exec_inv)
  then show ?case using Cons exec_elsewhere [of s ctx q t op] by simp
qed simp

lemma ack_all_effect:
  assumes "env" "inv s" "ctx_mailbox ctx = repo" "ack_all ctx mo q es s = (s', Inr u)"
  shows "inv s' \<and> live_envelopes q t (mails s')
    = filter (\<lambda>e. se_id e \<notin> set (map se_id es)) (live_envelopes q t (mails s))"
  using assms
proof (induction es arbitrary: s)
  case (Cons e es)
  obtain s1 r where ack: "mailbox_ack ctx mo q (se_id e) s = (s1, r)" by (cases "mailbox_ack ctx mo q (se_id e) s")
  with Cons.prems obtain b where r: "r = Inr b" by (cases r) auto
  have s1: "inv s1" "mails s1 = deliver q (se_id e) (now_ms mo) (mails s)"
    using mailbox_ack_cases [OF Cons.prems(1-3) ack] r by simp_all
  have "ack_all ctx mo q es s1 = (s', Inr u)" using Cons.prems(4) ack r by simp
  from Cons.IH [OF \<open>env\<close> s1(1) Cons.prems(3) this] show ?case
    by (simp add: s1(2) live_envelopes_deliver conj_commute)
qed simp

lemma drain_spec:
  assumes "env" "inv s" "ctx_mailbox ctx = repo" "drain ctx mo q limit n s = Some (s', Inr es)"
  shows "inv s' \<and> es = take (n * batch ctx limit) (live_envelopes q (now_ms mo) (mails s))
    \<and> live_envelopes q (now_ms mo) (mails s') = drop (n * batch ctx limit) (live_envelopes q (now_ms mo) (mails s))"
  using assms
proof (induction n arbitrary: s es)
  case (Suc n)
  let ?L = "live_envelopes q (now_ms mo) (mails s)" and ?k = "batch ctx limit"
  from Suc.prems(4) obtain hd_es s1 u rest where
      pull: "mailbox_pull ctx mo q limit s = Some (Inr hd_es)"
      and ack: "ack_all ctx mo q hd_es s = (s1, Inr u)"
      and rest: "drain ctx mo q limit n s1 = Some (s', Inr rest)" and es: "es = hd_es @ rest"
    by (auto split: option.splits sum.splits prod.splits)
  have hd_es: "hd_es = take ?k ?L"
    using mailbox_pull_ok [OF Suc.prems(1-3) pull] by (simp add: batch_def)
  have dist: "distinct (map se_id (take ?k ?L @ drop ?k ?L))"
    unfolding append_take_drop_id using inv_mails [OF Suc.prems(1,2)] by (rule mails_ok_ids)
  have s1: "inv s1" "live_envelopes q (now_ms mo) (mails s1) = drop ?k ?L"
    using ack_all_effect [OF Suc.prems(1-3) ack, of "now_ms mo"] filter_not_prefix [OF dist]
    by (simp_all add: hd_es)
  have "inv s' \<and> rest = take (n * ?k) (drop ?k ?L) \<and> live_envelopes q (now_ms mo) (mails s') = drop (n * ?k) (drop ?k ?L)"
    using Suc.IH [OF \<open>env\<close> s1(1) Suc.prems(3) rest] by (simp add: s1(2))
  then show ?case using es hd_es by (simp add: take_add add.commute)
qed simp

end

section \<open>Availability\<close>

text \<open>
  A mailbox whose store answers: operations on dates the node can represent succeed,
  and so does a push with a fresh identifier while there is room.
\<close>

definition dates_ok :: "mail list \<Rightarrow> bool" where
  "dates_ok ms \<longleftrightarrow> (\<forall>m \<in> set ms. 0 \<le> se_received_at (mail_envelope m)
     \<and> se_received_at (mail_envelope m) \<le> LAST_MS
     \<and> 0 \<le> se_expires_at (mail_envelope m) \<and> se_expires_at (mail_envelope m) \<le> LAST_MS)"

lemma dates_ok_deliver [simp]: "dates_ok (deliver q i t ms) = dates_ok ms"
  by (induction ms) (auto simp: dates_ok_def deliver_def)

locale available_mailbox = mailbox_repo +
  fixes room :: "'a \<Rightarrow> bool"
  assumes push_up: "env \<Longrightarrow> inv s \<Longrightarrow> room s \<Longrightarrow> (q, fresh_uuid mo) \<notin> mail_key ` set (mails s) \<Longrightarrow>
      is_ok (snd (mb_push repo mo q e s))"
    and pull_up: "env \<Longrightarrow> inv s \<Longrightarrow> dates_ok (mails s) \<Longrightarrow> 0 \<le> n \<Longrightarrow> is_ok (mb_pull repo mo q n s)"
    and ack_up: "env \<Longrightarrow> inv s \<Longrightarrow> is_ok (snd (mb_ack repo q i t s))"
    and expire_up: "env \<Longrightarrow> inv s \<Longrightarrow> is_ok (snd (mb_expire repo t s))"
begin

lemma ack_all_up:
  assumes "env" "inv s" "ctx_mailbox ctx = repo"
  shows "is_ok (snd (ack_all ctx mo q es s)) \<and> inv (fst (ack_all ctx mo q es s))
    \<and> (dates_ok (mails s) \<longrightarrow> dates_ok (mails (fst (ack_all ctx mo q es s))))"
  using assms
proof (induction es arbitrary: s)
  case (Cons e es)
  obtain s1 r where ack: "mailbox_ack ctx mo q (se_id e) s = (s1, r)" by (cases "mailbox_ack ctx mo q (se_id e) s")
  moreover have "is_ok r"
    using ack_up [of s q "se_id e" "now_ms mo"] Cons.prems ack by (simp add: mailbox_ack_def)
  ultimately obtain b where "mailbox_ack ctx mo q (se_id e) s = (s1, Inr b)" by (auto simp: is_ok_iff)
  with mailbox_ack_cases [OF Cons.prems, of mo q "se_id e" s1 "Inr b"] Cons.IH [of s1] Cons.prems
  show ?case by simp
qed simp

lemma drain_up:
  assumes "env" "inv s" "ctx_mailbox ctx = repo" "dates_ok (mails s)" "1 \<le> max_pull_limit (ctx_config ctx)"
  shows "\<exists>s' es. drain ctx mo q limit n s = Some (s', Inr es)"
  using assms
proof (induction n arbitrary: s)
  case (Suc n)
  obtain es where es: "mailbox_pull ctx mo q limit s = Some (Inr es)"
    using pull_up [of s _ mo q] Suc.prems by (force simp: mailbox_pull_def i64_clamp_def is_ok_iff)
  obtain s1 r where ack: "ack_all ctx mo q es s = (s1, r)" by (cases "ack_all ctx mo q es s")
  from ack_all_up [OF Suc.prems(1-3), of mo q es] ack Suc.prems(4)
  have s1: "is_ok r" "inv s1" "dates_ok (mails s1)" by simp_all
  from Suc.IH [OF Suc.prems(1) s1(2) Suc.prems(3) s1(3) Suc.prems(5)] s1(1) show ?case
    by (auto simp: es ack is_ok_iff)
qed simp

text \<open>Enough rounds return every live envelope, oldest first, and leave the queue empty.\<close>

lemma drain_complete:
  assumes "env" "inv s" "ctx_mailbox ctx = repo" "dates_ok (mails s)" "1 \<le> max_pull_limit (ctx_config ctx)"
    and "length (live_envelopes q (now_ms mo) (mails s)) \<le> n * batch ctx limit"
  shows "\<exists>s'. drain ctx mo q limit n s = Some (s', Inr (live_envelopes q (now_ms mo) (mails s)))
    \<and> inv s' \<and> live_envelopes q (now_ms mo) (mails s') = []"
proof -
  obtain s' es where "drain ctx mo q limit n s = Some (s', Inr es)" using drain_up [OF assms(1-5)] by blast
  with drain_spec [OF assms(1-3) this] assms(6) show ?thesis by simp
qed

end

end
