(* ===== verification/Mailbox_Spec.thy ===== *)
theory Mailbox_Spec
  imports Relay
begin

text \<open>
  The abstract mailbox the relay promises, as a step relation on the accepted
  envelopes and the receipts, and the simulation: whatever a client asks of the core
  functions over a repository that keeps the contract \<open>mailbox_repo\<close>, the replies and the
  final state are those of a run of the abstract mailbox. The abstract mailbox may fail
  any request; the one failure that is not without effect is an acknowledgement that
  removed its envelope before it failed. An acknowledgement of the abstract mailbox finds
  an envelope only before its expiry, as the port documents; the code does not look at the
  expiry, so the simulation is for runs in which no acknowledgement names an envelope that
  has expired and still waits for the sweep (\<open>timely\<close>).
\<close>

section \<open>Requests and replies\<close>

datatype request =
    ReqPush moment queue_id push_envelope
  | ReqPull moment queue_id int
  | ReqAck moment queue_id envelope_id
  | ReqSweep moment

datatype reply =
    Accepted envelope_id
  | Pulled "stored_envelope list"
  | Acked bool
  | Swept nat
  | Failed core_error

definition reply_of :: "('a \<Rightarrow> reply) \<Rightarrow> 's \<times> (core_error + 'a) \<Rightarrow> 's \<times> reply" where
  "reply_of f p = (case p of (s, Inl e) \<Rightarrow> (s, Failed e) | (s, Inr x) \<Rightarrow> (s, f x))"

lemma reply_of_cases:
  assumes "reply_of f p = (s', a)"
  obtains (failed) e where "p = (s', Inl e)" "a = Failed e" | (ok) x where "p = (s', Inr x)" "a = f x"
  using assms by (cases p; cases "snd p") (auto simp: reply_of_def)

text \<open>The core functions; \<open>None\<close> is the panic of a pull.\<close>

fun serve :: "'s ctx \<Rightarrow> request \<Rightarrow> 's \<Rightarrow> ('s \<times> reply) option" where
  "serve ctx (ReqPush mo q req) s = Some (reply_of Accepted (mailbox_push ctx mo q req s))"
| "serve ctx (ReqPull mo q limit) s = map_option (\<lambda>r. reply_of Pulled (s, r)) (mailbox_pull ctx mo q limit s)"
| "serve ctx (ReqAck mo q i) s = Some (reply_of Acked (mailbox_ack ctx mo q i s))"
| "serve ctx (ReqSweep mo) s = Some (reply_of Swept (mailbox_sweep ctx mo s))"

fun serve_all :: "'s ctx \<Rightarrow> request list \<Rightarrow> 's \<Rightarrow> ('s \<times> reply list) option" where
  "serve_all ctx [] s = Some (s, [])"
| "serve_all ctx (rq # rqs) s = (case serve ctx rq s of
     None \<Rightarrow> None
   | Some (s, a) \<Rightarrow> map_option (\<lambda>(s, as). (s, a # as)) (serve_all ctx rqs s))"

section \<open>The abstract mailbox\<close>

type_synonym mailbox = "mail list \<times> receipt list"

inductive spec_step :: "core_config \<Rightarrow> request \<Rightarrow> mailbox \<Rightarrow> reply \<Rightarrow> mailbox \<Rightarrow> bool" for cfg where
  refused: "spec_step cfg rq st (Failed e) st"
| accept: "pe_payload req \<noteq> [] \<Longrightarrow> length (pe_payload req) \<le> max_payload_bytes cfg \<Longrightarrow>
    m = new_mail mo q \<lparr>ne_payload = pe_payload req, ne_ttl = clamp_ttl (pe_ttl req) cfg\<rparr> \<Longrightarrow>
    spec_step cfg (ReqPush mo q req) (ms, rs) (Accepted (fresh_uuid mo)) (ms @ [m], rs)"
| pull: "es = take (nat (max 1 (min (max_pull_limit cfg) limit))) (live_envelopes q (now_ms mo) ms) \<Longrightarrow>
    spec_step cfg (ReqPull mo q limit) (ms, rs) (Pulled es) (ms, rs)"
| ack_yes: "m \<in> set ms \<Longrightarrow> pending q i m \<Longrightarrow> now_ms mo < se_expires_at (mail_envelope m) \<Longrightarrow>
    spec_step cfg (ReqAck mo q i) (ms, rs) (Acked True)
      (deliver q i (now_ms mo) ms, rs @ [(q, i, now_ms mo)])"
| ack_no: "\<forall>m \<in> set ms. \<not> (pending q i m \<and> now_ms mo < se_expires_at (mail_envelope m)) \<Longrightarrow>
    spec_step cfg (ReqAck mo q i) (ms, rs) (Acked False) (ms, rs)"
| ack_torn: "m \<in> set ms \<Longrightarrow> pending q i m \<Longrightarrow> now_ms mo < se_expires_at (mail_envelope m) \<Longrightarrow>
    spec_step cfg (ReqAck mo q i) (ms, rs) (Failed e) (deliver q i (now_ms mo) ms, rs)"
| sweep: "n + length (unexpired (now_ms mo) ms) = length ms \<Longrightarrow>
    spec_step cfg (ReqSweep mo) (ms, rs) (Swept n) (unexpired (now_ms mo) ms, rs)"

inductive_simps spec_push: "spec_step cfg (ReqPush mo q req) st (Accepted i) st'"
inductive_simps spec_pull: "spec_step cfg (ReqPull mo q limit) st (Pulled es) st'"

inductive spec_run :: "core_config \<Rightarrow> request list \<Rightarrow> mailbox \<Rightarrow> reply list \<Rightarrow> mailbox \<Rightarrow> bool" for cfg where
  stop: "spec_run cfg [] st [] st"
| step: "spec_step cfg rq st a st' \<Longrightarrow> spec_run cfg rqs st' as st'' \<Longrightarrow> spec_run cfg (rq # rqs) st (a # as) st''"

inductive_cases spec_run_stepE: "spec_run cfg (rq # rqs) st as st'"
inductive_simps spec_run_nil [simp]: "spec_run cfg [] st as st'"

text \<open>No acknowledgement comes for an envelope that has expired and still waits for the
  sweep; \<open>ms\<close> reads the accepted envelopes off a state of the repository.\<close>

fun on_time :: "mail list \<Rightarrow> request \<Rightarrow> bool" where
  "on_time ms (ReqAck mo q i) \<longleftrightarrow> (\<forall>m \<in> set ms. pending q i m \<longrightarrow> now_ms mo < se_expires_at (mail_envelope m))"
| "on_time ms _ \<longleftrightarrow> True"

fun timely :: "('s \<Rightarrow> mail list) \<Rightarrow> 's ctx \<Rightarrow> request list \<Rightarrow> 's \<Rightarrow> bool" where
  "timely ms ctx [] s \<longleftrightarrow> True"
| "timely ms ctx (rq # rqs) s \<longleftrightarrow> on_time (ms s) rq \<and> (case serve ctx rq s of
     None \<Rightarrow> True
   | Some (s', _) \<Rightarrow> timely ms ctx rqs s')"

lemma deliver_none: "\<forall>m \<in> set ms. \<not> pending q i m \<Longrightarrow> deliver q i t ms = ms"
  by (simp add: deliver_def map_idI)

section \<open>Simulation\<close>

context mailbox_repo
begin

lemma push_refines:
  assumes "env" "inv s" "ctx_mailbox ctx = repo" and "reply_of Accepted (mailbox_push ctx mo q req s) = (s', a)"
  shows "inv s' \<and> spec_step (ctx_config ctx) (ReqPush mo q req) (mails s, receipts s) a (mails s', receipts s')"
  using assms(4)
proof (cases rule: reply_of_cases)
  case (failed e)
  then show ?thesis using mailbox_push_cases [OF assms(1-3) failed(1)] by (simp add: refused)
next
  case (ok i)
  have "pe_payload req \<noteq> []" "length (pe_payload req) \<le> max_payload_bytes (ctx_config ctx)"
    using ok(1) by (auto simp: mailbox_push_def split: if_splits)
  then show ?thesis using mailbox_push_cases [OF assms(1-3) ok(1)] ok(2) by (simp add: spec_push)
qed

lemma ack_refines:
  assumes "env" "inv s" "ctx_mailbox ctx = repo" "on_time (mails s) (ReqAck mo q i)"
    and "reply_of Acked (mailbox_ack ctx mo q i s) = (s', a)"
  shows "inv s' \<and> spec_step (ctx_config ctx) (ReqAck mo q i) (mails s, receipts s) a (mails s', receipts s')"
proof -
  obtain r where ack: "mailbox_ack ctx mo q i s = (s', r)" and a: "a = (case r of Inl e \<Rightarrow> Failed e | Inr b \<Rightarrow> Acked b)"
    using assms(5) by (cases rule: reply_of_cases) auto
  note law = mailbox_ack_cases [OF assms(1-3) ack]
  show ?thesis
  proof (cases "\<exists>m \<in> set (mails s). pending q i m")
    case True
    then obtain m where m: "m \<in> set (mails s)" "pending q i m" "now_ms mo < se_expires_at (mail_envelope m)"
      using assms(4) by auto
    then show ?thesis using law a by (cases r) (auto intro: refused ack_yes ack_torn)
  next
    case False
    then have "deliver q i (now_ms mo) (mails s) = mails s" by (auto intro: deliver_none)
    then show ?thesis using law a False by (cases r) (auto intro: refused ack_no)
  qed
qed

lemma sweep_refines:
  assumes "env" "inv s" "ctx_mailbox ctx = repo" and "reply_of Swept (mailbox_sweep ctx mo s) = (s', a)"
  shows "inv s' \<and> spec_step (ctx_config ctx) (ReqSweep mo) (mails s, receipts s) a (mails s', receipts s')"
  using assms(4)
proof (cases rule: reply_of_cases)
  case (failed e)
  then show ?thesis using mailbox_sweep_cases [OF assms(1-3) failed(1)] by (simp add: refused)
next
  case (ok n)
  then show ?thesis using mailbox_sweep_cases [OF assms(1-3) ok(1)] by (auto intro: sweep)
qed

lemma serve_refines:
  assumes env: "env" and inv: "inv s" and mb: "ctx_mailbox ctx = repo" and time: "on_time (mails s) rq"
    and serve: "serve ctx rq s = Some (s', a)"
  shows "inv s' \<and> spec_step (ctx_config ctx) rq (mails s, receipts s) a (mails s', receipts s')"
proof (cases rq)
  case (ReqPull mo q limit)
  with serve obtain r where pull: "mailbox_pull ctx mo q limit s = Some r" and r: "reply_of Pulled (s, r) = (s', a)"
    by auto
  show ?thesis
  proof (cases r)
    case (Inl e)
    then show ?thesis using r inv by (auto simp: reply_of_def intro: refused)
  next
    case (Inr es)
    then show ?thesis
      using r inv mailbox_pull_ok [OF env inv mb, of mo q limit es] pull ReqPull
      by (auto simp: reply_of_def spec_pull)
  qed
qed (use serve time push_refines [OF env inv mb] ack_refines [OF env inv mb] sweep_refines [OF env inv mb] in auto)

lemma serve_all_refines:
  assumes "env" "inv s" "ctx_mailbox ctx = repo" "timely mails ctx rqs s" "serve_all ctx rqs s = Some (s', as)"
  shows "inv s' \<and> spec_run (ctx_config ctx) rqs (mails s, receipts s) as (mails s', receipts s')"
  using assms
proof (induction rqs arbitrary: s as)
  case (Cons rq rqs)
  from Cons.prems(5) obtain s1 a as' where step: "serve ctx rq s = Some (s1, a)"
      and rest: "serve_all ctx rqs s1 = Some (s', as')" and as: "as = a # as'"
    by (auto split: option.splits)
  from Cons.prems(4) step have time: "on_time (mails s) rq" "timely mails ctx rqs s1" by simp_all
  note one = serve_refines [OF Cons.prems(1-3) time(1) step]
  with Cons.IH [OF Cons.prems(1) _ Cons.prems(3) time(2) rest] show ?case by (auto simp: as intro: spec_run.step)
qed simp

end

end
