(* ===== verification/Sql.thy ===== *)
theory Sql
  imports Entities "HOL-Library.Product_Lexorder" "HOL-Library.Multiset"
begin

text \<open>
  The datastore behind the adapters of \<open>crates/buh-data/src\<close>: the tables of
  \<open>migrations/*.sql\<close>, and one constructor for each SQL statement the code issues,
  with its bound parameters. \<open>sql_exec\<close> and \<open>sql_select\<close> give the statements their
  SQL meaning on the tables.

  The engine that runs them, the crate \<open>turso\<close>, is the record \<open>engine\<close>, an argument of
  every adapter; its state has the abstract type \<open>'db\<close> and a view as tables. Any call
  may fail. What the adapters rely on is \<open>sql_sound\<close>: a statement that succeeds did
  what SQL says, one that fails did nothing, and the rows of a query that breaks off are the
  first rows of an answer. \<open>sql_available\<close> says that calls succeed.
\<close>

section \<open>Tables\<close>

record envelope_row =
  er_id :: int
  er_queue_id :: bytes
  er_envelope_id :: ustring
  er_payload :: bytes
  er_received_at :: int
  er_expires_at :: int
  er_delivered_at :: "int option"

record receipt_row =
  rr_queue_id :: bytes
  rr_envelope_id :: ustring
  rr_pulled_at :: int

record peer_row =
  pr_fingerprint :: ustring
  pr_note :: "ustring option"
  pr_trusted_at :: int

record tables =
  t_envelopes :: "envelope_row list"
  t_receipts :: "receipt_row list"
  t_peers :: "peer_row list"

definition empty_tables :: tables where
  "empty_tables = \<lparr>t_envelopes = [], t_receipts = [], t_peers = []\<rparr>"

section \<open>Statements\<close>

datatype sql_stmt =
    InsertEnvelope bytes ustring bytes int int
  | MarkDelivered bytes ustring int
  | InsertReceipt bytes ustring int
  | DeleteExpired int
  | UpsertPeer ustring "ustring option" int
  | DeletePeer ustring

text \<open>\<open>INTEGER PRIMARY KEY\<close>: one more than the largest identifier in use.\<close>

definition next_rowid :: "envelope_row list \<Rightarrow> int" where
  "next_rowid rows = 1 + fold max (map er_id rows) 0"

text \<open>The unique index on queue and envelope identifier.\<close>

definition insert_envelope ::
  "bytes \<Rightarrow> ustring \<Rightarrow> bytes \<Rightarrow> int \<Rightarrow> int \<Rightarrow> envelope_row list \<Rightarrow> string + envelope_row list" where
  "insert_envelope q i p received expires rows =
     (if (\<exists>r \<in> set rows. er_queue_id r = q \<and> er_envelope_id r = i)
      then Inl ''UNIQUE constraint failed: envelopes.queue_id, envelopes.envelope_id''
      else if next_rowid rows > I64_MAX then Inl ''database or disk is full''
      else Inr (rows @ [\<lparr>er_id = next_rowid rows, er_queue_id = q, er_envelope_id = i, er_payload = p,
        er_received_at = received, er_expires_at = expires, er_delivered_at = None\<rparr>]))"

definition undelivered :: "bytes \<Rightarrow> ustring \<Rightarrow> envelope_row \<Rightarrow> bool" where
  "undelivered q i r \<longleftrightarrow> er_queue_id r = q \<and> er_envelope_id r = i \<and> er_delivered_at r = None"

definition mark_delivered :: "bytes \<Rightarrow> ustring \<Rightarrow> int \<Rightarrow> envelope_row list \<Rightarrow> envelope_row list" where
  "mark_delivered q i t rows = map (\<lambda>r. if undelivered q i r then r\<lparr>er_delivered_at := Some t\<rparr> else r) rows"

definition upsert_peer :: "ustring \<Rightarrow> ustring option \<Rightarrow> int \<Rightarrow> peer_row list \<Rightarrow> peer_row list" where
  "upsert_peer fp note t rows =
     (if fp \<in> pr_fingerprint ` set rows
      then map (\<lambda>r. if pr_fingerprint r = fp then r\<lparr>pr_note := note\<rparr> else r) rows
      else rows @ [\<lparr>pr_fingerprint = fp, pr_note = note, pr_trusted_at = t\<rparr>])"

text \<open>The new tables and the number of rows affected.\<close>

fun sql_exec :: "sql_stmt \<Rightarrow> tables \<Rightarrow> string + tables \<times> nat" where
  "sql_exec (InsertEnvelope q i p received expires) T =
     and_then (insert_envelope q i p received expires (t_envelopes T))
       (\<lambda>rows. Inr (T\<lparr>t_envelopes := rows\<rparr>, 1))"
| "sql_exec (MarkDelivered q i t) T =
     Inr (T\<lparr>t_envelopes := mark_delivered q i t (t_envelopes T)\<rparr>,
       length (filter (undelivered q i) (t_envelopes T)))"
| "sql_exec (InsertReceipt q i t) T =
     Inr (T\<lparr>t_receipts := t_receipts T @ [\<lparr>rr_queue_id = q, rr_envelope_id = i, rr_pulled_at = t\<rparr>]\<rparr>, 1)"
| "sql_exec (DeleteExpired t) T =
     Inr (T\<lparr>t_envelopes := filter (\<lambda>r. \<not> er_expires_at r \<le> t) (t_envelopes T)\<rparr>,
       length (filter (\<lambda>r. er_expires_at r \<le> t) (t_envelopes T)))"
| "sql_exec (UpsertPeer fp note t) T = Inr (T\<lparr>t_peers := upsert_peer fp note t (t_peers T)\<rparr>, 1)"
| "sql_exec (DeletePeer fp) T =
     Inr (T\<lparr>t_peers := filter (\<lambda>r. pr_fingerprint r \<noteq> fp) (t_peers T)\<rparr>,
       length (filter (\<lambda>r. pr_fingerprint r = fp) (t_peers T)))"

section \<open>Queries\<close>

text \<open>The values of a result row; a \<open>REAL\<close> is kept as its bit pattern.\<close>

datatype sql_value = Null | Integer int | Real u64 | Text ustring | Blob bytes

type_synonym sql_row = "sql_value list"

datatype sql_query =
    SelectLive bytes int int
  | SelectPeer ustring
  | ListPeers

definition sql_limit :: "int \<Rightarrow> 'a list \<Rightarrow> 'a list" where
  "sql_limit n xs = (if n < 0 then xs else take (nat n) xs)"

definition envelope_columns :: "envelope_row \<Rightarrow> sql_row" where
  "envelope_columns r =
     [Text (er_envelope_id r), Blob (er_payload r), Integer (er_received_at r), Integer (er_expires_at r)]"

definition peer_columns :: "peer_row \<Rightarrow> sql_row" where
  "peer_columns r =
     [Text (pr_fingerprint r), (case pr_note r of None \<Rightarrow> Null | Some n \<Rightarrow> Text n), Integer (pr_trusted_at r)]"

definition live_row :: "bytes \<Rightarrow> int \<Rightarrow> envelope_row \<Rightarrow> bool" where
  "live_row q t r \<longleftrightarrow> er_queue_id r = q \<and> er_delivered_at r = None \<and> er_expires_at r > t"

definition select_live :: "bytes \<Rightarrow> int \<Rightarrow> int \<Rightarrow> envelope_row list \<Rightarrow> envelope_row list" where
  "select_live q t n rows =
     sql_limit n (sort_key (\<lambda>r. (er_received_at r, er_id r)) (filter (live_row q t) rows))"

text \<open>
  The rows a query may return. The order of peers trusted at the same time is not
  specified by the statement.
\<close>

fun sql_answer :: "sql_query \<Rightarrow> tables \<Rightarrow> sql_row list \<Rightarrow> bool" where
  "sql_answer (SelectLive q t n) T rows \<longleftrightarrow> rows = map envelope_columns (select_live q t n (t_envelopes T))"
| "sql_answer (SelectPeer fp) T rows \<longleftrightarrow>
     rows = map (\<lambda>_. [Integer 1]) (filter (\<lambda>r. pr_fingerprint r = fp) (t_peers T))"
| "sql_answer ListPeers T rows \<longleftrightarrow>
     (\<exists>prs. rows = map peer_columns prs \<and> mset prs = mset (t_peers T)
        \<and> sorted_wrt (\<lambda>a b. pr_trusted_at a \<ge> pr_trusted_at b) prs)"

text \<open>One answer, with ties in the order of insertion.\<close>

fun sql_select :: "sql_query \<Rightarrow> tables \<Rightarrow> sql_row list" where
  "sql_select (SelectLive q t n) T = map envelope_columns (select_live q t n (t_envelopes T))"
| "sql_select (SelectPeer fp) T =
     map (\<lambda>_. [Integer 1]) (filter (\<lambda>r. pr_fingerprint r = fp) (t_peers T))"
| "sql_select ListPeers T = map peer_columns (sort_key (\<lambda>r. - pr_trusted_at r) (t_peers T))"

lemma sql_select_answer: "sql_answer q T (sql_select q T)"
proof (cases q)
  case ListPeers
  have "sorted_wrt (\<lambda>a b. pr_trusted_at a \<ge> pr_trusted_at b) (sort_key (\<lambda>r. - pr_trusted_at r) (t_peers T))"
    using sorted_sort_key [of "\<lambda>r. - pr_trusted_at r" "t_peers T"] by (simp add: sorted_map)
  then show ?thesis using ListPeers by (auto intro!: exI [where x = "sort_key (\<lambda>r. - pr_trusted_at r) (t_peers T)"])
qed simp_all

section \<open>The engine\<close>

text \<open>
  A query yields rows one by one; \<open>Some e\<close> beside them is a failure of a later
  \<open>next\<close>.
\<close>

record 'db engine =
  eng_connect :: "'db \<Rightarrow> string + unit"
  eng_execute :: "sql_stmt \<Rightarrow> 'db \<Rightarrow> 'db \<times> (string + nat)"
  eng_query :: "sql_query \<Rightarrow> 'db \<Rightarrow> string + (sql_row list \<times> string option)"
  eng_get_value :: "sql_row \<Rightarrow> nat \<Rightarrow> string + sql_value"
  eng_debug :: "sql_value \<Rightarrow> string"

definition sql_sound :: "'db engine \<Rightarrow> ('db \<Rightarrow> tables) \<Rightarrow> bool" where
  "sql_sound E view \<longleftrightarrow>
     (\<forall>st db db' n. eng_execute E st db = (db', Inr n) \<longrightarrow> sql_exec st (view db) = Inr (view db', n))
   \<and> (\<forall>st db db' e. eng_execute E st db = (db', Inl e) \<longrightarrow> view db' = view db)
   \<and> (\<forall>qr db rows fin. eng_query E qr db = Inr (rows, fin) \<longrightarrow>
        (\<exists>rest. sql_answer qr (view db) (rows @ rest) \<and> (fin = None \<longrightarrow> rest = [])))
   \<and> (\<forall>row i. i < length row \<longrightarrow> eng_get_value E row i = Inr (row ! i))"

definition sql_available :: "'db engine \<Rightarrow> ('db \<Rightarrow> tables) \<Rightarrow> bool" where
  "sql_available E view \<longleftrightarrow>
     (\<forall>db. is_ok (eng_connect E db))
   \<and> (\<forall>st db. is_ok (sql_exec st (view db)) \<longrightarrow> is_ok (snd (eng_execute E st db)))
   \<and> (\<forall>qr db. \<exists>rows. eng_query E qr db = Inr (rows, None))"

lemma sql_soundD:
  assumes "sql_sound E view"
  shows "eng_execute E st db = (db', Inr n) \<Longrightarrow> sql_exec st (view db) = Inr (view db', n)"
    and "eng_execute E st db = (db', Inl e) \<Longrightarrow> view db' = view db"
    and "eng_query E qr db = Inr (rows, None) \<Longrightarrow> sql_answer qr (view db) rows"
    and "i < length row \<Longrightarrow> eng_get_value E row i = Inr (row ! i)"
    and "eng_query E qr db = Inr (rows, fin) \<Longrightarrow> \<exists>rest. sql_answer qr (view db) (rows @ rest)"
  using assms unfolding sql_sound_def by (metis append.right_neutral)+

lemma sql_availableD:
  assumes "sql_available E view"
  shows "is_ok (eng_connect E db)"
    and "is_ok (sql_exec st (view db)) \<Longrightarrow> is_ok (snd (eng_execute E st db))"
    and "\<exists>rows. eng_query E qr db = Inr (rows, None)"
  using assms unfolding sql_available_def by blast+

text \<open>
  The reference engine: the tables themselves, every call succeeding. It shows that
  the laws are satisfiable and serves the concrete instances.
\<close>

definition ref_engine :: "tables engine" where
  "ref_engine = \<lparr>eng_connect = (\<lambda>_. Inr ()),
     eng_execute = (\<lambda>st T. case sql_exec st T of Inl e \<Rightarrow> (T, Inl e) | Inr (T', n) \<Rightarrow> (T', Inr n)),
     eng_query = (\<lambda>qr T. Inr (sql_select qr T, None)),
     eng_get_value = (\<lambda>row i. if i < length row then Inr (row ! i) else Inl ''column index out of range''),
     eng_debug = (\<lambda>_. '''')\<rparr>"

lemma ref_engine_sound: "sql_sound ref_engine (\<lambda>T. T)"
  by (auto simp: sql_sound_def ref_engine_def sql_select_answer split: sum.splits prod.splits)

lemma ref_engine_available: "sql_available ref_engine (\<lambda>T. T)"
  by (auto simp: sql_available_def ref_engine_def is_ok_def split: sum.splits prod.splits)

section \<open>Facts about the statements\<close>

lemma fold_max_ge: "x \<in> set xs \<or> x = a \<Longrightarrow> x \<le> fold max xs (a :: int)"
proof (induction xs arbitrary: a x)
  case (Cons b xs)
  have "max b a \<le> fold max xs (max b a)" using Cons.IH by blast
  then show ?case using Cons.IH [of x "max b a"] Cons.prems by auto
qed simp

lemma next_rowid_greater: "r \<in> set rows \<Longrightarrow> er_id r < next_rowid rows"
  using fold_max_ge [of "er_id r" "map er_id rows" 0] by (simp add: next_rowid_def)

text \<open>In a table in identifier order the secondary sort key changes nothing.\<close>

lemma insort_key_cong: "(\<And>x. x \<in> set xs \<Longrightarrow> (f a \<le> f x) = (g a \<le> g x)) \<Longrightarrow> insort_key f a xs = insort_key g a xs"
  by (induction xs) auto

lemma sort_key_by_id:
  assumes "sorted_wrt (<) (map er_id rows)"
  shows "sort_key (\<lambda>r. (er_received_at r, er_id r)) rows = sort_key er_received_at rows"
  using assms
proof (induction rows)
  case (Cons a rows)
  have "insort_key (\<lambda>r. (er_received_at r, er_id r)) a xs = insort_key er_received_at a xs"
    if "set xs = set rows" for xs
    by (rule insort_key_cong) (use Cons.prems that in auto)
  then show ?case using Cons by simp
qed simp

end
