(* ===== verification/Turso_Mailbox.thy ===== *)
theory Turso_Mailbox
  imports Mailbox_Spec Sql
begin

text \<open>
  The mailbox adapter, \<open>crates/buh-data/src/turso_mailbox.rs\<close>: the database handle and
  the notifiers of long-polling pulls, the operations of the port, the conversion of
  result rows, and the proof that the adapter keeps the contract of the port on every
  engine that implements SQL.

  A \<open>tokio::sync::Notify\<close> used with \<open>notify_waiters\<close> is a counter of the calls made so
  far: a \<open>Notified\<close> future is complete when the counter has moved since its creation.
\<close>

section \<open>State\<close>

record 'db turso =
  tm_db :: 'db
  tm_notifiers :: "queue_id \<Rightarrow> nat option"

definition turso_new :: "'db \<Rightarrow> 'db turso" where
  "turso_new db = \<lparr>tm_db = db, tm_notifiers = (\<lambda>_. None)\<rparr>"

text \<open>Get or create the notifier of a queue: the new map and the present count.\<close>

definition notifier :: "queue_id \<Rightarrow> 'db turso \<Rightarrow> 'db turso \<times> nat" where
  "notifier q s = (case tm_notifiers s q of
       Some n \<Rightarrow> (s, n)
     | None \<Rightarrow> (s\<lparr>tm_notifiers := (tm_notifiers s)(q \<mapsto> 0)\<rparr>, 0))"

definition notify_waiters :: "queue_id \<Rightarrow> 'db turso \<Rightarrow> 'db turso" where
  "notify_waiters q s = (case notifier q s of
     (s', n) \<Rightarrow> s'\<lparr>tm_notifiers := (tm_notifiers s')(q \<mapsto> Suc n)\<rparr>)"

text \<open>Every failure of the engine becomes \<open>CoreError::Repo\<close>.\<close>

abbreviation repo :: "string + 'a \<Rightarrow> core_error + 'a" where
  "repo m \<equiv> map_err Repo m"

text \<open>\<open>connect\<close>, then one statement.\<close>

definition turso_execute :: "'db engine \<Rightarrow> sql_stmt \<Rightarrow> 'db turso \<Rightarrow> 'db turso \<times> (core_error + nat)" where
  "turso_execute E st s = (case eng_execute E st (tm_db s) of (db, r) \<Rightarrow> (s\<lparr>tm_db := db\<rparr>, repo r))"

section \<open>Rows\<close>

definition value_text :: "'db engine \<Rightarrow> sql_row \<Rightarrow> nat \<Rightarrow> core_error + ustring" where
  "value_text E row idx = and_then (repo (eng_get_value E row idx)) (\<lambda>v. case v of
       Text s \<Rightarrow> Inr s
     | other \<Rightarrow> Inl (Repo (''col '' @ show_nat idx @ '': expected text, got '' @ eng_debug E other)))"

definition value_blob :: "'db engine \<Rightarrow> sql_row \<Rightarrow> nat \<Rightarrow> core_error + bytes" where
  "value_blob E row idx = and_then (repo (eng_get_value E row idx)) (\<lambda>v. case v of
       Blob b \<Rightarrow> Inr b
     | other \<Rightarrow> Inl (Repo (''col '' @ show_nat idx @ '': expected blob, got '' @ eng_debug E other)))"

definition value_int :: "'db engine \<Rightarrow> sql_row \<Rightarrow> nat \<Rightarrow> core_error + int" where
  "value_int E row idx = and_then (repo (eng_get_value E row idx)) (\<lambda>v. case v of
       Integer i \<Rightarrow> Inr i
     | other \<Rightarrow> Inl (Repo (''col '' @ show_nat idx @ '': expected integer, got '' @ eng_debug E other)))"

definition ms_to_dt :: "libs \<Rightarrow> int \<Rightarrow> core_error + int" where
  "ms_to_dt L ms = ok_or (Repo (''timestamp out of range: '' @ show_int ms)) (from_timestamp_millis L ms)"

definition row_to_envelope :: "libs \<Rightarrow> 'db engine \<Rightarrow> sql_row \<Rightarrow> core_error + stored_envelope" where
  "row_to_envelope L E row =
     and_then (value_text E row 0) (\<lambda>txt.
     and_then (map_err (\<lambda>e. Repo (''bad envelope_id: '' @ e)) (uuid_parse L txt)) (\<lambda>envelope_id.
     and_then (value_blob E row 1) (\<lambda>payload.
     and_then (value_int E row 2) (\<lambda>received_ms.
     and_then (ms_to_dt L received_ms) (\<lambda>received_at.
     and_then (value_int E row 3) (\<lambda>expires_ms.
     and_then (ms_to_dt L expires_ms) (\<lambda>expires_at.
       Inr \<lparr>se_id = envelope_id, se_payload = payload,
            se_received_at = received_at, se_expires_at = expires_at\<rparr>)))))))"

text \<open>The loop over \<open>rows.next()\<close>; a failing \<open>next\<close> comes after the rows before it.\<close>

fun collect_rows :: "libs \<Rightarrow> 'db engine \<Rightarrow> sql_row list \<Rightarrow> string option \<Rightarrow> core_error + stored_envelope list" where
  "collect_rows L E [] None = Inr []"
| "collect_rows L E [] (Some e) = Inl (Repo e)"
| "collect_rows L E (row # rows) fin =
     and_then (row_to_envelope L E row) (\<lambda>e.
     and_then (collect_rows L E rows fin) (\<lambda>es. Inr (e # es)))"

section \<open>Operations of the port\<close>

text \<open>
  A push in two parts, since the task waits for the database in between: up to the end of the
  \<open>INSERT\<close>, and the wake-up of the waiting pulls.
\<close>

definition turso_insert ::
  "libs \<Rightarrow> 'db engine \<Rightarrow> moment \<Rightarrow> queue_id \<Rightarrow> new_envelope \<Rightarrow> 'db turso \<Rightarrow> 'db turso \<times> (core_error + envelope_id)" where
  "turso_insert L E mo q envelope s =
     then_do (s, repo (eng_connect E (tm_db s))) (\<lambda>s _.
       let envelope_id = fresh_uuid mo;
           now = now_ms mo;
           expires = i64_saturating_add now (i64_saturating_mul (ne_ttl envelope) 1000)
       in then_do
            (turso_execute E (InsertEnvelope q (ustr (uuid_to_string L envelope_id)) (ne_payload envelope) now expires) s)
            (\<lambda>s _. (s, Inr envelope_id)))"

definition turso_push ::
  "libs \<Rightarrow> 'db engine \<Rightarrow> moment \<Rightarrow> queue_id \<Rightarrow> new_envelope \<Rightarrow> 'db turso \<Rightarrow> 'db turso \<times> (core_error + envelope_id)" where
  "turso_push L E mo q envelope s =
     then_do (turso_insert L E mo q envelope s) (\<lambda>s envelope_id. (notify_waiters q s, Inr envelope_id))"

definition turso_pull ::
  "libs \<Rightarrow> 'db engine \<Rightarrow> moment \<Rightarrow> queue_id \<Rightarrow> int \<Rightarrow> 'db turso \<Rightarrow> core_error + stored_envelope list" where
  "turso_pull L E mo q limit s =
     and_then (repo (eng_connect E (tm_db s))) (\<lambda>_.
     and_then (repo (eng_query E (SelectLive q (now_ms mo) limit) (tm_db s))) (\<lambda>(rows, fin).
       collect_rows L E rows fin))"

text \<open>An acknowledgement is two statements: the update of the envelope and the receipt.\<close>

definition turso_mark ::
  "libs \<Rightarrow> 'db engine \<Rightarrow> queue_id \<Rightarrow> envelope_id \<Rightarrow> int \<Rightarrow> 'db turso \<Rightarrow> 'db turso \<times> (core_error + nat)" where
  "turso_mark L E q i at_ms s =
     then_do (s, repo (eng_connect E (tm_db s))) (\<lambda>s _.
       turso_execute E (MarkDelivered q (ustr (uuid_to_string L i)) at_ms) s)"

definition turso_receipt ::
  "libs \<Rightarrow> 'db engine \<Rightarrow> queue_id \<Rightarrow> envelope_id \<Rightarrow> int \<Rightarrow> 'db turso \<Rightarrow> 'db turso \<times> (core_error + nat)" where
  "turso_receipt L E q i at_ms s = turso_execute E (InsertReceipt q (ustr (uuid_to_string L i)) at_ms) s"

definition turso_ack ::
  "libs \<Rightarrow> 'db engine \<Rightarrow> queue_id \<Rightarrow> envelope_id \<Rightarrow> int \<Rightarrow> 'db turso \<Rightarrow> 'db turso \<times> (core_error + bool)" where
  "turso_ack L E q i at_ms s =
     then_do (turso_mark L E q i at_ms s) (\<lambda>s affected.
       if affected = 0 then (s, Inr False)
       else then_do (turso_receipt L E q i at_ms s) (\<lambda>s _. (s, Inr True)))"

definition turso_expire :: "'db engine \<Rightarrow> int \<Rightarrow> 'db turso \<Rightarrow> 'db turso \<times> (core_error + nat)" where
  "turso_expire E now s =
     then_do (s, repo (eng_connect E (tm_db s))) (\<lambda>s _.
     then_do (turso_execute E (DeleteExpired now) s) (\<lambda>s n. (s, Inr n)))"

text \<open>
  \<open>wait_for_envelope\<close> in two parts: creating the \<open>Notified\<close> future takes the present
  count; when the wait ends, by wake-up or timeout, it reports whether the count moved.
\<close>

definition turso_subscribe :: "queue_id \<Rightarrow> 'db turso \<Rightarrow> 'db turso \<times> nat" where
  "turso_subscribe q s = notifier q s"

definition turso_notified :: "queue_id \<Rightarrow> nat \<Rightarrow> 'db turso \<Rightarrow> bool" where
  "turso_notified q ticket s = (snd (notifier q s) \<noteq> ticket)"

definition turso_repo :: "libs \<Rightarrow> 'db engine \<Rightarrow> 'db turso mailbox_port" where
  "turso_repo L E = \<lparr>mb_push = turso_push L E, mb_pull = turso_pull L E,
     mb_ack = turso_ack L E, mb_expire = turso_expire E\<rparr>"

section \<open>The adapter keeps the contract\<close>

text \<open>A row as mail. The identifiers are in the form the adapter writes.\<close>

definition row_uuid :: "libs \<Rightarrow> ustring \<Rightarrow> uuid" where
  "row_uuid L txt = (case uuid_parse L txt of Inl _ \<Rightarrow> 0 | Inr u \<Rightarrow> u)"

definition row_mail :: "libs \<Rightarrow> envelope_row \<Rightarrow> mail" where
  "row_mail L r = \<lparr>mail_queue = er_queue_id r,
     mail_envelope = \<lparr>se_id = row_uuid L (er_envelope_id r), se_payload = er_payload r,
       se_received_at = er_received_at r, se_expires_at = er_expires_at r\<rparr>,
     mail_delivered = er_delivered_at r\<rparr>"

definition canonical_id :: "libs \<Rightarrow> ustring \<Rightarrow> bool" where
  "canonical_id L txt \<longleftrightarrow> txt = ustr (uuid_to_string L (row_uuid L txt))"

definition rows_ok :: "libs \<Rightarrow> envelope_row list \<Rightarrow> bool" where
  "rows_ok L rows \<longleftrightarrow> sorted_wrt (<) (map er_id rows)
     \<and> distinct (map (\<lambda>r. (er_queue_id r, er_envelope_id r)) rows)
     \<and> (\<forall>r \<in> set rows. canonical_id L (er_envelope_id r))"

definition turso_inv :: "libs \<Rightarrow> ('db \<Rightarrow> tables) \<Rightarrow> 'db turso \<Rightarrow> bool" where
  "turso_inv L view s \<longleftrightarrow> rows_ok L (t_envelopes (view (tm_db s)))"

definition turso_mails :: "libs \<Rightarrow> ('db \<Rightarrow> tables) \<Rightarrow> 'db turso \<Rightarrow> mail list" where
  "turso_mails L view s = map (row_mail L) (t_envelopes (view (tm_db s)))"

definition turso_receipts :: "libs \<Rightarrow> ('db \<Rightarrow> tables) \<Rightarrow> 'db turso \<Rightarrow> receipt list" where
  "turso_receipts L view s = map (\<lambda>r. (rr_queue_id r, row_uuid L (rr_envelope_id r), rr_pulled_at r))
     (t_receipts (view (tm_db s)))"

lemma row_uuid_string [simp]: "uuid_laws L \<Longrightarrow> row_uuid L (ustr (uuid_to_string L u)) = u"
  by (simp add: row_uuid_def)

lemma canonical_id_string [simp]: "uuid_laws L \<Longrightarrow> canonical_id L (ustr (uuid_to_string L u))"
  by (simp add: canonical_id_def)

lemma canonical_eq: "uuid_laws L \<Longrightarrow> canonical_id L txt \<Longrightarrow> txt = ustr (uuid_to_string L i) \<longleftrightarrow> row_uuid L txt = i"
  by (metis canonical_id_def row_uuid_string)

lemma pending_row:
  "uuid_laws L \<Longrightarrow> canonical_id L (er_envelope_id r) \<Longrightarrow>
    pending q i (row_mail L r) \<longleftrightarrow> undelivered q (ustr (uuid_to_string L i)) r"
  by (auto simp: pending_def undelivered_def row_mail_def canonical_eq)

lemma live_row_mail: "live q t (row_mail L r) \<longleftrightarrow> live_row q t r"
  by (simp add: live_def live_row_def row_mail_def)

lemma rows_ok_mails: "rows_ok L rows \<Longrightarrow> mails_ok (map (row_mail L) rows)"
proof -
  assume ok: "rows_ok L rows"
  have "inj_on (\<lambda>(q, txt). (q, row_uuid L txt)) ((\<lambda>r. (er_queue_id r, er_envelope_id r)) ` set rows)"
    using ok by (auto simp: inj_on_def rows_ok_def) (metis canonical_id_def)
  with ok have "distinct (map (\<lambda>(q, txt). (q, row_uuid L txt)) (map (\<lambda>r. (er_queue_id r, er_envelope_id r)) rows))"
    by (subst distinct_map) (simp add: rows_ok_def)
  then show ?thesis by (simp add: mails_ok_def mail_key_def row_mail_def comp_def)
qed

lemma row_mail_deliver [simp]:
  "row_mail L (r\<lparr>er_delivered_at := d\<rparr>) = (row_mail L r)\<lparr>mail_delivered := d\<rparr>"
  by (simp add: row_mail_def)

lemma mark_delivered_mails:
  assumes "uuid_laws L" "rows_ok L rows"
  shows "map (row_mail L) (mark_delivered q (ustr (uuid_to_string L i)) t rows)
    = deliver q i t (map (row_mail L) rows)"
  unfolding mark_delivered_def deliver_def map_map
  by (rule map_cong) (use assms in \<open>auto simp: rows_ok_def pending_row\<close>)

lemma rows_ok_mark: "rows_ok L rows \<Longrightarrow> rows_ok L (mark_delivered q i t rows)"
proof -
  assume ok: "rows_ok L rows"
  have "map er_id (mark_delivered q i t rows) = map er_id rows"
    "map (\<lambda>r. (er_queue_id r, er_envelope_id r)) (mark_delivered q i t rows)
      = map (\<lambda>r. (er_queue_id r, er_envelope_id r)) rows"
    by (auto simp: mark_delivered_def)
  moreover have "\<forall>r \<in> set (mark_delivered q i t rows). canonical_id L (er_envelope_id r)"
    using ok by (auto simp: rows_ok_def mark_delivered_def)
  ultimately show ?thesis using ok by (simp add: rows_ok_def)
qed

lemma rows_ok_filter: "rows_ok L rows \<Longrightarrow> rows_ok L (filter P rows)"
  unfolding rows_ok_def by (auto simp: sorted_wrt_map sorted_wrt_filter intro: distinct_map_filter)

lemma rows_ok_insert:
  assumes "rows_ok L rows" "canonical_id L txt"
    and "insert_envelope q txt p received expires rows = Inr rows'"
  shows "rows_ok L rows'"
    and "map (row_mail L) rows' = map (row_mail L) rows @ [\<lparr>mail_queue = q,
      mail_envelope = \<lparr>se_id = row_uuid L txt, se_payload = p, se_received_at = received, se_expires_at = expires\<rparr>,
      mail_delivered = None\<rparr>]"
  using assms by (auto simp: insert_envelope_def rows_ok_def sorted_wrt_append next_rowid_greater row_mail_def
      split: if_splits)

text \<open>Statements on a sound engine, seen through the abstraction.\<close>

lemma turso_execute_ok:
  assumes "sql_sound E view" "turso_execute E st s = (s', Inr n)"
  shows "sql_exec st (view (tm_db s)) = Inr (view (tm_db s'), n)"
  using assms sql_soundD(1) [OF assms(1)] by (auto simp: turso_execute_def split: prod.splits)

lemma turso_execute_err:
  assumes "sql_sound E view" "turso_execute E st s = (s', Inl e)"
  shows "view (tm_db s') = view (tm_db s)"
  using assms sql_soundD(2) [OF assms(1)]
  by (auto simp: turso_execute_def map_err_def split: prod.splits sum.splits)

lemma notifier_db [simp]: "tm_db (fst (notifier q s)) = tm_db s"
  by (auto simp: notifier_def split: option.splits)

lemma notify_waiters_db [simp]: "tm_db (notify_waiters q s) = tm_db s"
  using notifier_db [of q s] by (auto simp: notify_waiters_def split: prod.splits simp del: notifier_db)

definition turso_env :: "libs \<Rightarrow> 'db engine \<Rightarrow> ('db \<Rightarrow> tables) \<Rightarrow> bool" where
  "turso_env L E view \<longleftrightarrow> libs_laws L \<and> sql_sound E view"

lemma turso_envD: "turso_env L E view \<Longrightarrow> uuid_laws L" "turso_env L E view \<Longrightarrow> chrono_laws L"
  "turso_env L E view \<Longrightarrow> sql_sound E view"
  by (auto simp: turso_env_def)

lemma turso_insert_law:
  assumes env: "turso_env L E view" and inv: "turso_inv L view s"
    and push: "turso_insert L E mo q e s = (s', r)"
  shows "turso_inv L view s' \<and> turso_receipts L view s' = turso_receipts L view s \<and>
      (case r of Inl _ \<Rightarrow> turso_mails L view s' = turso_mails L view s
       | Inr i \<Rightarrow> i = fresh_uuid mo \<and> turso_mails L view s' = turso_mails L view s @ [new_mail mo q e])"
  using push unfolding turso_insert_def
proof (cases rule: then_do_cases)
  case err
  then show ?thesis using inv by simp
next
  case (ok s0 x)
  from ok(2) show ?thesis unfolding Let_def
  proof (cases rule: then_do_cases)
    case (err e)
    from turso_execute_err [OF turso_envD(3) [OF env] err(1)] show ?thesis
      using ok(1) err inv by (simp add: turso_inv_def turso_mails_def turso_receipts_def)
  next
    case (ok s1 n)
    from turso_execute_ok [OF turso_envD(3) [OF env] ok(1)] obtain rows where
        rows: "insert_envelope q (ustr (uuid_to_string L (fresh_uuid mo))) (ne_payload e) (now_ms mo)
          (expiry mo (ne_ttl e)) (t_envelopes (view (tm_db s0))) = Inr rows"
        and T: "view (tm_db s1) = (view (tm_db s0))\<lparr>t_envelopes := rows\<rparr>"
      by (auto simp: expiry_def)
    have s0: "s0 = s" using \<open>(s, repo (eng_connect E (tm_db s))) = (s0, Inr x)\<close> by simp
    have ok_rows: "rows_ok L (t_envelopes (view (tm_db s0)))" using inv by (simp add: s0 turso_inv_def)
    note uuid = turso_envD(1) [OF env]
    show ?thesis
      using rows_ok_insert [OF ok_rows canonical_id_string [OF uuid] rows] ok(2) T uuid
      by (auto simp: s0 turso_inv_def turso_mails_def turso_receipts_def new_mail_def)
  qed
qed

lemma turso_notify_view [simp]:
  "turso_inv L view (notify_waiters q s) = turso_inv L view s"
  "turso_mails L view (notify_waiters q s) = turso_mails L view s"
  "turso_receipts L view (notify_waiters q s) = turso_receipts L view s"
  by (simp_all add: turso_inv_def turso_mails_def turso_receipts_def)

lemma turso_push_law:
  assumes env: "turso_env L E view" and inv: "turso_inv L view s"
    and push: "turso_push L E mo q e s = (s', r)"
  shows "turso_inv L view s' \<and> turso_receipts L view s' = turso_receipts L view s \<and>
      (case r of Inl _ \<Rightarrow> turso_mails L view s' = turso_mails L view s
       | Inr i \<Rightarrow> i = fresh_uuid mo \<and> turso_mails L view s' = turso_mails L view s @ [new_mail mo q e])"
  using push unfolding turso_push_def
  by (cases rule: then_do_cases) (use turso_insert_law [OF env inv] in fastforce)+

lemma row_to_envelope_columns:
  assumes "turso_env L E view" "row_to_envelope L E (envelope_columns r) = Inr e"
  shows "e = mail_envelope (row_mail L r)"
  using assms sql_soundD(4) [OF turso_envD(3) [OF assms(1)], of _ "envelope_columns r"]
    chrono_keeps [OF turso_envD(2) [OF assms(1)]]
  by (auto simp: row_to_envelope_def value_text_def value_blob_def value_int_def ms_to_dt_def
      envelope_columns_def row_mail_def row_uuid_def)

lemma collect_rows_ok:
  assumes "turso_env L E view" "collect_rows L E (map envelope_columns rows) fin = Inr es"
  shows "fin = None \<and> es = map (\<lambda>r. mail_envelope (row_mail L r)) rows"
  using assms(2)
proof (induction rows arbitrary: es)
  case Nil
  then show ?case by (cases fin) auto
next
  case (Cons r rows)
  then show ?case using row_to_envelope_columns [OF assms(1)] by auto
qed

lemma insort_key_map: "insort_key f (g a) (map g xs) = map g (insort_key (\<lambda>x. f (g x)) a xs)"
  by (induction xs) auto

lemma sort_key_map: "sort_key f (map g xs) = map g (sort_key (\<lambda>x. f (g x)) xs)"
  by (induction xs) (simp_all add: insort_key_map)

lemma select_live_mails:
  assumes "rows_ok L rows" "0 \<le> n"
  shows "map (\<lambda>r. mail_envelope (row_mail L r)) (select_live q t n rows)
    = take (nat n) (live_envelopes q t (map (row_mail L) rows))"
proof -
  have "sorted_wrt (<) (map er_id (filter (live_row q t) rows))"
    using assms(1) rows_ok_filter [of L rows] by (simp add: rows_ok_def)
  then have "sort_key (\<lambda>r. (er_received_at r, er_id r)) (filter (live_row q t) rows)
      = sort_key er_received_at (filter (live_row q t) rows)"
    by (rule sort_key_by_id)
  moreover have "sort_key (\<lambda>m. se_received_at (mail_envelope m)) (map (row_mail L) xs)
      = map (row_mail L) (sort_key er_received_at xs)" for xs
    using sort_key_map [of "\<lambda>m. se_received_at (mail_envelope m)" "row_mail L" xs]
    by (simp add: row_mail_def)
  ultimately show ?thesis using assms(2)
    by (simp add: select_live_def live_envelopes_def filter_map comp_def live_row_mail sql_limit_def take_map)
qed

lemma turso_pull_law:
  assumes env: "turso_env L E view" and inv: "turso_inv L view s" and n: "0 \<le> n"
    and pull: "turso_pull L E mo q n s = Inr es"
  shows "es = take (nat n) (live_envelopes q (now_ms mo) (turso_mails L view s))"
proof -
  from pull obtain rows fin where
      query: "eng_query E (SelectLive q (now_ms mo) n) (tm_db s) = Inr (rows, fin)"
      and es: "collect_rows L E rows fin = Inr es"
    by (auto simp: turso_pull_def)
  have "fin = None"
    using es by (induction L E rows fin arbitrary: es rule: collect_rows.induct) auto
  then have "rows = map envelope_columns (select_live q (now_ms mo) n (t_envelopes (view (tm_db s))))"
    using sql_soundD(3) [OF turso_envD(3) [OF env], of "SelectLive q (now_ms mo) n"] query by simp
  then have "es = map (\<lambda>r. mail_envelope (row_mail L r))
      (select_live q (now_ms mo) n (t_envelopes (view (tm_db s))))"
    using collect_rows_ok [OF env] es by blast
  also have "\<dots> = take (nat n) (live_envelopes q (now_ms mo) (turso_mails L view s))"
    unfolding turso_mails_def by (rule select_live_mails) (use inv n in \<open>simp_all add: turso_inv_def\<close>)
  finally show ?thesis .
qed

lemma affected_pending:
  assumes "uuid_laws L" "rows_ok L rows"
  shows "length (filter (undelivered q (ustr (uuid_to_string L i))) rows) = 0 \<longleftrightarrow>
    \<not> (\<exists>m \<in> set (map (row_mail L) rows). pending q i m)"
  using assms by (auto simp: rows_ok_def pending_row filter_empty_conv)

lemma turso_mark_law:
  assumes env: "turso_env L E view" and inv: "turso_inv L view s"
    and mark: "turso_mark L E q i t s = (s', r)"
  shows "turso_inv L view s' \<and> turso_receipts L view s' = turso_receipts L view s \<and>
      (case r of Inl _ \<Rightarrow> turso_mails L view s' = turso_mails L view s
       | Inr affected \<Rightarrow> turso_mails L view s' = deliver q i t (turso_mails L view s) \<and>
           (affected = 0 \<longleftrightarrow> \<not> (\<exists>m \<in> set (turso_mails L view s). pending q i m)))"
  using mark unfolding turso_mark_def
proof (cases rule: then_do_cases)
  case err
  then show ?thesis using inv by simp
next
  case (ok s0 x)
  then have s0: "s0 = s" by simp
  note sound = turso_envD(3) [OF env] and uuid = turso_envD(1) [OF env]
  have rows: "rows_ok L (t_envelopes (view (tm_db s)))" using inv by (simp add: turso_inv_def)
  note abs = turso_inv_def turso_mails_def turso_receipts_def
  show ?thesis
  proof (cases r)
    case (Inl e)
    with ok(2) turso_execute_err [OF sound, of _ s0 s' e] show ?thesis using inv by (simp add: s0 abs)
  next
    case (Inr affected)
    with ok(2) have run: "turso_execute E (MarkDelivered q (ustr (uuid_to_string L i)) t) s = (s', Inr affected)"
      by (simp add: s0)
    from turso_execute_ok [OF sound run] have
        T: "view (tm_db s') = (view (tm_db s))\<lparr>t_envelopes := mark_delivered q (ustr (uuid_to_string L i)) t (t_envelopes (view (tm_db s)))\<rparr>"
        and aff: "affected = length (filter (undelivered q (ustr (uuid_to_string L i))) (t_envelopes (view (tm_db s))))"
      by auto
    show ?thesis
      using Inr affected_pending [OF uuid rows, of q i, folded aff turso_mails_def]
      by (simp add: abs T rows rows_ok_mark mark_delivered_mails [OF uuid rows])
  qed
qed

lemma turso_receipt_law:
  assumes env: "turso_env L E view" and inv: "turso_inv L view s"
    and receipt: "turso_receipt L E q i t s = (s', r)"
  shows "turso_inv L view s' \<and> turso_mails L view s' = turso_mails L view s \<and>
      turso_receipts L view s' = turso_receipts L view s @ (if is_ok r then [(q, i, t)] else [])"
proof (cases r)
  case (Inl e)
  then show ?thesis using turso_execute_err [OF turso_envD(3) [OF env]] receipt inv
    by (auto simp: turso_receipt_def turso_inv_def turso_mails_def turso_receipts_def)
next
  case (Inr n)
  then have run: "turso_execute E (InsertReceipt q (ustr (uuid_to_string L i)) t) s = (s', Inr n)"
    using receipt by (simp add: turso_receipt_def)
  from turso_execute_ok [OF turso_envD(3) [OF env] run]
  have "view (tm_db s') = (view (tm_db s))\<lparr>t_receipts := t_receipts (view (tm_db s)) @
      [\<lparr>rr_queue_id = q, rr_envelope_id = ustr (uuid_to_string L i), rr_pulled_at = t\<rparr>]\<rparr>" by auto
  then show ?thesis
    using Inr inv turso_envD(1) [OF env] by (simp add: turso_inv_def turso_mails_def turso_receipts_def)
qed

lemma turso_ack_law:
  assumes env: "turso_env L E view" and inv: "turso_inv L view s"
    and ack: "turso_ack L E q i t s = (s', r)"
  shows "turso_inv L view s' \<and>
      (case r of Inl _ \<Rightarrow> turso_receipts L view s' = turso_receipts L view s \<and>
           (turso_mails L view s' = turso_mails L view s
            \<or> turso_mails L view s' = deliver q i t (turso_mails L view s))
       | Inr b \<Rightarrow> turso_mails L view s' = deliver q i t (turso_mails L view s) \<and>
           (b \<longleftrightarrow> (\<exists>m \<in> set (turso_mails L view s). pending q i m)) \<and>
           turso_receipts L view s' = turso_receipts L view s @ (if b then [(q, i, t)] else []))"
  using ack unfolding turso_ack_def
proof (cases rule: then_do_cases)
  case (err e)
  then show ?thesis using turso_mark_law [OF env inv err(1)] by simp
next
  case (ok s1 affected)
  note s1 = turso_mark_law [OF env inv ok(1)]
  show ?thesis
  proof (cases "affected = 0")
    case True
    then show ?thesis using ok(2) s1 by auto
  next
    case False
    with ok(2) have "then_do (turso_receipt L E q i t s1) (\<lambda>s _. (s, Inr True)) = (s', r)" by simp
    then show ?thesis
      by (cases rule: then_do_cases) (use turso_receipt_law [OF env, of s1 q i t] s1 False in fastforce)+
  qed
qed

lemma turso_expire_law:
  assumes env: "turso_env L E view" and inv: "turso_inv L view s"
    and expire: "turso_expire E t s = (s', r)"
  shows "turso_inv L view s' \<and> turso_receipts L view s' = turso_receipts L view s \<and>
      (case r of Inl _ \<Rightarrow> turso_mails L view s' = turso_mails L view s
       | Inr n \<Rightarrow> turso_mails L view s' = unexpired t (turso_mails L view s) \<and>
           n + length (turso_mails L view s') = length (turso_mails L view s))"
  using expire unfolding turso_expire_def
proof (cases rule: then_do_cases)
  case err
  then show ?thesis using inv by simp
next
  case (ok s0 x)
  then have s0: "s0 = s" by simp
  note sound = turso_envD(3) [OF env]
  note abs = turso_inv_def turso_mails_def turso_receipts_def
  from ok(2) show ?thesis
  proof (cases rule: then_do_cases)
    case (err e)
    from turso_execute_err [OF sound err(1)] show ?thesis using err inv by (simp add: s0 abs)
  next
    case (ok s1 n)
    from turso_execute_ok [OF sound ok(1)] ok(2) have
        T: "view (tm_db s') = (view (tm_db s))\<lparr>t_envelopes := filter (\<lambda>r. t < er_expires_at r) (t_envelopes (view (tm_db s)))\<rparr>"
        and n: "r = Inr n" "n = length (filter (\<lambda>r. er_expires_at r \<le> t) (t_envelopes (view (tm_db s))))"
      by (auto simp: s0 not_le)
    show ?thesis
      using inv sum_length_filter_compl [of "\<lambda>r. er_expires_at r \<le> t" "t_envelopes (view (tm_db s))"]
      by (simp add: abs T n rows_ok_filter unexpired_def filter_map comp_def row_mail_def not_le)
  qed
qed

lemma turso_inv_mails: "turso_inv L view s \<Longrightarrow> mails_ok (turso_mails L view s)"
  by (simp add: turso_inv_def turso_mails_def rows_ok_mails)

interpretation turso: mailbox_repo "turso_env L E view" "turso_repo L E" "turso_inv L view"
    "turso_mails L view" "turso_receipts L view" for L E view
  by (unfold_locales, unfold turso_repo_def mailbox_port.simps)
    (rule turso_inv_mails turso_push_law turso_pull_law turso_ack_law turso_expire_law; assumption)+

section \<open>The adapter is available when its engine is\<close>

definition turso_up :: "libs \<Rightarrow> 'db engine \<Rightarrow> ('db \<Rightarrow> tables) \<Rightarrow> bool" where
  "turso_up L E view \<longleftrightarrow> turso_env L E view \<and> sql_available E view"

text \<open>Identifiers left for new rows.\<close>

definition turso_room :: "('db \<Rightarrow> tables) \<Rightarrow> 'db turso \<Rightarrow> bool" where
  "turso_room view s \<longleftrightarrow> next_rowid (t_envelopes (view (tm_db s))) \<le> I64_MAX"

lemma turso_connect_up: "turso_up L E view \<Longrightarrow> \<exists>u. eng_connect E db = Inr u"
  using sql_availableD(1) by (auto simp: turso_up_def is_ok_iff)

lemma turso_execute_up:
  assumes "turso_up L E view" "is_ok (sql_exec st (view (tm_db s)))"
  obtains s' n where "turso_execute E st s = (s', Inr n)" "tm_notifiers s' = tm_notifiers s"
proof -
  obtain db r where r: "eng_execute E st (tm_db s) = (db, r)" by (cases "eng_execute E st (tm_db s)")
  moreover have "is_ok (snd (eng_execute E st (tm_db s)))"
    using assms sql_availableD(2) by (auto simp: turso_up_def)
  ultimately show ?thesis using that by (auto simp: turso_execute_def is_ok_iff)
qed

lemma turso_push_up:
  assumes up: "turso_up L E view" and inv: "turso_inv L view s"
    and room: "turso_room view s"
    and new: "(q, fresh_uuid mo) \<notin> mail_key ` set (turso_mails L view s)"
  shows "is_ok (snd (turso_push L E mo q e s))"
proof -
  let ?txt = "ustr (uuid_to_string L (fresh_uuid mo))"
  have "uuid_laws L" using up turso_envD(1) by (auto simp: turso_up_def)
  then have "\<not> (\<exists>r \<in> set (t_envelopes (view (tm_db s))). er_queue_id r = q \<and> er_envelope_id r = ?txt)"
    using new by (force simp: turso_mails_def mail_key_def row_mail_def image_iff)
  then have "is_ok (sql_exec (InsertEnvelope q ?txt p a b) (view (tm_db s)))" for p a b
    using room by (simp add: insert_envelope_def turso_room_def)
  then obtain s' n where "turso_execute E (InsertEnvelope q ?txt (ne_payload e) (now_ms mo)
      (i64_saturating_add (now_ms mo) (i64_saturating_mul (ne_ttl e) 1000))) s = (s', Inr n)"
    by (rule turso_execute_up [OF up])
  then show ?thesis using turso_connect_up [OF up, of "tm_db s"] by (auto simp: turso_push_def turso_insert_def Let_def)
qed

lemma row_to_envelope_up:
  assumes "turso_env L E view" "canonical_id L (er_envelope_id r)"
    "0 \<le> er_received_at r" "er_received_at r \<le> LAST_MS" "0 \<le> er_expires_at r" "er_expires_at r \<le> LAST_MS"
  shows "is_ok (row_to_envelope L E (envelope_columns r))"
proof -
  have "uuid_parse L (er_envelope_id r) = Inr (row_uuid L (er_envelope_id r))"
    using assms(2) uuid_parse_string [OF turso_envD(1) [OF assms(1)]] unfolding canonical_id_def by metis
  then show ?thesis
    using assms(3-) sql_soundD(4) [OF turso_envD(3) [OF assms(1)], of _ "envelope_columns r"]
      chrono_in_range [OF turso_envD(2) [OF assms(1)]]
    by (simp add: row_to_envelope_def value_text_def value_blob_def value_int_def ms_to_dt_def envelope_columns_def)
qed

lemma collect_rows_up:
  assumes "\<And>r. r \<in> set rows \<Longrightarrow> is_ok (row_to_envelope L E (envelope_columns r))"
  shows "is_ok (collect_rows L E (map envelope_columns rows) None)"
  using assms
proof (induction rows)
  case (Cons r rows)
  from Cons.prems [of r] Cons.IH Cons.prems show ?case by (auto simp: is_ok_iff)
qed simp

lemma set_select_live: "set (select_live q t n rows) \<subseteq> set rows"
  by (auto simp: select_live_def sql_limit_def dest: in_set_takeD split: if_splits)

lemma turso_pull_up:
  assumes up: "turso_up L E view" and inv: "turso_inv L view s" and dates: "dates_ok (turso_mails L view s)"
  shows "is_ok (turso_pull L E mo q n s)"
proof -
  have env: "turso_env L E view" using up by (simp add: turso_up_def)
  obtain rows where rows: "eng_query E (SelectLive q (now_ms mo) n) (tm_db s) = Inr (rows, None)"
    using up sql_availableD(3) [of E view] unfolding turso_up_def by blast
  then have "rows = map envelope_columns (select_live q (now_ms mo) n (t_envelopes (view (tm_db s))))"
    using sql_soundD(3) [OF turso_envD(3) [OF env], of "SelectLive q (now_ms mo) n"] by simp
  moreover have "is_ok (row_to_envelope L E (envelope_columns r))"
    if "r \<in> set (select_live q (now_ms mo) n (t_envelopes (view (tm_db s))))" for r
  proof -
    have "r \<in> set (t_envelopes (view (tm_db s)))" using that set_select_live by blast
    then show ?thesis using inv dates
      by (intro row_to_envelope_up [OF env])
        (simp_all add: turso_inv_def rows_ok_def dates_ok_def turso_mails_def row_mail_def)
  qed
  ultimately show ?thesis
    using rows turso_connect_up [OF up, of "tm_db s"] collect_rows_up by (auto simp: turso_pull_def)
qed

lemma turso_ack_up:
  assumes up: "turso_up L E view"
  shows "is_ok (snd (turso_ack L E q i t s))"
proof -
  have ok: "is_ok (sql_exec (MarkDelivered q j t) T)" "is_ok (sql_exec (InsertReceipt q j t) T)" for j T
    by simp_all
  obtain s1 n where s1: "turso_execute E (MarkDelivered q (ustr (uuid_to_string L i)) t) s = (s1, Inr n)"
    by (rule turso_execute_up [OF up ok(1)])
  obtain s2 m where s2: "turso_execute E (InsertReceipt q (ustr (uuid_to_string L i)) t) s1 = (s2, Inr m)"
    by (rule turso_execute_up [OF up ok(2)])
  show ?thesis using turso_connect_up [OF up, of "tm_db s"] by (auto simp: turso_ack_def turso_mark_def turso_receipt_def s1 s2)
qed

lemma turso_expire_up:
  assumes up: "turso_up L E view"
  shows "is_ok (snd (turso_expire E t s))"
proof -
  have ok: "is_ok (sql_exec (DeleteExpired t) T)" for T by simp
  obtain s1 n where "turso_execute E (DeleteExpired t) s = (s1, Inr n)"
    by (rule turso_execute_up [OF up ok])
  then show ?thesis using turso_connect_up [OF up, of "tm_db s"] by (auto simp: turso_expire_def)
qed

lemma turso_up_env: "turso_up L E view \<Longrightarrow> turso_env L E view"
  by (simp add: turso_up_def)

interpretation turso_avail: available_mailbox "turso_up L E view" "turso_repo L E" "turso_inv L view"
    "turso_mails L view" "turso_receipts L view" "turso_room view" for L E view
  by (unfold_locales, unfold turso_repo_def mailbox_port.simps)
    ((rule turso_inv_mails turso_push_up turso_pull_up turso_ack_up turso_expire_up; assumption)
     | (rule turso_push_law turso_pull_law turso_ack_law turso_expire_law, erule turso_up_env; assumption))+

end
