(* ===== verification/Node_Api.thy ===== *)
theory Node_Api
  imports Turso_Mailbox
begin

text \<open>
  The HTTP surface of the node, \<open>crates/buh-api/src\<close>: configuration (\<open>config.rs\<close>),
  the mapping of errors to responses (\<open>error.rs\<close>), the handlers (\<open>handlers.rs\<close>), the
  body limit of the router (\<open>router.rs\<close>) and the guard on the admin listener
  (\<open>main.rs\<close>).

  A response is a value of \<open>response\<close>; the JSON rendering and the extraction of path,
  query and body are those of the HTTP library. The pull handler suspends while it
  waits, and other requests run in between: it is a state machine whose steps are the
  stretches of code between two suspension points, interleaved with the statements of
  arbitrary other requests. A push of another client is two such steps, its \<open>INSERT\<close> and the
  wake-up, and an acknowledgement is two statements.
\<close>

section \<open>Configuration\<close>

record admin_config =
  admin_enabled :: bool
  admin_bind :: string

record pki_config =
  pki_enabled :: bool
  pki_dir :: string
  pki_node_bind :: string
  pki_sans :: "string list"
  pki_leaf_ttl_hours :: u64
  pki_rotate_every_hours :: u64

record blob_config =
  blob_enabled :: bool
  blob_backend :: string
  blob_fs_root :: string
  blob_max_bytes :: nat
  blob_s3_endpoint :: string
  blob_s3_region :: string
  blob_s3_access_key :: string
  blob_s3_secret_key :: string

record relay_config =
  relay_default_ttl_seconds :: int
  relay_max_ttl_seconds :: int
  relay_max_payload_bytes :: nat
  relay_max_pull_limit :: int
  relay_max_wait_seconds :: u64
  relay_sweep_interval_seconds :: u64

record app_config =
  app_bind :: string
  app_db_path :: string
  app_log_format :: string
  app_relay :: relay_config
  app_blob :: blob_config
  app_pki :: pki_config
  app_admin :: admin_config

definition app_config_default :: app_config where
  "app_config_default = (let core = core_config_default in \<lparr>
     app_bind = ''127.0.0.1:8080'',
     app_db_path = ''buh-relay.db'',
     app_log_format = ''auto'',
     app_relay = \<lparr>
       relay_default_ttl_seconds = default_ttl_seconds core,
       relay_max_ttl_seconds = max_ttl_seconds core,
       relay_max_payload_bytes = max_payload_bytes core,
       relay_max_pull_limit = max_pull_limit core,
       relay_max_wait_seconds = 30,
       relay_sweep_interval_seconds = 3600\<rparr>,
     app_blob = \<lparr>
       blob_enabled = False,
       blob_backend = ''fs'',
       blob_fs_root = ''buh-blobs'',
       blob_max_bytes = max_blob_bytes core,
       blob_s3_endpoint = '''',
       blob_s3_region = ''us-east-1'',
       blob_s3_access_key = '''',
       blob_s3_secret_key = ''''\<rparr>,
     app_pki = \<lparr>
       pki_enabled = False,
       pki_dir = ''/var/lib/buh/pki'',
       pki_node_bind = ''0.0.0.0:31415'',
       pki_sans = [''localhost''],
       pki_leaf_ttl_hours = 48,
       pki_rotate_every_hours = 24\<rparr>,
     app_admin = \<lparr>admin_enabled = True, admin_bind = ''127.0.0.1:8081''\<rparr>\<rparr>)"

definition core_config_of :: "app_config \<Rightarrow> core_config" where
  "core_config_of cfg = \<lparr>
     default_ttl_seconds = relay_default_ttl_seconds (app_relay cfg),
     max_ttl_seconds = relay_max_ttl_seconds (app_relay cfg),
     max_payload_bytes = relay_max_payload_bytes (app_relay cfg),
     max_pull_limit = relay_max_pull_limit (app_relay cfg),
     max_blob_bytes = blob_max_bytes (app_blob cfg)\<rparr>"

section \<open>Responses\<close>

datatype response =
    ErrorJson nat string
  | HealthJson "string option"
  | EnvelopeAccepted envelope_id
  | PullResponse "stored_envelope list"
  | AckAccepted bool
  | Created
  | OctetStream bytes

text \<open>\<open>IntoResponse for ApiError\<close>.\<close>

fun error_response :: "core_error \<Rightarrow> response" where
  "error_response NotFound = ErrorJson 404 (core_error_display NotFound)"
| "error_response (Validation e) = ErrorJson 400 (core_error_display (Validation e))"
| "error_response (Conflict s) = ErrorJson 409 (core_error_display (Conflict s))"
| "error_response (Unimplemented s) = ErrorJson 501 (core_error_display (Unimplemented s))"
| "error_response (Repo _) = ErrorJson 500 ''internal error''"
| "error_response (Storage _) = ErrorJson 500 ''internal error''"
| "error_response (Internal _) = ErrorJson 500 ''internal error''"

fun status_of :: "response \<Rightarrow> nat" where
  "status_of (ErrorJson n _) = n"
| "status_of Created = 201"
| "status_of _ = 200"

definition respond_with :: "('a \<Rightarrow> response) \<Rightarrow> core_error + 'a \<Rightarrow> response" where
  "respond_with f r = (case r of Inl e \<Rightarrow> error_response e | Inr x \<Rightarrow> f x)"

section \<open>Handlers\<close>

record 's app_state =
  app_ctx :: "'s ctx"
  app_max_wait :: nat

definition handle_health :: "'s app_state \<Rightarrow> response" where
  "handle_health st = HealthJson (ctx_pki_fingerprint (app_ctx st))"

definition handle_push ::
  "libs \<Rightarrow> 's app_state \<Rightarrow> moment \<Rightarrow> string \<Rightarrow> push_envelope \<Rightarrow> 's \<Rightarrow> 's \<times> response" where
  "handle_push L st mo queue_hex body s =
     (case then_do (s, map_err Validation (queue_id_from_str L queue_hex)) (\<lambda>s q.
             mailbox_push (app_ctx st) mo q body s)
      of (s', r) \<Rightarrow> (s', respond_with EnvelopeAccepted r))"

definition handle_ack ::
  "libs \<Rightarrow> 's app_state \<Rightarrow> moment \<Rightarrow> string \<Rightarrow> ustring \<Rightarrow> 's \<Rightarrow> 's \<times> response" where
  "handle_ack L st mo queue_hex envelope_id s =
     (case then_do (s, map_err Validation (queue_id_from_str L queue_hex)) (\<lambda>s q.
           then_do (s, map_err (\<lambda>_. Validation (Empty ''envelope_id'')) (uuid_parse L envelope_id)) (\<lambda>s i.
             mailbox_ack (app_ctx st) mo q i s))
      of (s', r) \<Rightarrow> (s', respond_with AckAccepted r))"

definition handle_blob_put ::
  "'s app_state \<Rightarrow> string \<Rightarrow> string \<Rightarrow> bytes \<Rightarrow> 's \<Rightarrow> 's \<times> response" where
  "handle_blob_put st bucket key body s =
     (case blob_put (app_ctx st) bucket key body s of (s', r) \<Rightarrow> (s', respond_with (\<lambda>_. Created) r))"

definition handle_blob_get :: "'s app_state \<Rightarrow> string \<Rightarrow> string \<Rightarrow> 's \<Rightarrow> response" where
  "handle_blob_get st bucket key s = respond_with OctetStream (blob_get (app_ctx st) bucket key s)"

text \<open>The limit on blob bodies, \<open>usize::saturating_add\<close>.\<close>

definition blob_body_limit :: "nat \<Rightarrow> core_config \<Rightarrow> nat" where
  "blob_body_limit usize_max cfg = min usize_max (max_blob_bytes cfg + 64 * 1024)"

section \<open>The long-polling pull\<close>

record pull_params =
  pp_limit :: "int option"
  pp_wait :: "nat option"

text \<open>
  The phases of the handler: before the first pull; the first pull was empty and the
  wait is to begin (with its length in seconds); waiting, with the count taken from the
  notifier and the deadline; woken; finished; and panicked.
\<close>

datatype phase =
    PollStart
  | PollEmpty nat
  | PollWaiting nat int
  | PollWoken
  | PollDone "core_error + stored_envelope list"
  | PollPanicked

definition pull_limit :: "'s app_state \<Rightarrow> pull_params \<Rightarrow> int" where
  "pull_limit st params = (case pp_limit params of
       None \<Rightarrow> max_pull_limit (ctx_config (app_ctx st)) | Some n \<Rightarrow> n)"

text \<open>From the start to the first suspension: pull, then decide whether to wait.\<close>

definition poll_first :: "'s app_state \<Rightarrow> pull_params \<Rightarrow> moment \<Rightarrow> queue_id \<Rightarrow> 's \<Rightarrow> phase" where
  "poll_first st params mo q s =
     (case mailbox_pull (app_ctx st) mo q (pull_limit st params) s of
        None \<Rightarrow> PollPanicked
      | Some (Inl e) \<Rightarrow> PollDone (Inl e)
      | Some (Inr es) \<Rightarrow>
          if es = [] then
            (case pp_wait params of
               None \<Rightarrow> PollDone (Inr es)
             | Some w \<Rightarrow> if w > 0 then PollEmpty (min w (app_max_wait st)) else PollDone (Inr es))
          else PollDone (Inr es))"

text \<open>\<open>wait_for_envelope\<close> creates its future.\<close>

definition poll_subscribe :: "nat \<Rightarrow> moment \<Rightarrow> queue_id \<Rightarrow> 'db turso \<Rightarrow> phase \<times> 'db turso" where
  "poll_subscribe dur mo q s = (case turso_subscribe q s of
     (s', ticket) \<Rightarrow> (PollWaiting ticket (now_ms mo + 1000 * int dur), s'))"

text \<open>After a wake-up: pull again and answer.\<close>

definition poll_again :: "'s app_state \<Rightarrow> pull_params \<Rightarrow> moment \<Rightarrow> queue_id \<Rightarrow> 's \<Rightarrow> phase" where
  "poll_again st params mo q s =
     (case mailbox_pull (app_ctx st) mo q (pull_limit st params) s of
        None \<Rightarrow> PollPanicked | Some r \<Rightarrow> PollDone r)"

text \<open>
  What other requests do between two suspension points of theirs: a push up to the end of its
  \<open>INSERT\<close> (the checks of \<open>mailbox_push\<close> included), its wake-up, the two statements of an
  acknowledgement, and the deletion of a sweep.
\<close>

datatype mail_step =
    Insert moment queue_id push_envelope
  | Notify queue_id
  | Mark queue_id envelope_id int
  | Receipt queue_id envelope_id int
  | Delete int

definition insert_ctx :: "libs \<Rightarrow> 'db engine \<Rightarrow> 'db turso ctx \<Rightarrow> 'db turso ctx" where
  "insert_ctx L E ctx = ctx\<lparr>ctx_mailbox := (turso_repo L E)\<lparr>mb_push := turso_insert L E\<rparr>\<rparr>"

fun mail_exec :: "libs \<Rightarrow> 'db engine \<Rightarrow> 'db turso ctx \<Rightarrow> mail_step \<Rightarrow> 'db turso \<Rightarrow> 'db turso" where
  "mail_exec L E ctx (Insert mo q req) s = fst (mailbox_push (insert_ctx L E ctx) mo q req s)"
| "mail_exec L E ctx (Notify q) s = notify_waiters q s"
| "mail_exec L E ctx (Mark q i at_ms) s = fst (turso_mark L E q i at_ms s)"
| "mail_exec L E ctx (Receipt q i at_ms) s = fst (turso_receipt L E q i at_ms s)"
| "mail_exec L E ctx (Delete now) s = fst (turso_expire E now s)"

text \<open>
  The events: the steps of the handler with the moments they take place at, and the steps of
  anybody else. A wait that is both notified and past its deadline counts as woken: the timeout
  polls its future first.
\<close>

datatype poll_event =
    First moment
  | Subscribe moment
  | Wake
  | Expire moment
  | Again moment
  | Other mail_step

inductive poll_step ::
  "libs \<Rightarrow> 'db engine \<Rightarrow> 'db turso app_state \<Rightarrow> pull_params \<Rightarrow> queue_id \<Rightarrow>
   phase \<times> 'db turso \<Rightarrow> poll_event \<Rightarrow> phase \<times> 'db turso \<Rightarrow> bool"
  for L E st params q where
    first: "poll_step L E st params q (PollStart, s) (First mo) (poll_first st params mo q s, s)"
  | subscribe: "poll_step L E st params q (PollEmpty dur, s) (Subscribe mo) (poll_subscribe dur mo q s)"
  | wake: "turso_notified q ticket s \<Longrightarrow>
      poll_step L E st params q (PollWaiting ticket deadline, s) Wake (PollWoken, s)"
  | expired: "\<not> turso_notified q ticket s \<Longrightarrow> deadline \<le> now_ms mo \<Longrightarrow>
      poll_step L E st params q (PollWaiting ticket deadline, s) (Expire mo) (PollDone (Inr []), s)"
  | again: "poll_step L E st params q (PollWoken, s) (Again mo) (poll_again st params mo q s, s)"
  | other: "poll_step L E st params q (ph, s) (Other op) (ph, mail_exec L E (app_ctx st) op s)"

inductive poll_trace ::
  "libs \<Rightarrow> 'db engine \<Rightarrow> 'db turso app_state \<Rightarrow> pull_params \<Rightarrow> queue_id \<Rightarrow>
   phase \<times> 'db turso \<Rightarrow> poll_event list \<Rightarrow> phase \<times> 'db turso \<Rightarrow> bool"
  for L E st params q where
    start: "poll_trace L E st params q c [] c"
  | extend: "poll_trace L E st params q c evs c' \<Longrightarrow> poll_step L E st params q c' ev c'' \<Longrightarrow>
      poll_trace L E st params q c (evs @ [ev]) c''"

text \<open>Handler start: the queue identifier is parsed first.\<close>

definition handle_pull_start :: "libs \<Rightarrow> string \<Rightarrow> core_error + queue_id" where
  "handle_pull_start L queue_hex = map_err Validation (queue_id_from_str L queue_hex)"

definition handle_pull_response :: "core_error + stored_envelope list \<Rightarrow> response" where
  "handle_pull_response r = respond_with PullResponse r"

section \<open>The admin listener\<close>

datatype ip_addr = V4 u8 u8 u8 u8 | V6 "128 word"

text \<open>\<open>IpAddr::is_loopback\<close>.\<close>

fun is_loopback :: "ip_addr \<Rightarrow> bool" where
  "is_loopback (V4 a _ _ _) = (a = 127)"
| "is_loopback (V6 w) = (w = 1)"

text \<open>The loop over the addresses a bind string resolves to.\<close>

fun loopback_loop :: "bool \<Rightarrow> ip_addr list \<Rightarrow> bool" where
  "loopback_loop any [] = any"
| "loopback_loop any (a # as) = (if \<not> is_loopback a then False else loopback_loop True as)"

definition is_loopback_bind :: "string + ip_addr list \<Rightarrow> bool" where
  "is_loopback_bind addrs = (case addrs of Inl _ \<Rightarrow> False | Inr as \<Rightarrow> loopback_loop False as)"

lemma is_loopback_bind_iff:
  "is_loopback_bind addrs \<longleftrightarrow> (\<exists>as. addrs = Inr as \<and> as \<noteq> [] \<and> (\<forall>a \<in> set as. is_loopback a))"
proof -
  have "loopback_loop any as \<longleftrightarrow> (any \<or> as \<noteq> []) \<and> (\<forall>a \<in> set as. is_loopback a)" for any as
    by (induction as arbitrary: any) auto
  then show ?thesis by (auto simp: is_loopback_bind_def split: sum.splits)
qed

end
