(* ===== verification/Peer_Trust.thy ===== *)
theory Peer_Trust
  imports Node_Core Sql
begin

text \<open>
  Which peers the node accepts: the registry \<open>crates/buh-data/src/peer_trust.rs\<close> over
  the datastore, the live snapshot \<open>TrustStore\<close> of \<open>crates/buh-api/src/tls.rs\<close> that the
  certificate verifiers read, the admin handlers \<open>crates/buh-api/src/admin.rs\<close> that
  change both, and the periodic refresh of \<open>serve.rs\<close>.

  Lower-casing a character is the function \<open>lower\<close>, the table of the Unicode standard
  in the Rust library; \<open>lower_laws\<close> states what it does on ASCII.
\<close>

section \<open>Fingerprints\<close>

definition normalize_fp :: "(nat \<Rightarrow> nat list) \<Rightarrow> ustring \<Rightarrow> ustring" where
  "normalize_fp lower fp = concat (map lower (filter (\<lambda>c. c \<noteq> 58) (trim fp)))"

definition lower_laws :: "(nat \<Rightarrow> nat list) \<Rightarrow> bool" where
  "lower_laws lower \<longleftrightarrow>
     (\<forall>c < 128. lower c = [if 65 \<le> c \<and> c \<le> 90 then c + 32 else c])"

section \<open>The registry\<close>

record trusted_peer =
  tp_fingerprint :: ustring
  tp_note :: "ustring option"
  tp_trusted_at :: int

record 's registry_port =
  reg_trust :: "ustring \<Rightarrow> ustring option \<Rightarrow> int \<Rightarrow> 's \<Rightarrow> 's \<times> (core_error + unit)"
  reg_distrust :: "ustring \<Rightarrow> 's \<Rightarrow> 's \<times> (core_error + bool)"
  reg_is_trusted :: "ustring \<Rightarrow> 's \<Rightarrow> core_error + bool"
  reg_list :: "'s \<Rightarrow> core_error + trusted_peer list"

abbreviation repo_err :: "string + 'a \<Rightarrow> core_error + 'a" where
  "repo_err m \<equiv> map_err Repo m"

definition registry_execute :: "'db engine \<Rightarrow> sql_stmt \<Rightarrow> 'db \<Rightarrow> 'db \<times> (core_error + nat)" where
  "registry_execute E st db = map_prod id (map_err Repo) (eng_execute E st db)"

definition trust :: "(nat \<Rightarrow> nat list) \<Rightarrow> 'db engine \<Rightarrow> ustring \<Rightarrow> ustring option \<Rightarrow> int \<Rightarrow> 'db \<Rightarrow> 'db \<times> (core_error + unit)" where
  "trust lower E fp note now db =
     (let fp = normalize_fp lower fp in
      then_do (db, repo_err (eng_connect E db)) (\<lambda>db _.
      then_do (registry_execute E (UpsertPeer fp note now) db) (\<lambda>db _. (db, Inr ()))))"

definition distrust :: "(nat \<Rightarrow> nat list) \<Rightarrow> 'db engine \<Rightarrow> ustring \<Rightarrow> 'db \<Rightarrow> 'db \<times> (core_error + bool)" where
  "distrust lower E fp db =
     (let fp = normalize_fp lower fp in
      then_do (db, repo_err (eng_connect E db)) (\<lambda>db _.
      then_do (registry_execute E (DeletePeer fp) db) (\<lambda>db affected. (db, Inr (affected > 0)))))"

text \<open>Only the first \<open>next\<close> is called: a row, the end, or a failure.\<close>

definition is_trusted :: "(nat \<Rightarrow> nat list) \<Rightarrow> 'db engine \<Rightarrow> ustring \<Rightarrow> 'db \<Rightarrow> core_error + bool" where
  "is_trusted lower E fp db =
     (let fp = normalize_fp lower fp in
      and_then (repo_err (eng_connect E db)) (\<lambda>_.
      and_then (repo_err (eng_query E (SelectPeer fp) db)) (\<lambda>(rows, fin).
        case rows of
          _ # _ \<Rightarrow> Inr True
        | [] \<Rightarrow> (case fin of None \<Rightarrow> Inr False | Some e \<Rightarrow> Inl (Repo e)))))"

definition peer_of_row :: "libs \<Rightarrow> 'db engine \<Rightarrow> sql_row \<Rightarrow> core_error + trusted_peer" where
  "peer_of_row L E row =
     and_then (and_then (repo_err (eng_get_value E row 0)) (\<lambda>v. case v of
         Text s \<Rightarrow> Inr s | other \<Rightarrow> Inl (Repo (''ca_fingerprint: '' @ eng_debug E other)))) (\<lambda>fp.
     and_then (and_then (repo_err (eng_get_value E row 1)) (\<lambda>v. case v of
         Text s \<Rightarrow> Inr (Some s) | Null \<Rightarrow> Inr None | other \<Rightarrow> Inl (Repo (''note: '' @ eng_debug E other)))) (\<lambda>note.
     and_then (and_then (repo_err (eng_get_value E row 2)) (\<lambda>v. case v of
         Integer ms \<Rightarrow> ok_or (Repo (''bad trusted_at: '' @ show_int ms)) (from_timestamp_millis L ms)
       | other \<Rightarrow> Inl (Repo (''trusted_at: '' @ eng_debug E other)))) (\<lambda>trusted_at.
       Inr \<lparr>tp_fingerprint = fp, tp_note = note, tp_trusted_at = trusted_at\<rparr>)))"

fun collect_peers :: "libs \<Rightarrow> 'db engine \<Rightarrow> sql_row list \<Rightarrow> string option \<Rightarrow> core_error + trusted_peer list" where
  "collect_peers L E [] None = Inr []"
| "collect_peers L E [] (Some e) = Inl (Repo e)"
| "collect_peers L E (row # rows) fin =
     and_then (peer_of_row L E row) (\<lambda>p.
     and_then (collect_peers L E rows fin) (\<lambda>ps. Inr (p # ps)))"

definition list_trusted :: "libs \<Rightarrow> 'db engine \<Rightarrow> 'db \<Rightarrow> core_error + trusted_peer list" where
  "list_trusted L E db =
     and_then (repo_err (eng_connect E db)) (\<lambda>_.
     and_then (repo_err (eng_query E ListPeers db)) (\<lambda>(rows, fin).
       collect_peers L E rows fin))"

definition turso_registry :: "libs \<Rightarrow> (nat \<Rightarrow> nat list) \<Rightarrow> 'db engine \<Rightarrow> 'db registry_port" where
  "turso_registry L lower E = \<lparr>reg_trust = trust lower E, reg_distrust = distrust lower E,
     reg_is_trusted = is_trusted lower E, reg_list = list_trusted L E\<rparr>"

section \<open>The live snapshot and the admin handlers\<close>

text \<open>The \<open>HashSet<String>\<close> behind the lock.\<close>

type_synonym trust_store = "ustring set"

definition trust_store_new :: trust_store where
  "trust_store_new = {}"

definition from_fingerprints :: "ustring list \<Rightarrow> trust_store" where
  "from_fingerprints fps = set fps"

definition trust_store_replace :: "ustring list \<Rightarrow> trust_store \<Rightarrow> trust_store" where
  "trust_store_replace fps _ = set fps"

definition trust_store_contains :: "trust_store \<Rightarrow> ustring \<Rightarrow> bool" where
  "trust_store_contains T fp \<longleftrightarrow> fp \<in> T"

text \<open>The state of the admin API: the registry's store and the live snapshot.\<close>

record 's admin_state =
  adm_store :: 's
  adm_live :: trust_store

definition refresh_live :: "'s registry_port \<Rightarrow> 's admin_state \<Rightarrow> 's admin_state \<times> (core_error + unit)" where
  "refresh_live R a = (case reg_list R (adm_store a) of
       Inl e \<Rightarrow> (a, Inl e)
     | Inr peers \<Rightarrow> (a\<lparr>adm_live := trust_store_replace (map tp_fingerprint peers) (adm_live a)\<rparr>, Inr ()))"

text \<open>The periodic refresh logs a failure and keeps the snapshot.\<close>

definition refresh_trust :: "'s registry_port \<Rightarrow> 's admin_state \<Rightarrow> 's admin_state" where
  "refresh_trust R a = (case reg_list R (adm_store a) of
       Inl e \<Rightarrow> a
     | Inr peers \<Rightarrow> a\<lparr>adm_live := trust_store_replace (map tp_fingerprint peers) (adm_live a)\<rparr>)"

definition on_store :: "('s \<Rightarrow> 's \<times> 'r) \<Rightarrow> 's admin_state \<Rightarrow> 's admin_state \<times> 'r" where
  "on_store f a = (case f (adm_store a) of (s, r) \<Rightarrow> (a\<lparr>adm_store := s\<rparr>, r))"

definition trust_peer ::
  "'s registry_port \<Rightarrow> ustring \<Rightarrow> ustring option \<Rightarrow> int \<Rightarrow> 's admin_state \<Rightarrow> 's admin_state \<times> (core_error + ustring)" where
  "trust_peer R fp note now a =
     then_do (on_store (reg_trust R fp note now) a) (\<lambda>a _.
     then_do (refresh_live R a) (\<lambda>a _. (a, Inr fp)))"

definition distrust_peer ::
  "'s registry_port \<Rightarrow> ustring \<Rightarrow> 's admin_state \<Rightarrow> 's admin_state \<times> (core_error + bool)" where
  "distrust_peer R fp a =
     then_do (on_store (reg_distrust R fp) a) (\<lambda>a removed.
     then_do (refresh_live R a) (\<lambda>a _. (a, Inr removed)))"

definition admin_info :: "'s registry_port \<Rightarrow> string \<Rightarrow> 's admin_state \<Rightarrow> core_error + (string \<times> nat)" where
  "admin_info R own_fp a = and_then (reg_list R (adm_store a)) (\<lambda>peers. Inr (own_fp, length peers))"

definition list_peers :: "'s registry_port \<Rightarrow> 's admin_state \<Rightarrow> core_error + (ustring \<times> ustring option \<times> int) list" where
  "list_peers R a = and_then (reg_list R (adm_store a)) (\<lambda>peers.
     Inr (map (\<lambda>p. (tp_fingerprint p, tp_note p, tp_trusted_at p)) peers))"

section \<open>The contract of a registry\<close>

text \<open>A registry is a set of fingerprints in canonical form.\<close>

locale peer_registry =
  fixes env :: bool
    and reg :: "'s registry_port"
    and inv :: "'s \<Rightarrow> bool"
    and trusted :: "'s \<Rightarrow> ustring set"
    and canon :: "ustring \<Rightarrow> ustring"
  assumes trust_law: "env \<Longrightarrow> inv s \<Longrightarrow> reg_trust reg fp note now s = (s', ru) \<Longrightarrow>
      inv s' \<and> trusted s' = (if is_ok ru then insert (canon fp) (trusted s) else trusted s)"
    and distrust_law: "env \<Longrightarrow> inv s \<Longrightarrow> reg_distrust reg fp s = (s', rb) \<Longrightarrow>
      inv s' \<and> trusted s' = (if is_ok rb then trusted s - {canon fp} else trusted s)
      \<and> (\<forall>b. rb = Inr b \<longrightarrow> b = (canon fp \<in> trusted s))"
    and is_trusted_law: "env \<Longrightarrow> inv s \<Longrightarrow> reg_is_trusted reg fp s = Inr b \<Longrightarrow> b = (canon fp \<in> trusted s)"
    and list_law: "env \<Longrightarrow> inv s \<Longrightarrow> reg_list reg s = Inr ps \<Longrightarrow>
      set (map tp_fingerprint ps) = trusted s \<and> distinct (map tp_fingerprint ps)
      \<and> sorted_wrt (\<lambda>a b. tp_trusted_at a \<ge> tp_trusted_at b) ps"
begin

lemma refresh_live_ok:
  assumes "env" "inv (adm_store a)" "refresh_live reg a = (a', r)"
  shows "adm_store a' = adm_store a \<and> adm_live a' = (if is_ok r then trusted (adm_store a) else adm_live a)"
  using assms list_law [of "adm_store a"]
  by (auto simp: refresh_live_def trust_store_replace_def split: sum.splits)

lemma refresh_trust_ok:
  assumes "env" "inv (adm_store a)"
  shows "adm_store (refresh_trust reg a) = adm_store a
    \<and> (adm_live (refresh_trust reg a) = trusted (adm_store a) \<or> adm_live (refresh_trust reg a) = adm_live a)"
  using assms list_law [of "adm_store a"]
  by (auto simp: refresh_trust_def trust_store_replace_def split: sum.splits)

lemma trust_peer_cases:
  assumes "env" "inv (adm_store a)" "trust_peer reg fp note now a = (a', r)"
  shows "inv (adm_store a') \<and>
    (case r of
       Inr shown \<Rightarrow> shown = fp \<and> trusted (adm_store a') = insert (canon fp) (trusted (adm_store a))
         \<and> adm_live a' = trusted (adm_store a')
     | Inl _ \<Rightarrow> adm_live a' = adm_live a
         \<and> (trusted (adm_store a') = trusted (adm_store a)
            \<or> trusted (adm_store a') = insert (canon fp) (trusted (adm_store a))))"
  using assms(3) unfolding trust_peer_def
proof (cases rule: then_do_cases)
  case (err e)
  then show ?thesis using assms trust_law by (auto simp: on_store_def split: prod.splits)
next
  case (ok a1 u)
  then have a1: "inv (adm_store a1)" "trusted (adm_store a1) = insert (canon fp) (trusted (adm_store a))"
      "adm_live a1 = adm_live a"
    using assms trust_law by (auto simp: on_store_def split: prod.splits)
  from ok(2) show ?thesis
  proof (cases rule: then_do_cases)
    case (err e)
    from refresh_live_ok [OF assms(1) a1(1) err(1)] show ?thesis using a1 err(2) by simp
  next
    case (ok a2 u2)
    then have a': "a' = a2" "adm_store a2 = adm_store a1" "adm_live a2 = trusted (adm_store a1)"
      using refresh_live_ok [OF assms(1) a1(1) ok(1)] by simp_all
    show ?thesis using a1 a' ok(2) by clarsimp
  qed
qed

lemma distrust_peer_cases:
  assumes "env" "inv (adm_store a)" "distrust_peer reg fp a = (a', r)"
  shows "inv (adm_store a') \<and>
    (case r of
       Inr removed \<Rightarrow> removed = (canon fp \<in> trusted (adm_store a))
         \<and> trusted (adm_store a') = trusted (adm_store a) - {canon fp}
         \<and> adm_live a' = trusted (adm_store a')
     | Inl _ \<Rightarrow> adm_live a' = adm_live a
         \<and> (trusted (adm_store a') = trusted (adm_store a)
            \<or> trusted (adm_store a') = trusted (adm_store a) - {canon fp}))"
  using assms(3) unfolding distrust_peer_def
proof (cases rule: then_do_cases)
  case (err e)
  then show ?thesis using assms distrust_law by (auto simp: on_store_def split: prod.splits)
next
  case (ok a1 removed)
  obtain s1 where s1: "reg_distrust reg fp (adm_store a) = (s1, Inr removed)" "a1 = a\<lparr>adm_store := s1\<rparr>"
    using ok(1) by (auto simp: on_store_def split: prod.splits)
  from distrust_law [OF assms(1,2) s1(1)] have
      a1: "inv (adm_store a1)" "trusted (adm_store a1) = trusted (adm_store a) - {canon fp}"
      "adm_live a1 = adm_live a" "removed = (canon fp \<in> trusted (adm_store a))"
    using s1(2) by simp_all
  from ok(2) show ?thesis
  proof (cases rule: then_do_cases)
    case (err e)
    from refresh_live_ok [OF assms(1) a1(1) err(1)] show ?thesis using a1 err(2) by simp
  next
    case (ok a2 u2)
    then have a': "a' = a2" "adm_store a2 = adm_store a1" "adm_live a2 = trusted (adm_store a1)"
      using refresh_live_ok [OF assms(1) a1(1) ok(1)] by simp_all
    show ?thesis using a1 a' ok(2) by clarsimp
  qed
qed

end

section \<open>The datastore registry keeps the contract\<close>

definition registry_env :: "libs \<Rightarrow> 'db engine \<Rightarrow> ('db \<Rightarrow> tables) \<Rightarrow> bool" where
  "registry_env L E view \<longleftrightarrow> chrono_laws L \<and> sql_sound E view"

definition registry_inv :: "('db \<Rightarrow> tables) \<Rightarrow> 'db \<Rightarrow> bool" where
  "registry_inv view db \<longleftrightarrow> distinct (map pr_fingerprint (t_peers (view db)))"

definition registry_trusted :: "('db \<Rightarrow> tables) \<Rightarrow> 'db \<Rightarrow> ustring set" where
  "registry_trusted view db = pr_fingerprint ` set (t_peers (view db))"

lemma upsert_peer_fingerprints:
  "map pr_fingerprint (upsert_peer fp note t rows)
    = (if fp \<in> pr_fingerprint ` set rows then map pr_fingerprint rows else map pr_fingerprint rows @ [fp])"
  by (simp add: upsert_peer_def comp_def if_distrib cong: if_cong)

lemma registry_execute_ok:
  assumes "sql_sound E view" "registry_execute E st db = (db', Inr n)"
  shows "sql_exec st (view db) = Inr (view db', n)"
  using assms sql_soundD(1) [OF assms(1), of st db]
  by (cases "eng_execute E st db") (auto simp: registry_execute_def)

lemma registry_execute_err:
  assumes "sql_sound E view" "registry_execute E st db = (db', Inl e)"
  shows "view db' = view db"
  using assms sql_soundD(2) [OF assms(1), of st db]
  by (cases "eng_execute E st db"; cases "snd (eng_execute E st db)") (auto simp: registry_execute_def)

lemma turso_trust_law:
  assumes env: "registry_env L E view" and inv: "registry_inv view db" and tr: "trust lower E fp note now db = (db', r)"
  shows "registry_inv view db' \<and> registry_trusted view db'
    = (if is_ok r then insert (normalize_fp lower fp) (registry_trusted view db) else registry_trusted view db)"
  using tr unfolding trust_def Let_def
proof (cases rule: then_do_cases)
  case err
  then show ?thesis using inv by simp
next
  case (ok db0 u)
  then have db0: "db0 = db" by simp
  have sound: "sql_sound E view" using env by (simp add: registry_env_def)
  from ok(2) show ?thesis
  proof (cases rule: then_do_cases)
    case (err e)
    from registry_execute_err [OF sound err(1)] show ?thesis
      using inv err(2) by (simp add: db0 registry_inv_def registry_trusted_def)
  next
    case (ok db1 n)
    have "view db' = (view db)\<lparr>t_peers := upsert_peer (normalize_fp lower fp) note now (t_peers (view db))\<rparr>" "is_ok r"
      using registry_execute_ok [OF sound ok(1)] ok(2) by (auto simp: db0)
    moreover have "pr_fingerprint ` set (upsert_peer (normalize_fp lower fp) note now (t_peers (view db)))
        = insert (normalize_fp lower fp) (pr_fingerprint ` set (t_peers (view db)))"
      using arg_cong [OF upsert_peer_fingerprints [of "normalize_fp lower fp" "note" now "t_peers (view db)"], of set]
      by (auto split: if_splits)
    ultimately show ?thesis using inv
      by (simp add: registry_inv_def registry_trusted_def upsert_peer_fingerprints)
  qed
qed

lemma turso_distrust_law:
  assumes env: "registry_env L E view" and inv: "registry_inv view db" and tr: "distrust lower E fp db = (db', r)"
  shows "registry_inv view db' \<and> registry_trusted view db'
      = (if is_ok r then registry_trusted view db - {normalize_fp lower fp} else registry_trusted view db)
    \<and> (\<forall>b. r = Inr b \<longrightarrow> b = (normalize_fp lower fp \<in> registry_trusted view db))"
  using tr unfolding distrust_def Let_def
proof (cases rule: then_do_cases)
  case err
  then show ?thesis using inv by simp
next
  case (ok db0 u)
  then have db0: "db0 = db" by simp
  have sound: "sql_sound E view" using env by (simp add: registry_env_def)
  from ok(2) show ?thesis
  proof (cases rule: then_do_cases)
    case (err e)
    from registry_execute_err [OF sound err(1)] show ?thesis
      using inv err(2) by (simp add: db0 registry_inv_def registry_trusted_def)
  next
    case (ok db1 n)
    let ?rows = "t_peers (view db)" and ?fp = "normalize_fp lower fp"
    have "view db' = (view db)\<lparr>t_peers := filter (\<lambda>r. pr_fingerprint r \<noteq> ?fp) ?rows\<rparr>"
        "r = Inr (length (filter (\<lambda>r. pr_fingerprint r = ?fp) ?rows) > 0)"
      using registry_execute_ok [OF sound ok(1)] ok(2) by (auto simp: db0)
    moreover have "distinct (map pr_fingerprint (filter (\<lambda>r. pr_fingerprint r \<noteq> ?fp) ?rows))"
      using inv unfolding registry_inv_def by (rule distinct_map_filter)
    ultimately show ?thesis
      by (auto simp: registry_inv_def registry_trusted_def filter_empty_conv image_iff) metis
  qed
qed

lemma turso_is_trusted_law:
  assumes env: "registry_env L E view" and q: "is_trusted lower E fp db = Inr b"
  shows "b = (normalize_fp lower fp \<in> registry_trusted view db)"
proof -
  have sound: "sql_sound E view" using env by (simp add: registry_env_def)
  obtain rows fin where rows: "eng_query E (SelectPeer (normalize_fp lower fp)) db = Inr (rows, fin)"
    using q by (auto simp: is_trusted_def Let_def)
  with q have b: "b = (rows \<noteq> [])" "rows = [] \<Longrightarrow> fin = None"
    by (cases rows; cases fin; auto simp: is_trusted_def Let_def)+
  have "normalize_fp lower fp \<in> registry_trusted view db" if "rows \<noteq> []"
  proof -
    obtain rest where "rows @ rest = map (\<lambda>_. [Integer 1]) (filter (\<lambda>r. pr_fingerprint r = normalize_fp lower fp) (t_peers (view db)))"
      using sql_soundD(5) [OF sound rows] by auto
    then have "filter (\<lambda>r. pr_fingerprint r = normalize_fp lower fp) (t_peers (view db)) \<noteq> []" using that by auto
    then show ?thesis by (force simp: registry_trusted_def filter_empty_conv image_iff)
  qed
  moreover have "normalize_fp lower fp \<notin> registry_trusted view db" if "rows = []"
    using sql_soundD(3) [OF sound, of "SelectPeer (normalize_fp lower fp)" db rows] rows b(2) [OF that] that
    by (auto simp: registry_trusted_def filter_empty_conv)
  ultimately show ?thesis using b(1) by blast
qed

lemma peer_of_row_columns:
  assumes "registry_env L E view" "peer_of_row L E (peer_columns r) = Inr p"
  shows "p = \<lparr>tp_fingerprint = pr_fingerprint r, tp_note = pr_note r, tp_trusted_at = pr_trusted_at r\<rparr>"
  using assms sql_soundD(4) [of E view _ "peer_columns r"] chrono_keeps [of L]
  by (auto simp: registry_env_def peer_of_row_def peer_columns_def split: option.splits)

lemma collect_peers_ok:
  assumes "registry_env L E view" "collect_peers L E (map peer_columns rows) fin = Inr ps"
  shows "fin = None \<and> ps = map (\<lambda>r. \<lparr>tp_fingerprint = pr_fingerprint r, tp_note = pr_note r, tp_trusted_at = pr_trusted_at r\<rparr>) rows"
  using assms(2)
proof (induction rows arbitrary: ps)
  case Nil
  then show ?case by (cases fin) auto
next
  case (Cons r rows)
  then show ?case using peer_of_row_columns [OF assms(1)] by auto
qed

lemma turso_list_law:
  assumes env: "registry_env L E view" and inv: "registry_inv view db" and ls: "list_trusted L E db = Inr ps"
  shows "set (map tp_fingerprint ps) = registry_trusted view db \<and> distinct (map tp_fingerprint ps)
    \<and> sorted_wrt (\<lambda>a b. tp_trusted_at a \<ge> tp_trusted_at b) ps"
proof -
  have sound: "sql_sound E view" using env by (simp add: registry_env_def)
  from ls obtain rows fin where q: "eng_query E ListPeers db = Inr (rows, fin)" and ps: "collect_peers L E rows fin = Inr ps"
    by (auto simp: list_trusted_def)
  have "fin = None" using ps by (induction L E rows fin arbitrary: ps rule: collect_peers.induct) auto
  then obtain prs where prs: "rows = map peer_columns prs" "mset prs = mset (t_peers (view db))"
      "sorted_wrt (\<lambda>a b. pr_trusted_at a \<ge> pr_trusted_at b) prs"
    using sql_soundD(3) [OF sound, of ListPeers db rows] q by auto
  have "ps = map (\<lambda>r. \<lparr>tp_fingerprint = pr_fingerprint r, tp_note = pr_note r, tp_trusted_at = pr_trusted_at r\<rparr>) prs"
    using collect_peers_ok [OF env] ps prs(1) by blast
  moreover have "set prs = set (t_peers (view db))" using prs(2) by (rule mset_eq_setD)
  moreover have "distinct (map pr_fingerprint prs)"
    using inv prs(2) unfolding registry_inv_def by (metis mset_eq_imp_distinct_iff mset_map)
  ultimately show ?thesis using prs(3)
    by (simp add: registry_trusted_def comp_def sorted_wrt_map image_image)
qed

interpretation turso_peers: peer_registry "registry_env L E view" "turso_registry L lower E" "registry_inv view"
    "registry_trusted view" "normalize_fp lower" for L lower E view
  by (unfold_locales, unfold turso_registry_def registry_port.simps)
    (rule turso_trust_law turso_distrust_law turso_is_trusted_law turso_list_law; assumption)+

section \<open>Normal form\<close>

text \<open>A lowercase hexadecimal string is its own normal form.\<close>

lemma trim_id: "(\<And>c. c \<in> set s \<Longrightarrow> \<not> is_whitespace c) \<Longrightarrow> trim s = s"
proof -
  assume plain: "\<And>c. c \<in> set s \<Longrightarrow> \<not> is_whitespace c"
  have "dropWhile is_whitespace xs = xs" if "set xs = set s" for xs
    using plain that by (cases xs) auto
  then show "trim s = s" by (simp add: trim_def)
qed

lemma normalize_plain:
  assumes "lower_laws lower" "\<And>c. c \<in> set s \<Longrightarrow> 48 \<le> c \<and> c < 58 \<or> 97 \<le> c \<and> c < 123"
  shows "normalize_fp lower s = s"
proof -
  have "trim s = s"
  proof (rule trim_id)
    fix c assume "c \<in> set s"
    then show "\<not> is_whitespace c" using assms(2) [of c] by (auto simp: is_whitespace_def)
  qed
  moreover have "filter (\<lambda>c. c \<noteq> 58) s = s" using assms(2) by (force simp: filter_id_conv)
  moreover have "concat (map lower s) = s"
    using assms(2)
  proof (induction s)
    case (Cons c s)
    have "lower c = [c]" using assms(1) Cons.prems [of c] by (auto simp: lower_laws_def)
    then show ?case using Cons by simp
  qed simp
  ultimately show ?thesis by (simp add: normalize_fp_def)
qed

text \<open>The bytes of hexadecimal digits.\<close>

lemma ustr_hex_range:
  assumes "set s \<subseteq> set ''0123456789abcdef''" "c \<in> set (ustr s)"
  shows "48 \<le> c \<and> c < 58 \<or> 97 \<le> c \<and> c < 123"
proof -
  obtain d where "d \<in> set ''0123456789abcdef''" "c = of_char d" using assms by (auto simp: ustr_def)
  then show ?thesis by auto
qed

lemma normalize_hex:
  "lower_laws lower \<Longrightarrow> hex_laws L \<Longrightarrow> normalize_fp lower (ustr (hex_encode L b)) = ustr (hex_encode L b)"
  by (rule normalize_plain) (use ustr_hex_range hex_encode_digits in blast)+

end
