(* ===== verification/Pinned_Tls.thy ===== *)
theory Pinned_Tls
  imports Peer_Trust
begin

text \<open>
  The transport identity of a node, \<open>crates/buh-api/src/tls.rs\<close>: the decision whether to
  accept a peer's certificate chain, the two verifiers that make it, the server leaf that
  rotates in place, and the assembly of the TLS configurations.

  Parsing a certificate, its fields and its signature check are the crate
  \<open>x509_parser\<close>, the record \<open>x509\<close> over an abstract type \<open>'c\<close> of certificates; loading a
  private key and building the rustls configurations are the record \<open>rustls\<close>.
\<close>

section \<open>Certificates\<close>

record 'c x509 =
  x_from_der :: "bytes \<Rightarrow> 'c option"
  x_basic_constraints :: "'c \<Rightarrow> string + bool option"
  x_public_key :: "'c \<Rightarrow> bytes"
  x_verify_signature :: "'c \<Rightarrow> bytes option \<Rightarrow> bool"
  x_not_before :: "'c \<Rightarrow> int"
  x_not_after :: "'c \<Rightarrow> int"

datatype tls_error = General string

text \<open>Lowercase hexadecimal SHA-256 of the certificate, the value that is pinned.\<close>

definition fingerprint :: "libs \<Rightarrow> bytes \<Rightarrow> string" where
  "fingerprint L ca_der = hex_encode L (sha256 L ca_der)"

definition check_validity :: "'c x509 \<Rightarrow> 'c \<Rightarrow> int \<Rightarrow> string \<Rightarrow> tls_error + unit" where
  "check_validity X cert now_secs what =
     (if now_secs < x_not_before X cert then Inl (General (what @ '' not yet valid''))
      else if now_secs > x_not_after X cert then Inl (General (what @ '' expired''))
      else Inr ())"

text \<open>\<open>i64::try_from(u64).unwrap_or(i64::MAX)\<close>.\<close>

definition u64_to_i64 :: "u64 \<Rightarrow> int" where
  "u64_to_i64 n = (if uint n \<le> I64_MAX then uint n else I64_MAX)"

definition verify_pinned_chain ::
  "libs \<Rightarrow> 'c x509 \<Rightarrow> bytes \<Rightarrow> bytes list \<Rightarrow> u64 \<Rightarrow> trust_store \<Rightarrow> tls_error + unit" where
  "verify_pinned_chain L X end_entity intermediates now trust_set =
     and_then (if intermediates = [] then Inl (General ''peer presented no issuing CA'')
               else Inr (last intermediates)) (\<lambda>ca_der.
     if \<not> trust_store_contains trust_set (ustr (fingerprint L ca_der))
     then Inl (General ''peer CA is not trusted (unpinned)'')
     else
       and_then (ok_or (General ''malformed CA cert'') (x_from_der X ca_der)) (\<lambda>ca.
       and_then (ok_or (General ''malformed leaf cert'') (x_from_der X end_entity)) (\<lambda>leaf.
       and_then (case x_basic_constraints X ca of
           Inr (Some is_ca) \<Rightarrow> (if is_ca then Inr () else Inl (General ''pinned cert is not a CA''))
         | _ \<Rightarrow> Inl (General ''pinned cert is not a CA'')) (\<lambda>_.
       and_then (if x_verify_signature X ca None then Inr ()
                 else Inl (General ''CA self-signature invalid'')) (\<lambda>_.
       and_then (if x_verify_signature X leaf (Some (x_public_key X ca)) then Inr ()
                 else Inl (General ''leaf does not chain to pinned CA'')) (\<lambda>_.
       let now_secs = u64_to_i64 now in
       and_then (check_validity X leaf now_secs ''leaf'') (\<lambda>_.
       and_then (check_validity X ca now_secs ''CA'') (\<lambda>_. Inr ()))))))))"

section \<open>The verifiers\<close>

text \<open>Both hold the shared snapshot; neither uses anything else of the handshake.\<close>

definition verify_client_cert ::
  "libs \<Rightarrow> 'c x509 \<Rightarrow> trust_store \<Rightarrow> bytes \<Rightarrow> bytes list \<Rightarrow> u64 \<Rightarrow> tls_error + unit" where
  "verify_client_cert L X trust_set end_entity intermediates now =
     and_then (verify_pinned_chain L X end_entity intermediates now trust_set) (\<lambda>_. Inr ())"

definition verify_server_cert ::
  "libs \<Rightarrow> 'c x509 \<Rightarrow> trust_store \<Rightarrow> bytes \<Rightarrow> bytes list \<Rightarrow> string \<Rightarrow> bytes \<Rightarrow> u64 \<Rightarrow> tls_error + unit" where
  "verify_server_cert L X trust_set end_entity intermediates server_name ocsp now =
     and_then (verify_pinned_chain L X end_entity intermediates now trust_set) (\<lambda>_. Inr ())"

section \<open>The rotating leaf\<close>

record 'k rustls =
  load_private_key :: "bytes \<Rightarrow> string + 'k"
  tls13_protocols :: "string + unit"
  client_auth_cert :: "bytes list \<Rightarrow> bytes \<Rightarrow> string + unit"

definition tls :: "string \<Rightarrow> string \<Rightarrow> core_error" where
  "tls what e = Internal (''tls: '' @ what @ '': '' @ e)"

record 'k certified_key_parts =
  ck_certs :: "bytes list"
  ck_key :: 'k

definition certified_key :: "'k rustls \<Rightarrow> node_leaf \<Rightarrow> core_error + 'k certified_key_parts" where
  "certified_key P leaf =
     and_then (map_err (tls ''load leaf key'') (load_private_key P (private_key_der leaf))) (\<lambda>key.
       Inr \<lparr>ck_certs = chain_der leaf, ck_key = key\<rparr>)"

text \<open>
  The TLS state of a node. The configurations of both directions name the key
  exchange groups in order of preference.
\<close>

datatype kx_group = X25519MLKEM768 | X25519Group

definition pq_kx_groups :: "kx_group list" where
  "pq_kx_groups = [X25519MLKEM768, X25519Group]"

record 'k node_tls =
  nt_kx_groups :: "kx_group list"
  nt_trust :: trust_store
  nt_current :: "'k certified_key_parts"

text \<open>\<open>leaf\<close> is the outcome of \<open>issue_leaf\<close>.\<close>

definition node_tls_new :: "'k rustls \<Rightarrow> core_error + node_leaf \<Rightarrow> trust_store \<Rightarrow> core_error + 'k node_tls" where
  "node_tls_new P issued trust_set =
     and_then issued (\<lambda>leaf.
     and_then (certified_key P leaf) (\<lambda>ck.
       Inr \<lparr>nt_kx_groups = pq_kx_groups, nt_trust = trust_set, nt_current = ck\<rparr>))"

definition resolve_cert :: "'k node_tls \<Rightarrow> 'k certified_key_parts option" where
  "resolve_cert n = Some (nt_current n)"

definition rotate_leaf :: "'k rustls \<Rightarrow> core_error + node_leaf \<Rightarrow> 'k node_tls \<Rightarrow> 'k node_tls \<times> (core_error + int)" where
  "rotate_leaf P issued n =
     then_do (n, issued) (\<lambda>n leaf.
     then_do (n, certified_key P leaf) (\<lambda>n next_key.
       (n\<lparr>nt_current := next_key\<rparr>, Inr (not_after_ms leaf))))"

text \<open>
  The verifier a configuration installs for the certificates of the other side, with the
  snapshot it reads. A server with \<open>with_client_cert_verifier\<close> asks for a client certificate, and
  the verifiers of the repository leave it mandatory.
\<close>

datatype cert_verifier =
    PinnedClientCertVerifier trust_store
  | PinnedServerCertVerifier trust_store

primrec verifier_trust :: "cert_verifier \<Rightarrow> trust_store" where
  "verifier_trust (PinnedClientCertVerifier T) = T"
| "verifier_trust (PinnedServerCertVerifier T) = T"

record tls_config =
  tc_kx_groups :: "kx_group list"
  tc_verifier :: cert_verifier
  tc_presented :: "bytes list"

abbreviation tc_trust :: "tls_config \<Rightarrow> trust_store" where
  "tc_trust tc \<equiv> verifier_trust (tc_verifier tc)"

text \<open>A server configuration serves the leaf through the resolver; the client presents a fresh one.\<close>

definition server_config :: "'k rustls \<Rightarrow> 'k node_tls \<Rightarrow> core_error + tls_config" where
  "server_config P n =
     and_then (map_err (tls ''server protocol versions'') (tls13_protocols P)) (\<lambda>_.
       Inr \<lparr>tc_kx_groups = nt_kx_groups n, tc_verifier = PinnedClientCertVerifier (nt_trust n),
            tc_presented = ck_certs (nt_current n)\<rparr>)"

definition client_config :: "'k rustls \<Rightarrow> core_error + node_leaf \<Rightarrow> 'k node_tls \<Rightarrow> core_error + tls_config" where
  "client_config P issued n =
     and_then issued (\<lambda>leaf.
     and_then (map_err (tls ''client protocol versions'') (tls13_protocols P)) (\<lambda>_.
     and_then (map_err (tls ''client auth cert'') (client_auth_cert P (chain_der leaf) (private_key_der leaf))) (\<lambda>_.
       Inr \<lparr>tc_kx_groups = nt_kx_groups n, tc_verifier = PinnedServerCertVerifier (nt_trust n),
            tc_presented = chain_der leaf\<rparr>)))"

section \<open>What acceptance means\<close>

lemma check_validity_ok: "check_validity X c t what = Inr u \<longleftrightarrow> x_not_before X c \<le> t \<and> t \<le> x_not_after X c"
  by (auto simp: check_validity_def)

lemma verify_pinned_chain_ok:
  "verify_pinned_chain L X ee chain now T = Inr u \<longleftrightarrow>
     chain \<noteq> [] \<and> ustr (fingerprint L (last chain)) \<in> T \<and>
     (\<exists>ca leaf. x_from_der X (last chain) = Some ca \<and> x_from_der X ee = Some leaf
        \<and> x_basic_constraints X ca = Inr (Some True)
        \<and> x_verify_signature X ca None \<and> x_verify_signature X leaf (Some (x_public_key X ca))
        \<and> (\<forall>c \<in> {ca, leaf}. x_not_before X c \<le> u64_to_i64 now \<and> u64_to_i64 now \<le> x_not_after X c))"
proof (cases "chain = [] \<or> ustr (fingerprint L (last chain)) \<notin> T")
  case True
  then show ?thesis by (auto simp: verify_pinned_chain_def trust_store_contains_def)
next
  case False
  have bc: "(case x_basic_constraints X ca of
           Inr (Some is_ca) \<Rightarrow> (if is_ca then Inr () else Inl (General ''pinned cert is not a CA''))
         | _ \<Rightarrow> Inl (General ''pinned cert is not a CA'')) = Inr v \<longleftrightarrow> x_basic_constraints X ca = Inr (Some True)" for ca v
    by (auto split: sum.splits option.splits)
  show ?thesis using False
    by (auto simp: verify_pinned_chain_def trust_store_contains_def Let_def bc check_validity_ok)
qed

text \<open>The server and the client decide alike.\<close>

lemma verifiers_agree:
  "verify_server_cert L X T ee chain name ocsp now = verify_pinned_chain L X ee chain now T"
  "verify_client_cert L X T ee chain now = verify_pinned_chain L X ee chain now T"
  by (cases "verify_pinned_chain L X ee chain now T"; simp add: verify_server_cert_def verify_client_cert_def)+

end
