(* ===== verification/Wire.thy ===== *)
theory Wire
  imports Prelude
begin

text \<open>
  The wire codec of \<open>crates/buh-crypto/src/wire\<close>: LEB128 varints and the
  bounds-checked cursor (\<open>codec.rs\<close>), and the version-1 frame (\<open>v1.rs\<close>).

  A \<open>reader\<close> is the cursor \<open>Reader\<close>: the buffer and a position. Each accessor
  returns the value together with the advanced cursor; every caller in the
  sources propagates an error with \<open>?\<close>, so the cursor of a failed read is
  never observed. Positions are \<open>nat\<close>: the overflow branch of \<open>checked_add\<close>
  in \<open>read_bytes\<close> returns the same error as the range check, and a sum that
  overflows \<open>usize\<close> is past the end of any buffer. The width of \<open>usize\<close> is
  visible in one place only, the conversion of a field length, so \<open>frame_decode\<close>
  takes \<open>usize::MAX\<close> as its first argument (the crate is built for 64-bit
  hosts and for wasm32).
\<close>

section \<open>Data\<close>

datatype wire_error =
    BadMagic u8
  | UnsupportedVersion u8
  | UnexpectedEof
  | VarintOverflow
  | FieldTooLong
  | MissingField u64
  | ReservedTag u64

definition MAGIC :: u8 where
  "MAGIC = 0xB0"

definition WIRE_VERSION :: u8 where
  "WIRE_VERSION = 0x01"

definition MAX_VARINT_LEN :: nat where
  "MAX_VARINT_LEN = 10"

record reader =
  buf :: bytes
  pos :: nat

section \<open>Varints and the reader\<close>

function write_varint :: "u64 \<Rightarrow> bytes" where
  "write_varint value =
     (let byte = (ucast (value AND 0x7f) :: u8);
          value' = drop_bit 7 value
      in if value' \<noteq> 0 then (byte OR 0x80) # write_varint value' else [byte])"
  by pat_completeness auto
termination
proof (relation "measure unat")
  show "wf (measure (unat :: u64 \<Rightarrow> nat))" by simp
next
  fix v v' :: u64 and b :: u8
  assume v': "v' = drop_bit 7 v" and nz: "v' \<noteq> 0"
  have eq: "unat v' = unat v div 2 ^ 7"
    unfolding v' unat_drop_bit_eq by (simp add: drop_bit_eq_div)
  from nz have "0 < unat v'" by (simp add: unat_gt_0)
  with eq show "(v', v) \<in> measure unat"
    by (simp add: div_less_dividend)
qed

declare write_varint.simps [simp del]

definition reader_new :: "bytes \<Rightarrow> reader" where
  "reader_new b = \<lparr>buf = b, pos = 0\<rparr>"

definition is_empty :: "reader \<Rightarrow> bool" where
  "is_empty r \<longleftrightarrow> pos r \<ge> length (buf r)"

definition remaining :: "reader \<Rightarrow> nat" where
  "remaining r = length (buf r) - pos r"

definition read_u8 :: "reader \<Rightarrow> wire_error + u8 \<times> reader" where
  "read_u8 r =
     (if pos r < length (buf r) then Inr (buf r ! pos r, r\<lparr>pos := pos r + 1\<rparr>)
      else Inl UnexpectedEof)"

fun read_varint_loop :: "nat \<Rightarrow> u64 \<Rightarrow> nat \<Rightarrow> reader \<Rightarrow> wire_error + u64 \<times> reader" where
  "read_varint_loop 0 result shift r = Inl VarintOverflow"
| "read_varint_loop (Suc k) result shift r =
     and_then (read_u8 r) (\<lambda>(byte, r').
       let payload = (ucast (byte AND 0x7f) :: u64) in
       if shift = 63 \<and> payload > 1 then Inl VarintOverflow
       else let result' = result OR push_bit shift payload in
         if byte AND 0x80 = 0 then Inr (result', r')
         else read_varint_loop k result' (shift + 7) r')"

definition read_varint :: "reader \<Rightarrow> wire_error + u64 \<times> reader" where
  "read_varint r = read_varint_loop MAX_VARINT_LEN 0 0 r"

definition read_bytes :: "nat \<Rightarrow> reader \<Rightarrow> wire_error + bytes \<times> reader" where
  "read_bytes len r =
     (let stop = pos r + len in
      if stop \<le> length (buf r) then Inr (take len (drop (pos r) (buf r)), r\<lparr>pos := stop\<rparr>)
      else Inl UnexpectedEof)"

text \<open>The part of the buffer the cursor has not consumed, and the cursor's invariant.\<close>

definition rest :: "reader \<Rightarrow> bytes" where
  "rest r = drop (pos r) (buf r)"

definition reader_ok :: "reader \<Rightarrow> bool" where
  "reader_ok r \<longleftrightarrow> pos r \<le> length (buf r)"

text \<open>\<open>advance n r\<close> is the cursor after \<open>n\<close> more bytes.\<close>

definition advance :: "nat \<Rightarrow> reader \<Rightarrow> reader" where
  "advance n r = r\<lparr>pos := pos r + n\<rparr>"

lemma rest_reader_new [simp]: "rest (reader_new b) = b"
  by (simp add: rest_def reader_new_def)

lemma rest_advance [simp]: "rest (advance n r) = drop n (rest r)"
  by (simp add: rest_def advance_def add.commute)

lemma advance_advance [simp]: "advance m (advance n r) = advance (n + m) r"
  by (simp add: advance_def)

lemma is_empty_iff: "is_empty r \<longleftrightarrow> rest r = []"
  by (simp add: is_empty_def rest_def)

lemma remaining_eq: "remaining r = length (rest r)"
  by (simp add: remaining_def rest_def)

text \<open>Each accessor, read off the unconsumed bytes.\<close>

lemma read_u8_rest:
  "read_u8 r = (case rest r of [] \<Rightarrow> Inl UnexpectedEof | b # _ \<Rightarrow> Inr (b, advance 1 r))"
  by (auto simp: read_u8_def rest_def advance_def nth_via_drop split: list.splits)

lemma read_bytes_rest:
  "read_bytes n r =
     (if n \<le> length (rest r) then Inr (take n (rest r), advance n r) else Inl UnexpectedEof)"
  if "reader_ok r"
  using that by (auto simp: read_bytes_def rest_def advance_def reader_ok_def Let_def)

section \<open>Correctness of the varint codec\<close>

lemma bit_7f: "bit (0x7f :: int) n \<longleftrightarrow> n < 7"
proof -
  have "(0x7f :: int) = mask 7" by (simp add: mask_eq_exp_minus_1)
  then show ?thesis by (simp only: bit_mask_iff) simp
qed

lemma bit_80: "bit (0x80 :: int) n \<longleftrightarrow> n = 7"
proof -
  have "(0x80 :: int) = 2 ^ 7" by simp
  then show ?thesis by (simp only: bit_exp_iff) auto
qed

lemmas septet_bits = bit_7f bit_80 bit_and_iff bit_or_iff bit_ucast_iff

lemma varint_payload_cont:
  "ucast ((ucast (v AND 0x7f) OR 0x80 :: u8) AND 0x7f) = (v AND 0x7f :: u64)"
  by (rule bit_word_eqI) (auto simp: septet_bits)

lemma varint_payload_last:
  "ucast ((ucast (v AND 0x7f) :: u8) AND 0x7f) = (v AND 0x7f :: u64)"
  by (rule bit_word_eqI) (auto simp: septet_bits)

lemma varint_continues: "(ucast (v AND 0x7f :: u64) OR 0x80 :: u8) AND 0x80 \<noteq> 0"
proof -
  have "bit ((ucast (v AND 0x7f :: u64) OR 0x80 :: u8) AND 0x80) 7"
    by (simp add: septet_bits)
  then show ?thesis by (metis bit_0_eq bot_apply bot_bool_def)
qed

lemma varint_stops: "(ucast (v AND 0x7f :: u64) :: u8) AND 0x80 = 0"
  by (rule bit_word_eqI) (auto simp: septet_bits)

lemma septet_split: "(v AND 0x7f) OR push_bit 7 (drop_bit 7 v) = (v :: u64)"
proof (rule bit_word_eqI)
  fix n
  show "bit ((v AND 0x7f) OR push_bit 7 (drop_bit 7 v)) n = bit v n" if "n < LENGTH(64)"
    using that by (cases "n < 7") (simp_all add: septet_bits bit_push_bit_iff bit_drop_bit_eq)
qed

lemmas varint_bytes = varint_payload_cont varint_payload_last varint_continues varint_stops

lemma septet_last:
  assumes "drop_bit 7 v = (0 :: u64)"
  shows "v AND 0x7f = v" and "ucast ((ucast v :: u8) AND 0x7f) = v" and "(ucast v :: u8) AND 0x80 = 0"
proof -
  show eq: "v AND 0x7f = v" using septet_split [of v] assms by simp
  show "ucast ((ucast v :: u8) AND 0x7f) = v" using varint_payload_last [of v] eq by simp
  show "(ucast v :: u8) AND 0x80 = 0" using varint_stops [of v] eq by simp
qed

text \<open>One round of the reader's loop, by whether the continuation bit is set.\<close>

lemma read_varint_cont:
  assumes "rest r = byte # bs" and "byte AND 0x80 \<noteq> 0" and "ucast (byte AND 0x7f) = p"
    and "\<not> (shift = 63 \<and> p > (1 :: u64))"
  shows "read_varint_loop (Suc k) acc shift r
           = read_varint_loop k (acc OR push_bit shift p) (shift + 7) (advance 1 r)"
  using assms by (auto simp: read_u8_rest Let_def)

lemma read_varint_stop:
  assumes "rest r = byte # bs" and "byte AND 0x80 = 0" and "ucast (byte AND 0x7f) = p"
    and "\<not> (shift = 63 \<and> p > (1 :: u64))"
  shows "read_varint_loop (Suc k) acc shift r = Inr (acc OR push_bit shift p, advance 1 r)"
  using assms by (auto simp: read_u8_rest Let_def)

lemma write_varint_stop: "drop_bit 7 v = 0 \<Longrightarrow> write_varint v = [ucast (v AND 0x7f)]"
  by (subst write_varint.simps) (simp only: Let_def if_False simp_thms)

lemma write_varint_cont:
  "drop_bit 7 v \<noteq> 0 \<Longrightarrow>
     write_varint v = (ucast (v AND 0x7f) OR 0x80) # write_varint (drop_bit 7 v)"
  by (subst write_varint.simps) (simp only: Let_def if_True simp_thms)

text \<open>
  The reader's loop inverts the writer's, started at any group \<open>j\<close>: the accumulator
  already holds the low groups, and \<open>v\<close> fits in the bits that are left.
\<close>

lemma varint_group_fits:
  fixes v :: u64
  assumes "unat v < 2 ^ (64 - 7 * j)"
  shows "\<not> (7 * j = 63 \<and> v AND 0x7f > 1)"
proof
  assume a: "7 * j = 63 \<and> v AND 0x7f > 1"
  then have "unat v < 2" using assms by simp
  moreover have "unat (v AND 0x7f) \<le> unat v" by (simp only: word_le_nat_alt [symmetric] word_and_le2)
  ultimately have "unat (v AND 0x7f) < 2" by simp
  with a show False by (simp add: word_less_nat_alt)
qed

lemma varint_rest_fits:
  fixes v :: u64
  assumes "drop_bit 7 v \<noteq> 0" and "j < 10" and "unat v < 2 ^ (64 - 7 * j)"
  shows "j < 9 \<and> unat (drop_bit 7 v) < 2 ^ (64 - 7 * Suc j)"
proof -
  have hi: "unat (drop_bit 7 v) = unat v div 2 ^ 7" unfolding unat_drop_bit_eq by (simp add: drop_bit_eq_div)
  have "j \<noteq> 9" using assms(1,3) hi by (auto simp: unat_eq_0 [symmetric])
  then have j: "j < 9" using assms(2) by simp
  then have e: "64 - 7 * j = 64 - 7 * Suc j + 7" by simp
  from assms(3) have "unat v < 2 ^ (64 - 7 * Suc j) * 2 ^ 7" by (simp only: e power_add)
  with j show ?thesis unfolding hi by (simp only: less_mult_imp_div_less simp_thms)
qed

lemma septet_join: "push_bit s (v AND 0x7f) OR push_bit (s + 7) (drop_bit 7 v) = push_bit s (v :: u64)"
proof -
  have "push_bit s (v AND 0x7f) OR push_bit (s + 7) (drop_bit 7 v) = push_bit s ((v AND 0x7f) OR push_bit 7 (drop_bit 7 v))"
    by (simp only: push_bit_or push_bit_push_bit)
  then show ?thesis by (simp only: septet_split)
qed

lemma read_varint_loop_write:
  assumes "rest r = write_varint v @ bs" and "j < 10" and "unat v < 2 ^ (64 - 7 * j)"
  shows "read_varint_loop (10 - j) acc (7 * j) r
           = Inr (acc OR push_bit (7 * j) v, advance (length (write_varint v)) r)"
  using assms
proof (induction v arbitrary: r j acc rule: write_varint.induct)
  case (1 v)
  let ?lo = "v AND 0x7f" and ?hi = "drop_bit 7 v"
  from \<open>j < 10\<close> obtain k where k: "10 - j = Suc k" and k': "k = 10 - Suc j"
    by (metis Suc_diff_Suc)
  note last = varint_group_fits [OF "1.prems"(3)]
  show ?case
  proof (cases "?hi = 0")
    case True
    note w = write_varint_stop [OF True]
    have "read_varint_loop (Suc k) acc (7 * j) r = Inr (acc OR push_bit (7 * j) ?lo, advance 1 r)"
      using "1.prems"(1) varint_stops varint_payload_last last
      unfolding w by (intro read_varint_stop) simp_all
    then show ?thesis by (simp add: k w septet_last [OF True] del: read_varint_loop.simps)
  next
    case False
    note w = write_varint_cont [OF False]
    have r: "rest r = (ucast ?lo OR 0x80) # write_varint ?hi @ bs"
      using "1.prems"(1) unfolding w by simp
    note fits = varint_rest_fits [OF False "1.prems"(2,3)]
    have e: "7 * Suc j = 7 * j + 7" by simp
    have IH: "read_varint_loop (10 - Suc j) (acc OR push_bit (7 * j) ?lo) (7 * Suc j) (advance 1 r)
        = Inr ((acc OR push_bit (7 * j) ?lo) OR push_bit (7 * Suc j) ?hi, advance (length (write_varint ?hi)) (advance 1 r))"
      using "1.IH" [of "ucast ?lo" ?hi "advance 1 r" "Suc j"] False fits r by simp
    have "read_varint_loop (Suc k) acc (7 * j) r
        = read_varint_loop k (acc OR push_bit (7 * j) ?lo) (7 * j + 7) (advance 1 r)"
      using r varint_continues varint_payload_cont last by (rule read_varint_cont)
    also have "\<dots> = Inr (acc OR push_bit (7 * j) v, advance (length (write_varint v)) r)"
      using IH unfolding k' e or.assoc septet_join by (simp add: w)
    finally show ?thesis unfolding k .
  qed
qed

lemma read_varint_write:
  assumes "rest r = write_varint v @ bs"
  shows "read_varint r = Inr (v, advance (length (write_varint v)) r)"
proof -
  have "unat v < 2 ^ (64 - 7 * 0)" using unsigned_less [of v] by simp
  with assms show ?thesis
    using read_varint_loop_write [of r v bs 0 0] by (simp add: read_varint_def MAX_VARINT_LEN_def)
qed

lemma read_u8_advance:
  "read_u8 r = Inr (b, r') \<Longrightarrow> r' = advance 1 r \<and> 1 \<le> length (rest r)"
  by (auto simp: read_u8_rest split: list.splits)

lemma read_varint_loop_advance:
  assumes "read_varint_loop k acc shift r = Inr (v, r')"
  shows "\<exists>n. 1 \<le> n \<and> n \<le> k \<and> n \<le> length (rest r) \<and> r' = advance n r"
  using assms
proof (induction k acc shift r rule: read_varint_loop.induct)
  case (1 result shift r)
  then show ?case by simp
next
  case (2 k result shift r)
  from "2.prems" obtain byte r1 where "read_u8 r = Inr (byte, r1)"
    by (cases "read_u8 r") auto
  with read_u8_advance have rd: "read_u8 r = Inr (byte, advance 1 r)" and len: "1 \<le> length (rest r)"
    by blast+
  let ?p = "ucast (byte AND 0x7f) :: u64"
  have ok: "\<not> (shift = 63 \<and> ?p > 1)"
    using "2.prems" rd by (auto simp: Let_def split: if_splits)
  show ?case
  proof (cases "byte AND 0x80 = 0")
    case True
    with "2.prems" rd ok len show ?thesis by (auto simp: Let_def intro!: exI [of _ 1])
  next
    case False
    have "read_varint_loop k (result OR push_bit shift ?p) (shift + 7) (advance 1 r) = Inr (v, r')"
      using "2.prems" rd ok False by (simp only: read_varint_loop.simps and_then_Inr Let_def split if_False)
    then obtain n where "1 \<le> n" "n \<le> k" "n \<le> length (rest (advance 1 r))" "r' = advance n (advance 1 r)"
      using "2.IH" [OF rd refl refl ok refl False] by blast
    with len show ?thesis by (auto intro!: exI [of _ "Suc n"])
  qed
qed

lemma read_varint_advance:
  assumes "read_varint r = Inr (v, r')"
  obtains n where "1 \<le> n" "n \<le> 10" "n \<le> length (rest r)" "r' = advance n r"
  using read_varint_loop_advance assms unfolding read_varint_def MAX_VARINT_LEN_def by blast

section \<open>Frames\<close>

text \<open>Field tags and capability flags: stable on-wire identifiers.\<close>

definition TAG_IDENTITY_PUB :: u64 where
  "TAG_IDENTITY_PUB = 0x01"

definition TAG_PREKEY_BUNDLE :: u64 where
  "TAG_PREKEY_BUNDLE = 0x02"

definition TAG_QUEUE_URI :: u64 where
  "TAG_QUEUE_URI = 0x03"

definition TAG_INVITE_NONCE :: u64 where
  "TAG_INVITE_NONCE = 0x04"

definition TAG_EXPIRY :: u64 where
  "TAG_EXPIRY = 0x05"

definition TAG_SIGNATURE :: u64 where
  "TAG_SIGNATURE = 0x06"

definition TAG_CONTEXT :: u64 where
  "TAG_CONTEXT = 0x07"

definition TAG_PREKEY_X25519 :: u64 where
  "TAG_PREKEY_X25519 = 0x08"

definition TAG_MLKEM_EK :: u64 where
  "TAG_MLKEM_EK = 0x09"

definition TAG_ONETIME_PREKEY :: u64 where
  "TAG_ONETIME_PREKEY = 0x0a"

definition TAG_EPHEMERAL_X25519 :: u64 where
  "TAG_EPHEMERAL_X25519 = 0x0b"

definition TAG_KEM_CT :: u64 where
  "TAG_KEM_CT = 0x0c"

definition TAG_QUEUE_ID :: u64 where
  "TAG_QUEUE_ID = 0x0d"

definition TAG_RELAY_URL :: u64 where
  "TAG_RELAY_URL = 0x0e"

definition TAG_CA_FINGERPRINT :: u64 where
  "TAG_CA_FINGERPRINT = 0x0f"

definition TAG_RATCHET_DH :: u64 where
  "TAG_RATCHET_DH = 0x10"

definition TAG_RATCHET_PN :: u64 where
  "TAG_RATCHET_PN = 0x11"

definition TAG_RATCHET_N :: u64 where
  "TAG_RATCHET_N = 0x12"

definition TAG_CIPHERTEXT :: u64 where
  "TAG_CIPHERTEXT = 0x13"

definition TAG_SPQR_CHUNK :: u64 where
  "TAG_SPQR_CHUNK = 0x20"

definition TAG_PQ_EPOCH :: u64 where
  "TAG_PQ_EPOCH = 0x21"

definition TAG_PQ_KEM_CT :: u64 where
  "TAG_PQ_KEM_CT = 0x22"

definition FLAG_HANDSHAKE :: u64 where
  "FLAG_HANDSHAKE = 0x01"

definition FLAG_PQ_REKEY :: u64 where
  "FLAG_PQ_REKEY = 0x02"

lemmas tag_defs = TAG_IDENTITY_PUB_def
  TAG_PREKEY_BUNDLE_def
  TAG_QUEUE_URI_def
  TAG_INVITE_NONCE_def
  TAG_EXPIRY_def
  TAG_SIGNATURE_def
  TAG_CONTEXT_def
  TAG_PREKEY_X25519_def
  TAG_MLKEM_EK_def
  TAG_ONETIME_PREKEY_def
  TAG_EPHEMERAL_X25519_def
  TAG_KEM_CT_def
  TAG_QUEUE_ID_def
  TAG_RELAY_URL_def
  TAG_CA_FINGERPRINT_def
  TAG_RATCHET_DH_def
  TAG_RATCHET_PN_def
  TAG_RATCHET_N_def
  TAG_CIPHERTEXT_def
  TAG_SPQR_CHUNK_def
  TAG_PQ_EPOCH_def
  TAG_PQ_KEM_CT_def

record field =
  tag :: u64
  val :: bytes

record frame =
  flags :: u64
  field_list :: "field list"

definition frame_new :: frame where
  "frame_new = \<lparr>flags = 0, field_list = []\<rparr>"

definition with_flags :: "frame \<Rightarrow> u64 \<Rightarrow> frame" where
  "with_flags f fl = f\<lparr>flags := flags f OR fl\<rparr>"

definition with_field :: "frame \<Rightarrow> u64 \<Rightarrow> bytes \<Rightarrow> frame" where
  "with_field f t v = f\<lparr>field_list := field_list f @ [\<lparr>tag = t, val = v\<rparr>]\<rparr>"

definition has_flag :: "frame \<Rightarrow> u64 \<Rightarrow> bool" where
  "has_flag f fl \<longleftrightarrow> flags f AND fl \<noteq> 0"

definition get_field :: "frame \<Rightarrow> u64 \<Rightarrow> bytes option" where
  "get_field f t = map_option val (List.find (\<lambda>x. tag x = t) (field_list f))"

definition require :: "frame \<Rightarrow> u64 \<Rightarrow> wire_error + bytes" where
  "require f t = ok_or (MissingField t) (get_field f t)"

definition PQ_RESERVED_TAGS :: "u64 \<Rightarrow> bool" where
  "PQ_RESERVED_TAGS t \<longleftrightarrow> 0x20 \<le> t \<and> t \<le> 0x2f"

fun reject_reserved_loop :: "field list \<Rightarrow> wire_error + unit" where
  "reject_reserved_loop [] = Inr ()"
| "reject_reserved_loop (f # fs) =
     (if PQ_RESERVED_TAGS (tag f) then Inl (ReservedTag (tag f)) else reject_reserved_loop fs)"

definition reject_reserved_pq :: "frame \<Rightarrow> wire_error + unit" where
  "reject_reserved_pq f = reject_reserved_loop (field_list f)"

definition frame_aad :: "frame \<Rightarrow> bytes" where
  "frame_aad f = MAGIC # WIRE_VERSION # write_varint (flags f)"

definition field_encode :: "field \<Rightarrow> bytes" where
  "field_encode f = write_varint (tag f) @ write_varint (of_nat (length (val f))) @ val f"

definition frame_encode :: "frame \<Rightarrow> bytes" where
  "frame_encode f =
     MAGIC # WIRE_VERSION # write_varint (flags f) @ concat (map field_encode (field_list f))"

definition field_decode :: "nat \<Rightarrow> reader \<Rightarrow> wire_error + field \<times> reader" where
  "field_decode usize_max r =
     and_then (read_varint r) (\<lambda>(t, r1).
     and_then (read_varint r1) (\<lambda>(len, r2).
     if unat len > usize_max then Inl FieldTooLong
     else if unat len > remaining r2 then Inl UnexpectedEof
     else and_then (read_bytes (unat len) r2) (\<lambda>(v, r3).
       Inr (\<lparr>tag = t, val = v\<rparr>, r3))))"

lemma field_decode_consumes:
  assumes "field_decode um r = Inr (f, r')"
  shows "length (rest r') < length (rest r)"
proof -
  from assms obtain t r1 len r2 where t: "read_varint r = Inr (t, r1)"
    and l: "read_varint r1 = Inr (len, r2)" and b: "read_bytes (unat len) r2 = Inr (val f, r')"
    by (auto simp: field_decode_def split: if_splits)
  from t obtain n where "1 \<le> n" "n \<le> length (rest r)" "r1 = advance n r" by (rule read_varint_advance)
  moreover from l obtain m where "r2 = advance m r1" by (rule read_varint_advance)
  moreover from b have "r' = advance (unat len) r2"
    by (auto simp: read_bytes_def advance_def Let_def split: if_splits)
  ultimately show ?thesis by simp
qed

function decode_fields :: "nat \<Rightarrow> reader \<Rightarrow> wire_error + field list" where
  "decode_fields usize_max r =
     (if is_empty r then Inr []
      else and_then (field_decode usize_max r) (\<lambda>(f, r').
           and_then (decode_fields usize_max r') (\<lambda>fs. Inr (f # fs))))"
  by pat_completeness auto
termination
  by (relation "measure (\<lambda>(_, r). length (rest r))") (auto dest: field_decode_consumes)

declare decode_fields.simps [simp del]

definition frame_decode :: "nat \<Rightarrow> bytes \<Rightarrow> wire_error + frame" where
  "frame_decode usize_max b =
     and_then (read_u8 (reader_new b)) (\<lambda>(magic, r1).
     if magic \<noteq> MAGIC then Inl (BadMagic magic)
     else and_then (read_u8 r1) (\<lambda>(version, r2).
     if version \<noteq> WIRE_VERSION then Inl (UnsupportedVersion version)
     else and_then (read_varint r2) (\<lambda>(fl, r3).
          and_then (decode_fields usize_max r3) (\<lambda>fs. Inr \<lparr>flags = fl, field_list = fs\<rparr>))))"

section \<open>Correctness of the frame codec\<close>

text \<open>
  What an encoder can hold: a Rust vector never exceeds \<open>usize::MAX\<close> bytes, and a
  length is written as a \<open>u64\<close>.
\<close>

definition field_ok :: "nat \<Rightarrow> field \<Rightarrow> bool" where
  "field_ok usize_max x \<longleftrightarrow> length (val x) \<le> usize_max \<and> length (val x) < 2 ^ 64"

definition frame_ok :: "nat \<Rightarrow> frame \<Rightarrow> bool" where
  "frame_ok usize_max f \<longleftrightarrow> list_all (field_ok usize_max) (field_list f)"

lemma reader_ok_new [simp]: "reader_ok (reader_new b)"
  by (simp add: reader_ok_def reader_new_def)

lemma reader_ok_advance [simp]: "reader_ok r \<Longrightarrow> n \<le> length (rest r) \<Longrightarrow> reader_ok (advance n r)"
  by (auto simp: reader_ok_def rest_def advance_def)

lemma unat_of_nat_u64: "n < 2 ^ 64 \<Longrightarrow> unat (of_nat n :: u64) = n"
  by (simp add: unat_of_nat)

lemma field_decode_encode:
  assumes "reader_ok r" and "rest r = field_encode x @ bs" and "field_ok um x"
  shows "field_decode um r = Inr (x, advance (length (field_encode x)) r)"
proof -
  let ?t = "write_varint (tag x)" and ?l = "write_varint (of_nat (length (val x)))"
  let ?r1 = "advance (length ?t) r" and ?r2 = "advance (length ?l) (advance (length ?t) r)"
  from assms(2) have rest: "rest r = ?t @ ?l @ val x @ bs" by (simp add: field_encode_def)
  from assms(3) have len: "unat (of_nat (length (val x)) :: u64) = length (val x)"
    by (simp only: field_ok_def unat_of_nat_u64)
  have r1: "read_varint r = Inr (tag x, ?r1)" using rest by (rule read_varint_write)
  have r2: "read_varint ?r1 = Inr (of_nat (length (val x)), ?r2)"
    by (rule read_varint_write [where bs = "val x @ bs"]) (simp add: rest)
  have rest2: "rest ?r2 = val x @ bs" by (simp add: rest)
  have "reader_ok ?r2" using assms(1) by (simp add: rest)
  then have r3: "read_bytes (length (val x)) ?r2 = Inr (val x, advance (length (val x)) ?r2)"
    using rest2 by (simp only: read_bytes_rest) simp
  have "field_decode um r = Inr (\<lparr>tag = tag x, val = val x\<rparr>, advance (length (val x)) ?r2)"
    unfolding field_decode_def r1 and_then_Inr split r2 len remaining_eq rest2 r3
    using assms(3) by (simp add: field_ok_def)
  then show ?thesis by (simp add: field_encode_def add.assoc)
qed

lemma field_encode_nonempty: "field_encode x \<noteq> []"
  by (subst field_encode_def, subst write_varint.simps) (simp add: Let_def)

lemma decode_fields_encode:
  assumes "reader_ok r" and "rest r = concat (map field_encode xs)" and "list_all (field_ok um) xs"
  shows "decode_fields um r = Inr xs"
  using assms
proof (induction xs arbitrary: r)
  case Nil
  then show ?case by (subst decode_fields.simps) (simp add: is_empty_iff)
next
  case (Cons x xs)
  let ?r' = "advance (length (field_encode x)) r"
  have "field_decode um r = Inr (x, ?r')"
    using Cons.prems by (intro field_decode_encode) simp_all
  moreover have "decode_fields um ?r' = Inr xs"
    using Cons.prems by (intro Cons.IH) simp_all
  moreover have "\<not> is_empty r" using Cons.prems field_encode_nonempty by (simp add: is_empty_iff)
  ultimately show ?case by (subst decode_fields.simps) simp
qed

lemma frame_decode_encode_ok:
  assumes "frame_ok um f"
  shows "frame_decode um (frame_encode f) = Inr f"
proof -
  let ?b = "frame_encode f" and ?w = "write_varint (flags f)"
  let ?body = "concat (map field_encode (field_list f))"
  let ?r = "advance 2 (reader_new ?b)"
  have b: "?b = MAGIC # WIRE_VERSION # ?w @ ?body" by (simp add: frame_encode_def)
  have m: "read_u8 (reader_new ?b) = Inr (MAGIC, advance 1 (reader_new ?b))"
    by (simp add: read_u8_rest b)
  have v: "read_u8 (advance 1 (reader_new ?b)) = Inr (WIRE_VERSION, ?r)"
    by (simp add: read_u8_rest b numeral_2_eq_2)
  have rest: "rest ?r = ?w @ ?body" by (simp add: b)
  then have fl: "read_varint ?r = Inr (flags f, advance (length ?w) ?r)" by (rule read_varint_write)
  have ok: "reader_ok (advance (length ?w) ?r)"
    by (simp add: b)
  have fs: "decode_fields um (advance (length ?w) ?r) = Inr (field_list f)"
    using ok by (rule decode_fields_encode) (use assms in \<open>simp_all add: frame_ok_def b\<close>)
  show ?thesis
    unfolding frame_decode_def m and_then_Inr split v fl fs by simp
qed

text \<open>What a successful decode says about its input.\<close>

lemma field_decode_sound:
  assumes "field_decode um r = Inr (x, r')" and "reader_ok r"
  shows "field_ok um x" and "reader_ok r'" and "2 + length (val x) + length (rest r') \<le> length (rest r)"
proof -
  from assms(1) obtain r1 len r2 where t: "read_varint r = Inr (tag x, r1)"
    and l: "read_varint r1 = Inr (len, r2)" and um: "unat len \<le> um"
    and b: "read_bytes (unat len) r2 = Inr (val x, r')"
    by (auto simp: field_decode_def not_less split: if_splits)
  from t obtain n where n: "1 \<le> n" "n \<le> length (rest r)" "r1 = advance n r" by (rule read_varint_advance)
  from l obtain m where m: "1 \<le> m" "m \<le> length (rest r1)" "r2 = advance m r1" by (rule read_varint_advance)
  from n m assms(2) have ok2: "reader_ok r2" by simp
  from b have r': "unat len \<le> length (rest r2)" "val x = take (unat len) (rest r2)" "r' = advance (unat len) r2"
    by (auto simp: read_bytes_rest [OF ok2] split: if_splits)
  from r' have len: "length (val x) = unat len" by simp
  then show "field_ok um x" using um unsigned_less [of len] by (simp add: field_ok_def)
  show "reader_ok r'" using r' ok2 by simp
  show "2 + length (val x) + length (rest r') \<le> length (rest r)"
    using n m r' len by (simp del: advance_advance)
qed

lemma decode_fields_sound:
  assumes "decode_fields um r = Inr xs" and "reader_ok r"
  shows "list_all (field_ok um) xs \<and> (\<Sum>x\<leftarrow>xs. 2 + length (val x)) \<le> length (rest r)"
  using assms
proof (induction um r arbitrary: xs rule: decode_fields.induct)
  case (1 um r)
  show ?case
  proof (cases "is_empty r")
    case True
    with "1.prems"(1) have "xs = []" by (subst (asm) decode_fields.simps) simp
    then show ?thesis by simp
  next
    case False
    with "1.prems"(1) obtain x r' ys where x: "field_decode um r = Inr (x, r')"
      and ys: "decode_fields um r' = Inr ys" and xs: "xs = x # ys"
      by (subst (asm) decode_fields.simps) auto
    note s = field_decode_sound [OF x "1.prems"(2)]
    from "1.IH" [OF False x refl ys s(2)] have
      "list_all (field_ok um) ys \<and> (\<Sum>x\<leftarrow>ys. 2 + length (val x)) \<le> length (rest r')" .
    with s xs show ?thesis by simp
  qed
qed

lemma frame_decode_Inr:
  assumes "frame_decode um b = Inr f"
  obtains n where "1 \<le> n" "n + 2 \<le> length b" "take 2 b = [MAGIC, WIRE_VERSION]"
    "read_varint (advance 2 (reader_new b)) = Inr (flags f, advance (n + 2) (reader_new b))"
    "decode_fields um (advance (n + 2) (reader_new b)) = Inr (field_list f)"
proof -
  from assms obtain r1 r2 r3 where m: "read_u8 (reader_new b) = Inr (MAGIC, r1)"
    and v: "read_u8 r1 = Inr (WIRE_VERSION, r2)" and fl: "read_varint r2 = Inr (flags f, r3)"
    and fs: "decode_fields um r3 = Inr (field_list f)"
    by (auto simp: frame_decode_def split: if_splits)
  from m obtain b' where b: "b = MAGIC # b'" and r1: "r1 = advance 1 (reader_new b)"
    by (auto simp: read_u8_rest split: list.splits)
  from v obtain b'' where b': "b' = WIRE_VERSION # b''" and r2: "r2 = advance 2 (reader_new b)"
    by (auto simp: read_u8_rest r1 b numeral_2_eq_2 split: list.splits)
  from fl obtain n where n: "1 \<le> n" "n \<le> length (rest r2)" "r3 = advance n r2"
    by (rule read_varint_advance)
  show thesis
    using n fl fs unfolding r2 by (intro that [of n]) (simp_all add: b b' add.commute)
qed

lemma frame_decode_ok: "frame_decode um b = Inr f \<Longrightarrow> frame_ok um f"
  by (erule frame_decode_Inr) (auto simp: frame_ok_def dest!: decode_fields_sound)

lemma frame_decode_size:
  assumes "frame_decode um b = Inr f"
  shows "3 + (\<Sum>x\<leftarrow>field_list f. 2 + length (val x)) \<le> length b"
  using assms
proof (rule frame_decode_Inr)
  fix n
  assume n: "1 \<le> n" "n + 2 \<le> length b"
    and fs: "decode_fields um (advance (n + 2) (reader_new b)) = Inr (field_list f)"
  have "reader_ok (advance (n + 2) (reader_new b))" using n by simp
  with fs have "(\<Sum>x\<leftarrow>field_list f. 2 + length (val x)) \<le> length (rest (advance (n + 2) (reader_new b)))"
    using decode_fields_sound by blast
  then show ?thesis using n by simp
qed

text \<open>The builder and the first-match lookup.\<close>

lemma get_frame_new [simp]: "get_field frame_new t = None"
  by (simp add: get_field_def frame_new_def)

lemma get_with_field [simp]:
  "get_field (with_field f t v) t' =
     (case get_field f t' of Some w \<Rightarrow> Some w | None \<Rightarrow> if t = t' then Some v else None)"
proof -
  have "List.find P (xs @ [x]) = (case List.find P xs of Some y \<Rightarrow> Some y | None \<Rightarrow> if P x then Some x else None)"
    for P :: "field \<Rightarrow> bool" and xs x by (induction xs) auto
  then show ?thesis by (simp add: get_field_def with_field_def split: option.splits)
qed

lemma frame_ok_new [simp]: "frame_ok um frame_new"
  by (simp add: frame_ok_def frame_new_def)

lemma frame_ok_with_field [simp]:
  "frame_ok um (with_field f t v) \<longleftrightarrow> frame_ok um f \<and> length v \<le> um \<and> length v < 2 ^ 64"
  by (auto simp: frame_ok_def with_field_def field_ok_def)

lemma reject_reserved_iff:
  "reject_reserved_pq f = Inr () \<longleftrightarrow> (\<forall>x \<in> set (field_list f). \<not> PQ_RESERVED_TAGS (tag x))"
proof -
  have "reject_reserved_loop xs = Inr () \<longleftrightarrow> (\<forall>x \<in> set xs. \<not> PQ_RESERVED_TAGS (tag x))" for xs
    by (induction xs) auto
  then show ?thesis by (simp add: reject_reserved_pq_def)
qed

lemma reject_reserved_new [simp]: "reject_reserved_pq frame_new = Inr ()"
  by (simp add: reject_reserved_pq_def frame_new_def)

lemma reject_reserved_with_field [simp]:
  "reject_reserved_pq (with_field f t v) = Inr () \<longleftrightarrow>
     reject_reserved_pq f = Inr () \<and> \<not> PQ_RESERVED_TAGS t"
  by (auto simp: reject_reserved_iff with_field_def)

section \<open>Sizes of encodings\<close>

lemma length_write_varint: "length (write_varint v) \<le> 10"
proof -
  have "read_varint (reader_new (write_varint v))
      = Inr (v, advance (length (write_varint v)) (reader_new (write_varint v)))"
    by (rule read_varint_write [of _ _ "[]"]) simp
  then show ?thesis
    by (rule read_varint_advance) (auto simp: advance_def dest: arg_cong [of _ _ pos])
qed

lemma length_write_varint_mono: "unat v \<le> unat w \<Longrightarrow> length (write_varint v) \<le> length (write_varint w)"
proof (induction v arbitrary: w rule: write_varint.induct)
  case (1 v)
  have hi: "unat (drop_bit 7 x) = unat x div 128" for x :: u64
    unfolding unat_drop_bit_eq by (simp add: drop_bit_eq_div)
  have le: "unat (drop_bit 7 v) \<le> unat (drop_bit 7 w)" unfolding hi using "1.prems" by (rule div_le_mono)
  show ?case
  proof (cases "drop_bit 7 v = 0")
    case True
    show ?thesis unfolding write_varint_stop [OF True] by (subst write_varint.simps) (simp add: Let_def)
  next
    case False
    with le have w: "drop_bit 7 w \<noteq> 0" by (metis le_zero_eq unat_eq_0)
    show ?thesis
      unfolding write_varint_cont [OF False] write_varint_cont [OF w] using "1.IH" [OF refl refl False le] by simp
  qed
qed

lemma length_field_encode:
  "length (field_encode x) = length (write_varint (tag x))
     + length (write_varint (of_nat (length (val x)))) + length (val x)"
  by (simp add: field_encode_def)

text \<open>A longer value makes a longer field.\<close>

lemma length_field_encode_mono:
  assumes "length v < length w" and "length w < 2 ^ 64"
  shows "length (field_encode \<lparr>tag = t, val = v\<rparr>) < length (field_encode \<lparr>tag = t, val = w\<rparr>)"
proof -
  have "unat (of_nat (length v) :: u64) \<le> unat (of_nat (length w) :: u64)"
    using assms by (simp only: unat_of_nat_u64 order.strict_trans [OF assms] less_imp_le)
  from length_write_varint_mono [OF this] show ?thesis using assms(1) by (simp add: length_field_encode)
qed

lemma length_frame_encode: "length (frame_encode f) \<le> 12 + (\<Sum>x\<leftarrow>field_list f. 20 + length (val x))"
proof -
  have "length (concat (map field_encode xs)) \<le> (\<Sum>x\<leftarrow>xs. 20 + length (val x))" for xs
  proof (induction xs)
    case (Cons x xs)
    then show ?case
      using length_write_varint [of "tag x"] length_write_varint [of "of_nat (length (val x))"]
      by (simp add: field_encode_def)
  qed simp
  from this [of "field_list f"] show ?thesis
    using length_write_varint [of "flags f"] by (simp add: frame_encode_def)
qed

text \<open>\<open>if let Some(v) = x { frame = frame.with_field(tag, v) }\<close>\<close>

definition with_opt_field :: "frame \<Rightarrow> u64 \<Rightarrow> bytes option \<Rightarrow> frame" where
  "with_opt_field f t x = (case x of None \<Rightarrow> f | Some v \<Rightarrow> with_field f t v)"

lemma get_with_opt_field [simp]:
  "get_field (with_opt_field f t x) t' =
     (case get_field f t' of Some w \<Rightarrow> Some w | None \<Rightarrow> if t = t' then x else None)"
  by (cases x) (auto simp: with_opt_field_def split: option.splits)

lemma frame_ok_with_opt_field [simp]:
  "frame_ok um (with_opt_field f t x) \<longleftrightarrow> frame_ok um f
     \<and> (case x of None \<Rightarrow> True | Some v \<Rightarrow> length v \<le> um \<and> length v < 2 ^ 64)"
  by (cases x) (auto simp: with_opt_field_def)

lemma reject_reserved_with_opt_field [simp]:
  "reject_reserved_pq (with_opt_field f t x) = Inr () \<longleftrightarrow>
     reject_reserved_pq f = Inr () \<and> (x = None \<or> \<not> PQ_RESERVED_TAGS t)"
  by (cases x) (auto simp: with_opt_field_def)

section \<open>Reading a known prefix\<close>

text \<open>\<open>reader_at r bs\<close>: the cursor is inside its buffer and \<open>bs\<close> is what is left to read.
  Decoders of fixed layouts are followed with these facts, one accessor at a time.\<close>

definition reader_at :: "reader \<Rightarrow> bytes \<Rightarrow> bool" where
  "reader_at r bs \<longleftrightarrow> reader_ok r \<and> rest r = bs"

lemma reader_at_new: "reader_at (reader_new b) b"
  by (simp add: reader_at_def)

lemma read_u8_at:
  assumes "reader_at r (b # bs)"
  obtains r' where "read_u8 r = Inr (b, r')" "reader_at r' bs"
  using assms by (intro that [of "advance 1 r"]) (simp_all add: reader_at_def read_u8_rest)

lemma read_bytes_at:
  assumes "reader_at r (b @ bs)" and "length b = n"
  obtains r' where "read_bytes n r = Inr (b, r')" "reader_at r' bs"
  using assms by (intro that [of "advance n r"]) (simp_all add: reader_at_def read_bytes_rest)

lemma read_varint_at:
  assumes "reader_at r (write_varint v @ bs)"
  obtains r' where "read_varint r = Inr (v, r')" "reader_at r' bs"
proof (rule that)
  show "read_varint r = Inr (v, advance (length (write_varint v)) r)"
    using assms by (intro read_varint_write [of _ _ bs]) (simp add: reader_at_def)
  show "reader_at (advance (length (write_varint v)) r) bs"
    using assms by (simp add: reader_at_def)
qed

text \<open>The same facts as rules for a whole decoder: what an accessor yields is passed on, and the
  rest of the decoder starts where it stopped.\<close>

definition yields :: "'e + 'a \<times> reader \<Rightarrow> 'a \<Rightarrow> bytes \<Rightarrow> bool" where
  "yields m x bs \<longleftrightarrow> (\<exists>r. m = Inr (x, r) \<and> reader_at r bs)"

lemma and_then_yields:
  assumes "yields m x bs" and "\<And>r. reader_at r bs \<Longrightarrow> f x r = y"
  shows "and_then m (\<lambda>(x, r). f x r) = y"
  using assms by (auto simp: yields_def)

lemma yields_u8: "reader_at r (b # bs) \<Longrightarrow> yields (map_err g (read_u8 r)) b bs"
  by (auto simp: yields_def elim: read_u8_at)

lemma yields_bytes: "reader_at r (b @ bs) \<Longrightarrow> length b = n \<Longrightarrow> yields (map_err g (read_bytes n r)) b bs"
  by (auto simp: yields_def elim: read_bytes_at)

lemma yields_varint: "reader_at r (write_varint v @ bs) \<Longrightarrow> yields (map_err g (read_varint r)) v bs"
  by (auto simp: yields_def elim: read_varint_at)

section \<open>The value a varint denotes\<close>

text \<open>
  The reference meaning of an LEB128 group sequence, over unbounded numbers. It is
  what the reader must return whenever it returns, without losing bits in the shifts.
\<close>

fun leb128 :: "bytes \<Rightarrow> nat" where
  "leb128 [] = 0"
| "leb128 (b # bs) = unat (b AND 0x7f) + 128 * leb128 bs"

text \<open>Every byte but the last carries the continuation bit.\<close>

fun leb128_terminated :: "bytes \<Rightarrow> bool" where
  "leb128_terminated [] = False"
| "leb128_terminated (b # bs) =
     (if b AND 0x80 = 0 then bs = [] else leb128_terminated bs)"

lemma unat_or_push_bit:
  fixes acc p :: u64
  assumes "unat acc < 2 ^ s" and "unat p * 2 ^ s < 2 ^ 64"
  shows "unat (acc OR push_bit s p) = unat acc + unat p * 2 ^ s"
proof -
  let ?q = "push_bit s (unat p)"
  have q: "?q = unat p * 2 ^ s" by (simp add: push_bit_eq_mult)
  have "n < s" if "bit (unat acc) n" for n
    using that assms(1) by (metis bit_take_bit_iff take_bit_nat_eq_self)
  then have "\<not> bit (unat acc AND ?q) n" for n
    by (auto simp: bit_and_iff bit_push_bit_iff simp del: bit_unsigned_iff dest!: leD)
  then have "unat acc AND ?q = 0" by (simp add: bit_eq_iff)
  then have "unat acc OR ?q = unat acc + ?q" by (simp add: disjunctive_add_eq_or)
  moreover have "unat (acc OR push_bit s p) = unat acc OR ?q"
    using assms(2) q by (simp add: unsigned_or_eq unsigned_push_bit_eq take_bit_nat_eq_self)
  ultimately show ?thesis using q by simp
qed

lemma septet_bound: "unat (b AND 0x7f :: u8) < 128"
proof -
  have "unat (b AND 0x7f :: u8) \<le> unat (0x7f :: u8)"
    by (simp only: word_le_nat_alt [symmetric] word_and_le1)
  then show ?thesis by simp
qed

lemma unat_ucast_u64: "unat (ucast (b :: u8) :: u64) = unat b"
  by (simp add: unsigned_ucast_eq take_bit_nat_eq_self unsigned_less [THEN less_le_trans])

lemma varint_group_value:
  fixes acc :: u64 and b :: u8
  assumes "\<not> (7 * j = 63 \<and> (ucast (b AND 0x7f) :: u64) > 1)" and "j < 10" and "unat acc < 2 ^ (7 * j)"
  shows "unat (acc OR push_bit (7 * j) (ucast (b AND 0x7f))) = unat acc + unat (b AND 0x7f) * 2 ^ (7 * j)"
proof -
  let ?p = "ucast (b AND 0x7f) :: u64"
  have p: "unat ?p = unat (b AND 0x7f)" by (rule unat_ucast_u64)
  have "unat ?p * 2 ^ (7 * j) < 2 ^ 64"
  proof (cases "j = 9")
    case True
    with assms(1) have "unat ?p \<le> 1" by (simp add: word_less_nat_alt not_less)
    with True show ?thesis by (cases "unat ?p") auto
  next
    case False
    with assms(2) have "7 + 7 * j \<le> 63" by simp
    have "unat ?p * 2 ^ (7 * j) < 2 ^ 7 * 2 ^ (7 * j)" using septet_bound [of b] p by simp
    also have "\<dots> = 2 ^ (7 + 7 * j)" by (simp only: power_add)
    also have "\<dots> \<le> 2 ^ 63" using \<open>7 + 7 * j \<le> 63\<close> by (rule power_increasing) simp
    finally show ?thesis by simp
  qed
  from unat_or_push_bit [OF assms(3) this] p show ?thesis by simp
qed

lemma varint_group_bound:
  fixes a acc :: u64 and b :: u8
  assumes "unat a = unat acc + unat (b AND 0x7f) * 2 ^ (7 * j)" and "unat acc < 2 ^ (7 * j)"
  shows "unat a < 2 ^ (7 * Suc j)"
proof -
  have "unat a \<le> unat acc + 127 * 2 ^ (7 * j)" using assms(1) septet_bound [of b] by simp
  also have "\<dots> < 128 * 2 ^ (7 * j)" using assms(2) by simp
  also have "\<dots> = 2 ^ (7 * Suc j)" by (simp add: power_add)
  finally show ?thesis .
qed

lemma read_varint_loop_value:
  assumes "read_varint_loop k acc (7 * j) r = Inr (v, r')" and "j + k = 10"
    and "unat acc < 2 ^ (7 * j)"
  shows "\<exists>n. r' = advance n r \<and> 1 \<le> n \<and> n \<le> k \<and> n \<le> length (rest r)
           \<and> unat v = unat acc + leb128 (take n (rest r)) * 2 ^ (7 * j)
           \<and> leb128_terminated (take n (rest r))"
  using assms
proof (induction k arbitrary: acc j r)
  case 0
  then show ?case by simp
next
  case (Suc k)
  from Suc.prems(1) obtain b bs where rest: "rest r = b # bs"
    by (cases "rest r") (auto simp: read_u8_rest)
  let ?p = "ucast (b AND 0x7f) :: u64" and ?a = "acc OR push_bit (7 * j) (ucast (b AND 0x7f))"
  have rd: "read_u8 r = Inr (b, advance 1 r)" by (simp add: read_u8_rest rest)
  have ok: "\<not> (7 * j = 63 \<and> ?p > 1)"
  proof
    assume "7 * j = 63 \<and> ?p > 1"
    with Suc.prems(1) rd show False by (simp only: read_varint_loop.simps and_then_Inr Let_def split) simp
  qed
  have a: "unat ?a = unat acc + unat (b AND 0x7f) * 2 ^ (7 * j)"
    using varint_group_value [OF ok _ Suc.prems(3)] Suc.prems(2) by simp
  show ?case
  proof (cases "b AND 0x80 = 0")
    case True
    then have "read_varint_loop (Suc k) acc (7 * j) r = Inr (?a, advance 1 r)"
      using rest ok by (intro read_varint_stop) simp_all
    then have "v = ?a" and "r' = advance 1 r"
      using Suc.prems(1) by (simp_all del: read_varint_loop.simps)
    with True a rest show ?thesis by (intro exI [of _ 1]) simp
  next
    case False
    have eq: "7 * j + 7 = 7 * Suc j" by simp
    have "read_varint_loop (Suc k) acc (7 * j) r = read_varint_loop k ?a (7 * j + 7) (advance 1 r)"
      using rest False refl ok by (rule read_varint_cont)
    then have next': "read_varint_loop k ?a (7 * Suc j) (advance 1 r) = Inr (v, r')"
      using Suc.prems(1) unfolding eq by simp
    obtain n where n: "r' = advance n (advance 1 r)" "1 \<le> n" "n \<le> k" "n \<le> length bs"
        "unat v = unat ?a + leb128 (take n bs) * 2 ^ (7 * Suc j)" "leb128_terminated (take n bs)"
      using Suc.IH [OF next' _ varint_group_bound [OF a Suc.prems(3)]] Suc.prems(2) rest by auto
    have "unat v = unat acc + (unat (b AND 0x7f) + 128 * leb128 (take n bs)) * 2 ^ (7 * j)"
      using n(5) a by (simp add: power_add algebra_simps)
    with n rest False show ?thesis by (intro exI [of _ "Suc n"]) simp
  qed
qed

lemma read_varint_denotes:
  assumes "read_varint r = Inr (v, r')"
  shows "\<exists>n. r' = advance n r \<and> n \<le> 10 \<and> unat v = leb128 (take n (rest r))
           \<and> leb128_terminated (take n (rest r))"
  using read_varint_loop_value [of 10 0 0 r v r'] assms
  by (auto simp: read_varint_def MAX_VARINT_LEN_def)

text \<open>Conversely, every terminated group sequence of at most ten bytes whose value fits is read.\<close>

lemma leb128_head_fits:
  assumes "leb128 (b # bs) * 2 ^ (7 * j) < 2 ^ 64"
  shows "\<not> (7 * j = 63 \<and> (ucast (b AND 0x7f) :: u64) > 1)"
proof
  assume a: "7 * j = 63 \<and> (ucast (b AND 0x7f) :: u64) > 1"
  then have "2 \<le> unat (ucast (b AND 0x7f) :: u64)" by (simp add: word_less_nat_alt)
  then have "2 \<le> leb128 (b # bs)" using unat_ucast_u64 [of "b AND 0x7f"] by simp
  then have "2 * 2 ^ 63 \<le> leb128 (b # bs) * 2 ^ 63" by (rule mult_le_mono1)
  with assms a show False by simp
qed

lemma read_varint_loop_complete:
  assumes "rest r = bs @ ts" and "leb128_terminated bs" and "length bs \<le> k" and "j + k = 10"
    and "leb128 bs * 2 ^ (7 * j) < 2 ^ 64"
  shows "\<exists>v. read_varint_loop k acc (7 * j) r = Inr (v, advance (length bs) r)"
  using assms
proof (induction bs arbitrary: r k j acc)
  case Nil
  then show ?case by simp
next
  case (Cons b bs)
  from Cons.prems(3) obtain k' where k: "k = Suc k'" by (cases k) auto
  let ?p = "ucast (b AND 0x7f) :: u64"
  have ok: "\<not> (7 * j = 63 \<and> ?p > 1)" using leb128_head_fits [OF Cons.prems(5)] .
  show ?case
  proof (cases "b AND 0x80 = 0")
    case True
    with Cons.prems(2) have "bs = []" by simp
    then show ?thesis
      using read_varint_stop [OF _ True refl ok, of r bs' k' acc for bs'] Cons.prems(1)
      unfolding k by (simp del: read_varint_loop.simps)
  next
    case False
    have bound: "leb128 bs * 2 ^ (7 * Suc j) < 2 ^ 64"
    proof -
      have "leb128 bs * 2 ^ (7 * Suc j) = 128 * leb128 bs * 2 ^ (7 * j)" by (simp add: power_add)
      also have "\<dots> \<le> leb128 (b # bs) * 2 ^ (7 * j)" by simp
      finally show ?thesis using Cons.prems(5) by simp
    qed
    have "\<exists>v. read_varint_loop k' (acc OR push_bit (7 * j) ?p) (7 * Suc j) (advance 1 r)
        = Inr (v, advance (length bs) (advance 1 r))"
      using Cons.prems False bound by (intro Cons.IH) (simp_all add: k)
    moreover have "read_varint_loop k acc (7 * j) r
        = read_varint_loop k' (acc OR push_bit (7 * j) ?p) (7 * j + 7) (advance 1 r)"
      using Cons.prems(1) unfolding k by (intro read_varint_cont [OF _ False refl ok]) simp
    moreover have "7 * j + 7 = 7 * Suc j" by simp
    ultimately show ?thesis by (simp del: read_varint_loop.simps)
  qed
qed

lemma advance_inject [simp]: "advance m r = advance n r \<longleftrightarrow> m = n"
  by (auto simp: advance_def dest: arg_cong [of _ _ pos])

lemma read_varint_complete:
  assumes "n \<le> 10" and "n \<le> length (rest r)" and "leb128_terminated (take n (rest r))"
    and "unat v = leb128 (take n (rest r))"
  shows "read_varint r = Inr (v, advance n r)"
proof -
  let ?bs = "take n (rest r)"
  have "unat v < 2 ^ 64" using unsigned_less [of v] by simp
  then have "leb128 ?bs < 2 ^ 64" using assms(4) by simp
  then have "\<exists>w. read_varint_loop 10 0 (7 * 0) r = Inr (w, advance (length ?bs) r)"
    using assms(1,3) by (intro read_varint_loop_complete [where ts = "drop n (rest r)"]) simp_all
  then obtain w where w: "read_varint r = Inr (w, advance n r)"
    using assms(2) by (auto simp: min_def read_varint_def MAX_VARINT_LEN_def simp del: read_varint_loop.simps)
  with read_varint_denotes [OF w] have "unat w = leb128 ?bs" by auto
  with assms(4) have "unat w = unat v" by simp
  with w show ?thesis by (simp add: word_unat_eq_iff)
qed

text \<open>A group is canonical when it has no redundant last byte: it is one byte long or
  its last byte is not zero.\<close>

definition leb128_canonical :: "bytes \<Rightarrow> bool" where
  "leb128_canonical bs \<longleftrightarrow> leb128_terminated bs \<and> (length bs = 1 \<or> last bs \<noteq> 0)"

lemma septet_msb: "(b :: u8) AND 0x80 = 0 \<longleftrightarrow> \<not> bit b 7"
proof
  assume "b AND 0x80 = 0"
  then have "\<not> bit (b AND 0x80) 7" by simp
  then show "\<not> bit b 7" by (simp add: septet_bits)
next
  assume "\<not> bit b 7"
  then show "b AND 0x80 = 0" by (intro bit_word_eqI) (auto simp: septet_bits)
qed

lemma septet_whole: "(b :: u8) AND 0x80 = 0 \<Longrightarrow> b AND 0x7f = b"
  by (rule bit_word_eqI) (auto simp: septet_bits septet_msb less_Suc_eq numeral_eq_Suc)

lemma septet_or: "(b :: u8) AND 0x80 \<noteq> 0 \<Longrightarrow> (b AND 0x7f) OR 0x80 = b"
  by (rule bit_word_eqI) (auto simp: septet_bits septet_msb less_Suc_eq numeral_eq_Suc)

lemma leb128_positive: "leb128_terminated bs \<Longrightarrow> last bs \<noteq> 0 \<Longrightarrow> 0 < leb128 bs"
proof (induction bs)
  case (Cons b bs)
  show ?case
  proof (cases "b AND 0x80 = 0")
    case True
    with Cons.prems have "b \<noteq> 0" by simp
    with septet_whole [OF True] show ?thesis by (simp add: unat_gt_0)
  next
    case False
    with Cons show ?thesis by (cases "bs = []") simp_all
  qed
qed simp

lemma leb128_split:
  fixes v :: u64
  assumes "unat v = leb128 (b # bs)"
  shows "ucast (v AND 0x7f) = b AND 0x7f" and "unat (drop_bit 7 v) = leb128 bs"
proof -
  have "unat (v AND 0x7f) = unat v mod 2 ^ 7"
  proof -
    have "(0x7f :: u64) = mask 7" by (simp add: mask_eq_exp_minus_1)
    then show ?thesis by (simp only: take_bit_eq_mask [symmetric] unsigned_take_bit_eq take_bit_eq_mod [of 7 "unat v"])
  qed
  then have lo: "unat (v AND 0x7f) = unat (b AND 0x7f)" using assms septet_bound [of b] by simp
  then have "v AND 0x7f = ucast (b AND 0x7f)" by (simp add: word_unat_eq_iff unat_ucast_u64)
  then show "ucast (v AND 0x7f) = b AND 0x7f"
    by simp (rule bit_word_eqI, simp add: bit_ucast_iff)
  have "unat (drop_bit 7 v) = unat v div 128"
    unfolding unat_drop_bit_eq by (simp add: drop_bit_eq_div)
  then show "unat (drop_bit 7 v) = leb128 bs" using assms septet_bound [of b] by simp
qed

lemma write_leb128:
  assumes "leb128_canonical bs" and "unat v = leb128 bs"
  shows "write_varint v = bs"
  using assms
proof (induction bs arbitrary: v)
  case Nil
  then show ?case by (simp add: leb128_canonical_def)
next
  case (Cons b bs)
  note v = leb128_split [OF Cons.prems(2)]
  show ?case
  proof (cases "b AND 0x80 = 0")
    case True
    then have bs: "bs = []" using Cons.prems(1) by (simp add: leb128_canonical_def)
    with v(2) have "drop_bit 7 v = 0" by (simp add: unat_eq_0)
    then show ?thesis using v(1) by (simp add: write_varint_stop septet_whole [OF True] bs)
  next
    case False
    with Cons.prems(1) have ends: "leb128_terminated bs" and nz: "last bs \<noteq> 0"
      by (auto simp: leb128_canonical_def split: if_splits)
    then have "drop_bit 7 v \<noteq> 0" using leb128_positive [OF ends nz] v(2) by (auto simp: unat_eq_0)
    moreover have "write_varint (drop_bit 7 v) = bs"
      using ends nz v(2) by (intro Cons.IH) (simp_all add: leb128_canonical_def)
    ultimately show ?thesis using v(1) by (simp add: write_varint_cont septet_or [OF False])
  qed
qed

lemma leb128_prefix_unique:
  "leb128_terminated bs \<Longrightarrow> leb128_terminated (take n (bs @ ts)) \<Longrightarrow> take n (bs @ ts) = bs"
proof (induction bs arbitrary: n)
  case (Cons b bs)
  then show ?case by (cases n) (auto split: if_splits)
qed simp

lemma read_varint_loop_error:
  assumes "read_varint_loop k acc shift r = Inl e" and "rest r = bs @ ts" and "leb128_terminated bs"
  shows "e = VarintOverflow"
  using assms
proof (induction k arbitrary: acc shift r bs)
  case (Suc k)
  from Suc.prems(3) obtain b bs' where bs: "bs = b # bs'" by (cases bs) auto
  then have rd: "read_u8 r = Inr (b, advance 1 r)" by (simp add: read_u8_rest Suc.prems(2))
  show ?case
  proof (cases "b AND 0x80 = 0 \<or> (shift = 63 \<and> (ucast (b AND 0x7f) :: u64) > 1)")
    case True
    with Suc.prems(1) rd show ?thesis by (auto simp: Let_def split: if_splits)
  next
    case False
    then have "leb128_terminated bs'" using Suc.prems(3) bs by simp
    moreover have "read_varint_loop k (acc OR push_bit shift (ucast (b AND 0x7f))) (shift + 7) (advance 1 r) = Inl e"
      using Suc.prems(1) rd False by (auto simp: Let_def split: if_splits)
    ultimately show ?thesis using Suc.IH [of _ _ "advance 1 r" bs'] Suc.prems(2) bs by simp
  qed
qed simp

lemma read_varint_loop_truncated:
  assumes "\<And>b. b \<in> set (rest r) \<Longrightarrow> b AND 0x80 \<noteq> 0" and "length (rest r) < k" and "shift + 7 * length (rest r) \<le> 63"
  shows "read_varint_loop k acc shift r = Inl UnexpectedEof"
  using assms
proof (induction k arbitrary: acc shift r)
  case (Suc k)
  show ?case
  proof (cases "rest r")
    case Nil
    then show ?thesis by (simp add: read_u8_rest)
  next
    case (Cons b bs)
    then have rd: "read_u8 r = Inr (b, advance 1 r)" and "shift \<noteq> 63" and "b AND 0x80 \<noteq> 0"
      using Suc.prems by (auto simp: read_u8_rest)
    moreover have "read_varint_loop k (acc OR push_bit shift (ucast (b AND 0x7f))) (shift + 7) (advance 1 r) = Inl UnexpectedEof"
      using Suc.prems Cons by (intro Suc.IH) simp_all
    ultimately show ?thesis by (simp add: Let_def)
  qed
qed simp

interpretation frame_codec: checked_codec True frame_encode "frame_decode um" "frame_ok um" for um
  by unfold_locales (simp_all add: frame_decode_encode_ok frame_decode_ok)

section \<open>Properties of the wire layer\<close>

text \<open>C14. Every frame that fits the platform survives encoding and decoding, and two
  such frames with the same encoding are equal.\<close>

theorem frame_roundtrip:
  assumes "frame_ok um f" and "frame_ok um g"
  shows "frame_decode um (frame_encode f) = Inr f \<and> (frame_encode f = frame_encode g \<longrightarrow> f = g)"
  using assms frame_codec.dec_enc frame_codec.enc_inject by (simp add: frame_codec.dec_enc)

theorem frame_roundtrip_witness:
  "frame_decode (2 ^ 32) (frame_encode (with_field (with_flags frame_new FLAG_HANDSHAKE) TAG_KEM_CT [1, 2]))
     = Inr (with_field (with_flags frame_new FLAG_HANDSHAKE) TAG_KEM_CT [1, 2])"
proof -
  have "frame_ok (2 ^ 32) (with_field (with_flags frame_new FLAG_HANDSHAKE) TAG_KEM_CT [1, 2])"
    by (simp add: frame_ok_def field_ok_def with_field_def with_flags_def frame_new_def)
  from frame_roundtrip [OF this this] show ?thesis by blast
qed

text \<open>C15. Whatever byte string the frame decoder accepts, the frame it returns is
  well-formed, re-encodes to bytes that decode to the same frame, and holds no more
  than the input paid for: three bytes of envelope and two per field beside the
  values. No length prefix makes the decoder allocate more than it was given.\<close>

theorem frame_decode_stable_bounded:
  assumes "frame_decode um b = Inr f"
  shows "frame_ok um f \<and> frame_decode um (frame_encode f) = Inr f
    \<and> 3 + (\<Sum>x\<leftarrow>field_list f. 2 + length (val x)) \<le> length b"
  using assms frame_decode_ok frame_codec.reencode_stable frame_decode_size by blast

theorem frame_decode_stable_bounded_witness:
  "frame_ok 255 frame_new \<and> frame_decode 255 (frame_encode frame_new) = Inr frame_new"
proof -
  have "frame_decode 255 [0xB0, 0x01, 0x80, 0x00] = Inr frame_new" by code_simp
  from frame_decode_stable_bounded [OF this] show ?thesis by blast
qed

text \<open>C16. The varint reader reads every canonical LEB128 group: its value and exactly its
  bytes when the value fits 64 bits, and \<open>VarintOverflow\<close> when it does not; writing the value
  read gives the group back. Input that ends inside a group of fewer than ten bytes is \<open>UnexpectedEof\<close>. Whatever
  is returned is the value of a terminated group of at most ten bytes that was consumed
  exactly: no bit is lost in the shifts.\<close>

theorem read_varint_canonical:
  "(rest r = bs @ ts \<and> leb128_canonical bs \<longrightarrow>
      read_varint r = (if leb128 bs < 2 ^ 64 then Inr (of_nat (leb128 bs), advance (length bs) r)
                       else Inl VarintOverflow)
      \<and> (leb128 bs < 2 ^ 64 \<longrightarrow> write_varint (of_nat (leb128 bs)) = bs))
   \<and> ((\<forall>b\<in>set (rest r). b AND 0x80 \<noteq> 0) \<and> length (rest r) < 10 \<longrightarrow> read_varint r = Inl UnexpectedEof)
   \<and> (read_varint r = Inr (v, r') \<longrightarrow>
      (\<exists>n. n \<le> 10 \<and> n \<le> length (rest r) \<and> r' = advance n r
         \<and> leb128_terminated (take n (rest r)) \<and> unat v = leb128 (take n (rest r))))"
proof (intro conjI impI; (elim conjE)?)
  assume r: "rest r = bs @ ts" and c: "leb128_canonical bs"
  then have t: "leb128_terminated bs" by (simp add: leb128_canonical_def)
  show w: "write_varint (of_nat (leb128 bs)) = bs" if "leb128 bs < 2 ^ 64"
    using write_leb128 [OF c, of "of_nat (leb128 bs)"] that by (simp add: unat_of_nat)
  show "read_varint r = (if leb128 bs < 2 ^ 64 then Inr (of_nat (leb128 bs), advance (length bs) r)
                       else Inl VarintOverflow)"
  proof (cases "leb128 bs < 2 ^ 64")
    case True
    with r w have "rest r = write_varint (of_nat (leb128 bs)) @ ts" by simp
    from read_varint_write [OF this] True w show ?thesis by simp
  next
    case False
    have False if "read_varint r = Inr (w, r1)" for w r1
    proof -
      from read_varint_denotes [OF that] obtain n where n: "unat w = leb128 (take n (rest r))"
        "leb128_terminated (take n (rest r))" by blast
      with leb128_prefix_unique [OF t, of n ts] r have "unat w = leb128 bs" by simp
      with False unsigned_less [where 'a = nat, of w] show ?thesis by simp
    qed
    then show ?thesis using False read_varint_loop_error [OF _ r t]
      by (cases "read_varint r") (auto simp: read_varint_def)
  qed
next
  assume "\<forall>b\<in>set (rest r). b AND 0x80 \<noteq> 0" and "length (rest r) < 10"
  then show "read_varint r = Inl UnexpectedEof"
    unfolding read_varint_def MAX_VARINT_LEN_def by (intro read_varint_loop_truncated) auto
next
  assume rd: "read_varint r = Inr (v, r')"
  then obtain n where n: "n \<le> 10" "n \<le> length (rest r)" "r' = advance n r" by (rule read_varint_advance)
  with read_varint_denotes [OF rd] show "\<exists>n. n \<le> 10 \<and> n \<le> length (rest r) \<and> r' = advance n r
         \<and> leb128_terminated (take n (rest r)) \<and> unat v = leb128 (take n (rest r))" by auto
qed

theorem read_varint_canonical_witness:
  "read_varint (reader_new [0x96, 0x01, 0x2a]) = Inr (150, advance 2 (reader_new [0x96, 0x01, 0x2a]))
   \<and> write_varint 150 = [0x96, 0x01]"
  using read_varint_canonical [of "reader_new [0x96, 0x01, 0x2a]" "[0x96, 0x01]" "[0x2a]", THEN conjunct1]
  by (simp add: leb128_canonical_def)
text \<open>Contrary to the reader's documentation, non-canonical encodings are accepted:
  \<open>80 00\<close> reads as zero, and two different byte strings decode to the same frame.\<close>

theorem overlong_varint_accepted:
  "read_varint (reader_new [0x80, 0x00]) = Inr (0, advance 2 (reader_new [0x80, 0x00]))
   \<and> frame_decode um [0xB0, 0x01, 0x00] = Inr frame_new
   \<and> frame_decode um [0xB0, 0x01, 0x80, 0x00] = Inr frame_new"
proof -
  have "leb128_terminated [0x80, 0x00]" "leb128_terminated [0x00]" "leb128 [0x80, 0x00] = 0" "leb128 [0x00] = 0"
    by simp_all
  note groups = this
  have two: "read_varint r = Inr (0, advance 2 r)" if "rest r = [0x80, 0x00]" for r
    using groups that read_varint_complete [of 2 r 0] by simp
  have one: "read_varint r = Inr (0, advance 1 r)" if "rest r = [0x00]" for r
    using groups that read_varint_complete [of 1 r 0] by simp
  have nofield: "decode_fields um r = Inr []" if "rest r = []" for r
    using that by (subst decode_fields.simps) (simp add: is_empty_iff)
  have empty: "frame_decode um b = Inr frame_new"
    if "b = 0xB0 # 0x01 # w" "read_varint (advance 2 (reader_new b)) = Inr (0, r)" "rest r = []" for b w r
    using that nofield by (simp add: frame_decode_def read_u8_rest MAGIC_def WIRE_VERSION_def frame_new_def
        numeral_2_eq_2 [symmetric] one_add_one)
  show ?thesis
    using two [of "reader_new [0x80, 0x00]"] empty [OF refl one] empty [OF refl two] by simp
qed

end
