(* ===== verification/Primitives.thy ===== *)
theory Primitives
  imports Wire
begin

text \<open>
  The cryptographic wrappers of \<open>crates/buh-crypto/src\<close>: \<open>error.rs\<close>, \<open>aead.rs\<close>,
  \<open>kem.rs\<close> and \<open>identity.rs\<close>.

  The algorithms themselves (X25519, ML-KEM-768, ML-DSA-65, HKDF-SHA256,
  XChaCha20-Poly1305, base64url) live in third-party crates. They are the fields of
  the record \<open>prims\<close>, an argument of every definition that reaches them; what the
  code relies on is stated by the predicates \<open>x25519_laws\<close>, \<open>kem_laws\<close>,
  \<open>dsa_laws\<close>, \<open>hkdf_laws\<close>, \<open>aead_laws\<close> and \<open>base64_laws\<close>, the documented
  functional behaviour of those crates. Key objects are represented by their
  encodings, fixed arrays by byte lists whose length is part of the well-formedness
  predicates. Randomness drawn from the system generator is an explicit argument.
\<close>

section \<open>Errors\<close>

datatype crypto_error =
    WireErr wire_error
  | Aead
  | BadSignature
  | Malformed string
  | RatchetErr string

definition malformed :: "string \<Rightarrow> crypto_error" where
  "malformed what = Malformed what"

text \<open>The \<open>?\<close> operator on a codec result inside a function that returns \<open>CryptoError\<close>.\<close>

abbreviation wire :: "wire_error + 'a \<Rightarrow> crypto_error + 'a" where
  "wire m \<equiv> map_err WireErr m"

section \<open>Third-party primitives\<close>

record prims =
  usize_max :: nat
  hkdf_extract :: "bytes \<Rightarrow> bytes \<Rightarrow> bytes"
  hkdf_expand :: "bytes \<Rightarrow> bytes \<Rightarrow> nat \<Rightarrow> bytes"
  x_secret_from :: "bytes \<Rightarrow> bytes"
  x_public :: "bytes \<Rightarrow> bytes"
  x_dh :: "bytes \<Rightarrow> bytes \<Rightarrow> bytes"
  kem_ek :: "bytes \<Rightarrow> bytes"
  kem_ek_valid :: "bytes \<Rightarrow> bool"
  kem_encaps :: "bytes \<Rightarrow> bytes \<Rightarrow> bytes \<times> bytes"
  kem_decaps :: "bytes \<Rightarrow> bytes \<Rightarrow> bytes"
  dsa_pk :: "bytes \<Rightarrow> bytes"
  dsa_sign :: "bytes \<Rightarrow> bytes \<Rightarrow> bytes \<Rightarrow> bytes"
  dsa_sign_det :: "bytes \<Rightarrow> bytes \<Rightarrow> bytes"
  dsa_sig_valid :: "bytes \<Rightarrow> bool"
  dsa_verify :: "bytes \<Rightarrow> bytes \<Rightarrow> bytes \<Rightarrow> bool"
  aead_encrypt :: "bytes \<Rightarrow> bytes \<Rightarrow> bytes \<Rightarrow> bytes \<Rightarrow> bytes option"
  aead_decrypt :: "bytes \<Rightarrow> bytes \<Rightarrow> bytes \<Rightarrow> bytes \<Rightarrow> bytes option"
  b64url_encode :: "bytes \<Rightarrow> string"
  b64url_decode :: "string \<Rightarrow> bytes option"

definition KEY_LEN :: nat where "KEY_LEN = 32"
definition NONCE_LEN :: nat where "NONCE_LEN = 24"
definition TAG_LEN :: nat where "TAG_LEN = 16"
definition X25519_LEN :: nat where "X25519_LEN = 32"
definition SHARED_SECRET_LEN :: nat where "SHARED_SECRET_LEN = 32"
definition MLKEM_ENCAPS_KEY_LEN :: nat where "MLKEM_ENCAPS_KEY_LEN = 1184"
definition MLKEM_CIPHERTEXT_LEN :: nat where "MLKEM_CIPHERTEXT_LEN = 1088"
definition MLKEM_SECRET_LEN :: nat where "MLKEM_SECRET_LEN = 64"
definition SEED_LEN :: nat where "SEED_LEN = 32"
definition PUBLIC_KEY_LEN :: nat where "PUBLIC_KEY_LEN = 1952"
definition SIGNATURE_LEN :: nat where "SIGNATURE_LEN = 3309"

lemmas len_consts = KEY_LEN_def NONCE_LEN_def TAG_LEN_def X25519_LEN_def SHARED_SECRET_LEN_def
  MLKEM_ENCAPS_KEY_LEN_def MLKEM_CIPHERTEXT_LEN_def MLKEM_SECRET_LEN_def SEED_LEN_def
  PUBLIC_KEY_LEN_def SIGNATURE_LEN_def

subsection \<open>What the code relies on\<close>

text \<open>Any buffer of the sizes the protocol uses is addressable.\<close>

definition platform_ok :: "prims \<Rightarrow> bool" where
  "platform_ok K \<longleftrightarrow> 2 ^ 32 - 1 \<le> usize_max K"

text \<open>RFC 5869: the output has the requested length, up to 255 hash blocks.\<close>

definition hkdf_laws :: "prims \<Rightarrow> bool" where
  "hkdf_laws K \<longleftrightarrow> (\<forall>prk info n. n \<le> 255 * 32 \<longrightarrow> length (hkdf_expand K prk info n) = n)"

text \<open>
  RFC 7748: fixed sizes and agreement of the two sides. \<open>x_secret_from\<close> is the
  conversion of raw bytes to a secret key (which may clamp); a key converts to itself.
\<close>

definition x25519_laws :: "prims \<Rightarrow> bool" where
  "x25519_laws K \<longleftrightarrow>
     (\<forall>s. length s = 32 \<longrightarrow> length (x_secret_from K s) = 32
        \<and> x_secret_from K (x_secret_from K s) = x_secret_from K s)
   \<and> (\<forall>s. length s = 32 \<longrightarrow> length (x_public K s) = 32)
   \<and> (\<forall>s p. length s = 32 \<and> length p = 32 \<longrightarrow> length (x_dh K s p) = 32)
   \<and> (\<forall>a b. length a = 32 \<and> length b = 32 \<longrightarrow> x_dh K a (x_public K b) = x_dh K b (x_public K a))"

text \<open>FIPS 203: sizes, the generated key passes the modulus check, decapsulation is correct.\<close>

definition kem_laws :: "prims \<Rightarrow> bool" where
  "kem_laws K \<longleftrightarrow>
     (\<forall>seed. length seed = 64 \<longrightarrow>
        length (kem_ek K seed) = 1184 \<and> kem_ek_valid K (kem_ek K seed))
   \<and> (\<forall>ek coins. length ek = 1184 \<longrightarrow>
        length (fst (kem_encaps K ek coins)) = 1088 \<and> length (snd (kem_encaps K ek coins)) = 32)
   \<and> (\<forall>seed coins. length seed = 64 \<longrightarrow>
        kem_decaps K seed (fst (kem_encaps K (kem_ek K seed) coins))
          = snd (kem_encaps K (kem_ek K seed) coins))"

text \<open>FIPS 204: sizes, and a signature made with a key verifies under its public key.\<close>

definition dsa_laws :: "prims \<Rightarrow> bool" where
  "dsa_laws K \<longleftrightarrow>
     (\<forall>seed. length seed = 32 \<longrightarrow> length (dsa_pk K seed) = 1952)
   \<and> (\<forall>seed rnd m. length seed = 32 \<longrightarrow>
        length (dsa_sign K seed rnd m) = 3309 \<and> dsa_sig_valid K (dsa_sign K seed rnd m)
        \<and> dsa_verify K (dsa_pk K seed) m (dsa_sign K seed rnd m))"

text \<open>
  XChaCha20-Poly1305 as a deterministic AEAD: encryption succeeds below the cipher's
  message limit, decryption inverts it, and decryption accepts nothing but what
  encryption under the same key, nonce and associated data produces.
\<close>

definition aead_laws :: "prims \<Rightarrow> bool" where
  "aead_laws K \<longleftrightarrow>
     (\<forall>k n a m. length k = 32 \<and> length n = 24 \<and> length m < 2 ^ 32 \<longrightarrow>
        aead_encrypt K k n a m \<noteq> None)
   \<and> (\<forall>k n a m c. aead_encrypt K k n a m = Some c \<longrightarrow>
        aead_decrypt K k n a c = Some m \<and> length c = length m + 16)
   \<and> (\<forall>k n a m c. aead_decrypt K k n a c = Some m \<longrightarrow> aead_encrypt K k n a m = Some c)"

definition base64_laws :: "prims \<Rightarrow> bool" where
  "base64_laws K \<longleftrightarrow> (\<forall>b. b64url_decode K (b64url_encode K b) = Some b)"

definition crypto_laws :: "prims \<Rightarrow> bool" where
  "crypto_laws K \<longleftrightarrow> platform_ok K \<and> hkdf_laws K \<and> x25519_laws K \<and> kem_laws K \<and> dsa_laws K
     \<and> aead_laws K \<and> base64_laws K"

section \<open>AEAD\<close>

definition seal :: "prims \<Rightarrow> bytes \<Rightarrow> bytes \<Rightarrow> bytes \<Rightarrow> bytes \<Rightarrow> crypto_error + bytes" where
  "seal K key nonce aad plaintext = ok_or Aead (aead_encrypt K key nonce aad plaintext)"

definition open_aead :: "prims \<Rightarrow> bytes \<Rightarrow> bytes \<Rightarrow> bytes \<Rightarrow> bytes \<Rightarrow> crypto_error + bytes" where
  "open_aead K key nonce aad ciphertext = ok_or Aead (aead_decrypt K key nonce aad ciphertext)"

text \<open>The system generator's bytes are the argument \<open>rnd\<close>.\<close>

definition random_nonce :: "bytes \<Rightarrow> bytes" where
  "random_nonce rnd = rnd"

section \<open>X25519 and ML-KEM-768\<close>

definition x25519_generate :: "prims \<Rightarrow> bytes \<Rightarrow> bytes" where
  "x25519_generate K rnd = x_secret_from K rnd"

definition x25519_from_bytes :: "prims \<Rightarrow> bytes \<Rightarrow> bytes" where
  "x25519_from_bytes K b = x_secret_from K b"

definition x25519_public_key :: "prims \<Rightarrow> bytes \<Rightarrow> bytes" where
  "x25519_public_key K s = x_public K s"

definition diffie_hellman :: "prims \<Rightarrow> bytes \<Rightarrow> bytes \<Rightarrow> bytes" where
  "diffie_hellman K s peer = x_dh K s peer"

definition x25519_pk_from_slice :: "bytes \<Rightarrow> crypto_error + bytes" where
  "x25519_pk_from_slice b =
     (if length b = X25519_LEN then Inr b else Inl (malformed ''x25519 public key''))"

definition mlkem_generate :: "prims \<Rightarrow> bytes \<Rightarrow> bytes \<times> bytes" where
  "mlkem_generate K seed = (seed, kem_ek K seed)"

definition decapsulate :: "prims \<Rightarrow> bytes \<Rightarrow> bytes \<Rightarrow> crypto_error + bytes" where
  "decapsulate K dk ciphertext =
     (if length ciphertext = MLKEM_CIPHERTEXT_LEN then Inr (kem_decaps K dk ciphertext)
      else Inl (malformed ''ml-kem ciphertext''))"

definition mlkem_sk_from_bytes :: "bytes \<Rightarrow> crypto_error + bytes" where
  "mlkem_sk_from_bytes b =
     (if length b = MLKEM_SECRET_LEN then Inr b else Inl (malformed ''ml-kem secret key''))"

definition encapsulate :: "prims \<Rightarrow> bytes \<Rightarrow> bytes \<Rightarrow> bytes \<times> bytes" where
  "encapsulate K ek coins = kem_encaps K ek coins"

definition mlkem_pk_from_slice :: "prims \<Rightarrow> bytes \<Rightarrow> crypto_error + bytes" where
  "mlkem_pk_from_slice K b =
     (if length b \<noteq> MLKEM_ENCAPS_KEY_LEN then Inl (malformed ''ml-kem public key'')
      else if kem_ek_valid K b then Inr b else Inl (malformed ''ml-kem public key''))"

section \<open>ML-DSA-65 identities\<close>

definition identity_from_seed :: "bytes \<Rightarrow> bytes" where
  "identity_from_seed seed = seed"

definition to_seed :: "bytes \<Rightarrow> bytes" where
  "to_seed sk = sk"

definition identity_public_key :: "prims \<Rightarrow> bytes \<Rightarrow> bytes" where
  "identity_public_key K sk = dsa_pk K sk"

definition sign :: "prims \<Rightarrow> bytes \<Rightarrow> bytes \<Rightarrow> bytes \<Rightarrow> bytes" where
  "sign K sk rnd msg = dsa_sign K sk rnd msg"

definition sign_deterministic :: "prims \<Rightarrow> bytes \<Rightarrow> bytes \<Rightarrow> bytes" where
  "sign_deterministic K sk msg = dsa_sign_det K sk msg"

definition identity_pk_from_bytes :: "bytes \<Rightarrow> crypto_error + bytes" where
  "identity_pk_from_bytes b =
     (if length b = PUBLIC_KEY_LEN then Inr b else Inl (malformed ''identity public key''))"

definition verify :: "prims \<Rightarrow> bytes \<Rightarrow> bytes \<Rightarrow> bytes \<Rightarrow> crypto_error + unit" where
  "verify K pk msg sig = (if dsa_verify K pk msg sig then Inr () else Inl BadSignature)"

definition signature_from_bytes :: "prims \<Rightarrow> bytes \<Rightarrow> crypto_error + bytes" where
  "signature_from_bytes K b =
     (if length b \<noteq> SIGNATURE_LEN then Inl (malformed ''signature'')
      else if dsa_sig_valid K b then Inr b else Inl (malformed ''signature''))"

section \<open>Consequences of the laws\<close>

lemma hkdf_expand_length [len_simps]:
  "hkdf_laws K \<Longrightarrow> n \<le> 8160 \<Longrightarrow> length (hkdf_expand K prk info n) = n"
  by (simp add: hkdf_laws_def)

lemma x25519_lengths [len_simps]:
  assumes "x25519_laws K"
  shows "length s = 32 \<Longrightarrow> length (x25519_generate K s) = 32"
    and "length s = 32 \<Longrightarrow> length (x25519_from_bytes K s) = 32"
    and "length s = 32 \<Longrightarrow> length (x25519_public_key K s) = 32"
    and "length s = 32 \<Longrightarrow> length p = 32 \<Longrightarrow> length (diffie_hellman K s p) = 32"
  using assms by (simp_all add: x25519_laws_def x25519_generate_def x25519_from_bytes_def
      x25519_public_key_def diffie_hellman_def)

lemma x25519_from_generate:
  "x25519_laws K \<Longrightarrow> length s = 32 \<Longrightarrow>
     x25519_from_bytes K (x25519_generate K s) = x25519_generate K s"
  by (simp add: x25519_laws_def x25519_generate_def x25519_from_bytes_def)

lemma dh_agreement:
  "x25519_laws K \<Longrightarrow> length a = 32 \<Longrightarrow> length b = 32 \<Longrightarrow>
     diffie_hellman K a (x25519_public_key K b) = diffie_hellman K b (x25519_public_key K a)"
  by (simp add: x25519_laws_def x25519_public_key_def diffie_hellman_def)

lemma seal_total:
  assumes "aead_laws K" and "length k = 32" and "length n = 24" and "length p < 2 ^ 32"
  obtains c where "seal K k n a p = Inr c" "length c = length p + 16"
proof -
  from assms obtain c where "aead_encrypt K k n a p = Some c" unfolding aead_laws_def by blast
  with assms(1) that show thesis unfolding aead_laws_def seal_def by (metis ok_or_Some)
qed

lemma open_seal:
  "aead_laws K \<Longrightarrow> seal K k n a p = Inr c \<Longrightarrow> open_aead K k n a c = Inr p"
  unfolding seal_def open_aead_def ok_or_eq_Inr aead_laws_def by blast

lemma seal_length:
  "aead_laws K \<Longrightarrow> seal K k n a p = Inr c \<Longrightarrow> length c = length p + 16"
  unfolding seal_def ok_or_eq_Inr aead_laws_def by blast

lemma open_only_sealed:
  "aead_laws K \<Longrightarrow> open_aead K k n a c = Inr p \<Longrightarrow> seal K k n a p = Inr c"
  unfolding seal_def open_aead_def ok_or_eq_Inr aead_laws_def by blast

lemma verify_sign:
  "dsa_laws K \<Longrightarrow> length sk = 32 \<Longrightarrow>
     verify K (identity_public_key K sk) msg (sign K sk rnd msg) = Inr ()"
  by (simp add: dsa_laws_def verify_def identity_public_key_def sign_def)

lemma signature_parses:
  "dsa_laws K \<Longrightarrow> length sk = 32 \<Longrightarrow>
     signature_from_bytes K (sign K sk rnd msg) = Inr (sign K sk rnd msg)"
  by (simp add: dsa_laws_def signature_from_bytes_def sign_def SIGNATURE_LEN_def)

lemma encapsulate_lengths:
  assumes "kem_laws K" and "length ek = 1184" and "encapsulate K ek coins = (ct, shared)"
  shows "length ct = 1088" and "length shared = 32"
proof -
  have "ct = fst (kem_encaps K ek coins)" "shared = snd (kem_encaps K ek coins)"
    using assms(3) by (simp_all add: encapsulate_def)
  then show "length ct = 1088" "length shared = 32" using assms(1,2) by (simp_all add: kem_laws_def)
qed

lemma decapsulate_encapsulate:
  assumes "kem_laws K" and "length seed = 64"
    and "encapsulate K (kem_ek K seed) coins = (ct, shared)"
  shows "decapsulate K seed ct = Inr shared" and "length ct = 1088" and "length shared = 32"
proof -
  have ct: "ct = fst (kem_encaps K (kem_ek K seed) coins)"
    and sh: "shared = snd (kem_encaps K (kem_ek K seed) coins)"
    using assms(3) by (simp_all add: encapsulate_def)
  show "length ct = 1088" and "length shared = 32"
    using assms(1,2) by (simp_all add: ct sh kem_laws_def)
  then show "decapsulate K seed ct = Inr shared"
    using assms(1,2) by (simp add: ct sh kem_laws_def decapsulate_def MLKEM_CIPHERTEXT_LEN_def)
qed

text \<open>The parsers of the fixed-size keys, as conditions.\<close>

lemma identity_pk_from_bytes_eq [simp]: "identity_pk_from_bytes b = Inr d \<longleftrightarrow> d = b \<and> length b = 1952"
  by (auto simp: identity_pk_from_bytes_def PUBLIC_KEY_LEN_def)

lemma x25519_pk_from_slice_eq [simp]: "x25519_pk_from_slice b = Inr d \<longleftrightarrow> d = b \<and> length b = 32"
  by (auto simp: x25519_pk_from_slice_def X25519_LEN_def)

lemma mlkem_pk_from_slice_eq [simp]:
  "mlkem_pk_from_slice K b = Inr d \<longleftrightarrow> d = b \<and> length b = 1184 \<and> kem_ek_valid K b"
  by (auto simp: mlkem_pk_from_slice_def MLKEM_ENCAPS_KEY_LEN_def)

lemma signature_from_bytes_eq [simp]:
  "signature_from_bytes K b = Inr d \<longleftrightarrow> d = b \<and> length b = 3309 \<and> dsa_sig_valid K b"
  by (auto simp: signature_from_bytes_def SIGNATURE_LEN_def)

lemma verify_eq [simp]: "verify K pk m s = Inr u \<longleftrightarrow> dsa_verify K pk m s"
  by (auto simp: verify_def)

lemma require_eq [simp]: "require f t = Inr v \<longleftrightarrow> get_field f t = Some v"
  by (simp add: require_def)

end
