(* ===== verification/Prekey.thy ===== *)
theory Prekey
  imports Primitives
begin

text \<open>
  Prekey bundles of \<open>crates/buh-crypto/src/prekey.rs\<close>: the published, signed key material
  and its secret half. \<open>bundle_decode\<close> verifies on parse. Keys are their encodings; the
  random bytes of \<open>generate\<close> are explicit arguments.
\<close>

definition PREKEY_CONTEXT :: bytes where "PREKEY_CONTEXT = bstr ''buh-prekey-bundle-v1''"
definition SECRETS_VERSION :: u8 where "SECRETS_VERSION = 1"

record prekey_secrets =
  sec_signed_prekey :: bytes
  kem_secret :: bytes
  sec_one_time_prekey :: "bytes option"

record prekey_bundle =
  pb_identity :: bytes
  pb_signed_prekey :: bytes
  pb_kem_key :: bytes
  pb_one_time_prekey :: "bytes option"
  pb_signature :: bytes

section \<open>Secrets\<close>

definition secrets_to_bytes :: "prekey_secrets \<Rightarrow> bytes" where
  "secrets_to_bytes s =
     [SECRETS_VERSION] @ sec_signed_prekey s @ kem_secret s
     @ (case sec_one_time_prekey s of Some opk \<Rightarrow> 1 # opk | None \<Rightarrow> [0])"

definition prekey_read_32 :: "reader \<Rightarrow> crypto_error + bytes \<times> reader" where
  "prekey_read_32 r = wire (read_bytes 32 r)"

definition secrets_from_bytes :: "prims \<Rightarrow> bytes \<Rightarrow> crypto_error + prekey_secrets" where
  "secrets_from_bytes K b =
     and_then (wire (read_u8 (reader_new b))) (\<lambda>(version, r1).
     if version \<noteq> SECRETS_VERSION then Inl (malformed ''prekey secrets version'')
     else
     and_then (prekey_read_32 r1) (\<lambda>(spk, r2).
     and_then (wire (read_bytes MLKEM_SECRET_LEN r2)) (\<lambda>(kem, r3).
     and_then (mlkem_sk_from_bytes kem) (\<lambda>kem_sk.
     and_then (wire (read_u8 r3)) (\<lambda>(flag, r4).
     and_then (if flag = 0 then Inr None
               else if flag = 1 then
                 and_then (prekey_read_32 r4) (\<lambda>(opk, _). Inr (Some (x25519_from_bytes K opk)))
               else Inl (malformed ''prekey secrets opk flag'')) (\<lambda>opk.
       Inr \<lparr>sec_signed_prekey = x25519_from_bytes K spk, kem_secret = kem_sk,
            sec_one_time_prekey = opk\<rparr>))))))"

section \<open>Bundles\<close>

definition prekey_signing_body :: "bytes \<Rightarrow> bytes \<Rightarrow> bytes \<Rightarrow> bytes option \<Rightarrow> bytes" where
  "prekey_signing_body identity spk kem opk = frame_encode
     (with_opt_field (with_field (with_field (with_field (with_field frame_new
        TAG_CONTEXT PREKEY_CONTEXT)
        TAG_IDENTITY_PUB identity)
        TAG_PREKEY_X25519 spk)
        TAG_MLKEM_EK kem)
        TAG_ONETIME_PREKEY opk)"

record prekey_randomness =
  rnd_spk :: bytes
  rnd_kem :: bytes
  rnd_opk :: bytes
  rnd_sig :: bytes

definition bundle_generate ::
    "prims \<Rightarrow> prekey_randomness \<Rightarrow> bytes \<Rightarrow> bool \<Rightarrow> prekey_secrets \<times> prekey_bundle" where
  "bundle_generate K rnd identity with_one_time =
     (let spk = x25519_generate K (rnd_spk rnd);
          (kem_dk, kem_ek) = mlkem_generate K (rnd_kem rnd);
          opk = (if with_one_time then Some (x25519_generate K (rnd_opk rnd)) else None);
          opk_pub = map_option (x25519_public_key K) opk;
          identity_pub = identity_public_key K identity;
          body = prekey_signing_body identity_pub (x25519_public_key K spk) kem_ek opk_pub;
          signature = sign K identity (rnd_sig rnd) body
      in (\<lparr>sec_signed_prekey = spk, kem_secret = kem_dk, sec_one_time_prekey = opk\<rparr>,
          \<lparr>pb_identity = identity_pub, pb_signed_prekey = x25519_public_key K spk, pb_kem_key = kem_ek,
           pb_one_time_prekey = opk_pub, pb_signature = signature\<rparr>))"

definition bundle_frame :: "prekey_bundle \<Rightarrow> frame" where
  "bundle_frame b =
     with_field (with_opt_field (with_field (with_field (with_field (with_field frame_new
        TAG_CONTEXT PREKEY_CONTEXT)
        TAG_IDENTITY_PUB (pb_identity b))
        TAG_PREKEY_X25519 (pb_signed_prekey b))
        TAG_MLKEM_EK (pb_kem_key b))
        TAG_ONETIME_PREKEY (pb_one_time_prekey b))
        TAG_SIGNATURE (pb_signature b)"

definition bundle_encode :: "prekey_bundle \<Rightarrow> bytes" where
  "bundle_encode b = frame_encode (bundle_frame b)"

definition bundle_decode :: "prims \<Rightarrow> bytes \<Rightarrow> crypto_error + prekey_bundle" where
  "bundle_decode K b =
     and_then (wire (frame_decode (usize_max K) b)) (\<lambda>f.
     if get_field f TAG_CONTEXT \<noteq> Some PREKEY_CONTEXT then Inl (malformed ''prekey bundle context'')
     else
     and_then (wire (require f TAG_IDENTITY_PUB)) (\<lambda>i.
     and_then (identity_pk_from_bytes i) (\<lambda>identity.
     and_then (wire (require f TAG_PREKEY_X25519)) (\<lambda>s.
     and_then (x25519_pk_from_slice s) (\<lambda>spk.
     and_then (wire (require f TAG_MLKEM_EK)) (\<lambda>k.
     and_then (mlkem_pk_from_slice K k) (\<lambda>kem.
     and_then (case get_field f TAG_ONETIME_PREKEY of
                 Some b \<Rightarrow> and_then (x25519_pk_from_slice b) (\<lambda>k. Inr (Some k))
               | None \<Rightarrow> Inr None) (\<lambda>opk.
     and_then (wire (require f TAG_SIGNATURE)) (\<lambda>g.
     and_then (signature_from_bytes K g) (\<lambda>signature.
     and_then (verify K identity (prekey_signing_body identity spk kem opk) signature) (\<lambda>_.
       Inr \<lparr>pb_identity = identity, pb_signed_prekey = spk, pb_kem_key = kem,
            pb_one_time_prekey = opk, pb_signature = signature\<rparr>)))))))))))"

section \<open>Well-formed and authentic\<close>

definition opt_key_ok :: "bytes option \<Rightarrow> bool" where
  "opt_key_ok x = (case x of None \<Rightarrow> True | Some b \<Rightarrow> length b = 32)"

definition secrets_ok :: "prims \<Rightarrow> prekey_secrets \<Rightarrow> bool" where
  "secrets_ok K s \<longleftrightarrow> length (sec_signed_prekey s) = 32 \<and> length (kem_secret s) = 64
     \<and> opt_key_ok (sec_one_time_prekey s)
     \<and> x25519_from_bytes K (sec_signed_prekey s) = sec_signed_prekey s
     \<and> map_option (x25519_from_bytes K) (sec_one_time_prekey s) = sec_one_time_prekey s"

definition bundle_ok :: "prims \<Rightarrow> prekey_bundle \<Rightarrow> bool" where
  "bundle_ok K b \<longleftrightarrow> length (pb_identity b) = 1952 \<and> length (pb_signed_prekey b) = 32
     \<and> length (pb_kem_key b) = 1184 \<and> kem_ek_valid K (pb_kem_key b) \<and> opt_key_ok (pb_one_time_prekey b)
     \<and> length (pb_signature b) = 3309 \<and> dsa_sig_valid K (pb_signature b)"

definition bundle_authentic :: "prims \<Rightarrow> prekey_bundle \<Rightarrow> bool" where
  "bundle_authentic K b \<longleftrightarrow> dsa_verify K (pb_identity b)
     (prekey_signing_body (pb_identity b) (pb_signed_prekey b) (pb_kem_key b) (pb_one_time_prekey b))
     (pb_signature b)"

lemma opt_key_ok_simps [simp]: "opt_key_ok None" "opt_key_ok (Some b) \<longleftrightarrow> length b = 32"
  by (simp_all add: opt_key_ok_def)

lemma length_bstr_context [simp]: "length PREKEY_CONTEXT = 20"
  by (simp add: PREKEY_CONTEXT_def)

lemma bundle_frame_ok:
  "platform_ok K \<Longrightarrow> bundle_ok K b \<Longrightarrow> frame_ok (usize_max K) (bundle_frame b)"
  by (cases "pb_one_time_prekey b") (simp_all add: bundle_frame_def bundle_ok_def platform_ok_def)

lemma bundle_decode_encode:
  assumes "platform_ok K" and "bundle_ok K b" and "bundle_authentic K b"
  shows "bundle_decode K (bundle_encode b) = Inr b"
proof -
  have dec: "frame_decode (usize_max K) (bundle_encode b) = Inr (bundle_frame b)"
    unfolding bundle_encode_def using bundle_frame_ok [OF assms(1,2)] by (rule frame_decode_encode_ok)
  show ?thesis
    using assms(2,3) by (cases "pb_one_time_prekey b")
      (auto simp: bundle_decode_def dec bundle_frame_def tag_defs bundle_ok_def bundle_authentic_def)
qed

lemma bundle_decode_sound:
  assumes "bundle_decode K bytes = Inr b"
  shows "bundle_ok K b \<and> bundle_authentic K b"
  using assms unfolding bundle_decode_def
  by (elim and_then_pairE and_thenE if_okE) (auto simp: bundle_ok_def bundle_authentic_def split: option.splits)

interpretation bundle_codec: checked_codec "platform_ok K" bundle_encode "bundle_decode K"
    "\<lambda>b. bundle_ok K b \<and> bundle_authentic K b" for K
  by unfold_locales (auto simp: bundle_decode_encode dest: bundle_decode_sound)

lemma length_bundle_encode:
  assumes "bundle_ok K b"
  shows "length (bundle_encode b) \<le> 7000"
proof -
  have "(\<Sum>x\<leftarrow>field_list (bundle_frame b). 20 + length (val x)) \<le> 6700"
    using assms by (cases "pb_one_time_prekey b")
      (simp_all add: bundle_frame_def with_field_def with_opt_field_def frame_new_def bundle_ok_def)
  then show ?thesis using length_frame_encode [of "bundle_frame b"] by (simp add: bundle_encode_def)
qed

lemma bundle_generate_ok:
  assumes "x25519_laws K" and "kem_laws K" and "dsa_laws K"
    and "length (rnd_spk r) = 32" and "length (rnd_kem r) = 64" and "length (rnd_opk r) = 32"
    and "length identity = 32" and "bundle_generate K r identity one = (s, b)"
  shows "bundle_ok K b \<and> bundle_authentic K b \<and> secrets_ok K s"
proof -
  have s: "s = fst (bundle_generate K r identity one)" and b: "b = snd (bundle_generate K r identity one)"
    using assms(8) by simp_all
  have sig: "length (dsa_sign K identity (rnd_sig r) m) = 3309 \<and> dsa_sig_valid K (dsa_sign K identity (rnd_sig r) m)
      \<and> dsa_verify K (dsa_pk K identity) m (dsa_sign K identity (rnd_sig r) m)" for m
    using assms(3,7) by (simp add: dsa_laws_def)
  have "length (dsa_pk K identity) = 1952" using assms(3,7) by (simp add: dsa_laws_def)
  moreover have "length (kem_ek K (rnd_kem r)) = 1184" "kem_ek_valid K (kem_ek K (rnd_kem r))"
    using assms(2,5) by (simp_all add: kem_laws_def)
  ultimately show ?thesis
    using assms(4-6) sig x25519_lengths [OF assms(1)] x25519_from_generate [OF assms(1)]
    unfolding s b
    by (simp add: bundle_generate_def Let_def mlkem_generate_def identity_public_key_def sign_def
        bundle_ok_def bundle_authentic_def secrets_ok_def)
qed

section \<open>Stored secrets\<close>

lemma yields_prekey_32: "reader_at r (b @ bs) \<Longrightarrow> length b = 32 \<Longrightarrow> yields (prekey_read_32 r) b bs"
  unfolding prekey_read_32_def by (rule yields_bytes)

lemma prekey_read_32_length: "prekey_read_32 r = Inr (b, r') \<Longrightarrow> length b = 32"
  by (auto simp: prekey_read_32_def read_bytes_def Let_def min_def split: if_splits)

lemma secrets_from_to_bytes:
  assumes "secrets_ok K s"
  shows "secrets_from_bytes K (secrets_to_bytes s) = Inr s"
proof -
  let ?opk = "case sec_one_time_prekey s of Some opk \<Rightarrow> 1 # opk | None \<Rightarrow> [0]"
  from assms have len: "length (sec_signed_prekey s) = 32" "length (kem_secret s) = MLKEM_SECRET_LEN"
      "opt_key_ok (sec_one_time_prekey s)" by (simp_all add: secrets_ok_def MLKEM_SECRET_LEN_def)
  have start: "reader_at (reader_new (secrets_to_bytes s)) (SECRETS_VERSION # sec_signed_prekey s @ kem_secret s @ ?opk)"
    using reader_at_new [of "secrets_to_bytes s"] by (simp add: secrets_to_bytes_def)
  have kem: "mlkem_sk_from_bytes (kem_secret s) = Inr (kem_secret s)" using len(2) by (simp add: mlkem_sk_from_bytes_def)
  have flag: "(case sec_one_time_prekey s of Some opk \<Rightarrow> 1 # opk | None \<Rightarrow> [0])
      = (if sec_one_time_prekey s = None then 0 else 1) # (case sec_one_time_prekey s of Some opk \<Rightarrow> opk | None \<Rightarrow> [])"
    by (cases "sec_one_time_prekey s") simp_all
  have opk: "yields (prekey_read_32 r) opk []" if "sec_one_time_prekey s = Some opk" "reader_at r opk" for opk r
    by (rule yields_prekey_32) (use that len(3) in simp_all)
  show ?thesis
    unfolding secrets_from_bytes_def
    by (rule and_then_yields [OF yields_u8 [OF start]], simp only: simp_thms if_False,
        rule and_then_yields [OF yields_prekey_32 [OF _ len(1)]], assumption,
        rule and_then_yields [OF yields_bytes [OF _ len(2)]], assumption, simp only: kem and_then_Inr,
        rule and_then_yields [OF yields_u8], simp only: flag)
      (use assms opk in \<open>cases "sec_one_time_prekey s"; force simp: secrets_ok_def yields_def\<close>)
qed

lemma secrets_from_bytes_ok:
  assumes "x25519_laws K" and "secrets_from_bytes K b = Inr s"
  shows "secrets_ok K s"
proof -
  have key: "length (x25519_from_bytes K x) = 32" "x25519_from_bytes K (x25519_from_bytes K x) = x25519_from_bytes K x"
    if "length x = 32" for x
    using assms(1) that by (simp_all add: x25519_laws_def x25519_from_bytes_def)
  show ?thesis
    using assms(2) unfolding secrets_from_bytes_def
    by (elim and_then_pairE and_thenE if_okE)
      (auto simp: secrets_ok_def mlkem_sk_from_bytes_def MLKEM_SECRET_LEN_def key dest: prekey_read_32_length split: if_splits)
qed

interpretation secrets_codec: codec True secrets_to_bytes "secrets_from_bytes K" "secrets_ok K" for K
  by unfold_locales (rule secrets_from_to_bytes)

end
