(* ===== verification/Pqxdh.thy ===== *)
theory Pqxdh
  imports Prekey
begin

text \<open>
  The PQXDH handshake of \<open>crates/buh-crypto/src/pqxdh.rs\<close>: the signed transcript, the
  derivation of the root key from an X25519 and an ML-KEM secret, and the initiator's
  first flight with its codec.
\<close>

definition KDF_CONTEXT :: bytes where "KDF_CONTEXT = bstr ''buh-pqxdh-root-v1''"
definition TRANSCRIPT_CONTEXT :: bytes where "TRANSCRIPT_CONTEXT = bstr ''buh-pqxdh-transcript-v1''"
definition ROOT_KEY_LEN :: nat where "ROOT_KEY_LEN = 32"

record initial_message =
  im_identity :: bytes
  im_ephemeral :: bytes
  im_kem_ciphertext :: bytes
  im_signature :: bytes

record responder_view =
  rv_identity :: bytes
  rv_signed_prekey :: bytes
  rv_kem_key_bytes :: bytes
  rv_one_time_prekey :: "bytes option"

definition view_from_bundle :: "prekey_bundle \<Rightarrow> responder_view" where
  "view_from_bundle b =
     \<lparr>rv_identity = pb_identity b, rv_signed_prekey = pb_signed_prekey b,
      rv_kem_key_bytes = pb_kem_key b, rv_one_time_prekey = pb_one_time_prekey b\<rparr>"

definition transcript :: "responder_view \<Rightarrow> bytes \<Rightarrow> bytes \<Rightarrow> bytes \<Rightarrow> bytes" where
  "transcript v initiator_identity ephemeral kem_ciphertext = frame_encode
     (with_field (with_field (with_field
       (with_opt_field (with_field (with_field (with_field (with_field frame_new
          TAG_CONTEXT TRANSCRIPT_CONTEXT)
          TAG_IDENTITY_PUB (rv_identity v))
          TAG_PREKEY_X25519 (rv_signed_prekey v))
          TAG_MLKEM_EK (rv_kem_key_bytes v))
          TAG_ONETIME_PREKEY (rv_one_time_prekey v))
        TAG_IDENTITY_PUB initiator_identity)
        TAG_EPHEMERAL_X25519 ephemeral)
        TAG_KEM_CT kem_ciphertext)"

definition derive_root :: "prims \<Rightarrow> bytes \<Rightarrow> bytes \<Rightarrow> bytes" where
  "derive_root K ikm script = hkdf_expand K (hkdf_extract K KDF_CONTEXT ikm) script ROOT_KEY_LEN"

record handshake_randomness =
  rnd_ephemeral :: bytes
  rnd_encaps :: bytes
  rnd_transcript_sig :: bytes

definition initiate ::
    "prims \<Rightarrow> handshake_randomness \<Rightarrow> bytes \<Rightarrow> prekey_bundle \<Rightarrow> initial_message \<times> bytes" where
  "initiate K rnd initiator_sk b =
     (let ephemeral = x25519_generate K (rnd_ephemeral rnd);
          dh_spk = diffie_hellman K ephemeral (pb_signed_prekey b);
          (kem_ciphertext, ss) = encapsulate K (pb_kem_key b) (rnd_encaps rnd);
          ikm = dh_spk
            @ (case pb_one_time_prekey b of Some opk \<Rightarrow> diffie_hellman K ephemeral opk | None \<Rightarrow> [])
            @ ss;
          identity = identity_public_key K initiator_sk;
          script = transcript (view_from_bundle b) identity (x25519_public_key K ephemeral) kem_ciphertext;
          root = derive_root K ikm script;
          signature = sign K initiator_sk (rnd_transcript_sig rnd) script
      in (\<lparr>im_identity = identity, im_ephemeral = x25519_public_key K ephemeral,
           im_kem_ciphertext = kem_ciphertext, im_signature = signature\<rparr>, root))"

definition respond ::
    "prims \<Rightarrow> prekey_bundle \<Rightarrow> prekey_secrets \<Rightarrow> initial_message \<Rightarrow> crypto_error + bytes" where
  "respond K b secrets m =
     (let script = transcript (view_from_bundle b) (im_identity m) (im_ephemeral m) (im_kem_ciphertext m) in
      and_then (verify K (im_identity m) script (im_signature m)) (\<lambda>_.
      let dh_spk = diffie_hellman K (sec_signed_prekey secrets) (im_ephemeral m) in
      and_then (decapsulate K (kem_secret secrets) (im_kem_ciphertext m)) (\<lambda>ss.
      let ikm = dh_spk
            @ (case sec_one_time_prekey secrets of
                 Some opk \<Rightarrow> diffie_hellman K opk (im_ephemeral m) | None \<Rightarrow> [])
            @ ss
      in Inr (derive_root K ikm script))))"

definition im_frame :: "initial_message \<Rightarrow> frame" where
  "im_frame m =
     with_field (with_field (with_field (with_field (with_field frame_new
       TAG_CONTEXT TRANSCRIPT_CONTEXT)
       TAG_IDENTITY_PUB (im_identity m))
       TAG_EPHEMERAL_X25519 (im_ephemeral m))
       TAG_KEM_CT (im_kem_ciphertext m))
       TAG_SIGNATURE (im_signature m)"

definition im_encode :: "initial_message \<Rightarrow> bytes" where
  "im_encode m = frame_encode (im_frame m)"

definition im_decode :: "prims \<Rightarrow> bytes \<Rightarrow> crypto_error + initial_message" where
  "im_decode K b =
     and_then (wire (frame_decode (usize_max K) b)) (\<lambda>f.
     if get_field f TAG_CONTEXT \<noteq> Some TRANSCRIPT_CONTEXT then Inl (malformed ''handshake context'')
     else
     and_then (wire (require f TAG_IDENTITY_PUB)) (\<lambda>i.
     and_then (identity_pk_from_bytes i) (\<lambda>identity.
     and_then (wire (require f TAG_EPHEMERAL_X25519)) (\<lambda>e.
     and_then (x25519_pk_from_slice e) (\<lambda>ephemeral.
     and_then (wire (require f TAG_KEM_CT)) (\<lambda>ct.
     and_then (wire (require f TAG_SIGNATURE)) (\<lambda>s.
     and_then (signature_from_bytes K s) (\<lambda>signature.
       Inr \<lparr>im_identity = identity, im_ephemeral = ephemeral, im_kem_ciphertext = ct,
            im_signature = signature\<rparr>))))))))"

section \<open>The first flight on the wire\<close>

definition im_ok :: "prims \<Rightarrow> initial_message \<Rightarrow> bool" where
  "im_ok K m \<longleftrightarrow> length (im_identity m) = 1952 \<and> length (im_ephemeral m) = 32
     \<and> length (im_signature m) = 3309 \<and> dsa_sig_valid K (im_signature m)
     \<and> length (im_kem_ciphertext m) \<le> usize_max K \<and> length (im_kem_ciphertext m) < 2 ^ 64"

lemma im_decode_encode:
  assumes "platform_ok K" and "im_ok K m"
  shows "im_decode K (im_encode m) = Inr m"
proof -
  have "length TRANSCRIPT_CONTEXT = 23" by (simp add: TRANSCRIPT_CONTEXT_def)
  then have "frame_ok (usize_max K) (im_frame m)"
    using assms by (simp add: im_frame_def im_ok_def platform_ok_def)
  then have dec: "frame_decode (usize_max K) (im_encode m) = Inr (im_frame m)"
    unfolding im_encode_def by (rule frame_decode_encode_ok)
  show ?thesis
    using assms(2) by (simp add: im_decode_def dec im_frame_def tag_defs im_ok_def)
qed

lemma decoded_field_length:
  assumes "frame_decode um b = Inr f" and "get_field f t = Some v"
  shows "length v \<le> um \<and> length v < 2 ^ 64"
  using frame_decode_ok [OF assms(1)] assms(2)
  by (auto simp: get_field_def frame_ok_def list_all_length field_ok_def find_Some_iff)

lemma im_decode_ok:
  assumes "im_decode K b = Inr m"
  shows "im_ok K m"
  using assms unfolding im_decode_def
  by (elim and_then_pairE and_thenE if_okE)
    (auto simp: im_ok_def dest: decoded_field_length [where t = TAG_KEM_CT])

interpretation im_codec: checked_codec "platform_ok K" im_encode "im_decode K" "im_ok K" for K
  by unfold_locales (auto simp: im_decode_encode dest: im_decode_ok)

section \<open>Agreement\<close>

text \<open>The secrets belong to the bundle: each public half is derived from its secret.\<close>

definition secrets_match :: "prims \<Rightarrow> prekey_secrets \<Rightarrow> prekey_bundle \<Rightarrow> bool" where
  "secrets_match K s b \<longleftrightarrow> secrets_ok K s
     \<and> pb_signed_prekey b = x25519_public_key K (sec_signed_prekey s)
     \<and> pb_kem_key b = kem_ek K (kem_secret s)
     \<and> pb_one_time_prekey b = map_option (x25519_public_key K) (sec_one_time_prekey s)"

lemma bundle_generate_match:
  assumes "x25519_laws K" and "kem_laws K" and "dsa_laws K"
    and "length (rnd_spk r) = 32" and "length (rnd_kem r) = 64" and "length (rnd_opk r) = 32"
    and "length identity = 32" and "bundle_generate K r identity one = (s, b)"
  shows "secrets_match K s b"
  using bundle_generate_ok [OF assms] assms(8)
  by (auto simp: secrets_match_def bundle_generate_def Let_def mlkem_generate_def)

lemma initiate_respond:
  assumes laws: "x25519_laws K" "kem_laws K" "dsa_laws K"
    and "length initiator_sk = 32" and "length (rnd_ephemeral rnd) = 32"
    and "secrets_match K s b" and "initiate K rnd initiator_sk b = (m, root)"
  shows "respond K b s m = Inr root"
proof -
  let ?e = "x25519_generate K (rnd_ephemeral rnd)"
  obtain ct ss where enc: "encapsulate K (pb_kem_key b) (rnd_encaps rnd) = (ct, ss)" by force
  from assms(6) have s: "length (sec_signed_prekey s) = 32" "length (kem_secret s) = 64"
      "opt_key_ok (sec_one_time_prekey s)" and pub: "pb_kem_key b = kem_ek K (kem_secret s)"
      "pb_signed_prekey b = x25519_public_key K (sec_signed_prekey s)"
      "pb_one_time_prekey b = map_option (x25519_public_key K) (sec_one_time_prekey s)"
    by (simp_all add: secrets_match_def secrets_ok_def)
  have kem: "decapsulate K (kem_secret s) ct = Inr ss"
    using decapsulate_encapsulate(1) [OF laws(2) s(2)] enc pub(1) by simp
  have e: "length ?e = 32" using x25519_lengths(1) [OF laws(1) assms(5)] .
  have dh: "diffie_hellman K k (x25519_public_key K ?e) = diffie_hellman K ?e (x25519_public_key K k)"
    if "length k = 32" for k using dh_agreement [OF laws(1) that e] .
  have opk: "(case sec_one_time_prekey s of Some k \<Rightarrow> diffie_hellman K k (x25519_public_key K ?e) | None \<Rightarrow> [])
      = (case pb_one_time_prekey b of Some k \<Rightarrow> diffie_hellman K ?e k | None \<Rightarrow> [])"
    using s(3) dh by (cases "sec_one_time_prekey s") (simp_all add: pub(3))
  have m: "m = fst (initiate K rnd initiator_sk b)" and root: "root = snd (initiate K rnd initiator_sk b)"
    using assms(7) by simp_all
  show ?thesis
    using verify_sign [OF laws(3) assms(4)] kem opk dh [OF s(1)]
    unfolding m root by (simp add: initiate_def respond_def Let_def enc pub(2) cong: option.case_cong)
qed

lemma initiate_im_ok:
  assumes laws: "crypto_laws K" and "length initiator_sk = 32" and "length (rnd_ephemeral rnd) = 32"
    and "length (pb_kem_key b) = 1184" and "initiate K rnd initiator_sk b = (m, root)"
  shows "im_ok K m \<and> length root = 32"
proof -
  have l: "platform_ok K" "hkdf_laws K" "x25519_laws K" "kem_laws K" "dsa_laws K"
    using laws by (simp_all add: crypto_laws_def)
  obtain ct ss where enc: "encapsulate K (pb_kem_key b) (rnd_encaps rnd) = (ct, ss)" by force
  then have ct: "length ct = 1088" using encapsulate_lengths [OF l(4) assms(4)] by blast
  have sig: "length (dsa_pk K initiator_sk) = 1952"
    "length (dsa_sign K initiator_sk r x) = 3309 \<and> dsa_sig_valid K (dsa_sign K initiator_sk r x)" for r x
    using l(5) assms(2) by (simp_all add: dsa_laws_def)
  have m: "m = fst (initiate K rnd initiator_sk b)" and root: "root = snd (initiate K rnd initiator_sk b)"
    using assms(5) by simp_all
  show ?thesis
    using l(1) ct sig x25519_lengths [OF l(3)] assms(3) hkdf_expand_length [OF l(2)]
    unfolding m root
    by (simp add: initiate_def Let_def enc im_ok_def identity_public_key_def sign_def derive_root_def
        ROOT_KEY_LEN_def platform_ok_def)
qed

end
