(* ===== verification/Invite.thy ===== *)
theory Invite
  imports Pqxdh
begin

text \<open>
  One-time signed invites of \<open>crates/buh-crypto/src/invite.rs\<close> and the media sealing of
  \<open>media.rs\<close>. A Rust \<open>String\<close> is its UTF-8 bytes; \<open>core::str::from_utf8\<close> is the check
  \<open>utf8_valid\<close>. The \<open>buh1:\<close> URI is a string of characters, base64url being one of the
  third-party parameters.
\<close>

section \<open>UTF-8\<close>

definition utf8_cont :: "u8 \<Rightarrow> bool" where
  "utf8_cont b \<longleftrightarrow> 0x80 \<le> b \<and> b \<le> 0xBF"

text \<open>The well-formed byte sequences of the Unicode standard, as \<open>from_utf8\<close> accepts them.\<close>

fun utf8_valid :: "bytes \<Rightarrow> bool" where
  "utf8_valid [] = True"
| "utf8_valid (a # bs) =
     (if a < 0x80 then utf8_valid bs
      else if 0xC2 \<le> a \<and> a \<le> 0xDF then
        (case bs of b # r \<Rightarrow> utf8_cont b \<and> utf8_valid r | _ \<Rightarrow> False)
      else if 0xE0 \<le> a \<and> a \<le> 0xEF then
        (case bs of b # c # r \<Rightarrow>
            (if a = 0xE0 then 0xA0 \<le> b else True) \<and> (if a = 0xED then b \<le> 0x9F else True)
            \<and> utf8_cont b \<and> utf8_cont c \<and> utf8_valid r
          | _ \<Rightarrow> False)
      else if 0xF0 \<le> a \<and> a \<le> 0xF4 then
        (case bs of b # c # d # r \<Rightarrow>
            (if a = 0xF0 then 0x90 \<le> b else True) \<and> (if a = 0xF4 then b \<le> 0x8F else True)
            \<and> utf8_cont b \<and> utf8_cont c \<and> utf8_cont d \<and> utf8_valid r
          | _ \<Rightarrow> False)
      else False)"

section \<open>Queue descriptors\<close>

definition INVITE_NONCE_LEN :: nat where "INVITE_NONCE_LEN = 16"
definition CA_FINGERPRINT_LEN :: nat where "CA_FINGERPRINT_LEN = 32"
definition INVITE_PREFIX :: string where "INVITE_PREFIX = ''buh1:''"
definition INVITE_CONTEXT :: bytes where "INVITE_CONTEXT = bstr ''buh-invite-v1''"

record queue_descriptor =
  qd_queue_id :: bytes
  qd_relay_url :: bytes
  qd_ca_fingerprint :: bytes

definition qd_frame :: "queue_descriptor \<Rightarrow> frame" where
  "qd_frame q =
     with_field (with_field (with_field frame_new
       TAG_QUEUE_ID (qd_queue_id q))
       TAG_RELAY_URL (qd_relay_url q))
       TAG_CA_FINGERPRINT (qd_ca_fingerprint q)"

definition qd_encode :: "queue_descriptor \<Rightarrow> bytes" where
  "qd_encode q = frame_encode (qd_frame q)"

text \<open>\<open>slice.try_into()\<close> to an array of length \<open>n\<close>.\<close>

definition try_array :: "nat \<Rightarrow> string \<Rightarrow> bytes \<Rightarrow> crypto_error + bytes" where
  "try_array n what b = (if length b = n then Inr b else Inl (malformed what))"

definition from_utf8 :: "string \<Rightarrow> bytes \<Rightarrow> crypto_error + bytes" where
  "from_utf8 what b = (if utf8_valid b then Inr b else Inl (malformed what))"

definition qd_decode :: "prims \<Rightarrow> bytes \<Rightarrow> crypto_error + queue_descriptor" where
  "qd_decode K b =
     and_then (wire (frame_decode (usize_max K) b)) (\<lambda>f.
     and_then (wire (require f TAG_QUEUE_ID)) (\<lambda>q.
     and_then (try_array 32 ''queue id'' q) (\<lambda>queue_id.
     and_then (wire (require f TAG_RELAY_URL)) (\<lambda>u.
     and_then (from_utf8 ''relay url'' u) (\<lambda>relay_url.
     and_then (wire (require f TAG_CA_FINGERPRINT)) (\<lambda>c.
     and_then (try_array CA_FINGERPRINT_LEN ''ca fingerprint'' c) (\<lambda>ca.
       Inr \<lparr>qd_queue_id = queue_id, qd_relay_url = relay_url, qd_ca_fingerprint = ca\<rparr>)))))))"

section \<open>Invites\<close>

record invite =
  inv_queue :: queue_descriptor
  inv_bundle :: prekey_bundle
  inv_nonce :: bytes
  inv_expiry_ms :: u64
  inv_signature :: bytes

definition invite_signing_body :: "queue_descriptor \<Rightarrow> bytes \<Rightarrow> bytes \<Rightarrow> bytes \<Rightarrow> u64 \<Rightarrow> bytes" where
  "invite_signing_body queue identity bundle_bytes nonce expiry_ms = frame_encode
     (with_field (with_field (with_field (with_field (with_field (with_field frame_new
        TAG_CONTEXT INVITE_CONTEXT)
        TAG_QUEUE_URI (qd_encode queue))
        TAG_IDENTITY_PUB identity)
        TAG_PREKEY_BUNDLE bundle_bytes)
        TAG_INVITE_NONCE nonce)
        TAG_EXPIRY (u64_to_be expiry_ms))"

definition invite_create ::
    "prims \<Rightarrow> bytes \<Rightarrow> bytes \<Rightarrow> queue_descriptor \<Rightarrow> prekey_bundle \<Rightarrow> bytes \<Rightarrow> u64 \<Rightarrow> invite" where
  "invite_create K rnd identity queue bundle nonce expiry_ms =
     (let bundle_bytes = bundle_encode bundle;
          body = invite_signing_body queue (identity_public_key K identity) bundle_bytes nonce expiry_ms;
          signature = sign K identity rnd body
      in \<lparr>inv_queue = queue, inv_bundle = bundle, inv_nonce = nonce, inv_expiry_ms = expiry_ms,
          inv_signature = signature\<rparr>)"

definition invite_frame :: "invite \<Rightarrow> frame" where
  "invite_frame i =
     with_field (with_field (with_field (with_field (with_field (with_field (with_field frame_new
       TAG_CONTEXT INVITE_CONTEXT)
       TAG_QUEUE_URI (qd_encode (inv_queue i)))
       TAG_IDENTITY_PUB (pb_identity (inv_bundle i)))
       TAG_PREKEY_BUNDLE (bundle_encode (inv_bundle i)))
       TAG_INVITE_NONCE (inv_nonce i))
       TAG_EXPIRY (u64_to_be (inv_expiry_ms i)))
       TAG_SIGNATURE (inv_signature i)"

definition invite_encode :: "invite \<Rightarrow> bytes" where
  "invite_encode i = frame_encode (invite_frame i)"

definition to_uri :: "prims \<Rightarrow> invite \<Rightarrow> string" where
  "to_uri K i = INVITE_PREFIX @ b64url_encode K (invite_encode i)"

definition invite_decode :: "prims \<Rightarrow> bytes \<Rightarrow> crypto_error + invite" where
  "invite_decode K b =
     and_then (wire (frame_decode (usize_max K) b)) (\<lambda>f.
     if get_field f TAG_CONTEXT \<noteq> Some INVITE_CONTEXT then Inl (malformed ''invite context'')
     else
     and_then (wire (require f TAG_QUEUE_URI)) (\<lambda>q.
     and_then (qd_decode K q) (\<lambda>queue.
     and_then (wire (require f TAG_IDENTITY_PUB)) (\<lambda>i.
     and_then (identity_pk_from_bytes i) (\<lambda>identity.
     and_then (wire (require f TAG_PREKEY_BUNDLE)) (\<lambda>bundle_bytes.
     and_then (wire (require f TAG_INVITE_NONCE)) (\<lambda>n.
     and_then (try_array INVITE_NONCE_LEN ''invite nonce'' n) (\<lambda>nonce.
     and_then (wire (require f TAG_EXPIRY)) (\<lambda>e.
     and_then (try_array 8 ''invite expiry'' e) (\<lambda>expiry_bytes.
     and_then (wire (require f TAG_SIGNATURE)) (\<lambda>s.
     and_then (signature_from_bytes K s) (\<lambda>signature.
     and_then (bundle_decode K bundle_bytes) (\<lambda>bundle.
     if pb_identity bundle \<noteq> identity then Inl (malformed ''invite identity mismatch'')
     else
     and_then (verify K identity
         (invite_signing_body queue identity bundle_bytes nonce (from_be_bytes expiry_bytes)) signature) (\<lambda>_.
       Inr \<lparr>inv_queue = queue, inv_bundle = bundle, inv_nonce = nonce,
            inv_expiry_ms = from_be_bytes expiry_bytes, inv_signature = signature\<rparr>))))))))))))))"

definition invite_parse :: "prims \<Rightarrow> string \<Rightarrow> crypto_error + invite" where
  "invite_parse K uri =
     and_then (ok_or (malformed ''invite scheme'') (strip_prefix INVITE_PREFIX uri)) (\<lambda>b64.
     and_then (ok_or (malformed ''invite base64'') (b64url_decode K b64)) (\<lambda>bytes.
       invite_decode K bytes))"

section \<open>Media\<close>

definition MEDIA_AAD :: bytes where "MEDIA_AAD = bstr ''buh-media-v1''"
definition MEDIA_KEY_LEN :: nat where "MEDIA_KEY_LEN = KEY_LEN + NONCE_LEN"

record media_key =
  mk_key :: bytes
  mk_nonce :: bytes

definition media_key_generate :: "bytes \<Rightarrow> bytes \<Rightarrow> media_key" where
  "media_key_generate rnd_key rnd_nonce = \<lparr>mk_key = rnd_key, mk_nonce = random_nonce rnd_nonce\<rparr>"

definition media_key_to_bytes :: "media_key \<Rightarrow> bytes" where
  "media_key_to_bytes k = mk_key k @ mk_nonce k"

definition media_key_from_bytes :: "bytes \<Rightarrow> crypto_error + media_key" where
  "media_key_from_bytes b =
     (if length b \<noteq> MEDIA_KEY_LEN then Inl (malformed ''media key'')
      else Inr \<lparr>mk_key = take KEY_LEN b, mk_nonce = drop KEY_LEN b\<rparr>)"

text \<open>\<open>None\<close> is the panic of the \<open>expect\<close> on the sealing result.\<close>

definition seal_media :: "prims \<Rightarrow> bytes \<Rightarrow> bytes \<Rightarrow> bytes \<Rightarrow> (media_key \<times> bytes) option" where
  "seal_media K rnd_key rnd_nonce plaintext =
     (let k = media_key_generate rnd_key rnd_nonce in
      case seal K (mk_key k) (mk_nonce k) MEDIA_AAD plaintext of
        Inl _ \<Rightarrow> None
      | Inr ciphertext \<Rightarrow> Some (k, ciphertext))"

definition open_media :: "prims \<Rightarrow> media_key \<Rightarrow> bytes \<Rightarrow> crypto_error + bytes" where
  "open_media K k ciphertext = open_aead K (mk_key k) (mk_nonce k) MEDIA_AAD ciphertext"

section \<open>Round trips and authenticity\<close>

lemma try_array_eq [simp]: "try_array n w b = Inr d \<longleftrightarrow> d = b \<and> length b = n"
  by (auto simp: try_array_def)

lemma from_utf8_eq [simp]: "from_utf8 w b = Inr d \<longleftrightarrow> d = b \<and> utf8_valid b"
  by (auto simp: from_utf8_def)

definition qd_ok :: "prims \<Rightarrow> queue_descriptor \<Rightarrow> bool" where
  "qd_ok K q \<longleftrightarrow> length (qd_queue_id q) = 32 \<and> length (qd_ca_fingerprint q) = 32
     \<and> utf8_valid (qd_relay_url q)
     \<and> length (qd_relay_url q) \<le> usize_max K \<and> length (qd_relay_url q) < 2 ^ 64"

lemma qd_decode_encode:
  assumes "platform_ok K" and "qd_ok K q"
  shows "qd_decode K (qd_encode q) = Inr q"
proof -
  have "frame_ok (usize_max K) (qd_frame q)"
    using assms by (simp add: qd_frame_def qd_ok_def platform_ok_def)
  then have dec: "frame_decode (usize_max K) (qd_encode q) = Inr (qd_frame q)"
    unfolding qd_encode_def by (rule frame_decode_encode_ok)
  show ?thesis
    using assms(2) by (simp add: qd_decode_def dec qd_frame_def tag_defs qd_ok_def CA_FINGERPRINT_LEN_def)
qed

lemma qd_decode_ok:
  assumes "qd_decode K b = Inr q"
  shows "qd_ok K q"
  using assms unfolding qd_decode_def
  by (elim and_then_pairE and_thenE if_okE)
    (auto simp: qd_ok_def CA_FINGERPRINT_LEN_def dest: decoded_field_length [where t = TAG_RELAY_URL])

interpretation qd_codec: checked_codec "platform_ok K" qd_encode "qd_decode K" "qd_ok K" for K
  by unfold_locales (auto simp: qd_decode_encode dest: qd_decode_ok)

lemma length_qd_encode: "qd_ok K q \<Longrightarrow> length (qd_encode q) \<le> 136 + length (qd_relay_url q)"
  using length_frame_encode [of "qd_frame q"]
  by (simp add: qd_encode_def qd_frame_def with_field_def frame_new_def qd_ok_def)

text \<open>
  What the invite's identity has signed: the queue, the nonce, the expiry and the
  \<open>bundle_bytes\<close> that carried the bundle.
\<close>

definition invite_signed :: "prims \<Rightarrow> invite \<Rightarrow> bytes \<Rightarrow> bool" where
  "invite_signed K i bundle_bytes \<longleftrightarrow> dsa_verify K (pb_identity (inv_bundle i))
     (invite_signing_body (inv_queue i) (pb_identity (inv_bundle i)) bundle_bytes (inv_nonce i) (inv_expiry_ms i))
     (inv_signature i)"

definition invite_ok :: "prims \<Rightarrow> invite \<Rightarrow> bool" where
  "invite_ok K i \<longleftrightarrow> qd_ok K (inv_queue i) \<and> bundle_ok K (inv_bundle i) \<and> bundle_authentic K (inv_bundle i)
     \<and> length (inv_nonce i) = 16 \<and> length (inv_signature i) = 3309 \<and> dsa_sig_valid K (inv_signature i)"

text \<open>An invite on the wire around any encoding of its bundle.\<close>

definition invite_wire :: "invite \<Rightarrow> bytes \<Rightarrow> frame" where
  "invite_wire i bundle_bytes =
     with_field (with_field (with_field (with_field (with_field (with_field (with_field frame_new
       TAG_CONTEXT INVITE_CONTEXT)
       TAG_QUEUE_URI (qd_encode (inv_queue i)))
       TAG_IDENTITY_PUB (pb_identity (inv_bundle i)))
       TAG_PREKEY_BUNDLE bundle_bytes)
       TAG_INVITE_NONCE (inv_nonce i))
       TAG_EXPIRY (u64_to_be (inv_expiry_ms i)))
       TAG_SIGNATURE (inv_signature i)"

lemma invite_decode_wire:
  assumes "platform_ok K" and "invite_ok K i" and "length (qd_relay_url (inv_queue i)) < 2 ^ 31"
    and "length bundle_bytes < 2 ^ 32" and "bundle_decode K bundle_bytes = Inr (inv_bundle i)"
  shows "invite_decode K (frame_encode (invite_wire i bundle_bytes))
    = (if invite_signed K i bundle_bytes then Inr i else Inl BadSignature)"
proof -
  have "length (qd_encode (inv_queue i)) < 2 ^ 32"
    using length_qd_encode [of K "inv_queue i"] assms(2,3) by (simp add: invite_ok_def)
  moreover have "length INVITE_CONTEXT = 13" by (simp add: INVITE_CONTEXT_def)
  ultimately have "frame_ok (usize_max K) (invite_wire i bundle_bytes)"
    using assms(1,2,4) by (simp add: invite_wire_def invite_ok_def bundle_ok_def platform_ok_def)
  then have dec: "frame_decode (usize_max K) (frame_encode (invite_wire i bundle_bytes))
      = Inr (invite_wire i bundle_bytes)" by (rule frame_decode_encode_ok)
  have get: "require (invite_wire i bundle_bytes) TAG_QUEUE_URI = Inr (qd_encode (inv_queue i))"
      "require (invite_wire i bundle_bytes) TAG_IDENTITY_PUB = Inr (pb_identity (inv_bundle i))"
      "require (invite_wire i bundle_bytes) TAG_PREKEY_BUNDLE = Inr bundle_bytes"
      "require (invite_wire i bundle_bytes) TAG_INVITE_NONCE = Inr (inv_nonce i)"
      "require (invite_wire i bundle_bytes) TAG_EXPIRY = Inr (u64_to_be (inv_expiry_ms i))"
      "require (invite_wire i bundle_bytes) TAG_SIGNATURE = Inr (inv_signature i)"
      "get_field (invite_wire i bundle_bytes) TAG_CONTEXT = Some INVITE_CONTEXT"
    by (simp_all add: invite_wire_def tag_defs)
  have parts: "qd_decode K (qd_encode (inv_queue i)) = Inr (inv_queue i)"
      "identity_pk_from_bytes (pb_identity (inv_bundle i)) = Inr (pb_identity (inv_bundle i))"
      "try_array INVITE_NONCE_LEN ''invite nonce'' (inv_nonce i) = Inr (inv_nonce i)"
      "try_array 8 ''invite expiry'' (u64_to_be (inv_expiry_ms i)) = Inr (u64_to_be (inv_expiry_ms i))"
      "signature_from_bytes K (inv_signature i) = Inr (inv_signature i)"
    using assms(1,2) by (simp_all add: invite_ok_def bundle_ok_def qd_decode_encode INVITE_NONCE_LEN_def)
  show ?thesis
    unfolding invite_decode_def dec map_err_Inr and_then_Inr get parts assms(5)
    by (simp add: verify_def invite_signed_def)
qed

lemma invite_encode_wire: "invite_encode i = frame_encode (invite_wire i (bundle_encode (inv_bundle i)))"
  by (simp add: invite_encode_def invite_frame_def invite_wire_def)

lemma invite_decode_encode:
  assumes "platform_ok K" and "invite_ok K i" and "length (qd_relay_url (inv_queue i)) < 2 ^ 31"
  shows "invite_decode K (invite_encode i)
    = (if invite_signed K i (bundle_encode (inv_bundle i)) then Inr i else Inl BadSignature)"
proof -
  have b: "bundle_ok K (inv_bundle i)" "bundle_authentic K (inv_bundle i)"
    using assms(2) by (simp_all add: invite_ok_def)
  then show ?thesis
    unfolding invite_encode_wire
    using assms length_bundle_encode [OF b(1)] bundle_decode_encode [OF assms(1) b]
    by (intro invite_decode_wire) simp_all
qed

lemma invite_parse_uri:
  "base64_laws K \<Longrightarrow> invite_parse K (to_uri K i) = invite_decode K (invite_encode i)"
  by (simp add: invite_parse_def to_uri_def strip_prefix_def base64_laws_def)

text \<open>A parsed invite is authentic: every part of it was vouched for by the named identity.\<close>

lemma invite_decode_sound:
  assumes "invite_decode K b = Inr i"
  shows "invite_ok K i \<and> (\<exists>bundle_bytes. bundle_decode K bundle_bytes = Inr (inv_bundle i)
    \<and> invite_signed K i bundle_bytes)"
  using assms unfolding invite_decode_def
proof (elim and_then_pairE and_thenE if_okE, goal_cases)
  case (1 f q queue ident identity bundle_bytes n nonce e expiry_bytes s signature pb u)
  have "bundle_ok K pb \<and> bundle_authentic K pb" using 1(14) by (rule bundle_decode_sound)
  moreover have "qd_ok K queue" using 1(4) by (rule qd_decode_ok)
  ultimately show ?case using 1 by (auto simp: invite_ok_def invite_signed_def INVITE_NONCE_LEN_def)
qed

lemma invite_parse_sound:
  "invite_parse K uri = Inr i \<Longrightarrow> invite_ok K i \<and> (\<exists>bundle_bytes.
     bundle_decode K bundle_bytes = Inr (inv_bundle i) \<and> invite_signed K i bundle_bytes)"
  by (auto simp: invite_parse_def dest: invite_decode_sound)

lemma invite_create_ok:
  assumes "dsa_laws K" and "length identity = 32" and "qd_ok K q" and "bundle_ok K b" and "bundle_authentic K b"
    and "pb_identity b = identity_public_key K identity" and "length nonce = 16"
  shows "invite_ok K (invite_create K rnd identity q b nonce expiry)
    \<and> invite_signed K (invite_create K rnd identity q b nonce expiry) (bundle_encode b)"
  using assms by (simp add: invite_create_def Let_def invite_ok_def invite_signed_def dsa_laws_def
      sign_def identity_public_key_def)

section \<open>Media round trips\<close>

definition media_key_ok :: "media_key \<Rightarrow> bool" where
  "media_key_ok k \<longleftrightarrow> length (mk_key k) = 32 \<and> length (mk_nonce k) = 24"

lemma media_key_from_to_bytes: "media_key_ok k \<Longrightarrow> media_key_from_bytes (media_key_to_bytes k) = Inr k"
  by (simp add: media_key_ok_def media_key_from_bytes_def media_key_to_bytes_def MEDIA_KEY_LEN_def len_consts)

lemma media_key_from_bytes_ok: "media_key_from_bytes b = Inr k \<Longrightarrow> media_key_ok k"
  by (auto simp: media_key_ok_def media_key_from_bytes_def MEDIA_KEY_LEN_def len_consts split: if_splits)

interpretation media_codec: checked_codec True media_key_to_bytes media_key_from_bytes media_key_ok
  by unfold_locales (auto simp: media_key_from_to_bytes dest: media_key_from_bytes_ok)

lemma seal_media_total:
  assumes "aead_laws K" and "length rk = 32" and "length rn = 24" and "length p < 2 ^ 32"
  obtains k c where "seal_media K rk rn p = Some (k, c)" "media_key_ok k" "length c = length p + 16"
proof -
  obtain c where "seal K rk rn MEDIA_AAD p = Inr c" "length c = length p + 16"
    using seal_total [OF assms] .
  with that assms(2,3) show thesis
    by (simp add: seal_media_def Let_def media_key_generate_def random_nonce_def media_key_ok_def)
qed

lemma open_seal_media:
  assumes "aead_laws K" and "seal_media K rk rn p = Some (k, c)"
  shows "open_media K k c = Inr p"
  using assms(2) open_seal [OF assms(1)]
  by (auto simp: seal_media_def open_media_def Let_def split: sum.splits)

end
