(* ===== verification/Node_Ca.thy ===== *)
theory Node_Ca
  imports Pinned_Tls File_System Invite
begin

text \<open>
  The node's own certificate authority, \<open>crates/buh-data/src/node_ca.rs\<close>: loading it or
  creating it on first start, re-keying it with a backup, and issuing the short-lived
  leaves of the TLS listener.

  Generating keys and signing certificates are the crate \<open>rcgen\<close>, the record \<open>rcgen\<close>
  over an abstract type \<open>'k\<close> of key pairs; \<open>pki_laws\<close> states how its certificates look to
  the parser of \<open>Pinned_Tls\<close>. Randomness is an argument. Paths are relative to a tree
  of \<open>File_System\<close>; file modes are not part of the tree, but a failing \<open>chmod\<close> is.
\<close>

section \<open>Certificate parameters\<close>

datatype is_ca = NoCa | CaConstrained nat
datatype key_usage = DigitalSignature | KeyCertSign | CrlSign
datatype extended_key_usage = ServerAuth | ClientAuth

text \<open>Dates are in seconds; \<open>None\<close> is the default of the crate.\<close>

record cert_params =
  cp_sans :: "string list"
  cp_common_name :: "string option"
  cp_is_ca :: is_ca
  cp_not_before :: "int option"
  cp_not_after :: "int option"
  cp_use_authority_key_identifier :: bool
  cp_key_usages :: "key_usage list"
  cp_extended_key_usages :: "extended_key_usage list"

record 'k rcgen =
  rc_generate :: "nat \<Rightarrow> string + 'k"
  rc_from_pem :: "bytes \<Rightarrow> string + 'k"
  rc_serialize_pem :: "'k \<Rightarrow> bytes"
  rc_serialize_der :: "'k \<Rightarrow> bytes"
  rc_params_new :: "string list \<Rightarrow> string + cert_params"
  rc_self_signed :: "cert_params \<Rightarrow> 'k \<Rightarrow> string + bytes"
  rc_signed_by :: "cert_params \<Rightarrow> 'k \<Rightarrow> bytes \<Rightarrow> 'k \<Rightarrow> string + bytes"

definition CA_CERT_FILE :: string where "CA_CERT_FILE = ''ca.cert.der''"
definition CA_KEY_FILE :: string where "CA_KEY_FILE = ''ca.key.pem''"
definition CA_COMMON_NAME :: string where "CA_COMMON_NAME = ''buh node CA''"
definition LEAF_COMMON_NAME :: string where "LEAF_COMMON_NAME = ''buh node leaf''"
definition CLOCK_SKEW :: int where "CLOCK_SKEW = 300"

text \<open>\<open>io\<close> and \<open>pki\<close> map failures alike.\<close>

definition pki :: "string \<Rightarrow> string \<Rightarrow> core_error" where
  "pki what e = Internal (''pki: '' @ what @ '': '' @ e)"

definition pki_io :: "string \<Rightarrow> io_error \<Rightarrow> core_error" where
  "pki_io what e = Internal (''pki: '' @ what @ '': '' @ io_text e)"

definition ca_params :: "'k rcgen \<Rightarrow> core_error + cert_params" where
  "ca_params RC =
     and_then (map_err (pki ''CA params'') (rc_params_new RC [])) (\<lambda>params.
       Inr (params\<lparr>cp_common_name := Some CA_COMMON_NAME, cp_is_ca := CaConstrained 0,
         cp_key_usages := [KeyCertSign, CrlSign]\<rparr>))"

section \<open>The authority\<close>

record 'k node_ca =
  nc_key :: 'k
  nc_issuer :: bytes
  nc_der :: bytes
  nc_fingerprint :: string
  nc_sans :: "string list"
  nc_leaf_ttl :: int

definition from_loaded :: "libs \<Rightarrow> 'k rcgen \<Rightarrow> 'k \<Rightarrow> bytes \<Rightarrow> string list \<Rightarrow> int \<Rightarrow> core_error + 'k node_ca" where
  "from_loaded L RC ca_key ca_der sans leaf_ttl =
     and_then (ca_params RC) (\<lambda>params.
     and_then (map_err (pki ''rebuild CA issuer'') (rc_self_signed RC params ca_key)) (\<lambda>ca_issuer.
       Inr \<lparr>nc_key = ca_key, nc_issuer = ca_issuer, nc_der = ca_der, nc_fingerprint = fingerprint L ca_der,
            nc_sans = sans, nc_leaf_ttl = leaf_ttl\<rparr>))"

definition restrict_dir :: "os \<Rightarrow> path \<Rightarrow> fs \<Rightarrow> fs \<times> (core_error + unit)" where
  "restrict_dir io dir F = map_prod id (map_err (pki_io ''chmod PKI dir'')) (fs_chmod io dir 448 F)"

definition restrict_file :: "os \<Rightarrow> path \<Rightarrow> fs \<Rightarrow> fs \<times> (core_error + unit)" where
  "restrict_file io p F = map_prod id (map_err (pki_io ''chmod CA key'')) (fs_chmod io p 384 F)"

definition persist :: "os \<Rightarrow> 'k rcgen \<Rightarrow> path \<Rightarrow> path \<Rightarrow> path \<Rightarrow> bytes \<Rightarrow> 'k \<Rightarrow> fs \<Rightarrow> fs \<times> (core_error + unit)" where
  "persist io RC dir cert_path key_path ca_der ca_key F =
     then_do (map_prod id (map_err (pki_io ''create PKI dir'')) (fs_create_dir_all io dir F)) (\<lambda>F _.
     then_do (restrict_dir io dir F) (\<lambda>F _.
     then_do (map_prod id (map_err (pki_io ''write CA cert'')) (fs_write io cert_path ca_der F)) (\<lambda>F _.
     then_do (map_prod id (map_err (pki_io ''write CA key'')) (fs_write io key_path (rc_serialize_pem RC ca_key) F)) (\<lambda>F _.
       restrict_file io key_path F))))"

text \<open>\<open>read_to_string\<close> also rejects what is not UTF-8.\<close>

definition fs_read_to_string :: "os \<Rightarrow> path \<Rightarrow> fs \<Rightarrow> io_error + bytes" where
  "fs_read_to_string io p F =
     and_then (fs_read io p F) (\<lambda>b.
       if utf8_valid b then Inr b else Inl (OtherError ''stream did not contain valid UTF-8''))"

definition load_ca :: "os \<Rightarrow> 'k rcgen \<Rightarrow> path \<Rightarrow> path \<Rightarrow> fs \<Rightarrow> core_error + 'k \<times> bytes" where
  "load_ca io RC cert_path key_path F =
     and_then (map_err (pki_io ''read CA key'') (fs_read_to_string io key_path F)) (\<lambda>key_pem.
     and_then (map_err (pki ''parse CA key'') (rc_from_pem RC key_pem)) (\<lambda>ca_key.
     and_then (map_err (pki_io ''read CA cert'') (fs_read io cert_path F)) (\<lambda>ca_der.
       Inr (ca_key, ca_der))))"

definition create_ca :: "os \<Rightarrow> 'k rcgen \<Rightarrow> nat \<Rightarrow> path \<Rightarrow> path \<Rightarrow> path \<Rightarrow> fs \<Rightarrow> fs \<times> (core_error + 'k \<times> bytes)" where
  "create_ca io RC rnd dir cert_path key_path F =
     then_do (F, map_err (pki ''generate CA key'') (rc_generate RC rnd)) (\<lambda>F ca_key.
     then_do (F, ca_params RC) (\<lambda>F params.
     then_do (F, map_err (pki ''self-sign CA'') (rc_self_signed RC params ca_key)) (\<lambda>F ca_der.
     then_do (persist io RC dir cert_path key_path ca_der ca_key F) (\<lambda>F _.
       (F, Inr (ca_key, ca_der))))))"

definition load_or_init ::
  "libs \<Rightarrow> os \<Rightarrow> 'k rcgen \<Rightarrow> nat \<Rightarrow> path \<Rightarrow> string list \<Rightarrow> int \<Rightarrow> fs \<Rightarrow> fs \<times> (core_error + 'k node_ca)" where
  "load_or_init L io RC rnd dir sans leaf_ttl F =
     (let cert_path = dir @ [CA_CERT_FILE]; key_path = dir @ [CA_KEY_FILE] in
      then_do (if fs_exists io cert_path F \<and> fs_exists io key_path F
               then (F, load_ca io RC cert_path key_path F)
               else create_ca io RC rnd dir cert_path key_path F) (\<lambda>F (ca_key, ca_der).
        (F, from_loaded L RC ca_key ca_der sans leaf_ttl)))"

definition bak_path :: "path \<Rightarrow> path" where
  "bak_path p = butlast p @ [(if p = [] then ''ca'' else last p) @ ''.bak'']"

fun back_up :: "os \<Rightarrow> path list \<Rightarrow> fs \<Rightarrow> fs \<times> (core_error + unit)" where
  "back_up io [] F = (F, Inr ())"
| "back_up io (p # ps) F =
     then_do (if fs_exists io p F
              then map_prod id (map_err (pki_io ''back up old CA'')) (fs_rename io p (bak_path p) F)
              else (F, Inr ())) (\<lambda>F _. back_up io ps F)"

definition rekey ::
  "libs \<Rightarrow> os \<Rightarrow> 'k rcgen \<Rightarrow> nat \<Rightarrow> path \<Rightarrow> string list \<Rightarrow> int \<Rightarrow> fs \<Rightarrow> fs \<times> (core_error + 'k node_ca)" where
  "rekey L io RC rnd dir sans leaf_ttl F =
     then_do (back_up io [dir @ [CA_CERT_FILE], dir @ [CA_KEY_FILE]] F) (\<lambda>F _.
       load_or_init L io RC rnd dir sans leaf_ttl F)"

text \<open>\<open>now\<close> is the time in seconds.\<close>

definition leaf_ttl_skew :: int where
  "leaf_ttl_skew = CLOCK_SKEW"

definition issue_leaf :: "'k rcgen \<Rightarrow> nat \<Rightarrow> int \<Rightarrow> 'k node_ca \<Rightarrow> core_error + node_leaf" where
  "issue_leaf RC rnd now ca =
     and_then (map_err (pki ''generate leaf key'') (rc_generate RC rnd)) (\<lambda>leaf_key.
     let not_before = now - leaf_ttl_skew; not_after = now + nc_leaf_ttl ca in
     and_then (map_err (pki ''leaf params'') (rc_params_new RC (nc_sans ca))) (\<lambda>params.
     let params = params\<lparr>cp_common_name := Some LEAF_COMMON_NAME, cp_is_ca := NoCa,
       cp_not_before := Some not_before, cp_not_after := Some not_after,
       cp_use_authority_key_identifier := True, cp_key_usages := [DigitalSignature],
       cp_extended_key_usages := [ServerAuth, ClientAuth]\<rparr> in
     and_then (map_err (pki ''sign leaf'') (rc_signed_by RC params leaf_key (nc_issuer ca) (nc_key ca))) (\<lambda>leaf.
       Inr \<lparr>chain_der = [leaf, nc_der ca], private_key_der = rc_serialize_der RC leaf_key,
            not_after_ms = not_after * 1000\<rparr>)))"

section \<open>What the certificate library promises\<close>

text \<open>
  A serialised key parses back and is UTF-8 text; parameters start out with the given
  names and default dates. A self-signed certificate parses, verifies under its own key
  and carries the requested constraints; a signed one verifies under the issuer's key
  and is valid in the requested window. The default window of \<open>rcgen\<close> runs from 1975
  to 4096.
\<close>

definition DEFAULT_NOT_BEFORE :: int where "DEFAULT_NOT_BEFORE = 157766400"
definition DEFAULT_NOT_AFTER :: int where "DEFAULT_NOT_AFTER = 67090118400"

definition shows_params :: "'c x509 \<Rightarrow> 'c \<Rightarrow> cert_params \<Rightarrow> bool" where
  "shows_params X c p \<longleftrightarrow>
     (\<forall>n. cp_is_ca p = CaConstrained n \<longrightarrow> x_basic_constraints X c = Inr (Some True))
   \<and> x_not_before X c = (case cp_not_before p of None \<Rightarrow> DEFAULT_NOT_BEFORE | Some t \<Rightarrow> t)
   \<and> x_not_after X c = (case cp_not_after p of None \<Rightarrow> DEFAULT_NOT_AFTER | Some t \<Rightarrow> t)"

definition pki_laws :: "'c x509 \<Rightarrow> 'k rcgen \<Rightarrow> ('k \<Rightarrow> bytes) \<Rightarrow> bool" where
  "pki_laws X RC pub \<longleftrightarrow>
     (\<forall>k. rc_from_pem RC (rc_serialize_pem RC k) = Inr k \<and> utf8_valid (rc_serialize_pem RC k))
   \<and> (\<forall>sans p. rc_params_new RC sans = Inr p \<longrightarrow> cp_not_before p = None \<and> cp_not_after p = None)
   \<and> (\<forall>p k der. rc_self_signed RC p k = Inr der \<longrightarrow>
        (\<exists>c. x_from_der X der = Some c \<and> shows_params X c p \<and> x_verify_signature X c None \<and> x_public_key X c = pub k))
   \<and> (\<forall>p lk iss k der. rc_signed_by RC p lk iss k = Inr der \<longrightarrow>
        (\<exists>c. x_from_der X der = Some c \<and> shows_params X c p \<and> x_verify_signature X c (Some (pub k))))"

lemma pki_lawsD:
  assumes "pki_laws X RC pub"
  shows "rc_from_pem RC (rc_serialize_pem RC k) = Inr k" "utf8_valid (rc_serialize_pem RC k)"
    and "rc_params_new RC sans = Inr p \<Longrightarrow> cp_not_before p = None \<and> cp_not_after p = None"
    and "rc_self_signed RC p k = Inr der \<Longrightarrow>
      \<exists>c. x_from_der X der = Some c \<and> shows_params X c p \<and> x_verify_signature X c None \<and> x_public_key X c = pub k"
    and "rc_signed_by RC p lk iss k = Inr der \<Longrightarrow>
      \<exists>c. x_from_der X der = Some c \<and> shows_params X c p \<and> x_verify_signature X c (Some (pub k))"
  using assms unfolding pki_laws_def by blast+

section \<open>Authorities and their leaves\<close>

text \<open>What a node's CA certificate must be for its leaves to verify.\<close>

definition authority_ok :: "libs \<Rightarrow> 'c x509 \<Rightarrow> ('k \<Rightarrow> bytes) \<Rightarrow> 'k node_ca \<Rightarrow> bool" where
  "authority_ok L X pub ca \<longleftrightarrow> nc_fingerprint ca = fingerprint L (nc_der ca) \<and>
     (\<exists>c. x_from_der X (nc_der ca) = Some c \<and> x_basic_constraints X c = Inr (Some True)
        \<and> x_verify_signature X c None \<and> x_public_key X c = pub (nc_key ca)
        \<and> x_not_before X c = DEFAULT_NOT_BEFORE \<and> x_not_after X c = DEFAULT_NOT_AFTER)"

lemma ca_params_ok:
  assumes "pki_laws X RC pub" "ca_params RC = Inr p"
  shows "cp_is_ca p = CaConstrained 0" "cp_not_before p = None" "cp_not_after p = None"
  using assms pki_lawsD(3) [OF assms(1), of "[]"] by (auto simp: ca_params_def)

lemma created_authority_ok:
  assumes laws: "pki_laws X RC pub" and p: "ca_params RC = Inr p" and der: "rc_self_signed RC p k = Inr der"
    and ca: "from_loaded L RC k der sans ttl = Inr ca"
  shows "authority_ok L X pub ca"
proof -
  have "nc_der ca = der" "nc_key ca = k" "nc_fingerprint ca = fingerprint L der"
    using ca by (auto simp: from_loaded_def)
  moreover obtain c where "x_from_der X der = Some c" "shows_params X c p" "x_verify_signature X c None" "x_public_key X c = pub k"
    using pki_lawsD(4) [OF laws der] by blast
  ultimately show ?thesis
    using ca_params_ok [OF laws p] by (auto simp: authority_ok_def shows_params_def)
qed

lemma issued_leaf_accepted:
  assumes laws: "pki_laws X RC pub" and ca: "authority_ok L X pub ca"
    and leaf: "issue_leaf RC rnd now ca = Inr leaf"
    and pinned: "ustr (nc_fingerprint ca) \<in> T"
    and t: "now - CLOCK_SKEW \<le> u64_to_i64 t" "u64_to_i64 t \<le> now + nc_leaf_ttl ca"
      "DEFAULT_NOT_BEFORE \<le> u64_to_i64 t" "u64_to_i64 t \<le> DEFAULT_NOT_AFTER"
  shows "\<exists>ee. chain_der leaf = [ee, nc_der ca] \<and> verify_pinned_chain L X ee [nc_der ca] t T = Inr ()"
proof -
  from leaf obtain p lk der where signed: "rc_signed_by RC p lk (nc_issuer ca) (nc_key ca) = Inr der"
      and chain: "chain_der leaf = [der, nc_der ca]"
      and window: "cp_not_before p = Some (now - CLOCK_SKEW)" "cp_not_after p = Some (now + nc_leaf_ttl ca)"
    by (auto simp: issue_leaf_def Let_def leaf_ttl_skew_def)
  obtain lc where "x_from_der X der = Some lc" "shows_params X lc p" "x_verify_signature X lc (Some (pub (nc_key ca)))"
    using pki_lawsD(5) [OF laws signed] by blast
  with ca window t pinned chain show ?thesis
    by (auto simp: verify_pinned_chain_ok authority_ok_def shows_params_def)
qed

section \<open>The files of an authority\<close>

lemma pki_paths [simp]: "dir @ [CA_CERT_FILE] \<noteq> dir @ [CA_KEY_FILE]" "dir @ [CA_KEY_FILE] \<noteq> dir @ [CA_CERT_FILE]"
  by (simp_all add: CA_CERT_FILE_def CA_KEY_FILE_def)

lemma pki_files [simp]: "CA_CERT_FILE \<noteq> CA_KEY_FILE" "CA_KEY_FILE \<noteq> CA_CERT_FILE"
  by (simp_all add: CA_CERT_FILE_def CA_KEY_FILE_def)

lemma fs_chmod_same: "fs_chmod io p m F = (F', r) \<Longrightarrow> F' = F"
  by (auto simp: fs_chmod_def split: option.splits walk_result.splits)

lemma map_prod_ok: "map_prod id (map_err g) x = (F', Inr u) \<Longrightarrow> x = (F', Inr u)"
  by (cases x) auto

text \<open>A chain of fallible calls that ended well.\<close>

lemma then_do_okE:
  assumes "then_do p f = (s', Inr y)"
  obtains s x where "p = (s, Inr x)" "f s x = (s', Inr y)"
  using assms by (cases rule: then_do_cases) auto

lemma persist_ok:
  assumes inv: "fs_ok F" and ne: "cert_path \<noteq> key_path"
    and ok: "persist io RC dir cert_path key_path der k F = (F', Inr u)"
  shows "fs_ok F' \<and> F' cert_path = Some (File der) \<and> F' key_path = Some (File (rc_serialize_pem RC k))
    \<and> (\<forall>q b. q \<noteq> cert_path \<and> q \<noteq> key_path \<longrightarrow> F' q = Some (File b) \<longleftrightarrow> F q = Some (File b))"
proof -
  from ok obtain F1 F2 F3 F4 u1 u2 u3 u4 where
      "fs_create_dir_all io dir F = (F1, Inr u1)" "fs_chmod io dir 448 F1 = (F2, Inr u2)"
      "fs_write io cert_path der F2 = (F3, Inr u3)" "fs_write io key_path (rc_serialize_pem RC k) F3 = (F4, Inr u4)"
      "fs_chmod io key_path 384 F4 = (F', Inr u)"
    unfolding persist_def restrict_dir_def restrict_file_def by (elim then_do_okE) (drule map_prod_ok)+
  note steps = this
  have F1: "fs_ok F1" using fs_create_dir_all_ok [OF inv steps(1)] by simp
  have F2: "F2 = F1" and F4: "F' = F4" using fs_chmod_same steps(2,5) by blast+
  have w1: "fs_ok F3" "F3 cert_path = Some (File der)" "\<And>q. q \<noteq> cert_path \<Longrightarrow> F3 q = F1 q"
    using fs_write_ok [OF F1] steps(3) F2 by auto
  have w2: "fs_ok F4" "F4 key_path = Some (File (rc_serialize_pem RC k))" "\<And>q. q \<noteq> key_path \<Longrightarrow> F4 q = F3 q"
    using fs_write_ok [OF w1(1) steps(4)] by auto
  have "F1 q = Some (File b) \<longleftrightarrow> F q = Some (File b)" for q b
    using fs_create_dir_all_keeps [OF steps(1), of q] fs_create_dir_all_no_file [OF steps(1), of q] by (cases "F q") auto
  then show ?thesis using w1 w2 F4 ne by auto
qed

lemma create_ca_ok:
  assumes "create_ca io RC rnd dir cert_path key_path F = (F', Inr (k, der))"
  shows "\<exists>p u. ca_params RC = Inr p \<and> rc_generate RC rnd = Inr k \<and> rc_self_signed RC p k = Inr der
    \<and> persist io RC dir cert_path key_path der k F = (F', Inr u)"
  using assms unfolding create_ca_def by (elim then_do_okE) auto

text \<open>Loading what was persisted.\<close>

lemma load_ca_persisted:
  assumes laws: "pki_laws X RC pub" and inv: "fs_ok F" and faults: "\<And>p F. os_read io p F = None"
    and files: "F cert_path = Some (File der)" "F key_path = Some (File (rc_serialize_pem RC k))"
  shows "load_ca io RC cert_path key_path F = Inr (k, der)"
proof -
  have "fs_read io cert_path F = Inr der" "fs_read io key_path F = Inr (rc_serialize_pem RC k)"
    using fs_read_ok [OF inv] faults files by auto
  then show ?thesis
    using pki_lawsD(1,2) [OF laws] by (simp add: load_ca_def fs_read_to_string_def)
qed

lemma fs_exists_file: "fs_ok F \<Longrightarrow> os_stat io p F = None \<Longrightarrow> fs_exists io p F \<longleftrightarrow> F p \<noteq> None"
  using walk_not_found [of F "[]" p] walk_some [of F p]
  by (cases "F p") (auto simp: fs_exists_def fs_metadata_def split: walk_result.splits)

end
