(* ===== verification/Blob_Properties.thy ===== *)
theory Blob_Properties
  imports S3_Blob Node_Api Node_Ca
begin

text \<open>
  The blob role: objects stay inside the root directory whatever the locator, a
  download returns what was uploaded, a failed upload changes nothing, and the one
  exception, the temporary name next to an object. The same contract over S3.
\<close>

section \<open>Concrete stores\<close>

text \<open>A node that runs only the blob role.\<close>

definition no_mailbox :: "'s mailbox_port" where
  "no_mailbox = \<lparr>mb_push = (\<lambda>_ _ _ s. (s, Inl (Unimplemented ''no mailbox''))),
     mb_pull = (\<lambda>_ _ _ _. Inl (Unimplemented ''no mailbox'')),
     mb_ack = (\<lambda>_ _ _ s. (s, Inl (Unimplemented ''no mailbox''))),
     mb_expire = (\<lambda>_ s. (s, Inl (Unimplemented ''no mailbox'')))\<rparr>"

definition blob_node :: "'s blob_port \<Rightarrow> 's app_state" where
  "blob_node store = \<lparr>app_ctx = \<lparr>ctx_mailbox = no_mailbox, ctx_blob = Some store, ctx_pki_fingerprint = None,
     ctx_config = core_config_default\<rparr>, app_max_wait = 30\<rparr>"

lemma blob_node_simps [simp]:
  "ctx_blob (app_ctx (blob_node store)) = Some store"
  "ctx_config (app_ctx (blob_node store)) = core_config_default"
  by (simp_all add: blob_node_def)

definition root_fs :: fs where
  "root_fs = [[] \<mapsto> Dir, [''data''] \<mapsto> Dir]"

lemma root_fs_ok: "fs_ok root_fs"
  by (auto simp: fs_ok_def root_fs_def)

lemmas demo_blob = fsblob_put_def fs_resolve_def safe_segment_def tmp_path_def Let_def no_faults_def
  fs_create_dir_all_def fs_write_def can_create_def fs_rename_def root_fs_def

lemma demo_fsblob_put:
  "\<exists>F. fsblob_put no_faults [''data''] ''media'' ''a'' [1, 2] root_fs = (F, Inr ())"
  by (simp add: demo_blob)

section \<open>Confinement\<close>

lemma fsblob_put_frame:
  assumes inv: "fs_ok F" and put: "fsblob_put io root b k bs F = (F', r)"
    and change: "F' q \<noteq> F q" "\<not> (F q = None \<and> F' q = Some Dir)"
  shows "\<exists>p. fs_resolve root b k = Inr p \<and> (q = p \<or> q = tmp_path p)"
  using put unfolding fsblob_put_def
proof (cases rule: then_do_cases)
  case err
  then show ?thesis using change by simp
next
  case (ok F0 p)
  then have F0: "F0 = F" and p: "fs_resolve root b k = Inr p" by auto
  note tmp = fs_resolve_tmp [OF p]
  have dirs: "F1 q = F q \<or> F q = None \<and> F1 q = Some Dir" if "fs_create_dir_all io (butlast p) F = (F1, r1)" for F1 r1
    using fs_create_dir_all_keeps [OF that, of q] fs_create_dir_all_no_file [OF that, of q] by (cases "F q") auto
  from ok(2) tmp(3) have "then_do (map_prod id (map_err storage) (fs_create_dir_all io (butlast p) F))
      (\<lambda>F _. then_do (map_prod id (map_err storage) (fs_write io (tmp_path p) bs F))
        (\<lambda>F _. map_prod id (map_err storage) (fs_rename io (tmp_path p) p F))) = (F', r)"
    by (simp add: F0 Let_def)
  then show ?thesis
  proof (cases rule: then_do_cases)
    case (err e)
    then show ?thesis using map_prod_result [OF err(1)] dirs change by blast
  next
    case (ok F1 u)
    obtain r0 where mk: "fs_create_dir_all io (butlast p) F = (F1, r0)" using map_prod_result [OF ok(1)] by auto
    have "fs_ok F1" using fs_create_dir_all_ok [OF inv mk] by simp
    from fs_commit [OF this tmp(2) ok(2)] have "q = p \<or> q = tmp_path p \<or> F' q = F1 q" by blast
    then show ?thesis using dirs [OF mk] change p by metis
  qed
qed

definition safe_component :: "string \<Rightarrow> bool" where
  "safe_component c \<longleftrightarrow> c \<notin> {[], ''.'', ''..''} \<and> CHR ''/'' \<notin> set c \<and> CHR 0x5C \<notin> set c \<and> CHR 0x00 \<notin> set c"

lemma safe_segment_component: "safe_segment c = Inr c \<longleftrightarrow> safe_component c"
  by (auto simp: safe_segment_def safe_component_def Let_def)

lemma fs_resolve_confined:
  assumes "fs_resolve root b k = Inr p"
  shows "\<exists>segs. p = root @ b # segs \<and> segs \<noteq> [] \<and> (\<forall>c \<in> set (b # segs). safe_component c)"
  using assms by (auto simp: fs_resolve_ok safe_segment_component)

text \<open>
  C27. Uploads and downloads stay inside the root, whatever bucket and key the request
  names and whatever calls fail: a file that an upload writes, replaces or removes lies
  strictly below the bucket's directory under the root and all components of its path
  below the root are plain names, and the bytes of a download come from such a file.
  No two locators share a path.
\<close>

theorem blob_confined:
  assumes "fs_ok F"
  shows "(fsblob_put io root b k bs F = (F', r) \<and> F' q \<noteq> F q \<and> \<not> (F q = None \<and> F' q = Some Dir) \<longrightarrow>
      (\<exists>segs. q = root @ b # segs \<and> segs \<noteq> [] \<and> (\<forall>c \<in> set (b # segs). safe_component c)))
    \<and> (fsblob_get io root b k F = Inr bs' \<longrightarrow>
      (\<exists>segs. F (root @ b # segs) = Some (File bs') \<and> segs \<noteq> [] \<and> (\<forall>c \<in> set (b # segs). safe_component c)
        \<and> (\<forall>b' k'. fs_resolve root b' k' = Inr (root @ b # segs) \<longrightarrow> b' = b \<and> k' = k)))"
proof (intro conjI impI)
  assume "fsblob_put io root b k bs F = (F', r) \<and> F' q \<noteq> F q \<and> \<not> (F q = None \<and> F' q = Some Dir)"
  with fsblob_put_frame [OF assms] obtain p where "fs_resolve root b k = Inr p" "q = p \<or> q = tmp_path p" by blast
  with fs_resolve_confined fs_resolve_tmp(1)
  show "\<exists>segs. q = root @ b # segs \<and> segs \<noteq> [] \<and> (\<forall>c \<in> set (b # segs). safe_component c)" by blast
next
  assume "fsblob_get io root b k F = Inr bs'"
  then obtain p where p: "fs_resolve root b k = Inr p" "F p = Some (File bs')"
    using fsblob_get_ok [OF assms] by blast
  with fs_resolve_confined [OF p(1)] fs_resolve_inject [OF p(1)]
  show "\<exists>segs. F (root @ b # segs) = Some (File bs') \<and> segs \<noteq> [] \<and> (\<forall>c \<in> set (b # segs). safe_component c)
        \<and> (\<forall>b' k'. fs_resolve root b' k' = Inr (root @ b # segs) \<longrightarrow> b' = b \<and> k' = k)"
    by blast
qed

theorem blob_confined_witness:
  "\<exists>F segs. fsblob_put no_faults [''data''] ''media'' ''a'' [1, 2] root_fs = (F, Inr ())
    \<and> fsblob_get no_faults [''data''] ''media'' ''a'' F = Inr [1, 2]
    \<and> F ([''data''] @ ''media'' # segs) = Some (File [1, 2]) \<and> (\<forall>c \<in> set (''media'' # segs). safe_component c)"
proof -
  obtain F where F: "fsblob_put no_faults [''data''] ''media'' ''a'' [1, 2] root_fs = (F, Inr ())"
    using demo_fsblob_put by blast
  from fsblob_put_law [OF root_fs_ok F] have ok: "fs_ok F" "fs_object [''data''] F (''media'', ''a'') = Some [1, 2]"
    by simp_all
  have get: "fsblob_get no_faults [''data''] ''media'' ''a'' F = Inr [1, 2]"
    by (rule fsblob_get_present [OF ok]) (simp add: no_faults_def)
  from blob_confined [OF ok(1), THEN conjunct2, THEN mp, OF get] obtain segs where
      "F ([''data''] @ ''media'' # segs) = Some (File [1, 2])" "\<forall>c \<in> set (''media'' # segs). safe_component c"
    by (elim exE conjE)
  then show ?thesis by (intro exI [of _ F] exI [of _ segs] conjI F get)
qed

section \<open>Uploads\<close>

lemma handle_blob_put_created:
  "handle_blob_put st b k bs s = (s', Created) \<longleftrightarrow> blob_put (app_ctx st) b k bs s = (s', Inr ())"
proof -
  have "error_response e \<noteq> Created" for e by (cases e) simp_all
  then show ?thesis
    by (cases "blob_put (app_ctx st) b k bs s") (auto simp: handle_blob_put_def respond_with_def split: sum.splits)
qed

lemma handle_blob_put_state: "fst (handle_blob_put st b k bs s) = fst (blob_put (app_ctx st) b k bs s)"
  by (simp add: handle_blob_put_def split: prod.splits)

definition later_puts :: "'s app_state \<Rightarrow> (string \<times> string \<times> bytes) list \<Rightarrow> 's \<Rightarrow> 's" where
  "later_puts st puts s = fold (\<lambda>(b, k, bs) s. fst (handle_blob_put st b k bs s)) puts s"

text \<open>An object that is there is downloaded after later uploads elsewhere.\<close>

lemma later_puts_get:
  assumes "fs_ok F" "fs_object root F (b, k) = Some bs" and store: "ctx_blob (app_ctx st) = Some (fs_blob_store io root)"
    and others: "\<forall>(b', k', _) \<in> set puts. (b', k') \<noteq> (b, k) \<and> \<not> (b' = b \<and> k = k' @ ''.tmp'')"
    and reads: "\<And>p F. os_read io p F = None"
  shows "handle_blob_get st b k (later_puts st puts F) = OctetStream bs"
proof -
  have "fs_ok (later_puts st puts F) \<and> fs_object root (later_puts st puts F) (b, k) = fs_object root F (b, k)"
    unfolding later_puts_def handle_blob_put_state
    by (rule fs_blob.puts_keep [OF TrueI assms(1) store]) (use others in \<open>auto simp: tmp_of_def\<close>)
  then have "fsblob_get io root b k (later_puts st puts F) = Inr bs"
    using fsblob_get_present reads assms(2) by metis
  then show ?thesis
    by (simp add: handle_blob_get_def blob_get_def blob_store_of_def store fs_blob_store_def respond_with_def)
qed

text \<open>
  C28. An upload that was answered with \<open>201\<close> can be downloaded: after any number of later
  uploads to other locators, successful or not and with any failures of the file system,
  a download whose reads succeed answers with exactly the uploaded bytes. Excluded are later
  uploads to the key whose temporary name is this key (\<open>k = k' @ ''.tmp''\<close> in the same bucket):
  they do destroy this object.
\<close>

theorem blob_uploaded_kept:
  assumes inv: "fs_ok F" and store: "ctx_blob (app_ctx st) = Some (fs_blob_store io root)"
    and put: "handle_blob_put st b k bs F = (F', Created)"
    and others: "\<forall>(b', k', _) \<in> set puts. (b', k') \<noteq> (b, k) \<and> \<not> (b' = b \<and> k = k' @ ''.tmp'')"
    and reads: "\<And>p F. os_read io p F = None"
  shows "handle_blob_get st b k (later_puts st puts F') = OctetStream bs"
proof -
  have put': "blob_put (app_ctx st) b k bs F = (F', Inr ())" using put by (simp add: handle_blob_put_created)
  have F': "fs_ok F'" "fs_object root F' (b, k) = Some bs"
    using fs_blob.blob_put_cases [OF TrueI inv store put'] by simp_all
  show ?thesis by (rule later_puts_get [OF F' store others reads])
qed

abbreviation demo_blob_node :: "fs app_state" where
  "demo_blob_node \<equiv> blob_node (fs_blob_store no_faults [''data''])"

lemma demo_upload: "\<exists>F. handle_blob_put demo_blob_node ''media'' ''a'' [1, 2] root_fs = (F, Created)"
  using demo_fsblob_put
  by (auto simp: handle_blob_put_created blob_put_def blob_store_of_def fs_blob_store_def core_config_default_def)

theorem blob_uploaded_kept_witness:
  "\<exists>F. handle_blob_put demo_blob_node ''media'' ''a'' [1, 2] root_fs = (F, Created)
    \<and> handle_blob_get demo_blob_node ''media'' ''a'' (later_puts demo_blob_node [(''media'', ''b/c'', [9]), (''..'', ''a'', [8])] F)
      = OctetStream [1, 2]"
proof -
  obtain F where F: "handle_blob_put demo_blob_node ''media'' ''a'' [1, 2] root_fs = (F, Created)"
    using demo_upload by blast
  have "os_read no_faults p F = None" for p F by (simp add: no_faults_def)
  from blob_uploaded_kept [OF root_fs_ok _ F _ this,
      where root = "[''data'']" and puts = "[(''media'', ''b/c'', [9]), (''..'', ''a'', [8])]"] F
  show ?thesis by simp
qed

text \<open>
  C32. A failed upload changes no object other than possibly the one at its own temporary name,
  the key with \<open>.tmp\<close> appended in the same bucket: whatever call fails, including one that
  leaves part of the data on disk, every other object, the old version of the uploaded one
  included, reads as before.
\<close>

theorem blob_put_atomic:
  assumes "fs_ok F" "fsblob_put io root b k bs F = (F', Inl e)" "(b', k') \<noteq> (b, k @ ''.tmp'')"
  shows "fs_object root F' (b', k') = fs_object root F (b', k')"
  using fsblob_put_law [OF assms(1,2)] assms(3) by (cases "(b', k') = (b, k)") (auto simp: tmp_of_def)

definition full_disk :: os where
  "full_disk = no_faults\<lparr>os_write := (\<lambda>p b F. Some (''No space left on device'', Some (take 1 b)))\<rparr>"

theorem blob_put_atomic_witness:
  "\<exists>F F'. fsblob_put no_faults [''data''] ''media'' ''a'' [1, 2] root_fs = (F, Inr ())
    \<and> fsblob_put full_disk [''data''] ''media'' ''a'' [7, 8, 9] F = (F', Inl (Storage ''No space left on device''))
    \<and> fs_object [''data''] F' (''media'', ''a'') = Some [1, 2]"
proof -
  obtain F where F: "fsblob_put no_faults [''data''] ''media'' ''a'' [1, 2] root_fs = (F, Inr ())"
    using demo_fsblob_put by blast
  then have tree: "F = root_fs([''data'', ''media''] \<mapsto> Dir, [''data'', ''media'', ''a''] \<mapsto> File [1, 2])"
    by (auto simp: demo_blob fun_eq_iff)
  obtain F' where F': "fsblob_put full_disk [''data''] ''media'' ''a'' [7, 8, 9] F = (F', Inl (Storage ''No space left on device''))"
    by (simp add: tree demo_blob full_disk_def storage_def io_text_def)
  from fsblob_put_law [OF root_fs_ok F] have ok: "fs_ok F" "fs_object [''data''] F (''media'', ''a'') = Some [1, 2]"
    by simp_all
  from blob_put_atomic [OF ok(1) F', of "''media''" "''a''"] ok F F' show ?thesis by auto
qed

text \<open>
  An upload destroys the object whose key is its own with \<open>.tmp\<close> appended: the
  temporary file takes that object's path, and the final rename removes it.
\<close>

theorem blob_tmp_clobbered:
  assumes "fs_ok F" "fsblob_put io root b k bs F = (F', Inr u)"
  shows "fs_object root F' (b, k @ ''.tmp'') = None"
  using assms(2) unfolding fsblob_put_def
proof (elim then_do_okE)
  fix F1 p F2 u1 assume res: "(F, fs_resolve root b k) = (F1, Inr p)"
    and "(if p = [] then (F1, Inr ()) else map_prod id (map_err storage) (fs_create_dir_all io (butlast p) F1)) = (F2, Inr u1)"
    and commit: "(let tmp = tmp_path p in then_do (map_prod id (map_err storage) (fs_write io tmp bs F2))
        (\<lambda>F _. map_prod id (map_err storage) (fs_rename io tmp p F))) = (F', Inr u)"
  note tmp = fs_resolve_tmp [of root b k p]
  from commit obtain F3 u2 u3 where "fs_rename io (tmp_path p) p F3 = (F', Inr u3)"
    unfolding Let_def by (elim then_do_okE) (auto dest!: map_prod_ok)
  then show ?thesis using tmp res by (auto simp: fs_object_def fs_rename_def split: option.splits walk_result.splits node.splits sum.splits)
qed

theorem blob_tmp_clobbered_witness:
  "\<exists>F F'. fsblob_put no_faults [''data''] ''media'' ''a.tmp'' [5] root_fs = (F, Inr ())
    \<and> fs_object [''data''] F (''media'', ''a.tmp'') = Some [5]
    \<and> fsblob_put no_faults [''data''] ''media'' ''a'' [1, 2] F = (F', Inr ())
    \<and> fs_object [''data''] F' (''media'', ''a.tmp'') = None"
proof -
  let ?F = "root_fs([''data'', ''media''] \<mapsto> Dir, [''data'', ''media'', ''a.tmp''] \<mapsto> File [5])"
  have F: "fsblob_put no_faults [''data''] ''media'' ''a.tmp'' [5] root_fs = (?F, Inr ())"
    by (simp add: demo_blob fun_eq_iff)
  obtain F' where F': "fsblob_put no_faults [''data''] ''media'' ''a'' [1, 2] ?F = (F', Inr ())"
    by (simp add: demo_blob)
  from fsblob_put_law [OF root_fs_ok F] have ok: "fs_ok ?F" "fs_object [''data''] ?F (''media'', ''a.tmp'') = Some [5]"
    by simp_all
  from blob_tmp_clobbered [OF ok(1) F'] F F' ok(2) show ?thesis by (intro exI [of _ ?F] exI [of _ F']) simp
qed

section \<open>The same over S3\<close>

text \<open>
  Over S3 nothing is clobbered: an upload answered with \<open>201\<close> is what every
  successful download of the locator returns, after any later uploads to any other
  locators, and while it is there no download answers \<open>404\<close>.
\<close>

theorem s3_uploaded_kept:
  assumes sound: "s3_sound C objects" and store: "ctx_blob (app_ctx st) = Some (s3_blob_store C)"
    and put: "handle_blob_put st b k bs s = (s', Created)"
    and others: "\<forall>(b', k', _) \<in> set puts. (b', k') \<noteq> (b, k)"
  shows "handle_blob_get st b k (later_puts st puts s') = OctetStream bs
    \<or> status_of (handle_blob_get st b k (later_puts st puts s')) = 500"
proof -
  have put': "blob_put (app_ctx st) b k bs s = (s', Inr ())" using put by (simp add: handle_blob_put_created)
  have "objects s' (b, k) = Some bs" using s3_blob.blob_put_cases [OF sound TrueI store put'] by simp
  moreover have "objects (later_puts st puts s') (b, k) = objects s' (b, k)"
    unfolding later_puts_def handle_blob_put_state
    by (rule s3_blob.puts_keep [OF sound TrueI store, THEN conjunct2]) (use others in auto)
  ultimately have kept: "objects (later_puts st puts s') (b, k) = Some bs" by simp
  have get: "blob_get (app_ctx st) b k (later_puts st puts s') = s3blob_get C b k (later_puts st puts s')"
    by (simp add: blob_get_def blob_store_of_def store s3_blob_store_def)
  show ?thesis
  proof (cases "s3blob_get C b k (later_puts st puts s')")
    case (Inr bs')
    then show ?thesis using s3blob_get_law(1) [OF sound Inr] kept get
      by (simp add: handle_blob_get_def respond_with_def)
  next
    case (Inl e)
    then have "e \<noteq> NotFound" using s3blob_get_law(2) [OF sound] kept by auto
    moreover from Inl have "e = NotFound \<or> (\<exists>t. e = Storage t)"
      by (auto simp: s3blob_get_def and_then_def map_err_def split: sum.splits if_splits)
    ultimately show ?thesis using Inl get by (auto simp: handle_blob_get_def respond_with_def)
  qed
qed

text \<open>A bucket store that never fails.\<close>

definition map_s3 :: "(locator \<Rightarrow> bytes option) s3_client" where
  "map_s3 = (let missing = \<lparr>s3_text = ''missing'', s3_is_not_found = True, s3_is_no_such_key = True,
       s3_is_bucket_already_owned_by_you = False, s3_is_bucket_already_exists = False\<rparr> in
     \<lparr>s3_create_bucket = (\<lambda>_ m. (m, Inr ())),
      s3_head_object = (\<lambda>b k m. case m (b, k) of None \<Rightarrow> Inl missing | Some _ \<Rightarrow> Inr ()),
      s3_put_object = (\<lambda>b k _ bs m. (m((b, k) \<mapsto> bs), Inr ())),
      s3_get_object = (\<lambda>b k m. case m (b, k) of None \<Rightarrow> Inl missing | Some bs \<Rightarrow> Inr (Inr bs)),
      s3_presigning_config = (\<lambda>_. Inr ()), s3_presigned = (\<lambda>_ _ _ _. Inr ''url'')\<rparr>)"

lemma map_s3_sound: "s3_sound map_s3 (\<lambda>m. m)"
  unfolding s3_sound_def by (auto simp: map_s3_def Let_def split: option.splits)

theorem s3_uploaded_kept_witness:
  "\<exists>m. handle_blob_put (blob_node (s3_blob_store map_s3)) ''media'' ''a'' [1] Map.empty = (m, Created)
    \<and> handle_blob_get (blob_node (s3_blob_store map_s3)) ''media'' ''a''
        (later_puts (blob_node (s3_blob_store map_s3)) [(''media'', ''a.tmp'', [2])] m) = OctetStream [1]"
proof -
  have put: "handle_blob_put (blob_node (s3_blob_store map_s3)) ''media'' ''a'' [1] Map.empty
      = ([(''media'', ''a'') \<mapsto> [1]], Created)"
    by (simp add: handle_blob_put_created blob_put_def blob_store_of_def core_config_default_def s3_blob_store_def
        s3blob_put_def map_s3_def Let_def)
  have "status_of (handle_blob_get (blob_node (s3_blob_store map_s3)) ''media'' ''a'' m) \<noteq> 500" for m
    by (simp add: handle_blob_get_def blob_get_def blob_store_of_def s3_blob_store_def s3blob_get_def
        respond_with_def map_s3_def Let_def split: option.splits)
  with s3_uploaded_kept [OF map_s3_sound _ put, of "[(''media'', ''a.tmp'', [2])]"] put show ?thesis by auto
qed

end
