(* ===== verification/Rust_Text.thy ===== *)
theory Rust_Text
  imports Entities
begin

text \<open>
  The string operations of the Rust standard library that the text protocols of the
  node and its tools use: UTF-8 with the lossy decoder, lines, splitting, trimming and
  parsing of numbers. A \<open>String\<close> is the list of its scalar values.
\<close>

section \<open>UTF-8\<close>

definition is_scalar :: "nat \<Rightarrow> bool" where
  "is_scalar c \<longleftrightarrow> c < 55296 \<or> 57344 \<le> c \<and> c < 1114112"

abbreviation text_ok :: "ustring \<Rightarrow> bool" where
  "text_ok s \<equiv> list_all is_scalar s"

definition utf8_char :: "nat \<Rightarrow> bytes" where
  "utf8_char c = map of_nat
     (if c < 128 then [c]
      else if c < 2048 then [192 + c div 64, 128 + c mod 64]
      else if c < 65536 then [224 + c div 4096, 128 + c div 64 mod 64, 128 + c mod 64]
      else [240 + c div 262144, 128 + c div 4096 mod 64, 128 + c div 64 mod 64, 128 + c mod 64])"

definition utf8 :: "ustring \<Rightarrow> bytes" where
  "utf8 s = concat (map utf8_char s)"

text \<open>
  \<open>String::from_utf8_lossy\<close>: a maximal prefix of a sequence that turns out to be
  ill-formed becomes one replacement character. \<open>lossy_head\<close> gives the number of
  bytes taken beyond the first, and the character.
\<close>

definition REPLACEMENT :: nat where "REPLACEMENT = 65533"

definition is_cont :: "u8 \<Rightarrow> bool" where
  "is_cont b \<longleftrightarrow> 128 \<le> unat b \<and> unat b < 192"

definition second_of_three :: "nat \<Rightarrow> u8 \<Rightarrow> bool" where
  "second_of_three n b \<longleftrightarrow> is_cont b \<and> (n = 224 \<longrightarrow> 160 \<le> unat b) \<and> (n = 237 \<longrightarrow> unat b < 160)"

definition second_of_four :: "nat \<Rightarrow> u8 \<Rightarrow> bool" where
  "second_of_four n b \<longleftrightarrow> is_cont b \<and> (n = 240 \<longrightarrow> 144 \<le> unat b) \<and> (n = 244 \<longrightarrow> unat b < 144)"

definition lossy_head :: "u8 \<Rightarrow> bytes \<Rightarrow> nat \<times> nat" where
  "lossy_head a r = (let n = unat a; low = (\<lambda>b. unat b - 128) in
     if n < 128 then (0, n)
     else if 194 \<le> n \<and> n \<le> 223 then
       (case r of b # _ \<Rightarrow> if is_cont b then (1, (n - 192) * 64 + low b) else (0, REPLACEMENT)
        | [] \<Rightarrow> (0, REPLACEMENT))
     else if 224 \<le> n \<and> n \<le> 239 then
       (case r of b # r' \<Rightarrow>
          if second_of_three n b then
            (case r' of c # _ \<Rightarrow>
               if is_cont c then (2, (n - 224) * 4096 + low b * 64 + low c) else (1, REPLACEMENT)
             | [] \<Rightarrow> (1, REPLACEMENT))
          else (0, REPLACEMENT)
        | [] \<Rightarrow> (0, REPLACEMENT))
     else if 240 \<le> n \<and> n \<le> 244 then
       (case r of b # r' \<Rightarrow>
          if second_of_four n b then
            (case r' of c # r'' \<Rightarrow>
               if is_cont c then
                 (case r'' of d # _ \<Rightarrow>
                    if is_cont d then (3, (n - 240) * 262144 + low b * 4096 + low c * 64 + low d) else (2, REPLACEMENT)
                  | [] \<Rightarrow> (2, REPLACEMENT))
               else (1, REPLACEMENT)
             | [] \<Rightarrow> (1, REPLACEMENT))
          else (0, REPLACEMENT)
        | [] \<Rightarrow> (0, REPLACEMENT))
     else (0, REPLACEMENT))"

fun from_utf8_lossy :: "bytes \<Rightarrow> ustring" where
  "from_utf8_lossy [] = []"
| "from_utf8_lossy (a # r) = snd (lossy_head a r) # from_utf8_lossy (drop (fst (lossy_head a r)) r)"

lemma unat_byte: "n < 256 \<Longrightarrow> unat (of_nat n :: u8) = n"
  by (simp add: unat_of_nat)

lemma high_digits:
  fixes c :: nat
  shows "c div 64 * 64 + c mod 64 = c" "c div 4096 * 4096 + c div 64 mod 64 * 64 + c mod 64 = c"
    "c div 262144 * 262144 + c div 4096 mod 64 * 4096 + c div 64 mod 64 * 64 + c mod 64 = c"
proof -
  have d: "c div 64 div 64 = c div 4096" "c div 4096 div 64 = c div 262144" by (simp_all add: div_mult2_eq [symmetric])
  show one: "c div 64 * 64 + c mod 64 = c" by simp
  have "c div 64 = c div 4096 * 64 + c div 64 mod 64" using div_mult_mod_eq [of "c div 64" 64] d(1) by simp
  then show two: "c div 4096 * 4096 + c div 64 mod 64 * 64 + c mod 64 = c" using one by linarith
  have "c div 4096 = c div 262144 * 64 + c div 4096 mod 64" using div_mult_mod_eq [of "c div 4096" 64] d(2) by simp
  then show "c div 262144 * 262144 + c div 4096 mod 64 * 4096 + c div 64 mod 64 * 64 + c mod 64 = c" using two by linarith
qed

lemma lossy_head_multi:
  "unat a = 192 + x \<Longrightarrow> 2 \<le> x \<Longrightarrow> x < 32 \<Longrightarrow> unat b = 128 + y \<Longrightarrow> y < 64 \<Longrightarrow> lossy_head a (b # r) = (1, x * 64 + y)"
  "unat a = 224 + x \<Longrightarrow> x < 16 \<Longrightarrow> unat b = 128 + y \<Longrightarrow> y < 64 \<Longrightarrow> unat c = 128 + z \<Longrightarrow> z < 64 \<Longrightarrow>
     (x = 0 \<longrightarrow> 32 \<le> y) \<Longrightarrow> (x = 13 \<longrightarrow> y < 32) \<Longrightarrow> lossy_head a (b # c # r) = (2, x * 4096 + y * 64 + z)"
  "unat a = 240 + x \<Longrightarrow> x < 5 \<Longrightarrow> unat b = 128 + y \<Longrightarrow> y < 64 \<Longrightarrow> unat c = 128 + z \<Longrightarrow> z < 64 \<Longrightarrow>
     unat d = 128 + u \<Longrightarrow> u < 64 \<Longrightarrow> (x = 0 \<longrightarrow> 16 \<le> y) \<Longrightarrow> (x = 4 \<longrightarrow> y < 16) \<Longrightarrow>
     lossy_head a (b # c # d # r) = (3, x * 262144 + y * 4096 + z * 64 + u)"
  by (simp_all add: lossy_head_def Let_def is_cont_def second_of_three_def second_of_four_def)

lemma utf8_char_multi:
  "128 \<le> c \<Longrightarrow> c < 2048 \<Longrightarrow> utf8_char c = [of_nat (192 + c div 64), of_nat (128 + c mod 64)]"
  "2048 \<le> c \<Longrightarrow> c < 65536 \<Longrightarrow>
     utf8_char c = [of_nat (224 + c div 4096), of_nat (128 + c div 64 mod 64), of_nat (128 + c mod 64)]"
  "65536 \<le> c \<Longrightarrow> utf8_char c = [of_nat (240 + c div 262144), of_nat (128 + c div 4096 mod 64),
     of_nat (128 + c div 64 mod 64), of_nat (128 + c mod 64)]"
  by (simp_all add: utf8_char_def del: of_nat_add)

lemma lossy_utf8_char:
  assumes "is_scalar c"
  shows "from_utf8_lossy (utf8_char c @ r) = c # from_utf8_lossy r"
proof -
  consider "c < 128" | "128 \<le> c" "c < 2048" | "2048 \<le> c" "c < 65536" | "65536 \<le> c" "c < 1114112"
    using assms unfolding is_scalar_def by linarith
  then show ?thesis
  proof cases
    case 1
    then show ?thesis by (simp add: utf8_char_def lossy_head_def unat_byte)
  next
    case 2
    then have "2 \<le> c div 64" "c div 64 < 32" by auto
    then have "lossy_head (of_nat (192 + c div 64)) (of_nat (128 + c mod 64) # r) = (1, c)" for r
      using lossy_head_multi(1) [OF unat_byte _ _ unat_byte, of "c div 64" "c mod 64" r] by simp
    then show ?thesis by (simp add: utf8_char_multi(1) [OF 2] del: of_nat_add)
  next
    case 3
    then have h: "c div 4096 < 16" "c div 64 mod 64 < 64" "c mod 64 < 64" by auto
    have "32 \<le> c div 64 mod 64" if "c div 4096 = 0" using 3 that by auto
    moreover have "c div 64 mod 64 < 32" if "c div 4096 = 13"
    proof -
      have "c < 55296 \<or> 57344 \<le> c" using assms by (auto simp: is_scalar_def)
      then show ?thesis using high_digits(2) [of c] h that by linarith
    qed
    ultimately have "lossy_head (of_nat (224 + c div 4096)) (of_nat (128 + c div 64 mod 64) # of_nat (128 + c mod 64) # r) = (2, c)" for r
      using lossy_head_multi(2) [OF unat_byte _ unat_byte _ unat_byte, of "c div 4096" "c div 64 mod 64" "c mod 64" r] h
        high_digits(2) [of c] by simp
    then show ?thesis by (simp add: utf8_char_multi(2) [OF 3] del: of_nat_add)
  next
    case 4
    then have h: "c div 262144 < 5" "c div 4096 mod 64 < 64" "c div 64 mod 64 < 64" "c mod 64 < 64" by auto
    have "16 \<le> c div 4096 mod 64" if "c div 262144 = 0" using 4 that by auto
    moreover have "c div 4096 mod 64 < 16" if "c div 262144 = 4"
      using 4 high_digits(3) [of c] that by linarith
    ultimately have "lossy_head (of_nat (240 + c div 262144))
        (of_nat (128 + c div 4096 mod 64) # of_nat (128 + c div 64 mod 64) # of_nat (128 + c mod 64) # r) = (3, c)" for r
      using lossy_head_multi(3) [OF unat_byte _ unat_byte _ unat_byte _ unat_byte, of "c div 262144" "c div 4096 mod 64"
          "c div 64 mod 64" "c mod 64" r] h high_digits(3) [of c] by simp
    then show ?thesis by (simp add: utf8_char_multi(3) [OF 4(1)] del: of_nat_add)
  qed
qed

lemma lossy_utf8_append: "text_ok s \<Longrightarrow> from_utf8_lossy (utf8 s @ r) = s @ from_utf8_lossy r"
  by (induction s) (simp_all add: utf8_def lossy_utf8_char)

lemma lossy_utf8 [simp]: "text_ok s \<Longrightarrow> from_utf8_lossy (utf8 s) = s"
  using lossy_utf8_append [of s "[]"] by simp

lemma utf8_append [simp]: "utf8 (s @ t) = utf8 s @ utf8 t"
  by (simp add: utf8_def)

lemma of_char_bound: "of_char c < (256 :: nat)"
  using of_char_mod_256 [of c, where 'a = nat] by (metis mod_less_divisor zero_less_numeral)

lemma text_ok_ustr [simp]: "text_ok (ustr s)"
proof -
  have "is_scalar (of_char c)" for c :: char using of_char_bound [of c] unfolding is_scalar_def by linarith
  then show ?thesis by (simp add: ustr_def list_all_iff)
qed

section \<open>Lines\<close>

text \<open>\<open>str::lines\<close>: a line ends in a line feed, or a carriage return and a line feed.\<close>

definition chomp :: "ustring \<Rightarrow> ustring" where
  "chomp l = (if l \<noteq> [] \<and> last l = 13 then butlast l else l)"

function lines_of :: "ustring \<Rightarrow> ustring list" where
  "lines_of s =
     (if s = [] then []
      else case dropWhile (\<lambda>c. c \<noteq> 10) s of
        [] \<Rightarrow> [s]
      | _ # rest \<Rightarrow> chomp (takeWhile (\<lambda>c. c \<noteq> 10) s) # lines_of rest)"
  by pat_completeness auto
termination
proof (relation "measure length")
  fix s x :: ustring and c assume "s \<noteq> []" "dropWhile (\<lambda>c. c \<noteq> 10) s = c # x"
  then show "(x, s) \<in> measure length" using length_dropWhile_le [of "\<lambda>c. c \<noteq> 10" s] by simp
qed simp

declare lines_of.simps [simp del]

abbreviation CRLF :: ustring where "CRLF \<equiv> [13, 10]"

lemma lines_of_crlf:
  assumes "10 \<notin> set l"
  shows "lines_of (l @ CRLF @ r) = l # lines_of r"
proof -
  have "takeWhile (\<lambda>c. c \<noteq> 10) (l @ CRLF @ r) = l @ [13]" "dropWhile (\<lambda>c. c \<noteq> 10) (l @ CRLF @ r) = 10 # r"
    using assms by (auto simp: takeWhile_append dropWhile_append)
  then show ?thesis by (subst lines_of.simps) (simp add: chomp_def)
qed

section \<open>Splitting and trimming\<close>

text \<open>\<open>str::split_whitespace\<close>.\<close>

fun split_by :: "('a \<Rightarrow> bool) \<Rightarrow> 'a list \<Rightarrow> 'a list list" where
  "split_by p [] = [[]]"
| "split_by p (x # xs) =
     (if p x then [] # split_by p xs
      else case split_by p xs of [] \<Rightarrow> [[x]] | w # ws \<Rightarrow> (x # w) # ws)"

definition split_whitespace :: "ustring \<Rightarrow> ustring list" where
  "split_whitespace s = filter (\<lambda>w. w \<noteq> []) (split_by is_whitespace s)"

lemma split_by_nonempty [simp]: "split_by p s \<noteq> []"
  by (cases s) (auto split: list.splits)

lemma split_by_word:
  "list_all (\<lambda>c. \<not> p c) w \<Longrightarrow> p x \<Longrightarrow> split_by p (w @ x # r) = w # split_by p r"
  by (induction w) auto

lemma split_by_last: "list_all (\<lambda>c. \<not> p c) w \<Longrightarrow> split_by p w = [w]"
  by (induction w) auto

text \<open>\<open>str::split_once\<close> at the first occurrence, \<open>str::rsplit_once\<close> at the last occurrence of a character.\<close>

fun split_once :: "'a list \<Rightarrow> 'a list \<Rightarrow> ('a list \<times> 'a list) option" where
  "split_once pat [] = (if pat = [] then Some ([], []) else None)"
| "split_once pat (x # xs) =
     (if take (length pat) (x # xs) = pat then Some ([], drop (length pat) (x # xs))
      else map_option (map_prod ((#) x) id) (split_once pat xs))"

definition rsplit_once :: "'a \<Rightarrow> 'a list \<Rightarrow> ('a list \<times> 'a list) option" where
  "rsplit_once c s =
     (if c \<in> set s
      then Some (rev (tl (dropWhile (\<lambda>x. x \<noteq> c) (rev s))), rev (takeWhile (\<lambda>x. x \<noteq> c) (rev s)))
      else None)"

lemma rsplit_once_last: "c \<notin> set t \<Longrightarrow> rsplit_once c (s @ c # t) = Some (s, t)"
  by (simp add: rsplit_once_def dropWhile_append takeWhile_append)

text \<open>\<open>str::trim_matches\<close>.\<close>

definition trim_matches :: "('a \<Rightarrow> bool) \<Rightarrow> 'a list \<Rightarrow> 'a list" where
  "trim_matches p s = rev (dropWhile p (rev (dropWhile p s)))"

lemma trim_trim_matches: "trim s = trim_matches is_whitespace s"
  by (simp add: trim_def trim_matches_def)

lemma trim_matches_id:
  assumes "s = [] \<or> \<not> p (hd s) \<and> \<not> p (last s)"
  shows "trim_matches p s = s"
proof (cases s rule: rev_cases)
  case (snoc t x)
  with assms have "dropWhile p s = s" by (auto simp: dropWhile_eq_self_iff)
  then show ?thesis using assms snoc by (simp add: trim_matches_def)
qed (simp add: trim_matches_def)

section \<open>Numbers\<close>

text \<open>\<open>u16::from_str\<close>: an optional plus sign, then digits; too large a number is an error.\<close>

definition is_digit :: "nat \<Rightarrow> bool" where
  "is_digit c \<longleftrightarrow> 48 \<le> c \<and> c \<le> 57"

definition digits_value :: "ustring \<Rightarrow> nat" where
  "digits_value ds = foldl (\<lambda>v c. v * 10 + (c - 48)) 0 ds"

definition parse_u16 :: "ustring \<Rightarrow> nat option" where
  "parse_u16 s =
     (let ds = (if s \<noteq> [] \<and> hd s = 43 then tl s else s) in
      if ds = [] \<or> \<not> list_all is_digit ds then None
      else if digits_value ds < 2 ^ 16 then Some (digits_value ds) else None)"

lemma digit_code: "d < 10 \<Longrightarrow> of_char (digit d) = 48 + d"
  by (simp add: digit_def)

lemma show_nat_digits:
  "list_all is_digit (ustr (show_nat n)) \<and> show_nat n \<noteq> [] \<and> digits_value (ustr (show_nat n)) = n"
proof (induction n rule: show_nat.induct)
  case (1 n)
  show ?case
  proof (cases "n < 10")
    case True
    then show ?thesis
      by (subst (1 2 3) show_nat.simps) (simp add: ustr_def digit_code is_digit_def digits_value_def)
  next
    case False
    then have IH: "list_all is_digit (ustr (show_nat (n div 10)))" "digits_value (ustr (show_nat (n div 10))) = n div 10"
      using 1 by simp_all
    have eq: "ustr (show_nat n) = ustr (show_nat (n div 10)) @ [48 + n mod 10]"
      using False by (subst show_nat.simps) (simp add: ustr_def digit_code)
    have "show_nat n \<noteq> []" using False by (subst show_nat.simps) simp
    moreover have "is_digit (48 + n mod 10)" using mod_less_divisor [of 10 n] by (simp add: is_digit_def)
    ultimately show ?thesis using IH unfolding eq by (simp add: digits_value_def)
  qed
qed

lemma parse_show_u16:
  assumes "n < 2 ^ 16"
  shows "parse_u16 (ustr (show_nat n)) = Some n"
proof -
  have "ustr (show_nat n) \<noteq> []" "hd (ustr (show_nat n)) \<noteq> 43"
    using show_nat_digits [of n] by (cases "show_nat n"; auto simp: ustr_def is_digit_def)+
  then show ?thesis using show_nat_digits [of n] assms by (simp add: parse_u16_def Let_def)
qed

end
