(* ===== verification/Migrate.thy ===== *)
theory Migrate
  imports Sql Rust_Text "HOL-Library.Sublist"
begin

text \<open>
  The migration runner, \<open>crates/buh-data/src/migrate.rs\<close>, with the two embedded migration
  files: splitting a file into statements, and applying the versions that are not yet
  recorded.

  The database connection is the record \<open>conn\<close>, an argument of every operation; it is
  given the text of a statement. \<open>conn_sound\<close> states what the runner relies on: the
  version table holds what was inserted, a statement of a migration that succeeds has
  taken effect once and one that fails not at all.
\<close>

section \<open>The embedded files\<close>

text \<open>The files as lists of their lines, each of which ends in a line feed.\<close>

definition file_text :: "ustring list \<Rightarrow> ustring" where
  "file_text ls = concat (map (\<lambda>l. l @ [10]) ls)"

definition INIT_LINES :: "ustring list" where
  "INIT_LINES = [
     ustr ''-- buh relay/mailbox schema (Turso / SQLite-compatible).'',
     ustr ''--'',
     ustr ''-- The relay stores ONLY queue_id -> envelope_refs, TTL/expiry, and delivery receipts. There'',
     ustr ''-- are deliberately no users / queues / ownership tables: the relay never learns identities'',
     ustr ''-- and cannot enumerate a social graph (doc/design.md '' @ [167] @ ustr ''3.1). queue_id is an opaque 32-byte'',
     ustr ''-- capability; envelope payloads are opaque sealed ciphertext.'',
     ustr ''--'',
     ustr ''-- Timestamps are epoch milliseconds (INTEGER).'',
     [],
     ustr ''CREATE TABLE IF NOT EXISTS envelopes ('',
     ustr ''    id            INTEGER PRIMARY KEY,'',
     ustr ''    queue_id      BLOB    NOT NULL,'',
     ustr ''    envelope_id   TEXT    NOT NULL,'',
     ustr ''    payload       BLOB    NOT NULL,'',
     ustr ''    received_at   INTEGER NOT NULL,'',
     ustr ''    expires_at    INTEGER NOT NULL,'',
     ustr ''    delivered_at  INTEGER'',
     ustr '');'',
     [],
     ustr ''-- Primary access path: live (undelivered) envelopes for a queue, oldest first.'',
     ustr ''CREATE INDEX IF NOT EXISTS idx_envelopes_queue_live'',
     ustr ''    ON envelopes (queue_id, delivered_at, received_at);'',
     [],
     ustr ''-- TTL sweep path.'',
     ustr ''CREATE INDEX IF NOT EXISTS idx_envelopes_expiry'',
     ustr ''    ON envelopes (expires_at);'',
     [],
     ustr ''-- One row per (queue, envelope) '' @ [8212] @ ustr '' idempotent push / safe ack.'',
     ustr ''CREATE UNIQUE INDEX IF NOT EXISTS idx_envelopes_uniq'',
     ustr ''    ON envelopes (queue_id, envelope_id);'',
     [],
     ustr ''CREATE TABLE IF NOT EXISTS delivery_receipts ('',
     ustr ''    id           INTEGER PRIMARY KEY,'',
     ustr ''    queue_id     BLOB    NOT NULL,'',
     ustr ''    envelope_id  TEXT    NOT NULL,'',
     ustr ''    pulled_at    INTEGER NOT NULL'',
     ustr '');'',
     [],
     ustr ''CREATE INDEX IF NOT EXISTS idx_receipts_queue'',
     ustr ''    ON delivery_receipts (queue_id, pulled_at);'']"

definition INIT_SQL :: ustring where
  "INIT_SQL = file_text INIT_LINES"

definition PEER_TRUST_LINES :: "ustring list" where
  "PEER_TRUST_LINES = [
     ustr ''-- Peer-CA trust registry (Phase 6 / doc/design.md '' @ [167] @ ustr ''5.1, the decentralised per-node-CA deviation).'',
     ustr ''--'',
     ustr ''-- The set of peer-node CA fingerprints this node will accept on a PQ-mTLS handshake. Trust is'',
     ustr ''-- per-CA: a fingerprint is pinned (lowercase hex SHA-256 of the peer CA cert DER), never a shared'',
     ustr ''-- root. There is deliberately no peer identity, address, or social graph here '' @ [8212] @ ustr '' only the opaque'',
     ustr ''-- fingerprints an operator has chosen to trust, and an optional human note.'',
     [],
     ustr ''CREATE TABLE IF NOT EXISTS peer_trust ('',
     ustr ''    ca_fingerprint  TEXT    PRIMARY KEY,   -- lowercase hex SHA-256 of the peer CA cert DER'',
     ustr ''    note            TEXT,                  -- optional operator note (who/what this CA is)'',
     ustr ''    trusted_at      INTEGER NOT NULL       -- epoch milliseconds'',
     ustr '');'']"

definition PEER_TRUST_SQL :: ustring where
  "PEER_TRUST_SQL = file_text PEER_TRUST_LINES"

definition MIGRATIONS :: "(int \<times> ustring) list" where
  "MIGRATIONS = [(1, INIT_SQL), (2, PEER_TRUST_SQL)]"

section \<open>Splitting into statements\<close>

text \<open>A line up to the first two dashes.\<close>

fun strip_comment :: "ustring \<Rightarrow> ustring" where
  "strip_comment [] = []"
| "strip_comment (c # cs) = (if c = 45 \<and> cs \<noteq> [] \<and> hd cs = 45 then [] else c # strip_comment cs)"

definition split_statements :: "ustring \<Rightarrow> ustring list" where
  "split_statements sql =
     (let stripped = join_with 10 (map strip_comment (lines_of sql))
      in filter (\<lambda>s. s \<noteq> []) (map trim (split_on 59 stripped)))"

section \<open>The runner\<close>

record 'db conn =
  cn_execute :: "ustring \<Rightarrow> sql_value list \<Rightarrow> 'db \<Rightarrow> 'db \<times> (string + nat)"
  cn_query :: "ustring \<Rightarrow> sql_value list \<Rightarrow> 'db \<Rightarrow> string + sql_row list \<times> string option"

definition CREATE_VERSIONS :: ustring where
  "CREATE_VERSIONS = ustr ''CREATE TABLE IF NOT EXISTS schema_version (version INTEGER PRIMARY KEY, applied_at INTEGER NOT NULL)''"

definition INSERT_VERSION :: ustring where
  "INSERT_VERSION = ustr ''INSERT INTO schema_version (version, applied_at) VALUES (?1, ?2)''"

definition SELECT_VERSION :: ustring where
  "SELECT_VERSION = ustr ''SELECT 1 FROM schema_version WHERE version = ?1''"

definition execute :: "'db conn \<Rightarrow> ustring \<Rightarrow> sql_value list \<Rightarrow> 'db \<Rightarrow> 'db \<times> (core_error + nat)" where
  "execute C stmt ps db = map_prod id (map_err Repo) (cn_execute C stmt ps db)"

text \<open>Only the first \<open>next\<close> is called: a row, the end, or a failure.\<close>

definition is_applied :: "'db conn \<Rightarrow> int \<Rightarrow> 'db \<Rightarrow> core_error + bool" where
  "is_applied C version db =
     and_then (map_err Repo (cn_query C SELECT_VERSION [Integer version] db)) (\<lambda>(rows, fin).
       case rows of
         _ # _ \<Rightarrow> Inr True
       | [] \<Rightarrow> (case fin of None \<Rightarrow> Inr False | Some e \<Rightarrow> Inl (Repo e)))"

fun run_statements :: "'db conn \<Rightarrow> ustring list \<Rightarrow> 'db \<Rightarrow> 'db \<times> (core_error + unit)" where
  "run_statements C [] db = (db, Inr ())"
| "run_statements C (stmt # stmts) db =
     then_do (execute C stmt [] db) (\<lambda>db _. run_statements C stmts db)"

text \<open>\<open>now\<close> gives the time at which a version is recorded.\<close>

fun run_migrations :: "'db conn \<Rightarrow> (int \<Rightarrow> int) \<Rightarrow> (int \<times> ustring) list \<Rightarrow> 'db \<Rightarrow> 'db \<times> (core_error + unit)" where
  "run_migrations C now [] db = (db, Inr ())"
| "run_migrations C now ((version, sql) # ms) db =
     then_do (db, is_applied C version db) (\<lambda>db applied.
       if applied then run_migrations C now ms db
       else
         then_do (run_statements C (split_statements sql) db) (\<lambda>db _.
         then_do (execute C INSERT_VERSION [Integer version, Integer (now version)] db) (\<lambda>db _.
           run_migrations C now ms db)))"

definition migrate_run :: "'db conn \<Rightarrow> (int \<Rightarrow> int) \<Rightarrow> 'db \<Rightarrow> 'db \<times> (core_error + unit)" where
  "migrate_run C now db =
     then_do (execute C CREATE_VERSIONS [] db) (\<lambda>db _. run_migrations C now MIGRATIONS db)"

section \<open>What the database promises\<close>

definition ddl :: "ustring set" where
  "ddl = set (concat (map (split_statements \<circ> snd) MIGRATIONS))"

definition conn_sound :: "'db conn \<Rightarrow> ('db \<Rightarrow> int set) \<Rightarrow> ('db \<Rightarrow> ustring list) \<Rightarrow> bool" where
  "conn_sound C versions executed \<longleftrightarrow>
     (\<forall>db db' r. cn_execute C CREATE_VERSIONS [] db = (db', r) \<longrightarrow>
        versions db' = versions db \<and> executed db' = executed db)
   \<and> (\<forall>stmt \<in> ddl. \<forall>db db' r. cn_execute C stmt [] db = (db', r) \<longrightarrow>
        versions db' = versions db \<and> executed db' = executed db @ (if is_ok r then [stmt] else []))
   \<and> (\<forall>v t db db' r. cn_execute C INSERT_VERSION [Integer v, Integer t] db = (db', r) \<longrightarrow>
        versions db' = (if is_ok r then insert v (versions db) else versions db) \<and> executed db' = executed db)
   \<and> (\<forall>v db rows fin. cn_query C SELECT_VERSION [Integer v] db = Inr (rows, fin) \<longrightarrow>
        (if rows = [] then fin = None \<longrightarrow> v \<notin> versions db else v \<in> versions db))"

lemma conn_soundD:
  assumes "conn_sound C versions executed"
  shows "cn_execute C CREATE_VERSIONS [] db = (db', r) \<Longrightarrow> versions db' = versions db \<and> executed db' = executed db"
    and "stmt \<in> ddl \<Longrightarrow> cn_execute C stmt [] db = (db', r) \<Longrightarrow>
      versions db' = versions db \<and> executed db' = executed db @ (if is_ok r then [stmt] else [])"
    and "cn_execute C INSERT_VERSION [Integer v, Integer t] db = (db', r) \<Longrightarrow>
      versions db' = (if is_ok r then insert v (versions db) else versions db) \<and> executed db' = executed db"
    and "cn_query C SELECT_VERSION [Integer v] db = Inr (rows, fin) \<Longrightarrow>
      (if rows = [] then fin = None \<longrightarrow> v \<notin> versions db else v \<in> versions db)"
  using assms unfolding conn_sound_def by blast+

section \<open>The runner applies what is missing\<close>

lemma execute_result: "execute C stmt ps db = (db', r) \<Longrightarrow> \<exists>r0. cn_execute C stmt ps db = (db', r0) \<and> is_ok r = is_ok r0"
  by (cases "cn_execute C stmt ps db"; cases "snd (cn_execute C stmt ps db)") (auto simp: execute_def)

lemma is_applied_ok:
  assumes "conn_sound C versions executed" "is_applied C v db = Inr b"
  shows "b \<longleftrightarrow> v \<in> versions db"
proof -
  from assms(2) obtain rows fin where q: "cn_query C SELECT_VERSION [Integer v] db = Inr (rows, fin)"
    by (auto simp: is_applied_def)
  then show ?thesis using conn_soundD(4) [OF assms(1) q] assms(2)
    by (cases rows; cases fin) (simp_all add: is_applied_def)
qed

lemma run_statements_spec:
  assumes sound: "conn_sound C versions executed"
    and "set stmts \<subseteq> ddl" "run_statements C stmts db = (db', r)"
  shows "versions db' = versions db \<and>
    (\<exists>part. prefix part stmts \<and> executed db' = executed db @ part \<and> (is_ok r \<longrightarrow> part = stmts))"
  using assms(2,3)
proof (induction stmts arbitrary: db)
  case (Cons stmt stmts)
  from Cons.prems(2) show ?case unfolding run_statements.simps
  proof (cases rule: then_do_cases)
    case (err e)
    obtain r0 where "cn_execute C stmt [] db = (db', r0)" "\<not> is_ok r0" using execute_result [OF err(1)] by auto
    then show ?thesis using conn_soundD(2) [OF sound] Cons.prems(1) err by fastforce
  next
    case (ok db1 n)
    obtain r0 where "cn_execute C stmt [] db = (db1, r0)" "is_ok r0" using execute_result [OF ok(1)] by auto
    then have "versions db1 = versions db" "executed db1 = executed db @ [stmt]"
      using conn_soundD(2) [OF sound, of stmt db db1 r0] Cons.prems(1) by simp_all
    with Cons.IH [OF _ ok(2)] Cons.prems(1) show ?thesis by fastforce
  qed
qed auto

text \<open>The migrations of a list that are not recorded, and their statements.\<close>

definition missing :: "int set \<Rightarrow> (int \<times> ustring) list \<Rightarrow> (int \<times> ustring) list" where
  "missing vs ms = filter (\<lambda>(v, _). v \<notin> vs) ms"

definition statements :: "(int \<times> ustring) list \<Rightarrow> ustring list" where
  "statements ms = concat (map (split_statements \<circ> snd) ms)"

lemma statements_simps [simp]: "statements [] = []" "statements ((v, sql) # ms) = split_statements sql @ statements ms"
  "statements (ms @ ms') = statements ms @ statements ms'"
  by (simp_all add: statements_def)

lemma missing_simps [simp]: "missing vs [] = []"
  "missing vs ((v, sql) # ms) = (if v \<in> vs then missing vs ms else (v, sql) # missing vs ms)"
  by (simp_all add: missing_def)

lemma missing_insert: "v \<notin> fst ` set ms \<Longrightarrow> missing (insert v vs) ms = missing vs ms"
  by (induction ms) auto

lemma missing_all: "fst ` set ms \<subseteq> vs \<Longrightarrow> missing vs ms = []"
  by (induction ms) auto

lemma missing_rest:
  assumes "distinct (map fst ms)" "missing vs ms = fin @ left"
  shows "missing (vs \<union> fst ` set fin) ms = left"
proof -
  have rest: "missing (vs \<union> fst ` set fin) ms = filter (\<lambda>(v, _). v \<notin> fst ` set fin) (missing vs ms)"
    by (auto simp: missing_def intro!: filter_cong)
  have "distinct (map fst (fin @ left))"
    unfolding assms(2) [symmetric] missing_def by (rule distinct_map_filter [OF assms(1)])
  then have apart: "fst ` set fin \<inter> fst ` set left = {}" by simp
  have "filter (\<lambda>(v, _). v \<notin> fst ` set fin) fin = []" by (force simp: filter_empty_conv)
  moreover have "filter (\<lambda>(v, _). v \<notin> fst ` set fin) left = left"
    unfolding filter_id_conv using apart by force
  ultimately show ?thesis unfolding rest assms(2) filter_append by simp
qed

lemma set_missing: "fst ` set (missing vs ms) = fst ` set ms - vs"
  by (force simp: missing_def)

lemma versions_distinct: "distinct (map fst MIGRATIONS)" "fst ` set MIGRATIONS = {1, 2}"
  by (auto simp: MIGRATIONS_def)

text \<open>
  A run has applied an initial part of what was missing, and of the next migration
  at most some first statements.
\<close>

definition applied_part :: "(int \<times> ustring) list \<Rightarrow> (int \<times> ustring) list \<Rightarrow> (int \<times> ustring) list \<Rightarrow> ustring list \<Rightarrow> bool" where
  "applied_part todo fin left part \<longleftrightarrow> todo = fin @ left \<and>
     (part = [] \<or> left \<noteq> [] \<and> prefix part (split_statements (snd (hd left))))"

text \<open>One migration: it stops with a prefix of its statements executed and its version not recorded, or
  goes on with all of them executed and the version recorded.\<close>

lemma migration_cases:
  assumes sound: "conn_sound C versions executed" and ddl: "set (split_statements sql) \<subseteq> ddl"
    and run: "then_do (run_statements C (split_statements sql) db) (\<lambda>db _.
      then_do (execute C INSERT_VERSION [Integer v, Integer (now v)] db) (\<lambda>db _. cont db)) = (db', r)"
  obtains part where "versions db' = versions db" "executed db' = executed db @ part" "prefix part (split_statements sql)" "\<not> is_ok r"
  | db2 where "versions db2 = insert v (versions db)" "executed db2 = executed db @ split_statements sql" "cont db2 = (db', r)"
  using run
proof (cases rule: then_do_cases)
  case (err e)
  with that(1) run_statements_spec [OF sound ddl err(1)] show thesis by auto
next
  case (ok db1 u)
  have st: "versions db1 = versions db" "executed db1 = executed db @ split_statements sql"
    using run_statements_spec [OF sound ddl ok(1)] by auto
  from ok(2) show thesis
  proof (cases rule: then_do_cases)
    case (err e)
    obtain r0 where "cn_execute C INSERT_VERSION [Integer v, Integer (now v)] db1 = (db', r0)" "\<not> is_ok r0"
      using execute_result [OF err(1)] by auto
    from conn_soundD(3) [OF sound this(1)] this(2) show thesis using that(1) st err(2) by simp
  next
    case (ok db2 n)
    obtain r0 where "cn_execute C INSERT_VERSION [Integer v, Integer (now v)] db1 = (db2, r0)" "is_ok r0"
      using execute_result [OF ok(1)] by auto
    from conn_soundD(3) [OF sound this(1)] this(2) show thesis using that(2) [of db2] st ok(2) by simp
  qed
qed

lemma run_migrations_spec:
  assumes sound: "conn_sound C versions executed"
    and "set (statements ms) \<subseteq> ddl" "distinct (map fst ms)" "run_migrations C now ms db = (db', r)"
  shows "\<exists>fin left part. applied_part (missing (versions db) ms) fin left part
    \<and> executed db' = executed db @ statements fin @ part \<and> versions db' = versions db \<union> fst ` set fin
    \<and> (is_ok r \<longrightarrow> left = [] \<and> part = [])"
  using assms(2-4)
proof (induction ms arbitrary: db)
  case Nil
  then show ?case by (auto simp: applied_part_def)
next
  case (Cons m ms)
  obtain v sql where m: "m = (v, sql)" by (cases m)
  let ?todo = "missing (versions db) (m # ms)"
  from Cons.prems(3) [unfolded m run_migrations.simps] show ?case
  proof (cases rule: then_do_cases)
    case (err e)
    then show ?thesis
      by (intro exI [of _ "[]"] exI [of _ ?todo] exI [of _ "[]"]) (auto simp: applied_part_def m)
  next
    case (ok db0 applied)
    then have db0: "db0 = db" and app: "is_applied C v db = Inr applied" by auto
    note v = is_applied_ok [OF sound app]
    show ?thesis
    proof (cases applied)
      case True
      with ok(2) db0 have "run_migrations C now ms db = (db', r)" by simp
      from Cons.IH [OF _ _ this] Cons.prems(1,2) m v True show ?thesis by auto
    next
      case False
      have ddl: "set (split_statements sql) \<subseteq> ddl" using Cons.prems(1) m by auto
      from ok(2) db0 False have "then_do (run_statements C (split_statements sql) db) (\<lambda>db _.
          then_do (execute C INSERT_VERSION [Integer v, Integer (now v)] db) (\<lambda>db _. run_migrations C now ms db)) = (db', r)"
        by simp
      then show ?thesis
      proof (cases rule: migration_cases [OF sound ddl, consumes 1, case_names halted applied])
        case (halted part)
        then show ?thesis
          using v False by (intro exI [of _ "[]"] exI [of _ ?todo] exI [of _ part]) (auto simp: applied_part_def m)
      next
        case (applied db2)
        have "missing (versions db2) ms = missing (versions db) ms"
          using Cons.prems(2) m by (simp add: applied(1) missing_insert)
        with Cons.IH [OF _ _ applied(3)] Cons.prems(1,2) m obtain fin left part where
            "applied_part (missing (versions db) ms) fin left part"
            "executed db' = executed db2 @ statements fin @ part" "versions db' = versions db2 \<union> fst ` set fin"
            "is_ok r \<longrightarrow> left = [] \<and> part = []"
          by auto
        then show ?thesis
          using applied v False by (intro exI [of _ "(v, sql) # fin"] exI [of _ left] exI [of _ part]) (auto simp: applied_part_def m)
      qed
    qed
  qed
qed

lemma migrate_run_spec:
  assumes sound: "conn_sound C versions executed" and run: "migrate_run C now db = (db', r)"
  shows "\<exists>fin left part. applied_part (missing (versions db) MIGRATIONS) fin left part
    \<and> executed db' = executed db @ statements fin @ part \<and> versions db' = versions db \<union> fst ` set fin
    \<and> (is_ok r \<longrightarrow> left = [] \<and> part = [])"
  using run unfolding migrate_run_def
proof (cases rule: then_do_cases)
  case (err e)
  obtain r0 where "cn_execute C CREATE_VERSIONS [] db = (db', r0)" using execute_result [OF err(1)] by auto
  from conn_soundD(1) [OF sound this] show ?thesis using err(2)
    by (intro exI [of _ "[]"] exI [of _ "missing (versions db) MIGRATIONS"] exI [of _ "[]"]) (auto simp: applied_part_def)
next
  case (ok db1 n)
  obtain r0 where "cn_execute C CREATE_VERSIONS [] db = (db1, r0)" using execute_result [OF ok(1)] by auto
  note keep = conn_soundD(1) [OF sound this]
  have "set (statements MIGRATIONS) \<subseteq> ddl" by (simp add: statements_def ddl_def)
  with run_migrations_spec [OF sound _ versions_distinct(1) ok(2)] keep show ?thesis by auto
qed

section \<open>Running it\<close>

text \<open>
  C39. The migration runner applies each missing migration once and in order: whatever a
  first run applied before it failed or finished, a later run that succeeds applies
  exactly the rest, beginning with the first migration that was not recorded, and then
  every version is recorded; after a successful run another one executes no statement.
\<close>

theorem migrations_resume:
  assumes sound: "conn_sound C versions executed"
    and first: "migrate_run C now db = (db1, r1)" and again: "migrate_run C now' db1 = (db2, Inr u)"
  shows "\<exists>fin left part. applied_part (missing (versions db) MIGRATIONS) fin left part
    \<and> executed db1 = executed db @ statements fin @ part \<and> versions db1 = versions db \<union> fst ` set fin
    \<and> executed db2 = executed db1 @ statements left \<and> versions db2 = versions db \<union> {1, 2}
    \<and> (is_ok r1 \<longrightarrow> left = [] \<and> part = [])"
proof -
  from migrate_run_spec [OF sound first] obtain fin left part where
      one: "applied_part (missing (versions db) MIGRATIONS) fin left part"
      "executed db1 = executed db @ statements fin @ part" "versions db1 = versions db \<union> fst ` set fin"
      "is_ok r1 \<longrightarrow> left = [] \<and> part = []"
    by blast
  from migrate_run_spec [OF sound again] have two:
      "executed db2 = executed db1 @ statements (missing (versions db1) MIGRATIONS)"
      "versions db2 = versions db1 \<union> fst ` set (missing (versions db1) MIGRATIONS)"
    by (auto simp: applied_part_def)
  have left: "missing (versions db1) MIGRATIONS = left"
    using missing_rest [of MIGRATIONS "versions db" fin left] one(1,3) by (simp add: applied_part_def versions_distinct)
  have "versions db2 = versions db1 \<union> {1, 2}" using two(2) by (auto simp: set_missing versions_distinct)
  moreover have "fst ` set fin \<subseteq> {1, 2}"
    using one(1) set_missing [of "versions db" MIGRATIONS] by (auto simp: applied_part_def versions_distinct)
  ultimately have "versions db2 = versions db \<union> {1, 2}" using one(3) by blast
  with one two(1) [unfolded left] show ?thesis by blast
qed

section \<open>A database for the runner\<close>

text \<open>
  What the statements of the files are made of; in particular the statement that
  creates the version table is none of them.
\<close>

lemma lines_of_file: "\<forall>l \<in> set ls. 10 \<notin> set l \<Longrightarrow> lines_of (file_text ls) = map chomp ls"
proof (induction ls)
  case Nil
  then show ?case by (simp add: file_text_def lines_of.simps)
next
  case (Cons l ls)
  then have "dropWhile (\<lambda>c. c \<noteq> 10) (l @ 10 # file_text ls) = 10 # file_text ls"
    "takeWhile (\<lambda>c. c \<noteq> 10) (l @ 10 # file_text ls) = l"
    by (auto simp: dropWhile_append takeWhile_append)
  then have "lines_of (l @ 10 # file_text ls) = chomp l # lines_of (file_text ls)"
    by (subst lines_of.simps) simp
  then show ?case using Cons by (simp add: file_text_def)
qed

lemma set_split_on: "w \<in> set (split_on c s) \<Longrightarrow> set w \<subseteq> set s"
proof (induction s arbitrary: w)
  case (Cons x s)
  then show ?case by (cases "split_on c s") (fastforce split: if_splits)+
qed simp

lemma set_join_with: "set (join_with c ws) \<subseteq> insert c (\<Union> (set ` set ws))"
  by (cases ws) (auto simp: join_with_def)

lemma set_trim: "set (trim s) \<subseteq> set s"
  by (auto simp: trim_def dest!: set_dropWhileD)

lemma set_statement:
  assumes "\<forall>l \<in> set ls. 10 \<notin> set l" "stmt \<in> set (split_statements (file_text ls))"
  shows "set stmt \<subseteq> insert 10 (\<Union>l \<in> set ls. set (strip_comment (chomp l)))"
proof -
  let ?s = "join_with 10 (map strip_comment (map chomp ls))"
  from assms obtain w where "w \<in> set (split_on 59 ?s)" "stmt = trim w"
    by (auto simp: split_statements_def Let_def lines_of_file)
  then have "set stmt \<subseteq> set ?s" using set_trim set_split_on by fastforce
  also have "\<dots> \<subseteq> insert 10 (\<Union>l \<in> set ls. set (strip_comment (chomp l)))"
    using set_join_with [of 10 "map strip_comment (map chomp ls)"] by auto
  finally show ?thesis .
qed

lemma init_lines: "\<forall>l \<in> set INIT_LINES. 10 \<notin> set l \<and> 104 \<notin> set (strip_comment (chomp l))"
  by (simp add: INIT_LINES_def ustr_def chomp_def)

lemma peer_trust_lines: "\<forall>l \<in> set PEER_TRUST_LINES. 10 \<notin> set l \<and> 104 \<notin> set (strip_comment (chomp l))"
  by (simp add: PEER_TRUST_LINES_def ustr_def chomp_def)

lemma ddl_no_h: "stmt \<in> ddl \<Longrightarrow> 104 \<notin> set stmt"
  using set_statement [of INIT_LINES stmt] set_statement [of PEER_TRUST_LINES stmt] init_lines peer_trust_lines
  by (fastforce simp: ddl_def MIGRATIONS_def INIT_SQL_def PEER_TRUST_SQL_def)

lemma create_versions_not_ddl: "CREATE_VERSIONS \<notin> ddl"
  using ddl_no_h [of CREATE_VERSIONS] by (auto simp: CREATE_VERSIONS_def ustr_def)

text \<open>The versions and the executed statements themselves.\<close>

definition log_conn :: "(int set \<times> ustring list) conn" where
  "log_conn = \<lparr>cn_execute = (\<lambda>stmt ps (vs, log). case ps of
       [Integer v, _] \<Rightarrow> ((insert v vs, log), Inr 1)
     | _ \<Rightarrow> (if stmt = CREATE_VERSIONS then (vs, log) else (vs, log @ [stmt]), Inr 0)),
     cn_query = (\<lambda>_ ps (vs, log). case ps of
       [Integer v] \<Rightarrow> Inr (if v \<in> vs then [[Integer 1]] else [], None)
     | _ \<Rightarrow> Inl ''bad parameters'')\<rparr>"

lemma log_conn_sound: "conn_sound log_conn fst snd"
  using create_versions_not_ddl by (auto simp: conn_sound_def log_conn_def split: prod.splits if_splits)

lemma log_conn_answers: "\<exists>db'. migrate_run log_conn now db = (db', Inr ())"
proof -
  have ex: "\<exists>db' n. execute log_conn stmt ps db = (db', Inr n)" for stmt ps db
    by (cases db) (auto simp: execute_def log_conn_def split: list.splits sql_value.splits)
  have q: "\<exists>b. is_applied log_conn v db = Inr b" for v db
    by (cases db; cases "v \<in> fst db") (auto simp: is_applied_def log_conn_def)
  have st: "\<exists>db'. run_statements log_conn stmts db = (db', Inr ())" for stmts db
  proof (induction stmts arbitrary: db)
    case (Cons stmt stmts)
    obtain db1 n where "execute log_conn stmt [] db = (db1, Inr n)" using ex by blast
    then show ?case using Cons.IH [of db1] by simp
  qed simp
  have mg: "\<exists>db'. run_migrations log_conn now ms db = (db', Inr ())" for ms db
  proof (induction ms arbitrary: db)
    case (Cons m ms)
    obtain v sql where m: "m = (v, sql)" by (cases m)
    obtain b where b: "is_applied log_conn v db = Inr b" using q by blast
    obtain db1 where db1: "run_statements log_conn (split_statements sql) db = (db1, Inr ())" using st by blast
    obtain db2 n where "execute log_conn INSERT_VERSION [Integer v, Integer (now v)] db1 = (db2, Inr n)" using ex by blast
    then show ?case using Cons.IH [of db2] Cons.IH [of db] b db1 m by (cases b) simp_all
  qed simp
  obtain db1 n where "execute log_conn CREATE_VERSIONS [] db = (db1, Inr n)" using ex by blast
  then show ?thesis using mg [of MIGRATIONS db1] by (simp add: migrate_run_def)
qed

theorem migrations_resume_witness:
  "\<exists>db1 db2 u. migrate_run log_conn (\<lambda>_. 5) ({1}, []) = (db1, Inr ()) \<and> migrate_run log_conn (\<lambda>_. 6) db1 = (db2, Inr u)
    \<and> snd db1 = split_statements PEER_TRUST_SQL \<and> snd db2 = snd db1 \<and> fst db2 = {1, 2}"
proof -
  obtain db1 where db1: "migrate_run log_conn (\<lambda>_. 5) ({1}, []) = (db1, Inr ())" using log_conn_answers by blast
  obtain db2 where db2: "migrate_run log_conn (\<lambda>_. 6) db1 = (db2, Inr ())" using log_conn_answers by blast
  from migrations_resume [OF log_conn_sound db1 db2]
  have "snd db1 = split_statements PEER_TRUST_SQL" "snd db2 = snd db1" "fst db2 = {1, 2}"
    by (auto simp: applied_part_def MIGRATIONS_def)
  with db1 db2 show ?thesis by blast
qed

end
