(* ===== verification/Daemon.thy ===== *)
theory Daemon
  imports Blob_Properties Migrate
begin

text \<open>
  The start of the node: assembling the ports (\<open>crates/buh-data/src/stack.rs\<close>) and the
  sequence of \<open>main\<close> up to the listeners (\<open>crates/buh-api/src/main.rs\<close>,
  \<open>serve_pqmtls\<close> of \<open>serve.rs\<close>), with the guard on the admin listener.

  The state of a running node is the record \<open>world\<close>: the mailbox with its database, the
  tree of files and the remote object store; a port on one of them becomes a port on the
  whole by \<open>on_mailbox\<close> and \<open>on_blob\<close>. What the start asks of the platform is the record \<open>deps\<close>:
  opening the database, resolving and binding addresses, the certificate and TLS
  libraries, the S3 client of given settings, the place of a path, the clock and
  randomness. The failures of \<open>main\<close> are constructors of \<open>start_error\<close>. The accept
  loops, the timers and signals are the runtime's.
\<close>

section \<open>Ports on the whole state\<close>

record ('db, 'r) world =
  w_mail :: "'db turso"
  w_fs :: fs
  w_s3 :: 'r

text \<open>A port on the part of the state that \<open>get\<close> reads and \<open>put\<close> replaces.\<close>

definition through :: "('w \<Rightarrow> 's) \<Rightarrow> ('s \<Rightarrow> 'w \<Rightarrow> 'w) \<Rightarrow> ('s \<Rightarrow> 's \<times> 'a) \<Rightarrow> 'w \<Rightarrow> 'w \<times> 'a" where
  "through get put f w = (case f (get w) of (s, a) \<Rightarrow> (put s w, a))"

definition on_mailbox :: "('w \<Rightarrow> 's) \<Rightarrow> ('s \<Rightarrow> 'w \<Rightarrow> 'w) \<Rightarrow> 's mailbox_port \<Rightarrow> 'w mailbox_port" where
  "on_mailbox get put R = \<lparr>
     mb_push = (\<lambda>mo q e. through get put (mb_push R mo q e)),
     mb_pull = (\<lambda>mo q n w. mb_pull R mo q n (get w)),
     mb_ack = (\<lambda>q i t. through get put (mb_ack R q i t)),
     mb_expire = (\<lambda>t. through get put (mb_expire R t))\<rparr>"

definition on_blob :: "('w \<Rightarrow> 's) \<Rightarrow> ('s \<Rightarrow> 'w \<Rightarrow> 'w) \<Rightarrow> 's blob_port \<Rightarrow> 'w blob_port" where
  "on_blob get put B = \<lparr>
     bs_exists = (\<lambda>b k w. bs_exists B b k (get w)),
     bs_put = (\<lambda>b k bs. through get put (bs_put B b k bs)),
     bs_get = (\<lambda>b k w. bs_get B b k (get w)),
     bs_presign_get = (\<lambda>b k ttl w. bs_presign_get B b k ttl (get w))\<rparr>"

lemma through_eq: "through get put f w = (w', a) \<longleftrightarrow> (\<exists>s. f (get w) = (s, a) \<and> w' = put s w)"
  by (auto simp: through_def split: prod.splits)

section \<open>The platform\<close>

record s3_settings =
  s3_endpoint :: string
  s3_region :: string
  s3_access_key :: string
  s3_secret_key :: string

record ('db, 'r, 'k, 'h) deps =
  dp_libs :: libs
  dp_lower :: "nat \<Rightarrow> nat list"
  dp_open :: "string \<Rightarrow> string + unit"
  dp_engine :: "'db engine"
  dp_conn :: "'db conn"
  dp_os :: os
  dp_path :: "string \<Rightarrow> path"
  dp_s3 :: "s3_settings \<Rightarrow> 'r s3_client"
  dp_s3_feature :: bool
  dp_rcgen :: "'k rcgen"
  dp_rustls :: "'h rustls"
  dp_rand :: "nat \<Rightarrow> nat"
  dp_now :: int
  dp_resolve :: "nat \<Rightarrow> string \<Rightarrow> string + ip_addr list"
  dp_listen :: "ip_addr \<Rightarrow> string option"

datatype start_error =
    CoreFailed core_error
  | S3FeatureMissing
  | UnknownBackend string
  | AdminNotLoopback string
  | BindFailed string
  | ExpectPanic

section \<open>The data stack\<close>

record ('w, 'k) data_stack =
  ds_ctx :: "'w ctx"
  ds_ca :: "'k node_ca option"

type_synonym ('db, 'r, 'k) node_stack = "(('db, 'r) world, 'k) data_stack"

definition put_mail :: "'db turso \<Rightarrow> ('db, 'r) world \<Rightarrow> ('db, 'r) world" where
  "put_mail m w = w\<lparr>w_mail := m\<rparr>"

definition put_fs :: "fs \<Rightarrow> ('db, 'r) world \<Rightarrow> ('db, 'r) world" where
  "put_fs F w = w\<lparr>w_fs := F\<rparr>"

definition put_s3 :: "'r \<Rightarrow> ('db, 'r) world \<Rightarrow> ('db, 'r) world" where
  "put_s3 r w = w\<lparr>w_s3 := r\<rparr>"

definition stack_connect ::
  "('db, 'r, 'k, 'h) deps \<Rightarrow> string \<Rightarrow> core_config \<Rightarrow> core_error + ('db, 'r, 'k) node_stack" where
  "stack_connect D db_path cfg =
     and_then (map_err Repo (dp_open D db_path)) (\<lambda>_.
       Inr \<lparr>ds_ctx = \<lparr>ctx_mailbox = on_mailbox w_mail put_mail (turso_repo (dp_libs D) (dp_engine D)),
              ctx_blob = None, ctx_pki_fingerprint = None, ctx_config = cfg\<rparr>,
            ds_ca = None\<rparr>)"

definition with_fs_blob :: "('db, 'r, 'k, 'h) deps \<Rightarrow> string \<Rightarrow> ('db, 'r, 'k) node_stack \<Rightarrow> ('db, 'r, 'k) node_stack" where
  "with_fs_blob D root st = st\<lparr>ds_ctx := (ds_ctx st)
     \<lparr>ctx_blob := Some (on_blob w_fs put_fs (fs_blob_store (dp_os D) (dp_path D root)))\<rparr>\<rparr>"

definition with_s3_blob :: "('db, 'r, 'k, 'h) deps \<Rightarrow> s3_settings \<Rightarrow> ('db, 'r, 'k) node_stack \<Rightarrow> ('db, 'r, 'k) node_stack" where
  "with_s3_blob D settings st = st\<lparr>ds_ctx := (ds_ctx st)
     \<lparr>ctx_blob := Some (on_blob w_s3 put_s3 (s3_blob_store (dp_s3 D settings)))\<rparr>\<rparr>"

definition with_node_pki ::
  "('db, 'r, 'k, 'h) deps \<Rightarrow> string \<Rightarrow> string list \<Rightarrow> int \<Rightarrow> ('db, 'r, 'k) node_stack \<Rightarrow>
   ('db, 'r) world \<Rightarrow> ('db, 'r) world \<times> (core_error + ('db, 'r, 'k) node_stack)" where
  "with_node_pki D dir sans leaf_ttl st w =
     then_do (through w_fs put_fs
       (load_or_init (dp_libs D) (dp_os D) (dp_rcgen D) (dp_rand D 0) (dp_path D dir) sans leaf_ttl) w) (\<lambda>w ca.
       (w, Inr (st\<lparr>ds_ctx := (ds_ctx st)\<lparr>ctx_pki_fingerprint := Some (nc_fingerprint ca)\<rparr>, ds_ca := Some ca\<rparr>)))"

definition stack_migrate ::
  "('db, 'r, 'k, 'h) deps \<Rightarrow> ('db, 'r) world \<Rightarrow> ('db, 'r) world \<times> (core_error + unit)" where
  "stack_migrate D w =
     then_do (w, map_err Repo (eng_connect (dp_engine D) (tm_db (w_mail w)))) (\<lambda>w _.
       through (tm_db \<circ> w_mail) (\<lambda>db w. put_mail ((w_mail w)\<lparr>tm_db := db\<rparr>) w) (migrate_run (dp_conn D) (\<lambda>_. 1000 * dp_now D)) w)"

section \<open>Listening\<close>

text \<open>\<open>TcpListener::bind\<close>: the first address of the resolution that can be bound.\<close>

fun try_bind :: "(ip_addr \<Rightarrow> string option) \<Rightarrow> string \<Rightarrow> ip_addr list \<Rightarrow> string + ip_addr" where
  "try_bind listen e [] = Inl e"
| "try_bind listen e (a # as) = (case listen a of None \<Rightarrow> Inr a | Some e \<Rightarrow> try_bind listen e as)"

definition tcp_bind :: "('db, 'r, 'k, 'h) deps \<Rightarrow> nat \<Rightarrow> string \<Rightarrow> start_error + ip_addr" where
  "tcp_bind D n addr =
     map_err BindFailed (and_then (dp_resolve D n addr)
       (try_bind (dp_listen D) ''could not resolve to any address''))"

text \<open>The guard resolves the address, and binding resolves it again.\<close>

definition spawn_admin :: "('db, 'r, 'k, 'h) deps \<Rightarrow> admin_config \<Rightarrow> start_error + ip_addr" where
  "spawn_admin D admin =
     (if \<not> is_loopback_bind (dp_resolve D 0 (admin_bind admin))
      then Inl (AdminNotLoopback (admin_bind admin))
      else tcp_bind D 1 (admin_bind admin))"

section \<open>The start\<close>

definition wire_blob ::
  "('db, 'r, 'k, 'h) deps \<Rightarrow> ('db, 'r, 'k) node_stack \<Rightarrow> blob_config \<Rightarrow> start_error + ('db, 'r, 'k) node_stack" where
  "wire_blob D st blob =
     (if blob_backend blob = ''fs'' then Inr (with_fs_blob D (blob_fs_root blob) st)
      else if blob_backend blob = ''s3'' then
        (if dp_s3_feature D then
           (let settings = \<lparr>s3_endpoint = blob_s3_endpoint blob, s3_region = blob_s3_region blob,
              s3_access_key = blob_s3_access_key blob, s3_secret_key = blob_s3_secret_key blob\<rparr>
            in Inr (with_s3_blob D settings st))
         else Inl S3FeatureMissing)
      else Inl (UnknownBackend (blob_backend blob)))"

text \<open>What the node serves: the address, the state of the handlers, and with mutual TLS its configuration and the admin address.\<close>

datatype ('w) serving =
    PlainHttp ip_addr "'w app_state"
  | PqMtls ip_addr "'w app_state" tls_config "ip_addr option"

text \<open>\<open>serve_pqmtls\<close> up to its accept loop: the snapshot is loaded first.\<close>

definition serve_pqmtls_start ::
  "('db, 'r, 'k, 'h) deps \<Rightarrow> 'h node_tls \<Rightarrow> ('db, 'r) world \<Rightarrow> core_error + tls_config" where
  "serve_pqmtls_start D n w =
     (let reg = turso_registry (dp_libs D) (dp_lower D) (dp_engine D);
          live = adm_live (refresh_trust reg \<lparr>adm_store = tm_db (w_mail w), adm_live = nt_trust n\<rparr>)
      in server_config (dp_rustls D) (n\<lparr>nt_trust := live\<rparr>))"

text \<open>\<open>Duration::from_secs\<close> of a number of hours; the product wraps in a release build.\<close>

definition hours_to_secs :: "u64 \<Rightarrow> int" where
  "hours_to_secs h = uint (h * 3600)"

text \<open>\<open>main\<close> from the listeners on.\<close>

definition daemon_listen ::
  "('db, 'r, 'k, 'h) deps \<Rightarrow> app_config \<Rightarrow> ('db, 'r, 'k) node_stack \<Rightarrow> ('db, 'r) world \<Rightarrow>
   start_error + ('db, 'r) world serving" where
  "daemon_listen D cfg st w =
     (let app = \<lparr>app_ctx = ds_ctx st, app_max_wait = unat (relay_max_wait_seconds (app_relay cfg))\<rparr> in
      if pki_enabled (app_pki cfg) then
        and_then (ok_or ExpectPanic (ds_ca st)) (\<lambda>ca.
        and_then (map_err CoreFailed (node_tls_new (dp_rustls D)
          (issue_leaf (dp_rcgen D) (dp_rand D 1) (dp_now D) ca) trust_store_new)) (\<lambda>node_tls.
        and_then (if admin_enabled (app_admin cfg) then map_sum id Some (spawn_admin D (app_admin cfg)) else Inr None) (\<lambda>admin.
        and_then (tcp_bind D 2 (pki_node_bind (app_pki cfg))) (\<lambda>addr.
        and_then (map_err CoreFailed (serve_pqmtls_start D node_tls w)) (\<lambda>tc.
          Inr (PqMtls addr app tc admin))))))
      else
        and_then (tcp_bind D 2 (app_bind cfg)) (\<lambda>addr. Inr (PlainHttp addr app)))"

definition daemon_start ::
  "('db, 'r, 'k, 'h) deps \<Rightarrow> app_config \<Rightarrow> ('db, 'r) world \<Rightarrow>
   ('db, 'r) world \<times> (start_error + ('db, 'r) world serving)" where
  "daemon_start D cfg w =
     then_do (w, map_err CoreFailed (stack_connect D (app_db_path cfg) (core_config_of cfg))) (\<lambda>w st.
     then_do (map_prod id (map_err CoreFailed) (stack_migrate D w)) (\<lambda>w _.
     then_do (w, if blob_enabled (app_blob cfg) then wire_blob D st (app_blob cfg) else Inr st) (\<lambda>w st.
     then_do (if pki_enabled (app_pki cfg)
       then map_prod id (map_err CoreFailed) (with_node_pki D (pki_dir (app_pki cfg)) (pki_sans (app_pki cfg))
         (hours_to_secs (pki_leaf_ttl_hours (app_pki cfg))) st w)
       else (w, Inr st)) (\<lambda>w st. (w, daemon_listen D cfg st w)))))"

section \<open>The contracts hold for the whole state\<close>

lemma on_mailbox_repo:
  assumes repo: "mailbox_repo env R ok mails receipts" and lens: "\<And>s w. get (put s w) = s"
  shows "mailbox_repo env (on_mailbox get put R) (\<lambda>w. ok (get w)) (\<lambda>w. mails (get w)) (\<lambda>w. receipts (get w))"
proof (unfold_locales, unfold on_mailbox_def mailbox_port.simps through_eq)
  fix w mo q e w' and r :: "core_error + envelope_id"
  assume a: "env" "ok (get w)" "\<exists>s. mb_push R mo q e (get w) = (s, r) \<and> w' = put s w"
  then obtain s where "mb_push R mo q e (get w) = (s, r)" "w' = put s w" by blast
  then show "ok (get w') \<and> receipts (get w') = receipts (get w) \<and>
      (case r of Inl _ \<Rightarrow> mails (get w') = mails (get w)
       | Inr i \<Rightarrow> i = fresh_uuid mo \<and> mails (get w') = mails (get w) @ [new_mail mo q e])"
    using mailbox_repo.push_law [OF repo a(1,2)] by (simp add: lens)
next
  fix w q i t w' and r :: "core_error + bool"
  assume a: "env" "ok (get w)" "\<exists>s. mb_ack R q i t (get w) = (s, r) \<and> w' = put s w"
  then obtain s where "mb_ack R q i t (get w) = (s, r)" "w' = put s w" by blast
  then show "ok (get w') \<and>
      (case r of Inl _ \<Rightarrow> receipts (get w') = receipts (get w) \<and> (mails (get w') = mails (get w) \<or> mails (get w') = deliver q i t (mails (get w)))
       | Inr b \<Rightarrow> mails (get w') = deliver q i t (mails (get w)) \<and> (b \<longleftrightarrow> (\<exists>m \<in> set (mails (get w)). pending q i m)) \<and>
           receipts (get w') = receipts (get w) @ (if b then [(q, i, t)] else []))"
    using mailbox_repo.ack_law [OF repo a(1,2)] by (simp add: lens)
next
  fix w t w' and r :: "core_error + nat"
  assume a: "env" "ok (get w)" "\<exists>s. mb_expire R t (get w) = (s, r) \<and> w' = put s w"
  then obtain s where "mb_expire R t (get w) = (s, r)" "w' = put s w" by blast
  then show "ok (get w') \<and> receipts (get w') = receipts (get w) \<and>
      (case r of Inl _ \<Rightarrow> mails (get w') = mails (get w)
       | Inr n \<Rightarrow> mails (get w') = unexpired t (mails (get w)) \<and> n + length (mails (get w')) = length (mails (get w)))"
    using mailbox_repo.expire_law [OF repo a(1,2)] by (simp add: lens)
qed (use mailbox_repo.inv_mails [OF repo] mailbox_repo.pull_law [OF repo] in blast)+

lemma on_blob_store:
  assumes store: "blob_store env B ok obj clobbers" and lens: "\<And>s w. get (put s w) = s"
  shows "blob_store env (on_blob get put B) (\<lambda>w. ok (get w)) (\<lambda>w. obj (get w)) clobbers"
proof (unfold_locales, unfold on_blob_def blob_port.simps through_eq)
  fix w b k bs w' and r :: "core_error + unit"
  assume a: "env" "ok (get w)" "\<exists>s. bs_put B b k bs (get w) = (s, r) \<and> w' = put s w"
  then obtain s where "bs_put B b k bs (get w) = (s, r)" "w' = put s w" by blast
  then show "ok (get w') \<and> obj (get w') (b, k) \<in> (if is_ok r then {Some bs} else {obj (get w) (b, k), Some bs})
      \<and> (\<forall>l. l \<noteq> (b, k) \<and> \<not> clobbers (b, k) l \<longrightarrow> obj (get w') l = obj (get w) l)"
    using blob_store.put_law [OF store a(1,2)] by (simp add: lens)
qed (use blob_store.get_law [OF store] blob_store.get_missing [OF store] blob_store.exists_law [OF store] in blast)+

lemma world_lenses [simp]: "w_mail (put_mail m w) = m" "w_fs (put_fs F w) = F" "w_s3 (put_s3 x w) = x"
  by (simp_all add: put_mail_def put_fs_def put_s3_def)

interpretation node_relay: mailbox_repo "turso_env L E view" "on_mailbox w_mail put_mail (turso_repo L E)"
    "\<lambda>w. turso_inv L view (w_mail w)" "\<lambda>w. turso_mails L view (w_mail w)" "\<lambda>w. turso_receipts L view (w_mail w)"
  for L E view
  by (rule on_mailbox_repo [OF turso.mailbox_repo_axioms]) simp

interpretation node_fs_blob: blob_store True "on_blob w_fs put_fs (fs_blob_store io root)" "\<lambda>w. fs_ok (w_fs w)"
    "\<lambda>w. fs_object root (w_fs w)" tmp_of
  for io root
  by (rule on_blob_store [OF fs_blob.blob_store_axioms]) simp

interpretation node_s3_blob: blob_store "s3_sound C objects" "on_blob w_s3 put_s3 (s3_blob_store C)" "\<lambda>_. True"
    "\<lambda>w. objects (w_s3 w)" "\<lambda>_ _. False"
  for C objects
  by (rule on_blob_store [OF s3_blob.blob_store_axioms]) simp

section \<open>What a started node serves\<close>

lemma try_bind_mem: "try_bind listen e as = Inr a \<Longrightarrow> a \<in> set as"
  by (induction as arbitrary: e) (auto split: option.splits)

lemma tcp_bind_mem: "tcp_bind D n addr = Inr a \<Longrightarrow> \<exists>as. dp_resolve D n addr = Inr as \<and> a \<in> set as"
  by (auto simp: tcp_bind_def dest: try_bind_mem)

lemma spawn_admin_loopback:
  assumes "spawn_admin D admin = Inr a" "dp_resolve D 1 (admin_bind admin) = dp_resolve D 0 (admin_bind admin)"
  shows "is_loopback a"
proof -
  from assms(1) have guard: "is_loopback_bind (dp_resolve D 0 (admin_bind admin))" and "tcp_bind D 1 (admin_bind admin) = Inr a"
    by (auto simp: spawn_admin_def split: if_splits)
  then show ?thesis using tcp_bind_mem [of D 1 "admin_bind admin" a] assms(2) by (auto simp: is_loopback_bind_iff)
qed

text \<open>The blob store the configuration names.\<close>

definition blob_wired :: "('db, 'r, 'k, 'h) deps \<Rightarrow> blob_config \<Rightarrow> ('db, 'r) world blob_port \<Rightarrow> bool" where
  "blob_wired D blob B \<longleftrightarrow>
     blob_backend blob = ''fs'' \<and> B = on_blob w_fs put_fs (fs_blob_store (dp_os D) (dp_path D (blob_fs_root blob)))
   \<or> blob_backend blob = ''s3'' \<and> dp_s3_feature D \<and> B = on_blob w_s3 put_s3 (s3_blob_store (dp_s3 D
       \<lparr>s3_endpoint = blob_s3_endpoint blob, s3_region = blob_s3_region blob,
        s3_access_key = blob_s3_access_key blob, s3_secret_key = blob_s3_secret_key blob\<rparr>))"

text \<open>A stack with the roles that were switched on so far.\<close>

definition stack_roles ::
  "('db, 'r, 'k, 'h) deps \<Rightarrow> app_config \<Rightarrow> bool \<Rightarrow> bool \<Rightarrow> ('db, 'r, 'k) node_stack \<Rightarrow> bool" where
  "stack_roles D cfg blob has_ca st \<longleftrightarrow>
     ctx_mailbox (ds_ctx st) = on_mailbox w_mail put_mail (turso_repo (dp_libs D) (dp_engine D))
   \<and> ctx_config (ds_ctx st) = core_config_of cfg \<and> (case ctx_blob (ds_ctx st) of None \<Rightarrow> \<not> blob | Some B \<Rightarrow> blob \<and> blob_wired D (app_blob cfg) B)
   \<and> ctx_pki_fingerprint (ds_ctx st) = map_option nc_fingerprint (ds_ca st) \<and> (ds_ca st \<noteq> None \<longleftrightarrow> has_ca)"

lemma stack_connect_roles: "stack_connect D db_path (core_config_of cfg) = Inr st \<Longrightarrow> stack_roles D cfg False False st"
  by (auto simp: stack_connect_def stack_roles_def)

lemma wire_blob_roles:
  "wire_blob D st (app_blob cfg) = Inr st' \<Longrightarrow> stack_roles D cfg False has_ca st \<Longrightarrow> stack_roles D cfg True has_ca st'"
  by (auto simp: wire_blob_def with_fs_blob_def with_s3_blob_def stack_roles_def blob_wired_def Let_def split: if_splits)

lemma with_node_pki_roles:
  "with_node_pki D dir sans ttl st w = (w', Inr st') \<Longrightarrow> stack_roles D cfg blob False st \<Longrightarrow> stack_roles D cfg blob True st'"
  unfolding with_node_pki_def by (elim then_do_okE) (auto simp: stack_roles_def)

lemma server_config_of_new:
  assumes "node_tls_new P issued T = Inr n" "serve_pqmtls_start D n w = Inr tc"
  shows "tc_kx_groups tc = pq_kx_groups"
    "tc_verifier tc = PinnedClientCertVerifier (adm_live (refresh_trust (turso_registry (dp_libs D) (dp_lower D) (dp_engine D))
       \<lparr>adm_store = tm_db (w_mail w), adm_live = T\<rparr>))"
    "\<exists>leaf. issued = Inr leaf \<and> tc_presented tc = chain_der leaf"
  using assms by (auto simp: node_tls_new_def serve_pqmtls_start_def server_config_def certified_key_def Let_def)

text \<open>The stack a started node listens with; the guarded \<open>expect\<close> never fails.\<close>

lemma daemon_start_stack:
  assumes "daemon_start D cfg w = (w', r)" "r = Inr sv \<or> r = Inl ExpectPanic"
  shows "\<exists>st. stack_roles D cfg (blob_enabled (app_blob cfg)) (pki_enabled (app_pki cfg)) st \<and> r = daemon_listen D cfg st w'"
  using assms(1) unfolding daemon_start_def
proof (cases rule: then_do_cases)
  case err
  then show ?thesis using assms(2) by (auto simp: map_err_def split: sum.splits)
next
  case (ok w0 st0)
  then have st0: "stack_roles D cfg False False st0" by (auto dest: stack_connect_roles)
  from ok(2) show ?thesis
  proof (cases rule: then_do_cases)
    case err
    then show ?thesis using assms(2) by (cases "stack_migrate D w0") (auto simp: map_err_def split: sum.splits)
  next
    case (ok w1 u)
    from ok(2) show ?thesis
    proof (cases rule: then_do_cases)
      case err
      then show ?thesis using assms(2) by (auto simp: wire_blob_def Let_def split: if_splits)
    next
      case (ok w2 st1)
      then have st1: "stack_roles D cfg (blob_enabled (app_blob cfg)) False st1"
        using st0 wire_blob_roles by (auto split: if_splits)
      from ok(2) show ?thesis
      proof (cases rule: then_do_cases)
        case (err e)
        obtain w3 x where x: "with_node_pki D (pki_dir (app_pki cfg)) (pki_sans (app_pki cfg))
            (hours_to_secs (pki_leaf_ttl_hours (app_pki cfg))) st1 w2 = (w3, x)" by force
        show ?thesis using err assms(2) by (auto simp: x map_err_def split: if_splits sum.splits)
      next
        case (ok w3 st2)
        then have "stack_roles D cfg (blob_enabled (app_blob cfg)) (pki_enabled (app_pki cfg)) st2"
          using st1 with_node_pki_roles by (auto split: if_splits dest!: map_prod_ok)
        with ok(2) show ?thesis by auto
      qed
    qed
  qed
qed

lemma daemon_never_panics: "daemon_start D cfg w \<noteq> (w', Inl ExpectPanic)"
proof
  assume "daemon_start D cfg w = (w', Inl ExpectPanic)"
  from daemon_start_stack [OF this] obtain st where "stack_roles D cfg (blob_enabled (app_blob cfg)) (pki_enabled (app_pki cfg)) st"
      "daemon_listen D cfg st w' = Inl ExpectPanic" by auto
  then show False
    by (auto simp: daemon_listen_def stack_roles_def Let_def tcp_bind_def spawn_admin_def and_then_def map_err_def
        split: if_splits sum.splits)
qed

end
