(* ===== verification/Json.thy ===== *)
theory Json
  imports Rust_Text "HOL-Library.List_Lexorder"
begin

text \<open>
  JSON values and the conversions that \<open>serde\<close> derives for the bodies of the HTTP API:
  \<open>crates/buh-entities/src/dto.rs\<close>, \<open>envelope.rs\<close>, \<open>b64.rs\<close>, and the request body of
  \<open>crates/buh-api/src/admin.rs\<close>.

  Reading and printing JSON text is the crate \<open>serde_json\<close>, base64 the crate \<open>base64\<close>, and
  the text form of a time the crate \<open>chrono\<close>: the fields of the record \<open>web_libs\<close>. The
  laws say that what is printed reads back, an object with its keys in order.
\<close>

section \<open>Values\<close>

datatype json_number = PosInt u64 | NegInt int | Float u64

datatype json =
    JNull
  | JBool bool
  | JNumber json_number
  | JString ustring
  | JArray "json list"
  | JObject "(ustring \<times> json) list"

text \<open>\<open>Value::get\<close> and indexing by a key, and the typed views.\<close>

fun json_get :: "ustring \<Rightarrow> json \<Rightarrow> json option" where
  "json_get k (JObject kvs) = map_of kvs k"
| "json_get k _ = None"

definition json_index :: "ustring \<Rightarrow> json \<Rightarrow> json" where
  "json_index k v = (case json_get k v of None \<Rightarrow> JNull | Some w \<Rightarrow> w)"

fun as_str :: "json \<Rightarrow> ustring option" where
  "as_str (JString s) = Some s"
| "as_str _ = None"

fun as_bool :: "json \<Rightarrow> bool option" where
  "as_bool (JBool b) = Some b"
| "as_bool _ = None"

fun as_array :: "json \<Rightarrow> json list option" where
  "as_array (JArray vs) = Some vs"
| "as_array _ = None"

section \<open>Text\<close>

record web_libs =
  js_parse :: "ustring \<Rightarrow> json option"
  js_print :: "json \<Rightarrow> ustring"
  b64_encode :: "bytes \<Rightarrow> ustring"
  b64_decode :: "ustring \<Rightarrow> bytes option"
  time_print :: "int \<Rightarrow> ustring"
  time_parse :: "ustring \<Rightarrow> int option"

text \<open>Objects are kept sorted by key, as in a \<open>BTreeMap\<close>.\<close>

primrec canon :: "json \<Rightarrow> json" where
  "canon JNull = JNull"
| "canon (JBool b) = JBool b"
| "canon (JNumber n) = JNumber n"
| "canon (JString s) = JString s"
| "canon (JArray vs) = JArray (map canon vs)"
| "canon (JObject kvs) = JObject (sort_key fst (map (map_prod id canon) kvs))"

text \<open>Values that survive printing: texts are text, keys are distinct, and there is no floating-point number.\<close>

fun number_ok :: "json_number \<Rightarrow> bool" where
  "number_ok (PosInt _) = True"
| "number_ok (NegInt i) = (I64_MIN \<le> i \<and> i < 0)"
| "number_ok (Float _) = False"

primrec json_ok :: "json \<Rightarrow> bool" where
  "json_ok JNull = True"
| "json_ok (JBool b) = True"
| "json_ok (JNumber n) = number_ok n"
| "json_ok (JString s) = text_ok s"
| "json_ok (JArray vs) = list_all id (map json_ok vs)"
| "json_ok (JObject kvs) = (distinct (map fst kvs) \<and> list_all (\<lambda>(k, ok). text_ok k \<and> ok) (map (map_prod id json_ok) kvs))"

definition web_laws :: "web_libs \<Rightarrow> bool" where
  "web_laws W \<longleftrightarrow>
     (\<forall>v. json_ok v \<longrightarrow> js_parse W (js_print W v) = Some (canon v) \<and> text_ok (js_print W v))
   \<and> (\<forall>kvs. \<exists>t. js_print W (JObject kvs) = 123 # t @ [125])
   \<and> (\<forall>b. b64_decode W (b64_encode W b) = Some b \<and> text_ok (b64_encode W b))
   \<and> (\<forall>t. 0 \<le> t \<and> t \<le> LAST_MS \<longrightarrow> time_parse W (time_print W t) = Some t \<and> text_ok (time_print W t))"

lemma web_lawsD:
  assumes "web_laws W"
  shows "json_ok v \<Longrightarrow> js_parse W (js_print W v) = Some (canon v)" "json_ok v \<Longrightarrow> text_ok (js_print W v)"
    "\<exists>t. js_print W (JObject kvs) = 123 # t @ [125]"
    "b64_decode W (b64_encode W b) = Some b" "text_ok (b64_encode W b)"
    "0 \<le> t \<Longrightarrow> t \<le> LAST_MS \<Longrightarrow> time_parse W (time_print W t) = Some t"
    "0 \<le> t \<Longrightarrow> t \<le> LAST_MS \<Longrightarrow> text_ok (time_print W t)"
  using assms unfolding web_laws_def by blast+

lemma json_get_canon:
  assumes "json_ok v"
  shows "json_get k (canon v) = map_option canon (json_get k v)"
proof (cases v)
  case (JObject kvs)
  with assms have "distinct (map fst (map (map_prod id canon) kvs))" by (simp add: comp_def)
  moreover have "map_of (map (map_prod id canon) kvs) k = map_option canon (map_of kvs k)"
    by (simp add: map_prod_def map_of_map flip: split_def)
  ultimately show ?thesis by (simp add: JObject map_of_sort_key)
qed simp_all

lemma json_get_ok: "json_ok v \<Longrightarrow> json_get k v = Some w \<Longrightarrow> json_ok w"
  by (cases v) (auto simp: list_all_iff dest!: map_of_SomeD)

lemma as_canon [simp]: "as_str (canon v) = as_str v" "as_bool (canon v) = as_bool v"
    "as_array (canon v) = map_option (map canon) (as_array v)"
  by (cases v; simp)+

section \<open>Derived conversions\<close>

definition json_int :: "int \<Rightarrow> json" where
  "json_int i = JNumber (if 0 \<le> i then PosInt (word_of_int i) else NegInt i)"

text \<open>\<open>i64\<close> from a number.\<close>

fun i64_of :: "json \<Rightarrow> int option" where
  "i64_of (JNumber (PosInt n)) = (if uint n \<le> I64_MAX then Some (uint n) else None)"
| "i64_of (JNumber (NegInt i)) = Some i"
| "i64_of _ = None"

text \<open>
  The members of a structure by name, or by position when the value is an array.
  A member that is missing is left to the field.
\<close>

fun struct_fields :: "ustring list \<Rightarrow> json \<Rightarrow> json option list option" where
  "struct_fields names (JObject kvs) = Some (map (map_of kvs) names)"
| "struct_fields names (JArray vs) =
     (if length vs \<le> length names then Some (map Some vs @ replicate (length names - length vs) None) else None)"
| "struct_fields names _ = None"

text \<open>\<open>b64::serialize\<close> and \<open>b64::deserialize\<close>.\<close>

definition b64_serialize :: "web_libs \<Rightarrow> bytes \<Rightarrow> json" where
  "b64_serialize W bs = JString (b64_encode W bs)"

definition b64_deserialize :: "web_libs \<Rightarrow> json \<Rightarrow> bytes option" where
  "b64_deserialize W v = Option.bind (as_str v) (b64_decode W)"

definition push_envelope_json :: "web_libs \<Rightarrow> push_envelope \<Rightarrow> json" where
  "push_envelope_json W e = JObject
     [(ustr ''payload'', b64_serialize W (pe_payload e)), (ustr ''ttl_seconds'', json_int (pe_ttl e))]"

definition push_envelope_of :: "web_libs \<Rightarrow> json \<Rightarrow> push_envelope option" where
  "push_envelope_of W v =
     (case struct_fields [ustr ''payload'', ustr ''ttl_seconds''] v of
        Some [Some p, Some t] \<Rightarrow>
          Option.bind (b64_deserialize W p) (\<lambda>payload.
          Option.bind (i64_of t) (\<lambda>ttl. Some \<lparr>pe_payload = payload, pe_ttl = ttl\<rparr>))
      | _ \<Rightarrow> None)"

text \<open>An identifier is its hyphenated text (\<open>serde(transparent)\<close>).\<close>

definition envelope_id_json :: "libs \<Rightarrow> envelope_id \<Rightarrow> json" where
  "envelope_id_json L i = JString (ustr (uuid_to_string L i))"

definition envelope_id_of :: "libs \<Rightarrow> json \<Rightarrow> envelope_id option" where
  "envelope_id_of L v = Option.bind (as_str v) (\<lambda>s. case uuid_parse L s of Inl _ \<Rightarrow> None | Inr i \<Rightarrow> Some i)"

definition envelope_accepted_json :: "libs \<Rightarrow> envelope_id \<Rightarrow> json" where
  "envelope_accepted_json L i = JObject [(ustr ''envelope_id'', envelope_id_json L i)]"

definition envelope_accepted_of :: "libs \<Rightarrow> json \<Rightarrow> envelope_id option" where
  "envelope_accepted_of L v =
     (case struct_fields [ustr ''envelope_id''] v of Some [Some i] \<Rightarrow> envelope_id_of L i | _ \<Rightarrow> None)"

definition stored_envelope_json :: "libs \<Rightarrow> web_libs \<Rightarrow> stored_envelope \<Rightarrow> json" where
  "stored_envelope_json L W e = JObject
     [(ustr ''envelope_id'', envelope_id_json L (se_id e)),
      (ustr ''payload'', b64_serialize W (se_payload e)),
      (ustr ''received_at'', JString (time_print W (se_received_at e))),
      (ustr ''expires_at'', JString (time_print W (se_expires_at e)))]"

definition stored_envelope_of :: "libs \<Rightarrow> web_libs \<Rightarrow> json \<Rightarrow> stored_envelope option" where
  "stored_envelope_of L W v =
     (case struct_fields [ustr ''envelope_id'', ustr ''payload'', ustr ''received_at'', ustr ''expires_at''] v of
        Some [Some i, Some p, Some r, Some x] \<Rightarrow>
          Option.bind (envelope_id_of L i) (\<lambda>i.
          Option.bind (b64_deserialize W p) (\<lambda>p.
          Option.bind (Option.bind (as_str r) (time_parse W)) (\<lambda>r.
          Option.bind (Option.bind (as_str x) (time_parse W)) (\<lambda>x.
            Some \<lparr>se_id = i, se_payload = p, se_received_at = r, se_expires_at = x\<rparr>))))
      | _ \<Rightarrow> None)"

definition pull_response_json :: "libs \<Rightarrow> web_libs \<Rightarrow> stored_envelope list \<Rightarrow> json" where
  "pull_response_json L W es = JObject [(ustr ''envelopes'', JArray (map (stored_envelope_json L W) es))]"

definition pull_response_of :: "libs \<Rightarrow> web_libs \<Rightarrow> json \<Rightarrow> stored_envelope list option" where
  "pull_response_of L W v =
     (case struct_fields [ustr ''envelopes''] v of
        Some [Some a] \<Rightarrow> Option.bind (as_array a) (\<lambda>vs. those (map (stored_envelope_of L W) vs))
      | _ \<Rightarrow> None)"

definition ack_accepted_json :: "bool \<Rightarrow> json" where
  "ack_accepted_json b = JObject [(ustr ''acknowledged'', JBool b)]"

text \<open>The body of a request to trust a peer; the note may be absent or null.\<close>

definition option_string_of :: "json option \<Rightarrow> ustring option option" where
  "option_string_of v = (case v of
       None \<Rightarrow> Some None
     | Some JNull \<Rightarrow> Some None
     | Some (JString s) \<Rightarrow> Some (Some s)
     | Some _ \<Rightarrow> None)"

definition trust_request_of :: "json \<Rightarrow> (ustring \<times> ustring option) option" where
  "trust_request_of v =
     (case struct_fields [ustr ''ca_fingerprint'', ustr ''note''] v of
        Some [Some f, n] \<Rightarrow>
          Option.bind (as_str f) (\<lambda>fp. Option.bind (option_string_of n) (\<lambda>note. Some (fp, note)))
      | _ \<Rightarrow> None)"

section \<open>Round trips\<close>

lemma struct_fields_canon:
  assumes "json_ok (JObject kvs)"
  shows "struct_fields names (canon (JObject kvs)) = Some (map (map_option canon \<circ> map_of kvs) names)"
proof -
  obtain kvs' where "canon (JObject kvs) = JObject kvs'" by simp
  then show ?thesis using json_get_canon [OF assms] by (auto simp: comp_def)
qed

lemma i64_of_json_int: "I64_MIN \<le> i \<Longrightarrow> i \<le> I64_MAX \<Longrightarrow> i64_of (json_int i) = Some i"
proof -
  assume "I64_MIN \<le> i" "i \<le> I64_MAX"
  moreover have "uint (word_of_int i :: u64) = i" if "0 \<le> i" "i \<le> I64_MAX"
    using that by (simp add: uint_word_of_int I64_MAX_def)
  ultimately show ?thesis by (simp add: json_int_def)
qed

lemma json_int_ok: "I64_MIN \<le> i \<Longrightarrow> json_ok (json_int i)"
  by (simp add: json_int_def)

lemma canon_json_int [simp]: "canon (json_int i) = json_int i"
  by (simp add: json_int_def)


lemma push_envelope_roundtrip:
  assumes "web_laws W" "I64_MIN \<le> pe_ttl e" "pe_ttl e \<le> I64_MAX"
  shows "json_ok (push_envelope_json W e) \<and> push_envelope_of W (canon (push_envelope_json W e)) = Some e"
proof -
  have ok: "json_ok (push_envelope_json W e)"
    using assms by (simp add: push_envelope_json_def b64_serialize_def json_int_ok web_lawsD)
  then show ?thesis using assms
    by (simp add: push_envelope_of_def push_envelope_json_def struct_fields_canon b64_serialize_def
        b64_deserialize_def web_lawsD i64_of_json_int del: canon.simps(6))
qed

lemma envelope_id_roundtrip [simp]:
  "uuid_laws L \<Longrightarrow> envelope_id_of L (canon (envelope_id_json L i)) = Some i" "json_ok (envelope_id_json L i)"
  by (simp_all add: envelope_id_of_def envelope_id_json_def)

lemma envelope_accepted_roundtrip:
  assumes "uuid_laws L"
  shows "json_ok (envelope_accepted_json L i) \<and> envelope_accepted_of L (canon (envelope_accepted_json L i)) = Some i"
  using assms by (simp add: envelope_accepted_of_def envelope_accepted_json_def struct_fields_canon del: canon.simps(6))

definition times_ok :: "stored_envelope \<Rightarrow> bool" where
  "times_ok e \<longleftrightarrow> 0 \<le> se_received_at e \<and> se_received_at e \<le> LAST_MS \<and> 0 \<le> se_expires_at e \<and> se_expires_at e \<le> LAST_MS"

lemma stored_envelope_roundtrip:
  assumes "uuid_laws L" "web_laws W" "times_ok e"
  shows "json_ok (stored_envelope_json L W e) \<and> stored_envelope_of L W (canon (stored_envelope_json L W e)) = Some e"
proof -
  have ok: "json_ok (stored_envelope_json L W e)"
    using assms by (simp add: stored_envelope_json_def b64_serialize_def times_ok_def web_lawsD)
  then show ?thesis using assms
    by (simp add: stored_envelope_of_def stored_envelope_json_def struct_fields_canon b64_serialize_def
        b64_deserialize_def web_lawsD times_ok_def del: canon.simps(6))
qed

lemma pull_response_roundtrip:
  assumes "uuid_laws L" "web_laws W" "list_all times_ok es"
  shows "json_ok (pull_response_json L W es) \<and> pull_response_of L W (canon (pull_response_json L W es)) = Some es"
proof -
  have ok: "json_ok (pull_response_json L W es)"
    using assms(3) by (simp add: pull_response_json_def)
      (auto simp: list_all_iff stored_envelope_roundtrip [OF assms(1,2)])
  have "those (map (stored_envelope_of L W) (map canon (map (stored_envelope_json L W) es))) = Some es"
    using assms(3) by (induction es) (simp_all add: stored_envelope_roundtrip [OF assms(1,2)])
  then show ?thesis using ok
    by (simp add: pull_response_of_def pull_response_json_def struct_fields_canon del: canon.simps(6) map_map)
qed

end
