(* ===== verification/Http.thy ===== *)
theory Http
  imports Json
begin

text \<open>
  HTTP/1.1 messages as the programs write and read them by hand, the matching of routes,
  and what a client may expect of a server built with \<open>hyper\<close> and \<open>axum\<close>.

  Bytes go to a server and come back through an argument \<open>net\<close>. \<open>http_serves\<close> states the
  documented behaviour of the server library: a well-formed request is handed to the
  application, and the answer is a well-formed response with the application's status and
  body. Route matching and the decoding of query strings are the record \<open>axum\<close>.
\<close>

section \<open>Messages\<close>

text \<open>A method, a target, the header lines and the body.\<close>

definition header_block :: "ustring list \<Rightarrow> ustring" where
  "header_block hs = concat (map (\<lambda>h. h @ CRLF) hs) @ CRLF"

definition http_request_text :: "ustring \<Rightarrow> ustring \<Rightarrow> ustring list \<Rightarrow> ustring \<Rightarrow> ustring" where
  "http_request_text meth target hs body =
     meth @ ustr '' '' @ target @ ustr '' HTTP/1.1'' @ CRLF @ header_block hs @ body"

definition content_length :: "nat \<Rightarrow> ustring" where
  "content_length n = ustr ''Content-Length: '' @ ustr (show_nat n)"

definition CONTENT_JSON :: ustring where "CONTENT_JSON = ustr ''Content-Type: application/json''"
definition CONNECTION_CLOSE :: ustring where "CONNECTION_CLOSE = ustr ''Connection: close''"

definition line_ok :: "ustring \<Rightarrow> bool" where
  "line_ok l \<longleftrightarrow> l \<noteq> [] \<and> text_ok l \<and> 13 \<notin> set l \<and> 10 \<notin> set l"

definition target_ok :: "ustring \<Rightarrow> bool" where
  "target_ok t \<longleftrightarrow> t \<noteq> [] \<and> hd t = 47 \<and> list_all (\<lambda>c. 33 \<le> c \<and> c \<le> 126) t"

text \<open>Requests a server understands: the body is announced and is JSON, and the connection ends with the answer.\<close>

definition request_ok :: "ustring \<Rightarrow> ustring \<Rightarrow> ustring list \<Rightarrow> ustring \<Rightarrow> bool" where
  "request_ok meth target hs body \<longleftrightarrow>
     meth \<in> {ustr ''GET'', ustr ''POST'', ustr ''PUT'', ustr ''DELETE''}
   \<and> target_ok target
   \<and> list_all line_ok hs \<and> CONNECTION_CLOSE \<in> set hs \<and> (\<exists>host. ustr ''Host: '' @ host \<in> set hs)
   \<and> (\<forall>n. content_length n \<in> set hs \<longrightarrow> n = length (utf8 body))
   \<and> (body \<noteq> [] \<longrightarrow> content_length (length (utf8 body)) \<in> set hs \<and> CONTENT_JSON \<in> set hs)
   \<and> text_ok body"

definition status_line :: "nat \<Rightarrow> ustring \<Rightarrow> ustring" where
  "status_line n reason = ustr ''HTTP/1.1 '' @ ustr (show_nat n) @ ustr '' '' @ reason"

definition http_response :: "nat \<Rightarrow> bytes \<Rightarrow> bytes \<Rightarrow> bool" where
  "http_response n body resp \<longleftrightarrow> n < 1000 \<and>
     (\<exists>reason hs. line_ok reason \<and> list_all line_ok hs \<and> \<not> is_whitespace (hd reason) \<and> \<not> is_whitespace (last reason)
        \<and> resp = utf8 (status_line n reason @ CRLF @ header_block hs) @ body)"

text \<open>The application is a relation between a request, the states before and after, the status and the body.\<close>

type_synonym 'w http_app = "ustring \<Rightarrow> ustring \<Rightarrow> ustring \<Rightarrow> 'w \<Rightarrow> 'w \<Rightarrow> nat \<Rightarrow> ustring \<Rightarrow> bool"

definition http_serves :: "'w http_app \<Rightarrow> (bytes \<Rightarrow> 'w \<Rightarrow> 'w \<times> bytes option) \<Rightarrow> bool" where
  "http_serves app net \<longleftrightarrow> (\<forall>meth target hs body w. request_ok meth target hs body \<longrightarrow>
     (\<exists>w' n reply resp. net (utf8 (http_request_text meth target hs body)) w = (w', Some resp)
        \<and> app meth target body w w' n reply \<and> text_ok reply \<and> http_response n (utf8 reply) resp))"

section \<open>Reading a response\<close>

text \<open>The blank line ends the header.\<close>

definition response_body :: "ustring \<Rightarrow> ustring" where
  "response_body resp = (case split_once (CRLF @ CRLF) resp of None \<Rightarrow> [] | Some (_, b) \<Rightarrow> b)"

text \<open>\<open>lines().next()?.split_whitespace().nth(1)?.parse().ok()?\<close>.\<close>

definition status_of_line :: "ustring \<Rightarrow> nat option" where
  "status_of_line l = (case split_whitespace l of _ # w # _ \<Rightarrow> parse_u16 w | _ \<Rightarrow> None)"

lemma split_once_skip:
  assumes "pat \<noteq> []" "hd pat \<notin> set w"
  shows "split_once pat (w @ r) = map_option (map_prod ((@) w) id) (split_once pat r)"
  using assms(2)
proof (induction w)
  case Nil
  show ?case by (cases "split_once pat r") (simp_all add: map_prod_def split_def)
next
  case (Cons x w)
  then have "take (length pat) ((x # w) @ r) \<noteq> pat" using assms(1) by (cases pat) auto
  with Cons show ?case by (simp add: option.map_comp comp_def prod.map_comp)
qed

lemma split_once_line:
  "c \<noteq> 13 \<Longrightarrow> split_once (CRLF @ CRLF) (13 # 10 # c # r)
     = map_option (map_prod (\<lambda>t. 13 # 10 # t) id) (split_once (CRLF @ CRLF) (c # r))"
  by (simp add: option.map_comp comp_def prod.map_comp)

lemma split_once_head:
  assumes "13 \<notin> set l" "list_all line_ok hs"
  shows "map_option snd (split_once (CRLF @ CRLF) (l @ CRLF @ header_block hs @ body)) = Some body"
  using assms
proof (induction hs arbitrary: l)
  case Nil
  then show ?case using split_once_skip [of "CRLF @ CRLF" l] by (simp add: header_block_def)
next
  case (Cons h hs)
  then obtain c h' where h: "13 \<notin> set h" "h = c # h'" "c \<noteq> 13" by (cases h) (auto simp: line_ok_def)
  have eq: "l @ CRLF @ header_block (h # hs) @ body = l @ 13 # 10 # c # h' @ CRLF @ header_block hs @ body"
    by (simp add: header_block_def h(2))
  have IH: "map_option snd (split_once (CRLF @ CRLF) (h @ CRLF @ header_block hs @ body)) = Some body"
    using Cons h(1) by simp
  have m: "map_option snd (map_option (map_prod f id) x) = map_option snd x" for f and x :: "(ustring \<times> ustring) option"
    by (cases x) simp_all
  have ne: "CRLF @ CRLF \<noteq> []" and hd: "hd (CRLF @ CRLF) \<notin> set l" using Cons.prems(1) by simp_all
  have "map_option snd (split_once (CRLF @ CRLF) (l @ 13 # 10 # c # r))
      = map_option snd (split_once (CRLF @ CRLF) (c # r))" for r
    unfolding split_once_skip [OF ne hd] split_once_line [OF h(3)] m ..
  then show ?case unfolding eq using IH unfolding h(2) append_Cons by (rule trans)
qed

lemma response_text:
  assumes "http_response n (utf8 reply) resp" "text_ok reply"
  obtains reason hs where "from_utf8_lossy resp = status_line n reason @ CRLF @ header_block hs @ reply" "n < 1000"
    "line_ok reason" "list_all line_ok hs" "\<not> is_whitespace (hd reason)" "\<not> is_whitespace (last reason)"
proof -
  from assms(1) obtain reason hs where r: "n < 1000" "line_ok reason" "list_all line_ok hs" "\<not> is_whitespace (hd reason)"
      "\<not> is_whitespace (last reason)" and resp: "resp = utf8 (status_line n reason @ CRLF @ header_block hs) @ utf8 reply"
    unfolding http_response_def by blast
  have "text_ok (header_block hs)" using r(3) by (auto simp: header_block_def line_ok_def list_all_iff is_scalar_def)
  moreover have "text_ok (status_line n reason)" using r(2) by (simp add: status_line_def line_ok_def)
  moreover have "text_ok CRLF" by (simp add: is_scalar_def)
  ultimately have "text_ok (status_line n reason @ CRLF @ header_block hs @ reply)" using assms(2) by simp
  then have "from_utf8_lossy resp = status_line n reason @ CRLF @ header_block hs @ reply"
    unfolding resp utf8_append [symmetric] append_assoc by (rule lossy_utf8)
  with r that show ?thesis by blast
qed

lemma digits_plain: "list_all is_digit ds \<Longrightarrow> list_all (\<lambda>c. \<not> is_whitespace c) ds" "list_all is_digit ds \<Longrightarrow> 13 \<notin> set ds \<and> 10 \<notin> set ds"
  by (auto simp: list_all_iff is_digit_def is_whitespace_def)

lemma status_line_word:
  assumes "n < 1000"
  shows "split_whitespace (status_line n reason) = ustr ''HTTP/1.1'' # ustr (show_nat n) # split_whitespace reason"
proof -
  have "split_by is_whitespace (ustr ''HTTP/1.1'' @ 32 # ustr (show_nat n) @ 32 # reason)
      = ustr ''HTTP/1.1'' # ustr (show_nat n) # split_by is_whitespace reason"
    using show_nat_digits [of n] digits_plain(1)
    by (simp add: split_by_word [of is_whitespace] is_whitespace_def ustr_def [of "''HTTP/1.1''"])
  moreover have "status_line n reason = ustr ''HTTP/1.1'' @ 32 # ustr (show_nat n) @ 32 # reason"
    by (simp add: status_line_def ustr_def)
  ultimately show ?thesis using show_nat_digits [of n]
    by (simp add: split_whitespace_def) (simp add: ustr_def)
qed

lemma status_line_chars:
  assumes "n < 1000" "line_ok reason"
  shows "13 \<notin> set (status_line n reason)" "10 \<notin> set (status_line n reason)"
proof -
  have "13 \<notin> set (ustr (show_nat n)) \<and> 10 \<notin> set (ustr (show_nat n))"
    by (rule digits_plain(2)) (simp add: show_nat_digits)
  moreover have "13 \<notin> set (ustr ''HTTP/1.1 '')" "10 \<notin> set (ustr ''HTTP/1.1 '')" "13 \<notin> set (ustr '' '')" "10 \<notin> set (ustr '' '')"
    by (simp_all add: ustr_def)
  ultimately show "13 \<notin> set (status_line n reason)" "10 \<notin> set (status_line n reason)"
    using assms by (auto simp: status_line_def line_ok_def)
qed

text \<open>What each way of reading gets from a well-formed response.\<close>

lemma response_read:
  assumes "http_response n (utf8 reply) resp" "text_ok reply"
  shows "response_body (from_utf8_lossy resp) = reply"
    "\<exists>reason rest. lines_of (from_utf8_lossy resp) = status_line n reason # rest
       \<and> status_of_line (status_line n reason) = Some n \<and> trim (status_line n reason) = status_line n reason"
    "\<exists>rest. split_whitespace (from_utf8_lossy resp) = ustr ''HTTP/1.1'' # ustr (show_nat n) # rest \<and> parse_u16 (ustr (show_nat n)) = Some n"
proof -
  from response_text [OF assms] obtain reason hs where
    r: "from_utf8_lossy resp = status_line n reason @ CRLF @ header_block hs @ reply" "n < 1000"
      "line_ok reason" "list_all line_ok hs" "\<not> is_whitespace (hd reason)" "\<not> is_whitespace (last reason)" by blast
  have p: "parse_u16 (ustr (show_nat n)) = Some n" using r(2) by (intro parse_show_u16) simp
  show "response_body (from_utf8_lossy resp) = reply"
    using split_once_head [OF status_line_chars(1) [OF r(2,3)] r(4), of reply]
    by (auto simp: r(1) response_body_def split: option.splits)
  have "status_of_line (status_line n reason) = Some n"
    by (simp add: status_of_line_def status_line_word [OF r(2)] p)
  moreover have "reason \<noteq> []" using r(3) by (simp add: line_ok_def)
  then have "trim (status_line n reason) = status_line n reason"
    unfolding trim_trim_matches using r(6)
    by (intro trim_matches_id) (simp add: status_line_def ustr_def is_whitespace_def)
  ultimately show "\<exists>reason rest. lines_of (from_utf8_lossy resp) = status_line n reason # rest
       \<and> status_of_line (status_line n reason) = Some n \<and> trim (status_line n reason) = status_line n reason"
    using lines_of_crlf [OF status_line_chars(2) [OF r(2,3)]] r(1) by auto
  have "\<exists>rest. split_whitespace (status_line n (reason @ x)) = ustr ''HTTP/1.1'' # ustr (show_nat n) # rest" for x
    by (simp add: status_line_word [OF r(2)])
  then show "\<exists>rest. split_whitespace (from_utf8_lossy resp) = ustr ''HTTP/1.1'' # ustr (show_nat n) # rest \<and> parse_u16 (ustr (show_nat n)) = Some n"
    using p by (simp add: r(1) status_line_def)
qed

section \<open>Requests that are understood\<close>

definition host_ok :: "ustring \<Rightarrow> bool" where
  "host_ok addr \<longleftrightarrow> text_ok addr \<and> 13 \<notin> set addr \<and> 10 \<notin> set addr"

lemma content_length_inject [simp]: "content_length m = content_length n \<longleftrightarrow> m = n"
  unfolding content_length_def same_append_eq by (metis show_nat_digits)

lemma header_distinct:
  "content_length n \<noteq> ustr ''Host: '' @ host" "content_length n \<noteq> CONNECTION_CLOSE" "content_length n \<noteq> CONTENT_JSON"
  by (simp_all add: content_length_def CONNECTION_CLOSE_def CONTENT_JSON_def ustr_def)

lemma fixed_lines [simp]: "line_ok CONNECTION_CLOSE" "line_ok CONTENT_JSON" "host_ok addr \<Longrightarrow> line_ok (ustr ''Host: '' @ addr)"
  by (auto simp: line_ok_def CONNECTION_CLOSE_def CONTENT_JSON_def host_ok_def ustr_def is_scalar_def)

lemma content_length_line [simp]: "line_ok (content_length n)"
proof -
  have "13 \<notin> set (ustr (show_nat n)) \<and> 10 \<notin> set (ustr (show_nat n))"
    by (rule digits_plain(2)) (simp add: show_nat_digits)
  moreover have "13 \<notin> set (ustr ''Content-Length: '')" "10 \<notin> set (ustr ''Content-Length: '')" "ustr ''Content-Length: '' \<noteq> []"
    by (simp_all add: ustr_def)
  ultimately show ?thesis by (simp add: line_ok_def content_length_def)
qed

lemma request_okI:
  assumes "host_ok host" "meth \<in> {ustr ''GET'', ustr ''POST'', ustr ''PUT'', ustr ''DELETE''}" "target_ok target" "text_ok body"
    and hs: "set hs \<subseteq> {ustr ''Host: '' @ host, CONNECTION_CLOSE, CONTENT_JSON, content_length (length (utf8 body))}"
      "ustr ''Host: '' @ host \<in> set hs" "CONNECTION_CLOSE \<in> set hs"
    and "body \<noteq> [] \<Longrightarrow> {CONTENT_JSON, content_length (length (utf8 body))} \<subseteq> set hs"
  shows "request_ok meth target hs body"
proof -
  have "line_ok h" if "h \<in> set hs" for h using that hs(1) assms(1) by auto
  then have "list_all line_ok hs" by (simp add: list_all_iff)
  moreover have "n = length (utf8 body)" if "content_length n \<in> set hs" for n
    using that hs(1) header_distinct by auto
  ultimately show ?thesis using assms unfolding request_ok_def by blast
qed

end
