(* ===== verification/Long_Poll.thy ===== *)
theory Long_Poll
  imports Node_Api
begin

text \<open>
  Runs of the long-polling pull handler interleaved with the statements of other requests:
  what an answer says about the queue, that an arrival during the wait is never missed, and
  the invariants behind both, by induction on the trace of events.
\<close>

section \<open>The steps of other requests\<close>

text \<open>The adapter with the first part of its push alone keeps the contract of the port.\<close>

interpretation turso_parts: mailbox_repo "turso_env L E view" "(turso_repo L E)\<lparr>mb_push := turso_insert L E\<rparr>"
    "turso_inv L view" "turso_mails L view" "turso_receipts L view" for L E view
  by (unfold_locales, unfold turso_repo_def mailbox_port.simps)
    (rule turso_inv_mails turso_insert_law turso_pull_law turso_ack_law turso_expire_law; assumption)+

lemma insert_ctx_fields [simp]:
  "ctx_mailbox (insert_ctx L E ctx) = (turso_repo L E)\<lparr>mb_push := turso_insert L E\<rparr>"
  "ctx_config (insert_ctx L E ctx) = ctx_config ctx"
  by (simp_all add: insert_ctx_def)

lemmas insert_cases = turso_parts.mailbox_push_cases [OF _ _ insert_ctx_fields(1), unfolded insert_ctx_fields(2)]

text \<open>An operation that nothing interrupts is its steps one after the other.\<close>

lemma relay_exec_steps:
  assumes "ctx_mailbox ctx = turso_repo L E"
  shows "\<exists>ops. relay_exec ctx op s = fold (mail_exec L E ctx) ops s"
proof (cases op)
  case (OpPush mo q req)
  obtain s1 r where ins: "mailbox_push (insert_ctx L E ctx) mo q req s = (s1, r)" by force
  have "relay_exec ctx op s = fold (mail_exec L E ctx) (Insert mo q req # (if is_ok r then [Notify q] else [])) s"
    using ins assms OpPush
    by (cases r) (auto simp: mailbox_push_def turso_repo_def turso_push_def Let_def split: if_splits)
  then show ?thesis by blast
next
  case (OpAck mo q i)
  obtain s1 r where mark: "turso_mark L E q i (now_ms mo) s = (s1, r)" by force
  have "relay_exec ctx op s = fold (mail_exec L E ctx)
      (Mark q i (now_ms mo) # (case r of Inr (Suc n) \<Rightarrow> [Receipt q i (now_ms mo)] | _ \<Rightarrow> [])) s"
    using mark assms OpAck
    by (auto simp: mailbox_ack_def turso_repo_def turso_ack_def then_do_def split: sum.splits nat.splits)
  then show ?thesis by blast
next
  case (OpSweep mo)
  then have "relay_exec ctx op s = fold (mail_exec L E ctx) [Delete (now_ms mo)] s"
    using assms by (simp add: mailbox_sweep_def turso_repo_def)
  then show ?thesis by blast
qed

text \<open>Steps that take an envelope with this expiry out of the queue.\<close>

fun step_removes :: "queue_id \<Rightarrow> envelope_id \<Rightarrow> int \<Rightarrow> mail_step \<Rightarrow> bool" where
  "step_removes q i t (Mark q' i' _) = (q' = q \<and> i' = i)"
| "step_removes q i t (Delete now) = (t \<le> now)"
| "step_removes q i t _ = False"

lemma mail_exec_inv:
  assumes "turso_env L E view" "turso_inv L view s"
  shows "turso_inv L view (mail_exec L E ctx op s)"
proof (cases op)
  case (Insert mo q req)
  then show ?thesis using insert_cases [OF assms, of ctx mo q req]
    by (cases "mailbox_push (insert_ctx L E ctx) mo q req s") simp
next
  case (Mark q i t)
  then show ?thesis using turso_mark_law [OF assms] by (cases "turso_mark L E q i t s") simp
next
  case (Receipt q i t)
  then show ?thesis using turso_receipt_law [OF assms] by (cases "turso_receipt L E q i t s") simp
next
  case (Delete t)
  then show ?thesis using turso_expire_law [OF assms] by (cases "turso_expire E t s") simp
qed (use assms in simp)

lemma mail_exec_keeps:
  assumes "turso_env L E view" "turso_inv L view s"
    and m: "m \<in> set (turso_mails L view s)" "pending q i m"
    and op: "\<not> step_removes q i (se_expires_at (mail_envelope m)) op"
  shows "m \<in> set (turso_mails L view (mail_exec L E ctx op s))"
proof (cases op)
  case (Insert mo q' req)
  then show ?thesis using insert_cases [OF assms(1,2), of ctx mo q' req] m
    by (cases "mailbox_push (insert_ctx L E ctx) mo q' req s") (auto split: sum.splits)
next
  case (Mark q' i' t)
  with op m have "\<not> pending q' i' m" by (auto simp: pending_def)
  with m(1) have "m \<in> set (deliver q' i' t (turso_mails L view s))" by (force simp: deliver_def)
  then show ?thesis using Mark m turso_mark_law [OF assms(1,2)]
    by (cases "turso_mark L E q' i' t s") (force split: sum.splits)
next
  case (Receipt q' i' t)
  then show ?thesis using turso_receipt_law [OF assms(1,2)] m by (cases "turso_receipt L E q' i' t s") simp
next
  case (Delete t)
  then show ?thesis using turso_expire_law [OF assms(1,2)] m op
    by (cases "turso_expire E t s") (force simp: unexpired_def split: sum.splits)
qed (use m in simp)

section \<open>Counting wake-ups\<close>

definition wakeups :: "queue_id \<Rightarrow> 'db turso \<Rightarrow> nat" where
  "wakeups q s = snd (notifier q s)"

lemma wakeups_notify: "wakeups q (notify_waiters q' s) = wakeups q s + (if q = q' then 1 else 0)"
  by (auto simp: wakeups_def notify_waiters_def notifier_def split: option.splits)

lemma wakeups_notifier [simp]: "wakeups q (fst (notifier q' s)) = wakeups q s"
  by (auto simp: wakeups_def notifier_def split: option.splits)

lemma turso_execute_wakeups: "turso_execute E st s = (s', r) \<Longrightarrow> wakeups q s' = wakeups q s"
  by (auto simp: turso_execute_def wakeups_def notifier_def split: prod.splits option.splits)

lemma turso_insert_wakeups: "turso_insert L E mo q e s = (s', r) \<Longrightarrow> wakeups q' s' = wakeups q' s"
  unfolding turso_insert_def Let_def by (auto elim!: then_do_cases dest: turso_execute_wakeups)

lemma turso_statement_wakeups:
  "turso_mark L E q i t s = (s', r) \<Longrightarrow> wakeups q' s' = wakeups q' s"
  "turso_receipt L E q i t s = (s', r) \<Longrightarrow> wakeups q' s' = wakeups q' s"
  "turso_expire E t s = (s', r) \<Longrightarrow> wakeups q' s' = wakeups q' s"
  unfolding turso_mark_def turso_receipt_def turso_expire_def
  by (auto elim!: then_do_cases dest: turso_execute_wakeups)

lemma insert_wakeups: "mailbox_push (insert_ctx L E ctx) mo q req s = (s', r) \<Longrightarrow> wakeups q' s' = wakeups q' s"
  by (auto simp: mailbox_push_def turso_repo_def Let_def dest: turso_insert_wakeups split: if_splits)

lemma mail_exec_wakeups: "wakeups q s \<le> wakeups q (mail_exec L E ctx op s)"
proof (cases op)
  case (Insert mo q' req)
  then show ?thesis using insert_wakeups [of L E ctx mo q' req s]
    by (cases "mailbox_push (insert_ctx L E ctx) mo q' req s") simp
next
  case (Mark q' i t)
  then show ?thesis using turso_statement_wakeups(1) [of L E q' i t s] by (cases "turso_mark L E q' i t s") simp
next
  case (Receipt q' i t)
  then show ?thesis using turso_statement_wakeups(2) [of L E q' i t s] by (cases "turso_receipt L E q' i t s") simp
next
  case (Delete t)
  then show ?thesis using turso_statement_wakeups(3) [of E t s] by (cases "turso_expire E t s") simp
qed (simp add: wakeups_notify)

lemma notified_iff: "turso_notified q ticket s \<longleftrightarrow> wakeups q s \<noteq> ticket"
  by (simp add: turso_notified_def wakeups_def)

section \<open>Traces\<close>

lemma poll_trace_trans:
  assumes "poll_trace L E st params q c evs c'" "poll_trace L E st params q c' evs' c''"
  shows "poll_trace L E st params q c (evs @ evs') c''"
  using assms(2,1)
proof (induction rule: poll_trace.induct)
  case (extend c' evs' d ev d')
  from poll_trace.extend [OF extend(3) [OF extend(4)] extend(2)] show ?case by simp
qed simp

lemma poll_trace_Cons:
  "poll_step L E st params q c ev c' \<Longrightarrow> poll_trace L E st params q c' evs c'' \<Longrightarrow> poll_trace L E st params q c (ev # evs) c''"
  using poll_trace_trans [OF poll_trace.extend [OF poll_trace.start]] by fastforce

lemma poll_subscribe_eq:
  "poll_subscribe dur mo q s = (PollWaiting (wakeups q s) (now_ms mo + 1000 * int dur), fst (notifier q s))"
  by (simp add: poll_subscribe_def turso_subscribe_def wakeups_def split: prod.split)

text \<open>What a trace keeps: the invariant of the store, envelopes nobody removes, and that a
  waiting handler holds a count the notifier has reached.\<close>

lemma poll_step_store:
  assumes "poll_step L E st params q c ev c'"
  shows "turso_mails L view (snd c') = turso_mails L view (snd c) \<and> turso_inv L view (snd c') = turso_inv L view (snd c)
    \<or> (\<exists>op. ev = Other op \<and> snd c' = mail_exec L E (app_ctx st) op (snd c))"
  using assms
proof (cases rule: poll_step.cases)
  case (subscribe dur s mo)
  then show ?thesis by (simp add: poll_subscribe_eq turso_mails_def turso_inv_def)
qed auto

lemma poll_step_inv:
  "poll_step L E st params q c ev c' \<Longrightarrow> turso_env L E view \<Longrightarrow> turso_inv L view (snd c) \<Longrightarrow> turso_inv L view (snd c')"
  using poll_step_store [of L E st params q c ev c' view] mail_exec_inv by fastforce

lemma poll_trace_inv:
  "poll_trace L E st params q c evs c' \<Longrightarrow> turso_env L E view \<Longrightarrow> turso_inv L view (snd c) \<Longrightarrow> turso_inv L view (snd c')"
  by (induction rule: poll_trace.induct) (auto intro: poll_step_inv)

lemma poll_trace_keeps:
  assumes "poll_trace L E st params q' c evs c'" "turso_env L E view" "turso_inv L view (snd c)"
    and "m \<in> set (turso_mails L view (snd c))" "pending q i m"
    and "\<forall>op. Other op \<in> set evs \<longrightarrow> \<not> step_removes q i (se_expires_at (mail_envelope m)) op"
  shows "m \<in> set (turso_mails L view (snd c'))"
  using assms(1,3-6)
proof (induction rule: poll_trace.induct)
  case (extend c evs d ev d')
  have d: "turso_inv L view (snd d)" by (rule poll_trace_inv [OF extend.hyps(1) assms(2) extend.prems(1)])
  have m: "m \<in> set (turso_mails L view (snd d))" using extend by simp
  have op: "\<not> step_removes q i (se_expires_at (mail_envelope m)) op" if "ev = Other op" for op
    using extend.prems(4) that by simp
  show ?case using poll_step_store [OF extend.hyps(2), of view] m
    mail_exec_keeps [OF assms(2) d m extend.prems(3) op, of _ "app_ctx st"] by auto
qed simp

definition ticket_ok :: "queue_id \<Rightarrow> phase \<times> 'db turso \<Rightarrow> bool" where
  "ticket_ok q c \<longleftrightarrow> (case fst c of PollWaiting ticket _ \<Rightarrow> ticket \<le> wakeups q (snd c) | _ \<Rightarrow> True)"

lemma poll_step_wakeups:
  assumes "poll_step L E st params q c ev c'"
  shows "wakeups q (snd c) \<le> wakeups q (snd c')"
  using assms
proof (cases rule: poll_step.cases)
  case (subscribe dur s mo)
  then show ?thesis by (simp add: poll_subscribe_eq)
qed (auto simp: mail_exec_wakeups)

lemma ticket_ok_step:
  assumes "poll_step L E st params q c ev c'" "ticket_ok q c"
  shows "ticket_ok q c'"
  using assms(1)
proof (cases rule: poll_step.cases)
  case (subscribe dur s mo)
  then show ?thesis by (simp add: ticket_ok_def poll_subscribe_eq)
next
  case (other ph s op)
  then show ?thesis using assms(2) mail_exec_wakeups [of q s L E "app_ctx st" op]
    by (auto simp: ticket_ok_def split: phase.splits)
qed (auto simp: ticket_ok_def poll_first_def poll_again_def split: option.splits sum.splits)

lemma ticket_ok_trace: "poll_trace L E st params q c evs c' \<Longrightarrow> ticket_ok q c \<Longrightarrow> ticket_ok q c'"
  by (induction rule: poll_trace.induct) (auto intro: ticket_ok_step)

section \<open>What an answer says\<close>

text \<open>The events that query the database.\<close>

fun pulls :: "poll_event \<Rightarrow> moment option" where
  "pulls (First mo) = Some mo"
| "pulls (Again mo) = Some mo"
| "pulls _ = None"

text \<open>The last query of a trace, the state it saw, and the batch it read there.\<close>

definition last_pull ::
  "libs \<Rightarrow> 'db engine \<Rightarrow> ('db \<Rightarrow> tables) \<Rightarrow> 'db turso app_state \<Rightarrow> pull_params \<Rightarrow> queue_id \<Rightarrow> 'db turso \<Rightarrow>
   poll_event list \<Rightarrow> phase \<times> 'db turso \<Rightarrow> poll_event \<Rightarrow> stored_envelope list \<Rightarrow> bool" where
  "last_pull L E view st params q s0 evs c pull es \<longleftrightarrow>
     (\<exists>evs1 evs2 mo ph s1. evs = evs1 @ pull # evs2 \<and> pulls pull = Some mo \<and> (\<forall>ev \<in> set evs2. pulls ev = None)
       \<and> poll_trace L E st params q (PollStart, s0) evs1 (ph, s1) \<and> poll_trace L E st params q (ph, s1) (pull # evs2) c
       \<and> es = take (batch (app_ctx st) (pull_limit st params)) (live_envelopes q (now_ms mo) (turso_mails L view s1)))"

lemma last_pull_extend:
  assumes "last_pull L E view st params q s0 evs c pull es" "poll_step L E st params q c ev c'" "pulls ev = None"
  shows "last_pull L E view st params q s0 (evs @ [ev]) c' pull es"
proof -
  from assms(1) obtain evs1 evs2 mo ph s1 where *: "evs = evs1 @ pull # evs2" "pulls pull = Some mo" "\<forall>ev \<in> set evs2. pulls ev = None"
      "poll_trace L E st params q (PollStart, s0) evs1 (ph, s1)" "poll_trace L E st params q (ph, s1) (pull # evs2) c"
      "es = take (batch (app_ctx st) (pull_limit st params)) (live_envelopes q (now_ms mo) (turso_mails L view s1))"
    unfolding last_pull_def by blast
  have "poll_trace L E st params q (ph, s1) (pull # evs2 @ [ev]) c'"
    using poll_trace.extend [OF *(5) assms(2)] by simp
  with * assms(3) show ?thesis
    unfolding last_pull_def by (intro exI [of _ evs1] exI [of _ "evs2 @ [ev]"] exI [of _ mo] exI [of _ ph] exI [of _ s1]) auto
qed

lemma last_pull_new:
  assumes env: "turso_env L E view" and mb: "ctx_mailbox (app_ctx st) = turso_repo L E" and inv: "turso_inv L view s"
    and run: "poll_trace L E st params q (PollStart, s0) evs (ph, s)" and step: "poll_step L E st params q (ph, s) pull c'"
    and pull: "pulls pull = Some mo" "mailbox_pull (app_ctx st) mo q (pull_limit st params) s = Some (Inr es)"
  shows "last_pull L E view st params q s0 (evs @ [pull]) c' pull es"
proof -
  have "es = take (batch (app_ctx st) (pull_limit st params)) (live_envelopes q (now_ms mo) (turso_mails L view s))"
    using turso.mailbox_pull_ok [OF env inv mb pull(2)] by (simp add: batch_def)
  moreover have "poll_trace L E st params q (ph, s) [pull] c'" using poll_trace.extend [OF poll_trace.start step] by simp
  ultimately show ?thesis unfolding last_pull_def using run pull(1)
    by (intro exI [of _ evs] exI [of _ "[]"] exI [of _ mo] exI [of _ ph] exI [of _ s]) simp
qed

text \<open>
  An empty answer comes from a query after a wake-up, from a client that did not ask to wait,
  or after the whole time it asked for (up to the maximum of the node).
\<close>

definition waited_enough :: "'s app_state \<Rightarrow> pull_params \<Rightarrow> poll_event list \<Rightarrow> bool" where
  "waited_enough st params evs \<longleftrightarrow> (\<exists>w mo1 mo2. pp_wait params = Some w \<and> Subscribe mo1 \<in> set evs \<and> Expire mo2 \<in> set evs
     \<and> now_ms mo1 + 1000 * int (min w (app_max_wait st)) \<le> now_ms mo2)"

definition poll_inv ::
  "libs \<Rightarrow> 'db engine \<Rightarrow> ('db \<Rightarrow> tables) \<Rightarrow> 'db turso app_state \<Rightarrow> pull_params \<Rightarrow> queue_id \<Rightarrow> 'db turso \<Rightarrow>
   poll_event list \<Rightarrow> phase \<times> 'db turso \<Rightarrow> bool" where
  "poll_inv L E view st params q s0 evs c \<longleftrightarrow>
     (case fst c of
        PollEmpty dur \<Rightarrow> \<exists>mo w. last_pull L E view st params q s0 evs c (First mo) []
          \<and> pp_wait params = Some w \<and> dur = min w (app_max_wait st)
      | PollWaiting _ deadline \<Rightarrow> \<exists>mo w mo1. last_pull L E view st params q s0 evs c (First mo) []
          \<and> pp_wait params = Some w \<and> Subscribe mo1 \<in> set evs \<and> deadline = now_ms mo1 + 1000 * int (min w (app_max_wait st))
      | PollDone (Inr es) \<Rightarrow> \<exists>pull. last_pull L E view st params q s0 evs c pull es
          \<and> (es = [] \<longrightarrow> (\<exists>mo. pull = Again mo) \<or> pp_wait params \<in> {None, Some 0} \<or> waited_enough st params evs)
      | _ \<Rightarrow> True)"

lemma waited_enough_append: "waited_enough st params evs \<Longrightarrow> waited_enough st params (evs @ evs')"
  by (auto simp: waited_enough_def)

lemma poll_inv_step:
  assumes env: "turso_env L E view" and mb: "ctx_mailbox (app_ctx st) = turso_repo L E" and inv0: "turso_inv L view s0"
    and inv: "poll_inv L E view st params q s0 evs c" and run: "poll_trace L E st params q (PollStart, s0) evs c"
    and step: "poll_step L E st params q c ev c'"
  shows "poll_inv L E view st params q s0 (evs @ [ev]) c'"
proof -
  have s: "turso_inv L view (snd c)" using poll_trace_inv [OF run env] inv0 by simp
  note extend = last_pull_extend [OF _ step]
  have new: "last_pull L E view st params q s0 (evs @ [ev]) c' ev es"
    if "pulls ev = Some mo" "mailbox_pull (app_ctx st) mo q (pull_limit st params) (snd c) = Some (Inr es)" for mo es
    using last_pull_new [OF env mb s, of params q s0 evs "fst c" ev c'] run step that by simp
  from step show ?thesis
  proof (cases rule: poll_step.cases)
    case (first s mo)
    then show ?thesis using new [of mo]
      by (auto simp: poll_inv_def poll_first_def split: option.splits sum.splits if_splits)
  next
    case (subscribe dur s mo)
    then obtain mo' w where w: "last_pull L E view st params q s0 evs c (First mo') []" "pp_wait params = Some w" "dur = min w (app_max_wait st)"
      using inv by (auto simp: poll_inv_def)
    have "last_pull L E view st params q s0 (evs @ [ev]) c' (First mo') []" using extend [OF w(1)] subscribe(2) by simp
    then show ?thesis using w subscribe(2,3) by (auto simp: poll_inv_def poll_subscribe_eq)
  next
    case (wake ticket s deadline)
    then show ?thesis by (simp add: poll_inv_def)
  next
    case (expired ticket s deadline mo)
    then obtain mo' w mo1 where w: "last_pull L E view st params q s0 evs c (First mo') []" "pp_wait params = Some w"
        "Subscribe mo1 \<in> set evs" "deadline = now_ms mo1 + 1000 * int (min w (app_max_wait st))"
      using inv by (auto simp: poll_inv_def)
    have "last_pull L E view st params q s0 (evs @ [ev]) c' (First mo') []" using extend [OF w(1)] expired(2) by simp
    moreover    have "waited_enough st params (evs @ [ev])" using w expired unfolding waited_enough_def by auto
    ultimately show ?thesis using expired by (auto simp: poll_inv_def)
  next
    case (again s mo)
    then show ?thesis using new [of mo] by (auto simp: poll_inv_def poll_again_def split: option.splits sum.splits)
  next
    case (other ph s op)
    then have ext: "last_pull L E view st params q s0 evs c pull es \<Longrightarrow> last_pull L E view st params q s0 (evs @ [ev]) c' pull es"
      for pull es using extend by simp
    have same: "fst c' = fst c" using other by simp
    have more': "waited_enough st params evs \<Longrightarrow> waited_enough st params (evs @ [ev])" by (rule waited_enough_append)
    show ?thesis
    proof (cases "fst c")
      case (PollEmpty dur)
      then show ?thesis using inv ext unfolding poll_inv_def same by simp blast
    next
      case (PollWaiting t d)
      then show ?thesis using inv ext unfolding poll_inv_def same by simp blast
    next
      case (PollDone r)
      then show ?thesis using inv ext more' unfolding poll_inv_def same by (cases r) (simp, simp, blast)
    qed (simp_all add: poll_inv_def same)
  qed
qed

lemma poll_inv_trace:
  assumes "poll_trace L E st params q (PollStart, s0) evs c" "turso_env L E view"
    "ctx_mailbox (app_ctx st) = turso_repo L E" "turso_inv L view s0"
  shows "poll_inv L E view st params q s0 evs c"
  using assms(1)
proof (induction "(PollStart, s0)" evs c rule: poll_trace.induct)
  case start
  then show ?case by (simp add: poll_inv_def)
next
  case (extend evs c ev c')
  then show ?case using poll_inv_step [OF assms(2-4)] by blast
qed

section \<open>No arrival during the wait is missed\<close>

text \<open>After a wake-up the waiting handler can only notice it and query again.\<close>

definition roused ::
  "libs \<Rightarrow> 'db engine \<Rightarrow> 'db turso app_state \<Rightarrow> pull_params \<Rightarrow> queue_id \<Rightarrow> nat \<Rightarrow> phase \<times> 'db turso \<Rightarrow>
   poll_event list \<Rightarrow> phase \<times> 'db turso \<Rightarrow> bool" where
  "roused L E st params q ticket c0 evs c \<longleftrightarrow>
     ticket < wakeups q (snd c) \<and>
     (case fst c of
        PollWaiting t _ \<Rightarrow> t = ticket
      | PollWoken \<Rightarrow> True
      | PollDone r \<Rightarrow> \<exists>evs3 mo evs4 s4. evs = evs3 @ Again mo # evs4 \<and> poll_trace L E st params q c0 evs3 (PollWoken, s4)
            \<and> mailbox_pull (app_ctx st) mo q (pull_limit st params) s4 = Some r
      | PollPanicked \<Rightarrow> True
      | _ \<Rightarrow> False)"

lemma roused_step:
  assumes r: "roused L E st params q ticket c0 evs c" and run: "poll_trace L E st params q c0 evs c"
    and step: "poll_step L E st params q c ev c'"
  shows "roused L E st params q ticket c0 (evs @ [ev]) c'"
proof -
  have w: "ticket < wakeups q (snd c')" using r poll_step_wakeups [OF step] by (simp add: roused_def)
  from step show ?thesis
  proof (cases rule: poll_step.cases)
    case (again s mo)
    then show ?thesis using r w run by (auto simp: roused_def poll_again_def split: option.splits)
  next
    case (other ph s op)
    have "\<exists>evs4'. evs3 @ Again mo # evs4 @ [ev] = evs3 @ Again mo # evs4'" for evs3 mo evs4 by blast
    with other r w show ?thesis by (fastforce simp: roused_def split: phase.splits)
  qed (use r w in \<open>auto simp: roused_def notified_iff\<close>)
qed

lemma roused_trace:
  "poll_trace L E st params q c0 evs c \<Longrightarrow> roused L E st params q ticket c0 [] c0 \<Longrightarrow> roused L E st params q ticket c0 evs c"
proof (induction c0 evs c rule: poll_trace.induct)
  case (extend c evs d ev d')
  then show ?case using roused_step by blast
qed

end
