(* ===== verification/Http_Routes.thy ===== *)
theory Http_Routes
  imports Http Peer_Trust Long_Poll
begin

text \<open>
  The route tables of \<open>crates/buh-api/src/router.rs\<close> and \<open>admin.rs\<close> with the JSON bodies
  of their handlers: the applications that the HTTP server of \<open>Http\<close> runs.

  Matching a path against a route and reading a query string are the record \<open>axum\<close>;
  \<open>axum_laws\<close> states the documented behaviour on paths of unreserved characters. A request
  whose body the extractor rejects is answered with some status of the 400 range.
\<close>

section \<open>Routes\<close>

datatype segment = Lit string | Param | Wild

record axum =
  ax_match :: "segment list \<Rightarrow> ustring \<Rightarrow> ustring list option"
  ax_query :: "ustring \<Rightarrow> pull_params option"

definition plain_char :: "nat \<Rightarrow> bool" where
  "plain_char c \<longleftrightarrow> is_digit c \<or> 65 \<le> c \<and> c \<le> 90 \<or> 97 \<le> c \<and> c \<le> 122 \<or> c \<in> {45, 46, 58, 95, 126}"

definition seg_ok :: "ustring \<Rightarrow> bool" where
  "seg_ok a \<longleftrightarrow> a \<noteq> [] \<and> list_all plain_char a"

fun fits :: "segment list \<Rightarrow> ustring list \<Rightarrow> bool" where
  "fits [] args = (args = [])"
| "fits (Lit _ # ps) args = fits ps args"
| "fits (Param # ps) [] = False"
| "fits (Param # ps) (a # args) = (seg_ok a \<and> fits ps args)"
| "fits (Wild # ps) [] = False"
| "fits (Wild # ps) (a # args) = (a \<noteq> [] \<and> list_all (\<lambda>c. plain_char c \<or> c = 47) a \<and> ps = [] \<and> args = [])"

fun render :: "segment list \<Rightarrow> ustring list \<Rightarrow> ustring" where
  "render [] args = []"
| "render (Lit s # ps) args = 47 # ustr s @ render ps args"
| "render (Param # ps) args = 47 # (case args of [] \<Rightarrow> [] | a # _ \<Rightarrow> a) @ render ps (tl args)"
| "render (Wild # ps) args = 47 # (case args of [] \<Rightarrow> [] | a # _ \<Rightarrow> a)"

definition pull_query :: "nat \<Rightarrow> nat \<Rightarrow> ustring" where
  "pull_query w l = ustr ''wait='' @ ustr (show_nat w) @ ustr ''&limit='' @ ustr (show_nat l)"

definition axum_laws :: "axum \<Rightarrow> bool" where
  "axum_laws A \<longleftrightarrow>
     (\<forall>pat path args. list_all (\<lambda>c. plain_char c \<or> c = 47) path \<longrightarrow>
        (ax_match A pat path = Some args \<longleftrightarrow> fits pat args \<and> path = render pat args))
   \<and> (\<forall>w l. w < 2 ^ 64 \<and> int l \<le> I64_MAX \<longrightarrow> ax_query A (pull_query w l) = Some \<lparr>pp_limit = Some (int l), pp_wait = Some w\<rparr>)"

type_synonym 'h routes = "(string \<times> segment list \<times> 'h) list"

fun find_route :: "axum \<Rightarrow> 'h routes \<Rightarrow> ustring \<Rightarrow> ustring \<Rightarrow> ('h \<times> ustring list) option" where
  "find_route A [] meth path = None"
| "find_route A ((m, pat, h) # rs) meth path =
     (case (if ustr m = meth then ax_match A pat path else None) of
        Some args \<Rightarrow> Some (h, args)
      | None \<Rightarrow> find_route A rs meth path)"

text \<open>The path and the query of a target.\<close>

definition target_path :: "ustring \<Rightarrow> ustring" where
  "target_path t = takeWhile (\<lambda>c. c \<noteq> 63) t"

definition target_query :: "ustring \<Rightarrow> ustring" where
  "target_query t = tl (dropWhile (\<lambda>c. c \<noteq> 63) t)"

section \<open>Replies\<close>

text \<open>A Rust string given by its bytes, as text, and a text as such a string.\<close>

definition text_of :: "string \<Rightarrow> ustring" where
  "text_of s = from_utf8_lossy (bstr s)"

definition string_of :: "ustring \<Rightarrow> string" where
  "string_of t = map (\<lambda>b. char_of (unat b)) (utf8 t)"

definition error_json :: "string \<Rightarrow> json" where
  "error_json msg = JObject [(ustr ''error'', JString (text_of msg))]"

definition health_json :: "string option \<Rightarrow> json" where
  "health_json fp = (case fp of
       Some fp \<Rightarrow> JObject [(ustr ''status'', JString (ustr ''ok'')), (ustr ''ca_fingerprint'', JString (ustr fp))]
     | None \<Rightarrow> JObject [(ustr ''status'', JString (ustr ''ok''))])"

text \<open>The JSON body of a response; the blob responses have none.\<close>

fun response_json :: "libs \<Rightarrow> web_libs \<Rightarrow> response \<Rightarrow> json option" where
  "response_json L W (ErrorJson _ msg) = Some (error_json msg)"
| "response_json L W (HealthJson fp) = Some (health_json fp)"
| "response_json L W (EnvelopeAccepted i) = Some (envelope_accepted_json L i)"
| "response_json L W (PullResponse es) = Some (pull_response_json L W es)"
| "response_json L W (AckAccepted b) = Some (ack_accepted_json b)"
| "response_json L W Created = None"
| "response_json L W (OctetStream _) = None"

definition json_reply :: "web_libs \<Rightarrow> ('a \<Rightarrow> json) \<Rightarrow> core_error + 'a \<Rightarrow> nat \<times> ustring" where
  "json_reply W f r = (case r of
       Inr x \<Rightarrow> (200, js_print W (f x))
     | Inl e \<Rightarrow> (case error_response e of ErrorJson n msg \<Rightarrow> (n, js_print W (error_json msg))))"

section \<open>The admin application\<close>

datatype admin_handler = AdminInfo | AdminListPeers | AdminTrustPeer | AdminDistrustPeer

definition admin_routes :: "admin_handler routes" where
  "admin_routes =
     [(''GET'', [Lit ''admin'', Lit ''info''], AdminInfo),
      (''GET'', [Lit ''admin'', Lit ''peers''], AdminListPeers),
      (''POST'', [Lit ''admin'', Lit ''peers''], AdminTrustPeer),
      (''DELETE'', [Lit ''admin'', Lit ''peers'', Param], AdminDistrustPeer),
      (''POST'', [Lit ''admin'', Lit ''peers'', Param, Lit ''distrust''], AdminDistrustPeer)]"

definition admin_info_json :: "string \<times> nat \<Rightarrow> json" where
  "admin_info_json = (\<lambda>(fp, n). JObject [(ustr ''ca_fingerprint'', JString (ustr fp)), (ustr ''trusted_peers'', json_int (int n))])"

definition peer_json :: "ustring \<times> ustring option \<times> int \<Rightarrow> json" where
  "peer_json = (\<lambda>(fp, note, at_ms). JObject
     [(ustr ''ca_fingerprint'', JString fp),
      (ustr ''note'', case note of None \<Rightarrow> JNull | Some s \<Rightarrow> JString s),
      (ustr ''trusted_at_ms'', json_int at_ms)])"

definition list_peers_json :: "(ustring \<times> ustring option \<times> int) list \<Rightarrow> json" where
  "list_peers_json ps = JObject [(ustr ''peers'', JArray (map peer_json ps))]"

definition client_error :: "nat \<Rightarrow> bool" where
  "client_error n \<longleftrightarrow> 400 \<le> n \<and> n < 500"

definition admin_app :: "axum \<Rightarrow> web_libs \<Rightarrow> 's registry_port \<Rightarrow> string \<Rightarrow> 's admin_state http_app" where
  "admin_app A W R own_fp meth target body a a' n reply \<longleftrightarrow>
     (case find_route A admin_routes meth (target_path target) of
        None \<Rightarrow> a' = a \<and> client_error n
      | Some (AdminInfo, _) \<Rightarrow> a' = a \<and> (n, reply) = json_reply W admin_info_json (admin_info R own_fp a)
      | Some (AdminListPeers, _) \<Rightarrow> a' = a \<and> (n, reply) = json_reply W list_peers_json (list_peers R a)
      | Some (AdminTrustPeer, _) \<Rightarrow>
          (case Option.bind (js_parse W body) trust_request_of of
             None \<Rightarrow> a' = a \<and> client_error n
           | Some (fp, note) \<Rightarrow> \<exists>now r. trust_peer R fp note now a = (a', r)
               \<and> (n, reply) = json_reply W (\<lambda>fp. JObject [(ustr ''trusted'', JString fp)]) r)
      | Some (AdminDistrustPeer, args) \<Rightarrow>
          \<exists>r. distrust_peer R (hd args) a = (a', r)
            \<and> (n, reply) = json_reply W (\<lambda>b. JObject [(ustr ''removed'', JBool b)]) r)"

section \<open>The node application\<close>

datatype node_handler = Health | Push | Pull | Ack | BlobPut | BlobGet

definition node_routes :: "node_handler routes" where
  "node_routes =
     [(''GET'', [Lit ''v1'', Lit ''health''], Health),
      (''POST'', [Lit ''v1'', Lit ''queue'', Param, Lit ''envelopes''], Push),
      (''GET'', [Lit ''v1'', Lit ''queue'', Param, Lit ''envelopes''], Pull),
      (''POST'', [Lit ''v1'', Lit ''queue'', Param, Lit ''envelopes'', Param, Lit ''ack''], Ack),
      (''PUT'', [Lit ''v1'', Lit ''blob'', Param, Wild], BlobPut),
      (''GET'', [Lit ''v1'', Lit ''blob'', Param, Wild], BlobGet)]"

text \<open>A pull that nothing else interleaves with: nobody pushes, so a wait runs out.\<close>

definition pull_alone :: "'db turso app_state \<Rightarrow> pull_params \<Rightarrow> moment \<Rightarrow> queue_id \<Rightarrow> 'db turso \<Rightarrow> phase \<times> 'db turso" where
  "pull_alone st params mo q s = (case poll_first st params mo q s of
       PollEmpty dur \<Rightarrow> (PollDone (Inr []), snd (poll_subscribe dur mo q s))
     | ph \<Rightarrow> (ph, s))"

definition node_reply :: "libs \<Rightarrow> web_libs \<Rightarrow> response \<Rightarrow> nat \<Rightarrow> ustring \<Rightarrow> bool" where
  "node_reply L W r n reply \<longleftrightarrow> n = status_of r \<and>
     (case response_json L W r of Some v \<Rightarrow> reply = js_print W v | None \<Rightarrow> True)"

text \<open>
  A node that serves one request after the other; \<open>k\<close> counts them and \<open>mos k\<close> is the
  moment of the \<open>k\<close>-th.
\<close>

definition node_app :: "axum \<Rightarrow> libs \<Rightarrow> web_libs \<Rightarrow> 'db turso app_state \<Rightarrow> (nat \<Rightarrow> moment) \<Rightarrow> (nat \<times> 'db turso) http_app" where
  "node_app A L W st mos meth target body p p' n reply \<longleftrightarrow> (case p of (k, s) \<Rightarrow>
     fst p' = Suc k \<and>
     (case find_route A node_routes meth (target_path target) of
        None \<Rightarrow> snd p' = s \<and> client_error n
      | Some (Health, _) \<Rightarrow> snd p' = s \<and> node_reply L W (handle_health st) n reply
      | Some (Push, args) \<Rightarrow>
          (case Option.bind (js_parse W body) (push_envelope_of W) of
             None \<Rightarrow> snd p' = s \<and> client_error n
           | Some e \<Rightarrow> \<exists>r. handle_push L st (mos k) (string_of (hd args)) e s = (snd p', r) \<and> node_reply L W r n reply)
      | Some (Pull, args) \<Rightarrow>
          (case ax_query A (target_query target) of
             None \<Rightarrow> snd p' = s \<and> client_error n
           | Some params \<Rightarrow>
               (case handle_pull_start L (string_of (hd args)) of
                  Inl e \<Rightarrow> snd p' = s \<and> node_reply L W (error_response e) n reply
                | Inr q \<Rightarrow> \<exists>r. pull_alone st params (mos k) q s = (PollDone r, snd p')
                    \<and> node_reply L W (handle_pull_response r) n reply))
      | Some (Ack, args) \<Rightarrow>
          \<exists>r. handle_ack L st (mos k) (string_of (hd args)) (args ! 1) s = (snd p', r) \<and> node_reply L W r n reply
      | Some (BlobPut, args) \<Rightarrow>
          \<exists>r. handle_blob_put st (string_of (hd args)) (string_of (args ! 1)) (utf8 body) s = (snd p', r)
            \<and> node_reply L W r n reply
      | Some (BlobGet, args) \<Rightarrow>
          snd p' = s \<and> node_reply L W (handle_blob_get st (string_of (hd args)) (string_of (args ! 1)) s) n reply))"

text \<open>A pull alone is a run of the handler.\<close>

lemma pull_alone_run:
  assumes "pull_alone st params mo q s = (PollDone r, s')"
  shows "\<exists>evs. poll_trace L E st params q (PollStart, s) evs (PollDone r, s')"
proof (cases "\<exists>dur. poll_first st params mo q s = PollEmpty dur")
  case True
  then obtain dur where dur: "poll_first st params mo q s = PollEmpty dur" by blast
  obtain s1 ticket where sub: "turso_subscribe q s = (s1, ticket)" by (cases "turso_subscribe q s")
  let ?mo = "mo\<lparr>now_ms := now_ms mo + 1000 * int dur\<rparr>"
  have "\<not> turso_notified q ticket s1"
    using sub by (auto simp: turso_subscribe_def turso_notified_def notifier_def split: option.splits)
  then have "poll_step L E st params q (PollWaiting ticket (now_ms mo + 1000 * int dur), s1) (Expire ?mo) (PollDone (Inr []), s1)"
    by (intro poll_step.expired) simp_all
  moreover have "poll_step L E st params q (PollStart, s) (First mo) (PollEmpty dur, s)"
    using poll_step.first [of L E st params q s mo] dur by simp
  moreover have "poll_step L E st params q (PollEmpty dur, s) (Subscribe mo) (PollWaiting ticket (now_ms mo + 1000 * int dur), s1)"
    using poll_step.subscribe [of L E st params q dur s mo] sub by (simp add: poll_subscribe_def)
  moreover have "r = Inr []" "s' = s1" using assms(1) dur sub by (auto simp: pull_alone_def poll_subscribe_def)
  ultimately show ?thesis by (blast intro: poll_trace.start poll_trace.extend)
next
  case False
  then have "poll_first st params mo q s = PollDone r" "s' = s"
    using assms(1) by (auto simp: pull_alone_def split: phase.splits)
  then show ?thesis using poll_trace.extend [OF poll_trace.start poll_step.first [of L E st params q s mo]] by auto
qed

section \<open>Finding a route\<close>

lemma ax_match_iff:
  assumes "axum_laws A" "list_all (\<lambda>c. plain_char c \<or> c = 47) path"
  shows "ax_match A pat path = Some args \<longleftrightarrow> fits pat args \<and> path = render pat args"
  using assms unfolding axum_laws_def by blast

lemma ax_match_None:
  assumes "axum_laws A" "list_all (\<lambda>c. plain_char c \<or> c = 47) path" "\<And>args. fits pat args \<Longrightarrow> path \<noteq> render pat args"
  shows "ax_match A pat path = None"
  using ax_match_iff [OF assms(1,2)] assms(3) by (metis not_Some_eq)

lemma seg_ok_slash: "seg_ok a \<Longrightarrow> 47 \<notin> set a"
  by (auto simp: seg_ok_def list_all_iff plain_char_def is_digit_def)

lemma seg_split:
  assumes "seg_ok a" "seg_ok b"
  shows "a @ 47 # x = b @ 47 # y \<longleftrightarrow> a = b \<and> x = y"
proof -
  have "takeWhile (\<lambda>c. c \<noteq> 47) (a @ 47 # x) = a" "takeWhile (\<lambda>c. c \<noteq> 47) (b @ 47 # y) = b"
    using seg_ok_slash [OF assms(1)] seg_ok_slash [OF assms(2)] by (auto simp: takeWhile_append)
  then show ?thesis by (metis append_same_eq same_append_eq list.inject)
qed

lemma fits_simps:
  "fits [Lit a, Lit b] args \<longleftrightarrow> args = []"
  "fits [Lit a, Lit b, Param] args \<longleftrightarrow> (\<exists>x. args = [x] \<and> seg_ok x)"
  "fits [Lit a, Lit b, Param, Lit d] args \<longleftrightarrow> (\<exists>x. args = [x] \<and> seg_ok x)"
  "fits [Lit a, Lit b, Param, Lit d, Param, Lit f] args \<longleftrightarrow> (\<exists>x y. args = [x, y] \<and> seg_ok x \<and> seg_ok y)"
  by (cases args; auto split: list.splits; cases "tl args"; auto)+

lemmas route_chars = plain_char_def is_digit_def ustr_def list_all_iff

lemma admin_peers_route:
  assumes "axum_laws A"
  shows "find_route A admin_routes (ustr ''GET'') (ustr ''/admin/peers'') = Some (AdminListPeers, [])"
    "find_route A admin_routes (ustr ''POST'') (ustr ''/admin/peers'') = Some (AdminTrustPeer, [])"
proof -
  have p: "list_all (\<lambda>c. plain_char c \<or> c = 47) (ustr ''/admin/peers'')" by (simp add: route_chars)
  have "ax_match A [Lit ''admin'', Lit ''peers''] (ustr ''/admin/peers'') = Some []"
    using ax_match_iff [OF assms p] by (simp add: ustr_def)
  moreover have "ax_match A [Lit ''admin'', Lit ''info''] (ustr ''/admin/peers'') = None"
    by (rule ax_match_None [OF assms p]) (simp add: ustr_def)
  ultimately show "find_route A admin_routes (ustr ''GET'') (ustr ''/admin/peers'') = Some (AdminListPeers, [])"
    "find_route A admin_routes (ustr ''POST'') (ustr ''/admin/peers'') = Some (AdminTrustPeer, [])"
    by (simp_all add: admin_routes_def)
qed

lemma admin_distrust_route:
  assumes "axum_laws A" "seg_ok fp"
  shows "find_route A admin_routes (ustr ''DELETE'') (ustr ''/admin/peers/'' @ fp) = Some (AdminDistrustPeer, [fp])"
proof -
  have p: "list_all (\<lambda>c. plain_char c \<or> c = 47) (ustr ''/admin/peers/'' @ fp)"
    using assms(2) by (auto simp: seg_ok_def route_chars)
  have "ax_match A [Lit ''admin'', Lit ''peers'', Param] (ustr ''/admin/peers/'' @ fp) = Some [fp]"
    using ax_match_iff [OF assms(1) p] assms(2) by (simp add: ustr_def)
  then show ?thesis by (simp add: admin_routes_def)
qed

lemma health_route:
  assumes "axum_laws A"
  shows "find_route A node_routes (ustr ''GET'') (ustr ''/v1/health'') = Some (Health, [])"
proof -
  have p: "list_all (\<lambda>c. plain_char c \<or> c = 47) (ustr ''/v1/health'')" by (simp add: route_chars)
  have "ax_match A [Lit ''v1'', Lit ''health''] (ustr ''/v1/health'') = Some []"
    using ax_match_iff [OF assms p] by (simp add: ustr_def)
  then show ?thesis by (simp add: node_routes_def)
qed

lemma queue_routes:
  assumes "axum_laws A" "seg_ok q"
  defines "path \<equiv> ustr ''/v1/queue/'' @ q @ ustr ''/envelopes''"
  shows "find_route A node_routes (ustr ''POST'') path = Some (Push, [q])"
    "find_route A node_routes (ustr ''GET'') path = Some (Pull, [q])"
proof -
  have p: "list_all (\<lambda>c. plain_char c \<or> c = 47) path"
    using assms(2) by (auto simp: path_def seg_ok_def route_chars)
  have "ax_match A [Lit ''v1'', Lit ''queue'', Param, Lit ''envelopes''] path = Some [q]"
    using ax_match_iff [OF assms(1) p] assms(2) by (simp add: path_def ustr_def)
  moreover have "ax_match A [Lit ''v1'', Lit ''health''] path = None"
    by (rule ax_match_None [OF assms(1) p]) (simp add: ustr_def path_def)
  ultimately show "find_route A node_routes (ustr ''POST'') path = Some (Push, [q])"
    "find_route A node_routes (ustr ''GET'') path = Some (Pull, [q])"
    by (simp_all add: node_routes_def)
qed

lemma ack_route:
  assumes "axum_laws A" "seg_ok q" "seg_ok i"
  defines "path \<equiv> ustr ''/v1/queue/'' @ q @ ustr ''/envelopes/'' @ i @ ustr ''/ack''"
  shows "find_route A node_routes (ustr ''POST'') path = Some (Ack, [q, i])"
proof -
  have p: "list_all (\<lambda>c. plain_char c \<or> c = 47) path"
    using assms(2,3) by (auto simp: path_def seg_ok_def route_chars)
  have "ax_match A [Lit ''v1'', Lit ''queue'', Param, Lit ''envelopes'', Param, Lit ''ack''] path = Some [q, i]"
    using ax_match_iff [OF assms(1) p] assms(2,3) by (simp add: path_def ustr_def)
  moreover have "ax_match A [Lit ''v1'', Lit ''queue'', Param, Lit ''envelopes''] path = None"
  proof (rule ax_match_None [OF assms(1) p])
    fix args assume "fits [Lit ''v1'', Lit ''queue'', Param, Lit ''envelopes''] args"
    then obtain x where x: "args = [x]" "seg_ok x" by (auto simp only: fits_simps)
    show "path \<noteq> render [Lit ''v1'', Lit ''queue'', Param, Lit ''envelopes''] args"
      using seg_split [OF assms(2) x(2)] by (simp add: x(1) path_def ustr_def)
  qed
  ultimately show ?thesis by (simp add: node_routes_def)
qed

end
