(* ===== verification/Peer_Probe.thy ===== *)
theory Peer_Probe
  imports Http_Routes Node_Ca
begin

text \<open>
  The client side of mutual TLS: the probe of a peer, \<open>crates/buh-api/src/peer.rs\<close>.

  TCP and TLS are the record \<open>tls_net\<close> over the state \<open>'p\<close> of the remote node, with
  \<open>srv\<close> its server configuration. In TLS 1.3 the client is done before the server has
  seen its certificate, so a server that refuses it shows in the read, not in the handshake.
  \<open>mtls_sound\<close> states what rustls promises about a handshake and a read that succeed,
  \<open>mtls_serves\<close> that a node whose listener is reachable answers those it accepts.
\<close>

section \<open>The network\<close>

datatype peer_addr = AddrText ustring | AddrPair ustring nat

text \<open>\<open>read_to_end\<close>: the bytes up to an orderly end, up to a missing \<open>close_notify\<close>, or an error.\<close>

datatype read_result = ReadOk bytes | ReadEof bytes | ReadErr string

record 'p tls_net =
  tn_connect :: "peer_addr \<Rightarrow> 'p \<Rightarrow> string option"
  tn_server_name :: "ustring \<Rightarrow> bool"
  tn_handshake :: "peer_addr \<Rightarrow> ustring \<Rightarrow> tls_config \<Rightarrow> 'p \<Rightarrow> string option"
  tn_write :: "peer_addr \<Rightarrow> tls_config \<Rightarrow> bytes \<Rightarrow> 'p \<Rightarrow> string option"
  tn_exchange :: "peer_addr \<Rightarrow> tls_config \<Rightarrow> bytes \<Rightarrow> 'p \<Rightarrow> 'p \<times> read_result"

text \<open>A presented chain passes the verifier of the other side.\<close>

definition chain_accepted :: "libs \<Rightarrow> 'c x509 \<Rightarrow> u64 \<Rightarrow> trust_store \<Rightarrow> bytes list \<Rightarrow> bool" where
  "chain_accepted L X now T chain \<longleftrightarrow>
     (\<exists>ee inter. chain = ee # inter \<and> is_ok (verify_pinned_chain L X ee inter now T))"

definition mtls_sound :: "libs \<Rightarrow> 'c x509 \<Rightarrow> ('p \<Rightarrow> tls_config) \<Rightarrow> 'p tls_net \<Rightarrow> bool" where
  "mtls_sound L X srv N \<longleftrightarrow>
     (\<forall>addr name cfg p. tn_handshake N addr name cfg p = None \<longrightarrow>
        (\<exists>now. chain_accepted L X now (tc_trust cfg) (tc_presented (srv p))))
   \<and> (\<forall>addr cfg r p. (\<forall>e. snd (tn_exchange N addr cfg r p) \<noteq> ReadErr e) \<longrightarrow>
        (\<exists>now. chain_accepted L X now (tc_trust (srv p)) (tc_presented cfg)))"

definition mtls_serves ::
  "libs \<Rightarrow> 'c x509 \<Rightarrow> u64 \<Rightarrow> ('p \<Rightarrow> tls_config) \<Rightarrow> 'p http_app \<Rightarrow> peer_addr \<Rightarrow> 'p tls_net \<Rightarrow> bool" where
  "mtls_serves L X now srv app addr N \<longleftrightarrow> (\<forall>cfg p.
     chain_accepted L X now (tc_trust cfg) (tc_presented (srv p)) \<and> chain_accepted L X now (tc_trust (srv p)) (tc_presented cfg) \<longrightarrow>
       tn_connect N addr p = None \<and> (\<forall>name. tn_handshake N addr name cfg p = None) \<and> (\<forall>r. tn_write N addr cfg r p = None)
     \<and> (\<forall>meth target hs body. request_ok meth target hs body \<longrightarrow>
          (\<exists>p' n reply resp. tn_exchange N addr cfg (utf8 (http_request_text meth target hs body)) p = (p', ReadOk resp)
             \<and> app meth target body p p' n reply \<and> text_ok reply \<and> http_response n (utf8 reply) resp)))"

section \<open>The probe\<close>

record peer_health =
  ph_status_line :: ustring
  ph_ca_fingerprint :: "ustring option"

datatype probe_error =
    ProbeConfig core_error
  | ProbeConnect string
  | ProbeHost
  | ProbeRefused string
  | ProbeSend string
  | ProbeRead string

definition probe_host :: "ustring \<Rightarrow> ustring" where
  "probe_host addr = trim_matches (\<lambda>c. c = 91 \<or> c = 93)
     (case rsplit_once 58 addr of Some (h, _) \<Rightarrow> h | None \<Rightarrow> addr)"

definition health_request :: "ustring \<Rightarrow> ustring" where
  "health_request addr = ustr ''GET /v1/health HTTP/1.1'' @ CRLF @ ustr ''Host: '' @ addr @ CRLF
     @ ustr ''Connection: close'' @ CRLF @ CRLF"

definition read_health :: "web_libs \<Rightarrow> bytes \<Rightarrow> peer_health" where
  "read_health W bs = (let response = from_utf8_lossy bs in
     \<lparr>ph_status_line = trim (case lines_of response of [] \<Rightarrow> [] | l # _ \<Rightarrow> l),
      ph_ca_fingerprint =
        Option.bind (split_once (CRLF @ CRLF) response) (\<lambda>(_, body).
        Option.bind (js_parse W (trim body)) (\<lambda>v.
        Option.bind (json_get (ustr ''ca_fingerprint'') v) as_str))\<rparr>)"

definition probe_peer ::
  "web_libs \<Rightarrow> 'p tls_net \<Rightarrow> 'h rustls \<Rightarrow> core_error + node_leaf \<Rightarrow> 'h node_tls \<Rightarrow> ustring \<Rightarrow> 'p \<Rightarrow>
   'p \<times> (probe_error + peer_health)" where
  "probe_peer W N P issued node_tls addr p =
     (let host = probe_host addr in
      then_do (p, map_err ProbeConfig (client_config P issued node_tls)) (\<lambda>p cfg.
      case tn_connect N (AddrText addr) p of Some e \<Rightarrow> (p, Inl (ProbeConnect e)) | None \<Rightarrow>
      if \<not> tn_server_name N host then (p, Inl ProbeHost) else
      case tn_handshake N (AddrText addr) host cfg p of Some e \<Rightarrow> (p, Inl (ProbeRefused e)) | None \<Rightarrow>
      case tn_write N (AddrText addr) cfg (utf8 (health_request addr)) p of Some e \<Rightarrow> (p, Inl (ProbeSend e)) | None \<Rightarrow>
      case tn_exchange N (AddrText addr) cfg (utf8 (health_request addr)) p of
        (p', ReadOk bs) \<Rightarrow> (p', Inr (read_health W bs))
      | (p', ReadEof _) \<Rightarrow> (p', Inl (ProbeRead ''unexpected eof''))
      | (p', ReadErr e) \<Rightarrow> (p', Inl (ProbeRead e))))"

section \<open>What a successful probe shows\<close>

lemma chain_accepted_pinned: "chain_accepted L X now T chain \<Longrightarrow> length chain \<ge> 2 \<and> ustr (fingerprint L (last chain)) \<in> T"
proof -
  assume "chain_accepted L X now T chain"
  then obtain ee inter u where "chain = ee # inter" "verify_pinned_chain L X ee inter now T = Inr u"
    by (auto simp: chain_accepted_def is_ok_iff)
  then show ?thesis by (cases inter) (simp_all add: verify_pinned_chain_ok)
qed

lemma client_config_fields:
  assumes "client_config P issued n = Inr cfg"
  shows "tc_trust cfg = nt_trust n \<and> (\<exists>leaf. issued = Inr leaf \<and> tc_presented cfg = chain_der leaf)"
  using assms by (auto simp: client_config_def)

text \<open>Keys load and configurations build.\<close>

definition rustls_ok :: "'h rustls \<Rightarrow> bool" where
  "rustls_ok P \<longleftrightarrow> (\<forall>k. is_ok (load_private_key P k)) \<and> is_ok (tls13_protocols P) \<and> (\<forall>c k. is_ok (client_auth_cert P c k))"

lemma node_tls_new_up:
  assumes "rustls_ok P"
  shows "\<exists>n. node_tls_new P (Inr leaf) T = Inr n \<and> nt_trust n = T \<and> nt_kx_groups n = pq_kx_groups \<and> ck_certs (nt_current n) = chain_der leaf"
proof -
  obtain key where "load_private_key P (private_key_der leaf) = Inr key" using assms unfolding rustls_ok_def is_ok_iff by blast
  then show ?thesis by (simp add: node_tls_new_def certified_key_def)
qed

lemma client_config_up:
  assumes "rustls_ok P"
  shows "\<exists>cfg. client_config P (Inr leaf) n = Inr cfg"
  using assms by (auto simp: rustls_ok_def client_config_def is_ok_iff)

lemma issue_leaf_chain: "issue_leaf RC rnd now ca = Inr leaf \<Longrightarrow> \<exists>ee. chain_der leaf = [ee, nc_der ca]"
  by (auto simp: issue_leaf_def Let_def)

lemma probe_success:
  assumes "probe_peer W N P issued n addr p = (p', Inr h)"
  shows "\<exists>cfg bs. client_config P issued n = Inr cfg \<and> tn_handshake N (AddrText addr) (probe_host addr) cfg p = None
    \<and> tn_exchange N (AddrText addr) cfg (utf8 (health_request addr)) p = (p', ReadOk bs) \<and> h = read_health W bs"
  using assms unfolding probe_peer_def Let_def
  by (elim then_do_okE) (auto split: option.splits if_splits prod.splits read_result.splits)

text \<open>The request of the probe is one a server understands.\<close>

lemma health_request_text:
  "health_request addr = http_request_text (ustr ''GET'') (ustr ''/v1/health'') [ustr ''Host: '' @ addr, CONNECTION_CLOSE] []"
  by (simp add: health_request_def http_request_text_def header_block_def CONNECTION_CLOSE_def ustr_def)

lemma health_request_ok:
  "host_ok addr \<Longrightarrow> request_ok (ustr ''GET'') (ustr ''/v1/health'') [ustr ''Host: '' @ addr, CONNECTION_CLOSE] []"
  by (rule request_okI [of addr]) (simp_all add: target_ok_def ustr_def)

section \<open>A probe succeeds exactly under mutual trust\<close>

text \<open>A chain that everybody accepts who pins its authority.\<close>

definition leaf_valid :: "libs \<Rightarrow> 'c x509 \<Rightarrow> u64 \<Rightarrow> bytes list \<Rightarrow> bytes \<Rightarrow> bool" where
  "leaf_valid L X now chain der \<longleftrightarrow> chain \<noteq> [] \<and> last chain = der
     \<and> (\<forall>T. ustr (fingerprint L der) \<in> T \<longrightarrow> chain_accepted L X now T chain)"

lemma issued_leaf_valid:
  assumes "pki_laws X RC pub" "authority_ok L X pub ca" "issue_leaf RC rnd now0 ca = Inr leaf"
    and "now0 - CLOCK_SKEW \<le> u64_to_i64 now" "u64_to_i64 now \<le> now0 + nc_leaf_ttl ca"
      "DEFAULT_NOT_BEFORE \<le> u64_to_i64 now" "u64_to_i64 now \<le> DEFAULT_NOT_AFTER"
  shows "leaf_valid L X now (chain_der leaf) (nc_der ca)"
proof -
  obtain ee where ee: "chain_der leaf = [ee, nc_der ca]" using issue_leaf_chain [OF assms(3)] by blast
  have "chain_accepted L X now T (chain_der leaf)" if "ustr (fingerprint L (nc_der ca)) \<in> T" for T
    using issued_leaf_accepted [OF assms(1-3) _ assms(4-7), of T] that assms(2)
    by (auto simp: chain_accepted_def authority_ok_def is_ok_iff)
  then show ?thesis by (simp add: leaf_valid_def ee)
qed

lemma health_json_read:
  assumes "web_laws W" "http_response n (utf8 (js_print W (health_json (Some fp)))) bs"
  shows "ph_ca_fingerprint (read_health W bs) = Some (ustr fp)"
    "\<exists>reason. ph_status_line (read_health W bs) = status_line n reason"
proof -
  let ?v = "health_json (Some fp)" and ?r = "from_utf8_lossy bs"
  have ok: "json_ok ?v" by (simp add: health_json_def)
  then have t: "text_ok (js_print W ?v)" by (rule web_lawsD(2) [OF assms(1)])
  obtain u where "js_print W ?v = 123 # u @ [125]"
    using web_lawsD(3) [OF assms(1)] by (auto simp: health_json_def)
  then have trim: "trim (js_print W ?v) = js_print W ?v"
    unfolding trim_trim_matches by (intro trim_matches_id) (simp add: is_whitespace_def)
  obtain x where "split_once (CRLF @ CRLF) ?r = Some (x, js_print W ?v)"
    using response_read(1) [OF assms(2) t] \<open>js_print W ?v = 123 # u @ [125]\<close>
    by (cases "split_once (CRLF @ CRLF) ?r") (auto simp: response_body_def)
  moreover have "json_get (ustr ''ca_fingerprint'') (canon ?v) = Some (JString (ustr fp))"
    using json_get_canon [OF ok] by (simp add: health_json_def)
  ultimately show "ph_ca_fingerprint (read_health W bs) = Some (ustr fp)"
    using web_lawsD(1) [OF assms(1) ok] trim by (simp add: read_health_def Let_def)
  show "\<exists>reason. ph_status_line (read_health W bs) = status_line n reason"
    using response_read(2) [OF assms(2) t] by (auto simp: read_health_def Let_def)
qed

lemma probe_served:
  assumes serves: "mtls_serves L X now srv (node_app A L W st mos) (AddrText addr) N"
    and laws: "web_laws W" "axum_laws A" and addr: "host_ok addr" "tn_server_name N (probe_host addr)"
    and fp: "ctx_pki_fingerprint (app_ctx st) = Some fp"
    and cfg: "client_config P issued n = Inr cfg"
    and acc: "chain_accepted L X now (tc_trust cfg) (tc_presented (srv p))" "chain_accepted L X now (tc_trust (srv p)) (tc_presented cfg)"
  shows "\<exists>p' reason. probe_peer W N P issued n addr p
    = (p', Inr \<lparr>ph_status_line = status_line 200 reason, ph_ca_fingerprint = Some (ustr fp)\<rparr>)"
proof -
  note up = serves [unfolded mtls_serves_def, rule_format, OF conjI, OF acc]
  obtain p' m reply bs where ex: "tn_exchange N (AddrText addr) cfg (utf8 (health_request addr)) p = (p', ReadOk bs)"
      and app: "node_app A L W st mos (ustr ''GET'') (ustr ''/v1/health'') [] p p' m reply"
      and resp: "http_response m (utf8 reply) bs"
    using up health_request_ok [OF addr(1)] unfolding health_request_text by blast
  have "target_path (ustr ''/v1/health'') = ustr ''/v1/health''" by (simp add: target_path_def ustr_def)
  with app have m: "m = 200" "reply = js_print W (health_json (Some fp))"
    by (auto simp: node_app_def health_route [OF laws(2)] node_reply_def handle_health_def fp)
  obtain reason where "read_health W bs = \<lparr>ph_status_line = status_line 200 reason, ph_ca_fingerprint = Some (ustr fp)\<rparr>"
    using health_json_read [OF laws(1) resp [unfolded m]] by (cases "read_health W bs") auto
  then show ?thesis using up cfg addr ex by (auto simp: probe_peer_def Let_def)
qed

lemma probe_iff:
  assumes net: "mtls_sound L X srv N" "mtls_serves L X now srv (node_app A L W st mos) (AddrText addr) N"
    and laws: "web_laws W" "axum_laws A" and addr: "host_ok addr" "tn_server_name N (probe_host addr)"
    and fp: "ctx_pki_fingerprint (app_ctx st) = Some fp"
    and cfg: "client_config P (Inr leaf) n = Inr cfg"
    and valid: "leaf_valid L X now (chain_der leaf) own" "leaf_valid L X now (tc_presented (srv p)) peer"
    and probe: "probe_peer W N P (Inr leaf) n addr p = (p', r)"
  shows "is_ok r \<longleftrightarrow> ustr (fingerprint L own) \<in> tc_trust (srv p) \<and> ustr (fingerprint L peer) \<in> nt_trust n"
    "r = Inr h \<Longrightarrow> ph_ca_fingerprint h = Some (ustr fp)"
proof -
  have c: "tc_trust cfg = nt_trust n" "tc_presented cfg = chain_der leaf"
    using client_config_fields [OF cfg] by auto
  let ?mutual = "ustr (fingerprint L own) \<in> tc_trust (srv p) \<and> ustr (fingerprint L peer) \<in> nt_trust n"
  have fwd: ?mutual if "r = Inr h" for h
  proof -
    from probe_success [of W N P "Inr leaf" n addr p p' h] probe that obtain bs where
      "tn_handshake N (AddrText addr) (probe_host addr) cfg p = None"
      "tn_exchange N (AddrText addr) cfg (utf8 (health_request addr)) p = (p', ReadOk bs)" using cfg by auto
    then obtain t t' where "chain_accepted L X t (tc_trust cfg) (tc_presented (srv p))" "chain_accepted L X t' (tc_trust (srv p)) (tc_presented cfg)"
      using net(1) unfolding mtls_sound_def by (metis read_result.distinct(3) snd_conv)
    then show ?thesis using chain_accepted_pinned valid by (auto simp: c leaf_valid_def dest!: chain_accepted_pinned)
  qed
  have bwd: "\<exists>reason. r = Inr \<lparr>ph_status_line = status_line 200 reason, ph_ca_fingerprint = Some (ustr fp)\<rparr>" if ?mutual
  proof -
    have "chain_accepted L X now (tc_trust cfg) (tc_presented (srv p))" "chain_accepted L X now (tc_trust (srv p)) (tc_presented cfg)"
      using that valid by (auto simp: c leaf_valid_def)
    from probe_served [OF net(2) laws addr fp cfg this] probe show ?thesis by auto
  qed
  show "is_ok r \<longleftrightarrow> ?mutual" using fwd bwd by (cases r) auto
  show "r = Inr h \<Longrightarrow> ph_ca_fingerprint h = Some (ustr fp)" using fwd bwd by fastforce
qed

end
