(* ===== verification/Ratchet.thy ===== *)
theory Ratchet
  imports Primitives "HOL-Library.Multiset" "HOL-Library.AList" "HOL-Library.List_Lexorder" "HOL-Library.Product_Lexorder"
begin

text \<open>
  The Double Ratchet of \<open>crates/buh-crypto/src/ratchet\<close>: the key-derivation chains
  (\<open>chain.rs\<close>), the message header (\<open>header.rs\<close>) and the session state with its
  operations (\<open>mod.rs\<close>).

  The hash map of skipped keys is an association list with distinct keys. Counters
  are 32-bit words; \<open>+= 1\<close> wraps, as in a release build. \<open>encrypt\<close> and
  \<open>decrypt\<close> are \<open>&mut self\<close> methods, so they return the state they leave behind on
  every path, errors included. The fresh key of a DH step is drawn from the
  argument \<open>rnd\<close>.
\<close>

section \<open>Key derivation\<close>

definition RK_INFO :: bytes where "RK_INFO = bstr ''buh-ratchet-rk-v1''"
definition CK_NEXT_INFO :: bytes where "CK_NEXT_INFO = bstr ''buh-ratchet-ck-v1''"
definition MK_INFO :: bytes where "MK_INFO = bstr ''buh-ratchet-mk-v1''"
definition MSG_KEYS_INFO :: bytes where "MSG_KEYS_INFO = bstr ''buh-ratchet-msg-keys-v1''"

definition kdf_rk :: "prims \<Rightarrow> bytes \<Rightarrow> bytes \<Rightarrow> bytes \<times> bytes" where
  "kdf_rk K root dh_out =
     (let out = hkdf_expand K (hkdf_extract K root dh_out) RK_INFO 64
      in (take 32 out, drop 32 out))"

definition kdf_ck :: "prims \<Rightarrow> bytes \<Rightarrow> bytes \<times> bytes" where
  "kdf_ck K ck = (hkdf_expand K ck CK_NEXT_INFO 32, hkdf_expand K ck MK_INFO 32)"

definition message_keys :: "prims \<Rightarrow> bytes \<Rightarrow> bytes \<times> bytes" where
  "message_keys K mk =
     (let out = hkdf_expand K mk MSG_KEYS_INFO (KEY_LEN + NONCE_LEN)
      in (take KEY_LEN out, drop KEY_LEN out))"

section \<open>Header\<close>

record header =
  h_dh :: bytes
  h_pn :: u32
  h_n :: u32

definition to_aad :: "header \<Rightarrow> bytes" where
  "to_aad h = frame_encode
     (with_field (with_field (with_field frame_new
        TAG_RATCHET_DH (h_dh h))
        TAG_RATCHET_PN (u32_to_be (h_pn h)))
        TAG_RATCHET_N (u32_to_be (h_n h)))"

definition read_u32 :: "bytes \<Rightarrow> crypto_error + u32" where
  "read_u32 b =
     (if length b = 4 then Inr (from_be_bytes b) else Inl (malformed ''ratchet counter''))"

section \<open>Session state\<close>

definition MAX_SKIP :: u32 where "MAX_SKIP = 1000"
definition MAX_STORED_SKIPPED :: nat where "MAX_STORED_SKIPPED = 2000"
definition STATE_VERSION :: u8 where "STATE_VERSION = 1"

type_synonym skipped_map = "((bytes \<times> u32) \<times> bytes) list"

record ratchet_state =
  dhs :: bytes
  dhs_pub :: bytes
  dhr :: "bytes option"
  rk :: bytes
  cks :: "bytes option"
  ckr :: "bytes option"
  ns :: u32
  nr :: u32
  pn :: u32
  skipped :: skipped_map

definition initiator :: "prims \<Rightarrow> bytes \<Rightarrow> bytes \<Rightarrow> bytes \<Rightarrow> ratchet_state" where
  "initiator K rnd root remote_ratchet_key =
     (let secret = x25519_generate K rnd;
          (root', chain) = kdf_rk K root (diffie_hellman K secret remote_ratchet_key)
      in \<lparr>dhs = secret, dhs_pub = x25519_public_key K secret, dhr = Some remote_ratchet_key,
          rk = root', cks = Some chain, ckr = None, ns = 0, nr = 0, pn = 0, skipped = []\<rparr>)"

definition responder :: "prims \<Rightarrow> bytes \<Rightarrow> bytes \<Rightarrow> ratchet_state" where
  "responder K root ratchet_key =
     \<lparr>dhs = ratchet_key, dhs_pub = x25519_public_key K ratchet_key, dhr = None,
      rk = root, cks = None, ckr = None, ns = 0, nr = 0, pn = 0, skipped = []\<rparr>"

section \<open>Persistence\<close>

definition state_flags :: "ratchet_state \<Rightarrow> u8" where
  "state_flags st =
     (if dhr st \<noteq> None then 0b001 else 0) OR (if cks st \<noteq> None then 0b010 else 0)
     OR (if ckr st \<noteq> None then 0b100 else 0)"

definition opt_bytes :: "bytes option \<Rightarrow> bytes" where
  "opt_bytes x = (case x of None \<Rightarrow> [] | Some b \<Rightarrow> b)"

definition skipped_entry :: "(bytes \<times> u32) \<times> bytes \<Rightarrow> bytes" where
  "skipped_entry e = (case e of ((dh, n), mk) \<Rightarrow> dh @ u32_to_be n @ mk)"

definition state_to_bytes :: "ratchet_state \<Rightarrow> bytes" where
  "state_to_bytes st =
     [STATE_VERSION] @ dhs st @ [state_flags st] @ opt_bytes (dhr st) @ rk st
     @ opt_bytes (cks st) @ opt_bytes (ckr st)
     @ u32_to_be (ns st) @ u32_to_be (nr st) @ u32_to_be (pn st)
     @ write_varint (of_nat (length (skipped st)))
     @ concat (map skipped_entry (sort_key fst (skipped st)))"

definition read_32 :: "reader \<Rightarrow> crypto_error + bytes \<times> reader" where
  "read_32 r = wire (read_bytes 32 r)"

definition read_u32_from :: "reader \<Rightarrow> crypto_error + u32 \<times> reader" where
  "read_u32_from r =
     and_then (wire (read_bytes 4 r)) (\<lambda>(b, r'). and_then (read_u32 b) (\<lambda>n. Inr (n, r')))"

text \<open>\<open>if flags & mask != 0 { Some(read_32(..)?) } else { None }\<close>\<close>

definition read_opt_32 :: "bool \<Rightarrow> reader \<Rightarrow> crypto_error + bytes option \<times> reader" where
  "read_opt_32 present r =
     (if present then and_then (read_32 r) (\<lambda>(b, r'). Inr (Some b, r')) else Inr (None, r))"

fun read_skipped :: "nat \<Rightarrow> reader \<Rightarrow> skipped_map \<Rightarrow> crypto_error + skipped_map" where
  "read_skipped 0 r m = Inr m"
| "read_skipped (Suc k) r m =
     and_then (read_32 r) (\<lambda>(dh, r1).
     and_then (read_u32_from r1) (\<lambda>(n, r2).
     and_then (read_32 r2) (\<lambda>(mk, r3).
     read_skipped k r3 (AList.update (dh, n) mk m))))"

definition state_from_bytes :: "prims \<Rightarrow> bytes \<Rightarrow> crypto_error + ratchet_state" where
  "state_from_bytes K b =
     and_then (wire (read_u8 (reader_new b))) (\<lambda>(version, r1).
     if version \<noteq> STATE_VERSION then Inl (malformed ''ratchet state version'')
     else
     and_then (read_32 r1) (\<lambda>(secret, r2).
     and_then (wire (read_u8 r2)) (\<lambda>(fl, r3).
     and_then (read_opt_32 (fl AND 0b001 \<noteq> 0) r3) (\<lambda>(dhr', r4).
     and_then (case dhr' of None \<Rightarrow> Inr None
               | Some d \<Rightarrow> and_then (x25519_pk_from_slice d) (\<lambda>d'. Inr (Some d'))) (\<lambda>dhr''.
     and_then (read_32 r4) (\<lambda>(root, r5).
     and_then (read_opt_32 (fl AND 0b010 \<noteq> 0) r5) (\<lambda>(cks', r6).
     and_then (read_opt_32 (fl AND 0b100 \<noteq> 0) r6) (\<lambda>(ckr', r7).
     and_then (read_u32_from r7) (\<lambda>(ns', r8).
     and_then (read_u32_from r8) (\<lambda>(nr', r9).
     and_then (read_u32_from r9) (\<lambda>(pn', r10).
     and_then (wire (read_varint r10)) (\<lambda>(count, r11).
     if unat count > MAX_STORED_SKIPPED then Inl (malformed ''ratchet skipped-key count'')
     else
     and_then (read_skipped (unat count) r11 []) (\<lambda>m.
       let secret' = x25519_from_bytes K secret in
       Inr \<lparr>dhs = secret', dhs_pub = x25519_public_key K secret', dhr = dhr'', rk = root,
            cks = cks', ckr = ckr', ns = ns', nr = nr', pn = pn', skipped = m\<rparr>)))))))))))))"

section \<open>Sending and receiving\<close>

definition ratchet_message :: "header \<Rightarrow> bytes \<Rightarrow> bytes" where
  "ratchet_message h ciphertext = frame_encode
     (with_field (with_field (with_field (with_field frame_new
        TAG_RATCHET_DH (h_dh h))
        TAG_RATCHET_PN (u32_to_be (h_pn h)))
        TAG_RATCHET_N (u32_to_be (h_n h)))
        TAG_CIPHERTEXT ciphertext)"

definition encrypt :: "prims \<Rightarrow> ratchet_state \<Rightarrow> bytes \<Rightarrow> ratchet_state \<times> (crypto_error + bytes)" where
  "encrypt K st plaintext =
     (case cks st of
        None \<Rightarrow> (st, Inl (RatchetErr ''no sending chain yet''))
      | Some ck \<Rightarrow>
          let (next_ck, mk) = kdf_ck K ck;
              h = \<lparr>h_dh = dhs_pub st, h_pn = pn st, h_n = ns st\<rparr>;
              st' = st\<lparr>cks := Some next_ck, ns := ns st + 1\<rparr>;
              (key, nonce) = message_keys K mk
          in (st', and_then (seal K key nonce (to_aad h) plaintext)
                     (\<lambda>ciphertext. Inr (ratchet_message h ciphertext))))"

definition open_message :: "prims \<Rightarrow> bytes \<Rightarrow> bytes \<Rightarrow> bytes \<Rightarrow> crypto_error + bytes" where
  "open_message K mk aad ciphertext =
     (let (key, nonce) = message_keys K mk in open_aead K key nonce aad ciphertext)"

text \<open>
  The loop of \<open>skip_message_keys\<close>. Its \<open>expect\<close> cannot fail: the caller checked that the
  receiving chain exists and every round writes it; the loop carries the chain key as
  an argument. The chain key is written back before the capacity check.
\<close>

function skip_loop ::
    "prims \<Rightarrow> bytes \<Rightarrow> u32 \<Rightarrow> bytes \<Rightarrow> ratchet_state \<Rightarrow> ratchet_state \<times> (crypto_error + unit)" where
  "skip_loop K d until ck st =
     (if nr st < until then
        let (next_ck, mk) = kdf_ck K ck;
            st1 = st\<lparr>ckr := Some next_ck\<rparr>
        in if length (skipped st1) \<ge> MAX_STORED_SKIPPED
           then (st1, Inl (RatchetErr ''skipped-key store full''))
           else skip_loop K d until next_ck
                  (st1\<lparr>skipped := AList.update (d, nr st1) mk (skipped st1), nr := nr st1 + 1\<rparr>)
      else (st, Inr ()))"
  by pat_completeness auto
termination
proof (relation "measure (\<lambda>(_, _, until, _, st). unat until - unat (nr st))")
  fix K d until ck st p next_ck mk st1
  assume lt: "nr (st :: ratchet_state) < until" and "p = kdf_ck K ck" and "(next_ck, mk) = p"
    and st1: "st1 = st\<lparr>ckr := Some next_ck\<rparr>"
  from lt have "unat (nr st) < unat until" by (simp add: word_less_nat_alt)
  with unat_next_u32 [OF lt] show "((K, d, until, next_ck,
        st1\<lparr>skipped := AList.update (d, nr st1) mk (skipped st1), nr := nr st1 + 1\<rparr>),
      K, d, until, ck, st) \<in> measure (\<lambda>(_, _, until, _, st). unat until - unat (nr st))"
    by (simp add: st1)
qed simp

declare skip_loop.simps [simp del]

definition skip_message_keys ::
    "prims \<Rightarrow> u32 \<Rightarrow> ratchet_state \<Rightarrow> ratchet_state \<times> (crypto_error + unit)" where
  "skip_message_keys K until st =
     (case dhr st of
        None \<Rightarrow> (st, Inr ())
      | Some d \<Rightarrow>
          (case ckr st of
             None \<Rightarrow> (st, Inr ())
           | Some ck \<Rightarrow>
               if until > saturating_add (nr st) MAX_SKIP
               then (st, Inl (RatchetErr ''too many skipped messages''))
               else skip_loop K d until ck st))"

definition dh_ratchet :: "prims \<Rightarrow> bytes \<Rightarrow> header \<Rightarrow> ratchet_state \<Rightarrow> ratchet_state" where
  "dh_ratchet K rnd h st =
     (let (root1, chain_r) = kdf_rk K (rk st) (diffie_hellman K (dhs st) (h_dh h));
          secret = x25519_generate K rnd;
          (root2, chain_s) = kdf_rk K root1 (diffie_hellman K secret (h_dh h))
      in st\<lparr>pn := ns st, ns := 0, nr := 0, dhr := Some (h_dh h), ckr := Some chain_r,
            dhs := secret, dhs_pub := x25519_public_key K secret, rk := root2, cks := Some chain_s\<rparr>)"

definition parse_message :: "prims \<Rightarrow> bytes \<Rightarrow> crypto_error + header \<times> bytes" where
  "parse_message K message =
     and_then (wire (frame_decode (usize_max K) message)) (\<lambda>f.
     and_then (wire (require f TAG_RATCHET_DH)) (\<lambda>d.
     and_then (x25519_pk_from_slice d) (\<lambda>dh.
     and_then (wire (require f TAG_RATCHET_PN)) (\<lambda>p.
     and_then (read_u32 p) (\<lambda>pn'.
     and_then (wire (require f TAG_RATCHET_N)) (\<lambda>q.
     and_then (read_u32 q) (\<lambda>n.
     and_then (wire (require f TAG_CIPHERTEXT)) (\<lambda>ciphertext.
       Inr (\<lparr>h_dh = dh, h_pn = pn', h_n = n\<rparr>, ciphertext)))))))))"

text \<open>Step 2 of \<open>decrypt\<close>: turn the DH ratchet when the header shows a new key.\<close>

definition turn_if_new ::
    "prims \<Rightarrow> bytes \<Rightarrow> ratchet_state \<Rightarrow> header \<Rightarrow> ratchet_state \<times> (crypto_error + unit)" where
  "turn_if_new K rnd st h =
     (if dhr st \<noteq> Some (h_dh h)
      then then_do (skip_message_keys K (h_pn h) st) (\<lambda>st1 _. (dh_ratchet K rnd h st1, Inr ()))
      else (st, Inr ()))"

text \<open>Step 4: derive this message's key from the receiving chain and open.\<close>

definition open_next ::
    "prims \<Rightarrow> ratchet_state \<Rightarrow> header \<Rightarrow> bytes \<Rightarrow> ratchet_state \<times> (crypto_error + bytes)" where
  "open_next K st h ciphertext =
     (case ckr st of
        None \<Rightarrow> (st, Inl (RatchetErr ''no receiving chain''))
      | Some ck \<Rightarrow>
          let (next_ck, mk) = kdf_ck K ck
          in (st\<lparr>ckr := Some next_ck, nr := nr st + 1\<rparr>, open_message K mk (to_aad h) ciphertext))"

text \<open>\<open>decrypt\<close> after the header has been parsed: step 1 consults the skipped keys.\<close>

definition decrypt_parsed ::
    "prims \<Rightarrow> bytes \<Rightarrow> ratchet_state \<Rightarrow> header \<Rightarrow> bytes \<Rightarrow> ratchet_state \<times> (crypto_error + bytes)" where
  "decrypt_parsed K rnd st h ciphertext =
     (case map_of (skipped st) (h_dh h, h_n h) of
        Some mk \<Rightarrow>
          (st\<lparr>skipped := AList.delete (h_dh h, h_n h) (skipped st)\<rparr>,
           open_message K mk (to_aad h) ciphertext)
      | None \<Rightarrow>
          then_do (turn_if_new K rnd st h) (\<lambda>st2 _.
          then_do (skip_message_keys K (h_n h) st2) (\<lambda>st3 _.
            open_next K st3 h ciphertext)))"

definition decrypt ::
    "prims \<Rightarrow> bytes \<Rightarrow> ratchet_state \<Rightarrow> bytes \<Rightarrow> ratchet_state \<times> (crypto_error + bytes)" where
  "decrypt K rnd st message =
     (case parse_message K message of
        Inl e \<Rightarrow> (st, Inl e)
      | Inr (h, ciphertext) \<Rightarrow> decrypt_parsed K rnd st h ciphertext)"

section \<open>Well-formed sessions\<close>

definition opt_len32 :: "bytes option \<Rightarrow> bool" where
  "opt_len32 x = (case x of None \<Rightarrow> True | Some b \<Rightarrow> length b = 32)"

definition skipped_ok :: "skipped_map \<Rightarrow> bool" where
  "skipped_ok m \<longleftrightarrow> distinct (map fst m) \<and> length m \<le> MAX_STORED_SKIPPED
     \<and> list_all (\<lambda>((d, _), mk). length d = 32 \<and> length mk = 32) m"

definition ratchet_ok :: "prims \<Rightarrow> ratchet_state \<Rightarrow> bool" where
  "ratchet_ok K st \<longleftrightarrow>
     length (dhs st) = 32 \<and> x25519_from_bytes K (dhs st) = dhs st
   \<and> dhs_pub st = x25519_public_key K (dhs st)
   \<and> length (rk st) = 32 \<and> opt_len32 (dhr st) \<and> opt_len32 (cks st) \<and> opt_len32 (ckr st)
   \<and> skipped_ok (skipped st)"

definition session_laws :: "prims \<Rightarrow> bool" where
  "session_laws K \<longleftrightarrow> platform_ok K \<and> hkdf_laws K \<and> x25519_laws K \<and> aead_laws K"

lemma opt_len32_simps [simp]: "opt_len32 None" "opt_len32 (Some b) \<longleftrightarrow> length b = 32"
  by (simp_all add: opt_len32_def)

lemma skipped_ok_Nil [simp]: "skipped_ok []"
  by (simp add: skipped_ok_def)

lemma kdf_rk_lengths:
  "hkdf_laws K \<Longrightarrow> length (fst (kdf_rk K r d)) = 32 \<and> length (snd (kdf_rk K r d)) = 32"
  by (simp add: kdf_rk_def Let_def hkdf_expand_length)

lemma kdf_ck_lengths:
  "hkdf_laws K \<Longrightarrow> length (fst (kdf_ck K c)) = 32 \<and> length (snd (kdf_ck K c)) = 32"
  by (simp add: kdf_ck_def hkdf_expand_length)

lemma message_keys_lengths:
  "hkdf_laws K \<Longrightarrow> length (fst (message_keys K mk)) = 32 \<and> length (snd (message_keys K mk)) = 24"
  by (simp add: message_keys_def Let_def hkdf_expand_length len_consts)

lemma update_fresh:
  "map_of m k = None \<Longrightarrow> AList.update k v m = m @ [(k, v)]"
  by (induction m) auto

lemma length_update: "length (AList.update k v m) \<le> Suc (length m)"
  by (induction m) auto

lemma set_update_subset: "set (AList.update k v m) \<subseteq> insert (k, v) (set m)"
  by (induction m) auto

lemma skipped_ok_update:
  assumes "skipped_ok m" and "length m < MAX_STORED_SKIPPED" and "length d = 32" and "length mk = 32"
  shows "skipped_ok (AList.update (d, n) mk m)"
proof -
  have "length (AList.update (d, n) mk m) \<le> MAX_STORED_SKIPPED"
    using assms(2) length_update [of "(d, n)" mk m] by simp
  moreover have "distinct (map fst (AList.update (d, n) mk m))"
    using assms(1) by (simp add: skipped_ok_def distinct_update)
  ultimately show ?thesis
    using assms set_update_subset [of "(d, n)" mk m] by (auto simp: skipped_ok_def list_all_iff)
qed

lemma skipped_ok_delete:
  assumes "skipped_ok m"
  shows "skipped_ok (AList.delete k m)"
proof -
  have "set (AList.delete k m) \<subseteq> set m" by (auto simp: AList.delete_eq)
  then show ?thesis
    using assms order.trans [OF length_delete_le] by (auto simp: skipped_ok_def list_all_iff distinct_delete)
qed

subsection \<open>Every operation keeps the invariant\<close>

lemma initiator_ok:
  assumes "x25519_laws K" and "hkdf_laws K" and "length rnd = 32" and "length peer = 32"
  shows "ratchet_ok K (initiator K rnd root peer)"
  using assms kdf_rk_lengths [OF assms(2)]
  by (auto simp: initiator_def ratchet_ok_def Let_def x25519_lengths x25519_from_generate case_prod_beta)

lemma responder_ok:
  assumes "length root = 32" and "length sk = 32" and "x25519_from_bytes K sk = sk"
  shows "ratchet_ok K (responder K root sk)"
  using assms by (simp add: responder_def ratchet_ok_def)

lemma encrypt_ok:
  assumes "hkdf_laws K" and "ratchet_ok K st"
  shows "ratchet_ok K (fst (encrypt K st p))"
  using assms(2) kdf_ck_lengths [OF assms(1)]
  by (auto simp: encrypt_def ratchet_ok_def Let_def case_prod_beta split: option.splits)

lemma skip_loop_ok:
  assumes "hkdf_laws K" and "ratchet_ok K st" and "length d = 32"
  shows "ratchet_ok K (fst (skip_loop K d until ck st))"
  using assms
proof (induction K d until ck st rule: skip_loop.induct)
  case (1 K d until ck st)
  obtain c' mk where ck: "kdf_ck K ck = (c', mk)" by force
  with kdf_ck_lengths [OF "1.prems"(1), of ck] have len: "length c' = 32" "length mk = 32" by auto
  let ?st1 = "st\<lparr>ckr := Some c'\<rparr>"
  have ok1: "ratchet_ok K ?st1" using "1.prems"(2) len by (simp add: ratchet_ok_def)
  show ?case
  proof (cases "nr st < until \<and> length (skipped st) < MAX_STORED_SKIPPED")
    case True
    then have "ratchet_ok K (?st1\<lparr>skipped := AList.update (d, nr st) mk (skipped st), nr := nr st + 1\<rparr>)"
      using "1.prems" len by (simp add: ratchet_ok_def skipped_ok_update)
    with True ck "1.IH" [OF _ refl ck [symmetric] refl] "1.prems" show ?thesis
      by (subst skip_loop.simps) simp
  next
    case False
    then show ?thesis using "1.prems" ok1 ck by (subst skip_loop.simps) auto
  qed
qed

lemma skip_message_keys_ok:
  assumes "hkdf_laws K" and "ratchet_ok K st"
  shows "ratchet_ok K (fst (skip_message_keys K until st))"
  using assms by (auto simp: skip_message_keys_def ratchet_ok_def [of K st] intro!: skip_loop_ok split: option.splits)

lemma dh_ratchet_ok:
  assumes "x25519_laws K" and "hkdf_laws K" and "ratchet_ok K st" and "length rnd = 32" and "length (h_dh h) = 32"
  shows "ratchet_ok K (dh_ratchet K rnd h st)"
  using assms(3-5) kdf_rk_lengths [OF assms(2)]
  by (auto simp: dh_ratchet_def ratchet_ok_def Let_def x25519_lengths [OF assms(1)]
      x25519_from_generate [OF assms(1)] case_prod_beta)

lemma then_do_fst:
  assumes "P (fst m)" and "\<And>s x. m = (s, Inr x) \<Longrightarrow> P (fst (f s x))"
  shows "P (fst (then_do m f))"
  using assms by (cases m; cases "snd m") (auto simp: then_do_def)

lemma parse_message_dh: "parse_message K b = Inr (h, c) \<Longrightarrow> length (h_dh h) = 32"
  by (auto simp: parse_message_def x25519_pk_from_slice_def X25519_LEN_def split: if_splits)

lemma turn_if_new_ok:
  assumes "x25519_laws K" and "hkdf_laws K" and "ratchet_ok K st" and "length rnd = 32"
    and "length (h_dh h) = 32"
  shows "ratchet_ok K (fst (turn_if_new K rnd st h))"
proof -
  have "ratchet_ok K (fst (skip_message_keys K (h_pn h) st))" using assms by (intro skip_message_keys_ok)
  with assms show ?thesis
    unfolding turn_if_new_def by (auto intro!: then_do_fst [where P = "ratchet_ok K"] dh_ratchet_ok)
qed

lemma open_next_ok:
  assumes "hkdf_laws K" and "ratchet_ok K st"
  shows "ratchet_ok K (fst (open_next K st h c))"
  using assms(2) kdf_ck_lengths [OF assms(1)]
  by (auto simp: open_next_def ratchet_ok_def Let_def case_prod_beta split: option.splits)

lemma decrypt_parsed_ok:
  assumes "x25519_laws K" and "hkdf_laws K" and "ratchet_ok K st" and "length rnd = 32"
    and "length (h_dh h) = 32"
  shows "ratchet_ok K (fst (decrypt_parsed K rnd st h c))"
proof (cases "map_of (skipped st) (h_dh h, h_n h)")
  case None
  note turn = turn_if_new_ok [OF assms]
  have rest: "ratchet_ok K (fst (then_do (skip_message_keys K (h_n h) s) (\<lambda>st3 _. open_next K st3 h c)))"
    if s: "turn_if_new K rnd st h = (s, Inr x)" for s x
  proof -
    have skip: "ratchet_ok K (fst (skip_message_keys K (h_n h) s))"
      using turn s assms(2) by (intro skip_message_keys_ok) simp_all
    then show ?thesis by (rule then_do_fst) (use skip assms(2) in \<open>auto intro: open_next_ok\<close>)
  qed
  show ?thesis
    unfolding decrypt_parsed_def None option.case by (rule then_do_fst [OF turn rest])
qed (use assms(3) in \<open>auto simp: decrypt_parsed_def ratchet_ok_def skipped_ok_delete\<close>)

lemma decrypt_ok:
  assumes "x25519_laws K" and "hkdf_laws K" and "ratchet_ok K st" and "length rnd = 32"
  shows "ratchet_ok K (fst (decrypt K rnd st b))"
  using assms by (auto simp: decrypt_def split: sum.splits intro!: decrypt_parsed_ok dest: parse_message_dh)

section \<open>Messages and persistence round trips\<close>

lemma parse_ratchet_message:
  assumes "platform_ok K" and "length (h_dh h) = 32" and "length c < 2 ^ 32"
  shows "parse_message K (ratchet_message h c) = Inr (h, c)"
proof -
  have "frame_decode (usize_max K) (ratchet_message h c) = Inr
     (with_field (with_field (with_field (with_field frame_new
        TAG_RATCHET_DH (h_dh h)) TAG_RATCHET_PN (u32_to_be (h_pn h)))
        TAG_RATCHET_N (u32_to_be (h_n h))) TAG_CIPHERTEXT c)"
    unfolding ratchet_message_def
    by (rule frame_decode_encode_ok) (use assms in \<open>simp add: platform_ok_def\<close>)
  then show ?thesis
    using assms(2) by (simp add: parse_message_def require_def tag_defs x25519_pk_from_slice_def
        X25519_LEN_def read_u32_def)
qed

lemma yields_32: "reader_at r (b @ bs) \<Longrightarrow> length b = 32 \<Longrightarrow> yields (read_32 r) b bs"
  unfolding read_32_def by (rule yields_bytes)

lemma yields_u32: "reader_at r (u32_to_be n @ bs) \<Longrightarrow> yields (read_u32_from r) n bs"
  by (rule read_bytes_at [of r "u32_to_be n" bs 4]) (simp_all add: yields_def read_u32_from_def read_u32_def)

lemma yields_opt_32: "reader_at r (opt_bytes x @ bs) \<Longrightarrow> opt_len32 x \<Longrightarrow> yields (read_opt_32 (x \<noteq> None) r) x bs"
  using yields_32 [of r _ bs] by (cases x) (auto simp: yields_def read_opt_32_def opt_bytes_def)

lemma skipped_entry_simp [simp]: "skipped_entry ((d, n), mk) = d @ u32_to_be n @ mk"
  by (simp add: skipped_entry_def)

lemma read_skipped_at:
  assumes "reader_at r (concat (map skipped_entry es))"
    and "list_all (\<lambda>((d, _), mk). length d = 32 \<and> length mk = 32) es"
    and "distinct (map fst (m @ es))"
  shows "read_skipped (length es) r m = Inr (m @ es)"
  using assms
proof (induction es arbitrary: r m)
  case Nil
  then show ?case by simp
next
  case (Cons e es)
  obtain d n mk where e: "e = ((d, n), mk)" by (cases e) auto
  with Cons.prems have at: "reader_at r (d @ u32_to_be n @ mk @ concat (map skipped_entry es))"
    and len: "length d = 32" "length mk = 32" by simp_all
  have upd: "AList.update (d, n) mk m = m @ [((d, n), mk)]"
    using Cons.prems(3) by (intro update_fresh) (auto simp: e map_of_eq_None_iff)
  have ih: "read_skipped (length es) r' (m @ [((d, n), mk)]) = Inr ((m @ [((d, n), mk)]) @ es)"
    if "reader_at r' (concat (map skipped_entry es))" for r'
    using Cons.prems that by (intro Cons.IH) (simp_all add: e)
  have "read_skipped (length (e # es)) r m = Inr (m @ ((d, n), mk) # es)"
    unfolding list.size(4) add_0_right add_Suc_right read_skipped.simps
    by (rule and_then_yields [OF yields_32 [OF at len(1)]], rule and_then_yields [OF yields_u32], assumption,
        rule and_then_yields [OF yields_32 [OF _ len(2)]], assumption, simp only: upd, simp add: ih)
  then show ?case by (simp add: e)
qed

text \<open>The flag byte records which optional keys follow.\<close>

lemma state_flags_bits:
  "(state_flags st AND 0b001 \<noteq> 0) = (dhr st \<noteq> None)"
  "(state_flags st AND 0b010 \<noteq> 0) = (cks st \<noteq> None)"
  "(state_flags st AND 0b100 \<noteq> 0) = (ckr st \<noteq> None)"
  by (cases "dhr st"; cases "cks st"; cases "ckr st"; simp add: state_flags_def)+

definition canonical :: "ratchet_state \<Rightarrow> ratchet_state" where
  "canonical st = st\<lparr>skipped := sort_key fst (skipped st)\<rparr>"

lemma map_of_canonical:
  "skipped_ok (skipped st) \<Longrightarrow> map_of (skipped (canonical st)) = map_of (skipped st)"
  by (simp add: canonical_def skipped_ok_def map_of_sort_key)

lemma state_from_to_bytes:
  assumes "ratchet_ok K st"
  shows "state_from_bytes K (state_to_bytes st) = Inr (canonical st)"
proof -
  let ?es = "sort_key fst (skipped st)" and ?n = "of_nat (length (skipped st)) :: u64"
  from assms have len: "length (dhs st) = 32" "length (rk st) = 32" "opt_len32 (dhr st)"
      "opt_len32 (cks st)" "opt_len32 (ckr st)" and sk: "skipped_ok (skipped st)"
    and dhs: "x25519_from_bytes K (dhs st) = dhs st" "dhs_pub st = x25519_public_key K (dhs st)"
    by (simp_all add: ratchet_ok_def)
  have start: "reader_at (reader_new (state_to_bytes st)) (STATE_VERSION # dhs st @ state_flags st
      # opt_bytes (dhr st) @ rk st @ opt_bytes (cks st) @ opt_bytes (ckr st) @ u32_to_be (ns st)
      @ u32_to_be (nr st) @ u32_to_be (pn st) @ write_varint ?n @ concat (map skipped_entry ?es))"
    using reader_at_new [of "state_to_bytes st"] by (simp add: state_to_bytes_def)
  have n: "unat ?n = length (skipped st)" "length (skipped st) \<le> MAX_STORED_SKIPPED"
    using sk by (simp_all add: skipped_ok_def MAX_STORED_SKIPPED_def unat_of_nat)
  have m: "read_skipped (length (skipped st)) r [] = Inr ?es" if "reader_at r (concat (map skipped_entry ?es))" for r
    using read_skipped_at [OF that, of "[]"] sk by (simp add: skipped_ok_def list_all_iff)
  have dhr: "(case dhr st of None \<Rightarrow> Inr None
      | Some d \<Rightarrow> and_then (x25519_pk_from_slice d) (\<lambda>d'. Inr (Some d'))) = Inr (dhr st)"
    using len(3) by (cases "dhr st") (simp_all add: x25519_pk_from_slice_def X25519_LEN_def)
  note go = and_then_yields [OF yields_32] and_then_yields [OF yields_opt_32] and_then_yields [OF yields_u32]
    and_then_yields [OF yields_varint] and_then_yields [OF yields_u8]
  show ?thesis
    unfolding state_from_bytes_def
    by (rule and_then_yields [OF yields_u8 [OF start]], simp only: simp_thms if_False,
        (rule go, assumption, (rule len)?, (simp only: state_flags_bits dhr and_then_Inr)?)+)
      (use n in \<open>simp add: m Let_def dhs canonical_def not_less\<close>)
qed

text \<open>Whatever loads is a well-formed session.\<close>

lemma read_32_length: "read_32 r = Inr (b, r') \<Longrightarrow> length b = 32"
  by (auto simp: read_32_def read_bytes_def Let_def split: if_splits)

lemma read_opt_32_length: "read_opt_32 p r = Inr (x, r') \<Longrightarrow> opt_len32 x"
  by (auto simp: read_opt_32_def dest: read_32_length split: if_splits)

lemma read_skipped_ok:
  assumes "read_skipped k r m = Inr m'" and "skipped_ok m" and "length m + k \<le> MAX_STORED_SKIPPED"
  shows "skipped_ok m'"
  using assms
proof (induction k r m rule: read_skipped.induct)
  case (2 k r m)
  from "2.prems"(1) obtain d r1 n r2 mk r3 where rd: "read_32 r = Inr (d, r1)"
    "read_u32_from r1 = Inr (n, r2)" "read_32 r2 = Inr (mk, r3)"
    "read_skipped k r3 (AList.update (d, n) mk m) = Inr m'" by auto
  from rd have len: "length d = 32" "length mk = 32" by (auto dest: read_32_length)
  have "skipped_ok (AList.update (d, n) mk m)"
    using "2.prems"(2,3) len by (intro skipped_ok_update) simp_all
  moreover have "length (AList.update (d, n) mk m) + k \<le> MAX_STORED_SKIPPED"
    using "2.prems"(3) length_update [of "(d, n)" mk m] by simp
  ultimately show ?case using "2.IH" rd by blast
qed simp

lemma state_from_bytes_ok:
  assumes "x25519_laws K" and "state_from_bytes K b = Inr st"
  shows "ratchet_ok K st"
proof -
  note key = x25519_lengths(2) [OF assms(1)]
    x25519_from_generate [OF assms(1), unfolded x25519_generate_def x25519_from_bytes_def [symmetric]]
  from assms(2) show ?thesis
    unfolding state_from_bytes_def Let_def
  proof (elim and_then_pairE and_thenE if_okE, goal_cases)
    case (1 version r1 secret r2 fl r3 dhr' r4 dhr'' root r5 cks' r6 ckr' r7 ns' r8 nr' r9 pn' r10 count r11 m)
    have "dhr'' = dhr'" using 1(6) by (cases dhr') auto
    moreover have "skipped_ok m" using read_skipped_ok [OF 1(15)] 1(14) by simp
    moreover note 1(3) [THEN read_32_length] 1(5) [THEN read_opt_32_length] 1(7) [THEN read_32_length]
      1(8) [THEN read_opt_32_length] 1(9) [THEN read_opt_32_length]
    ultimately show ?case using 1(16) key by (auto simp: ratchet_ok_def)
  qed
qed

interpretation state_codec: codec True state_to_bytes "state_from_bytes K"
    "\<lambda>st. ratchet_ok K st \<and> canonical st = st" for K
  by unfold_locales (simp add: state_from_to_bytes)

subsection \<open>Sessions that differ in the order of the hash map only\<close>

definition same_session :: "ratchet_state \<Rightarrow> ratchet_state \<Rightarrow> bool" where
  "same_session st st' \<longleftrightarrow>
     (\<exists>m. st' = st\<lparr>skipped := m\<rparr> \<and> map_of m = map_of (skipped st)
        \<and> distinct (map fst m) \<and> distinct (map fst (skipped st)))"

lemma same_session_length:
  assumes "map_of m = map_of m'" and "distinct (map fst m)" and "distinct (map fst m')"
  shows "length m = length m'"
proof -
  have "fst ` set m = fst ` set m'" using assms(1) by (metis dom_map_of_conv_image_fst)
  then show ?thesis using assms(2,3) by (metis distinct_card length_map set_map)
qed

lemma same_session_canonical: "skipped_ok (skipped st) \<Longrightarrow> same_session st (canonical st)"
  by (auto simp: same_session_def canonical_def skipped_ok_def map_of_sort_key)

lemma sort_key_map_of:
  fixes m m' :: "('a::linorder \<times> 'b) list"
  assumes "map_of m = map_of m'" and "distinct (map fst m)" and "distinct (map fst m')"
  shows "sort_key fst m = sort_key fst m'"
proof -
  have "set m = set m'" using assms map_of_inject_set by blast
  moreover have "distinct m" "distinct m'" using assms(2,3) by (simp_all add: distinct_map)
  ultimately have "mset m = mset m'" by (simp add: set_eq_iff_mset_eq_distinct)
  moreover have f: "filter (\<lambda>x. fst k = fst x) xs = [k]" if "k \<in> set xs" "distinct (map fst xs)"
    for k :: "'a \<times> 'b" and xs
    using that by (induction xs) (auto simp: filter_empty_conv image_iff)
  moreover have "filter (\<lambda>x. fst k = fst x) (sort_key fst m') = filter (\<lambda>x. fst k = fst x) m"
    if "k \<in> set m'" for k
    using that assms(2,3) f [of k m] f [of k "sort_key fst m'"] \<open>set m = set m'\<close> by simp
  ultimately show ?thesis
    by (intro properties_for_sort_key) simp_all
qed

lemma same_session_bytes:
  assumes "same_session st st'"
  shows "state_to_bytes st' = state_to_bytes st"
proof -
  from assms obtain m where st': "st' = st\<lparr>skipped := m\<rparr>" and "map_of m = map_of (skipped st)"
    "distinct (map fst m)" "distinct (map fst (skipped st))" by (auto simp: same_session_def)
  then have "length m = length (skipped st)" "sort_key fst m = sort_key fst (skipped st)"
    using same_session_length sort_key_map_of by blast+
  then show ?thesis by (simp add: st' state_to_bytes_def state_flags_def)
qed

text \<open>Outcomes: the same result in the same session.\<close>

definition same_outcome :: "ratchet_state \<times> 'r \<Rightarrow> ratchet_state \<times> 'r \<Rightarrow> bool" where
  "same_outcome p q \<longleftrightarrow> same_session (fst p) (fst q) \<and> snd p = snd q"

lemma same_sessionE:
  assumes "same_session st st'"
  obtains m where "st' = st\<lparr>skipped := m\<rparr>" "map_of m = map_of (skipped st)"
    "distinct (map fst m)" "distinct (map fst (skipped st))" "length m = length (skipped st)"
  using assms same_session_length by (auto simp: same_session_def)

lemma same_sessionI:
  assumes "st' = st\<lparr>skipped := m\<rparr>" "map_of m = map_of (skipped st)"
    "distinct (map fst m)" "distinct (map fst (skipped st))"
  shows "same_session st st'"
  using assms by (auto simp: same_session_def)

lemma same_session_update:
  assumes "same_session st st'"
  shows "same_session (st\<lparr>skipped := AList.update k v (skipped st)\<rparr>)
           (st'\<lparr>skipped := AList.update k v (skipped st')\<rparr>)"
    and "same_session (st\<lparr>skipped := AList.delete k (skipped st)\<rparr>)
           (st'\<lparr>skipped := AList.delete k (skipped st')\<rparr>)"
  using assms
  by (auto elim!: same_sessionE intro!: same_sessionI
      simp: update_conv' delete_conv' distinct_update distinct_delete)

lemma same_session_fields:
  assumes "same_session st st'"
  shows "same_session (st\<lparr>ckr := c\<rparr>) (st'\<lparr>ckr := c\<rparr>)" and "same_session (st\<lparr>nr := n\<rparr>) (st'\<lparr>nr := n\<rparr>)"
    and "dhr st' = dhr st" and "ckr st' = ckr st" and "nr st' = nr st"
    and "length (skipped st') = length (skipped st)" and "map_of (skipped st') = map_of (skipped st)"
  using assms by (auto elim!: same_sessionE intro!: same_sessionI [where m = "skipped st'"])

lemma same_outcome_then_do:
  assumes "same_outcome p q"
    and "\<And>s s' x. same_session s s' \<Longrightarrow> same_outcome (f s x) (f s' x)"
  shows "same_outcome (then_do p f) (then_do q f)"
  using assms by (cases p; cases q; cases "snd p") (auto simp: same_outcome_def)

lemma same_skip_loop:
  "same_session st st' \<Longrightarrow> same_outcome (skip_loop K d until ck st) (skip_loop K d until ck st')"
proof (induction K d until ck st arbitrary: st' rule: skip_loop.induct)
  case (1 K d until ck st)
  obtain c' mk where ck: "kdf_ck K ck = (c', mk)" by force
  let ?next = "\<lambda>s. s\<lparr>ckr := Some c', skipped := AList.update (d, nr s) mk (skipped s), nr := nr s + 1\<rparr>"
  note f = same_session_fields [OF "1.prems"]
  have "same_session (?next st) (?next st')"
    using same_session_fields(2) [OF same_session_update(1) [OF f(1)], of "nr st + 1" "(d, nr st)" mk "Some c'"]
    by (simp add: f)
  then have rec: "nr st < until \<Longrightarrow> length (skipped st) < MAX_STORED_SKIPPED \<Longrightarrow>
      same_outcome (skip_loop K d until c' (?next st)) (skip_loop K d until c' (?next st'))"
    using "1.IH" [OF _ refl ck [symmetric] refl] by simp
  show ?case
  proof (cases "nr st < until \<and> length (skipped st) < MAX_STORED_SKIPPED")
    case True
    with rec show ?thesis
      by (subst skip_loop.simps, subst (2) skip_loop.simps) (simp add: ck f)
  next
    case False
    then show ?thesis using f(1) "1.prems"
      by (subst skip_loop.simps, subst (2) skip_loop.simps) (auto simp: ck f same_outcome_def)
  qed
qed

lemma same_skip_message_keys:
  "same_session st st' \<Longrightarrow> same_outcome (skip_message_keys K until st) (skip_message_keys K until st')"
  using same_skip_loop
  by (auto simp: skip_message_keys_def same_session_fields same_outcome_def split: option.splits)

lemma same_turn_if_new:
  assumes "same_session st st'"
  shows "same_outcome (turn_if_new K rnd st h) (turn_if_new K rnd st' h)"
proof -
  have "same_session (dh_ratchet K rnd h s) (dh_ratchet K rnd h s')" if "same_session s s'" for s s'
    using that by (elim same_sessionE, intro same_sessionI)
      (auto simp: dh_ratchet_def Let_def case_prod_beta intro: ratchet_state.equality)
  then show ?thesis
    using assms unfolding turn_if_new_def
    by (auto simp: same_session_fields intro!: same_outcome_then_do same_skip_message_keys)
      (simp_all add: same_outcome_def)
qed

lemma same_decrypt:
  assumes "same_session st st'"
  shows "same_outcome (decrypt K rnd st b) (decrypt K rnd st' b)"
proof -
  have last: "same_outcome (open_next K s h c) (open_next K s' h c)" if "same_session s s'" for s s' h c
    using that same_session_fields [OF same_session_fields(1) [OF that]]
    by (auto simp: open_next_def same_session_fields same_outcome_def Let_def split: option.splits prod.splits)
  have "same_outcome (decrypt_parsed K rnd st h c) (decrypt_parsed K rnd st' h c)" for h c
    unfolding decrypt_parsed_def same_session_fields(7) [OF assms]
    using same_session_update(2) [OF assms] assms
    by (cases "map_of (skipped st) (h_dh h, h_n h)")
      (auto simp: same_outcome_def [of "(_, _)"] intro!: same_outcome_then_do same_turn_if_new
        same_skip_message_keys last)
  then show ?thesis
    using assms by (auto simp: decrypt_def same_outcome_def split: sum.splits)
qed

end
