(* ===== verification/Ratchet_Session.thy ===== *)
theory Ratchet_Session
  imports Ratchet
begin

text \<open>
  Two parties running the Double Ratchet over an asynchronous network that may delay,
  reorder and drop messages. A step relation composes the model's \<open>encrypt\<close> and
  \<open>decrypt\<close>; the invariant, kept by every step, says where each message in flight will
  find its key. The result is that every message in flight opens to its plaintext.
\<close>

section \<open>Chains\<close>

fun ck_at :: "prims \<Rightarrow> bytes \<Rightarrow> nat \<Rightarrow> bytes" where
  "ck_at K c 0 = c"
| "ck_at K c (Suc n) = fst (kdf_ck K (ck_at K c n))"

definition mk_at :: "prims \<Rightarrow> bytes \<Rightarrow> nat \<Rightarrow> bytes" where
  "mk_at K c n = snd (kdf_ck K (ck_at K c n))"

lemma kdf_ck_at: "kdf_ck K (ck_at K c n) = (ck_at K c (Suc n), mk_at K c n)"
  by (simp add: mk_at_def)

text \<open>
  The effect of skipping from \<open>nr st\<close> to \<open>until\<close> along the chain with root \<open>c\<close>: the keys in
  between are banked under the remote ratchet key, nothing else changes.
\<close>

definition banked :: "prims \<Rightarrow> bytes \<Rightarrow> bytes \<Rightarrow> u32 \<Rightarrow> u32 \<Rightarrow> skipped_map \<Rightarrow> skipped_map \<Rightarrow> bool" where
  "banked K c d from until m m' \<longleftrightarrow>
     length m' = length m + (unat until - unat from)
   \<and> (\<forall>e n. map_of m' (e, n) =
        (if e = d \<and> from \<le> n \<and> n < until then Some (mk_at K c (unat n)) else map_of m (e, n)))"

lemma banked_refl: "until \<le> from \<Longrightarrow> banked K c d from until m m"
  by (auto simp: banked_def word_le_nat_alt word_less_nat_alt)

lemma banked_step:
  assumes "from < until" and "map_of m (d, from) = None"
    and "banked K c d (from + 1) until (AList.update (d, from) (mk_at K c (unat from)) m) m'"
  shows "banked K c d from until m m'"
proof -
  have nx: "unat (from + 1) = Suc (unat from)" using assms(1) by (rule unat_next_u32)
  have le: "from + 1 \<le> n \<longleftrightarrow> from \<le> n \<and> n \<noteq> from" for n
    using nx by (auto simp: word_le_nat_alt word_unat_eq_iff)
  have "length (AList.update (d, from) v m) = Suc (length m)" for v
    using assms(2) by (simp add: update_fresh)
  then show ?thesis
    using assms nx by (auto simp: banked_def update_conv' le word_less_nat_alt)
qed

lemma skip_loop_chain:
  assumes "ckr st = Some (ck_at K c (unat (nr st)))" and "nr st \<le> until"
    and "length (skipped st) + (unat until - unat (nr st)) \<le> MAX_STORED_SKIPPED"
    and "\<And>n. nr st \<le> n \<Longrightarrow> map_of (skipped st) (d, n) = None"
  shows "\<exists>m. skip_loop K d until (ck_at K c (unat (nr st))) st
           = (st\<lparr>ckr := Some (ck_at K c (unat until)), nr := until, skipped := m\<rparr>, Inr ())
         \<and> banked K c d (nr st) until (skipped st) m"
  using assms
proof (induction "unat until - unat (nr st)" arbitrary: st)
  case 0
  then have "nr st = until" by (simp add: word_le_nat_alt word_unat_eq_iff)
  with 0 show ?case
    by (intro exI [of _ "skipped st"], subst skip_loop.simps) (simp add: banked_refl)
next
  case (Suc k)
  let ?c = "ck_at K c (unat (nr st))"
  let ?st = "st\<lparr>ckr := Some (ck_at K c (Suc (unat (nr st)))),
      skipped := AList.update (d, nr st) (mk_at K c (unat (nr st))) (skipped st), nr := nr st + 1\<rparr>"
  from Suc.hyps(2) have lt: "nr st < until" by (simp add: word_less_nat_alt)
  then have nx: "unat (nr st + 1) = Suc (unat (nr st))" by (rule unat_next_u32)
  have upd: "AList.update (d, nr st) v (skipped st) = skipped st @ [((d, nr st), v)]" for v
    using Suc.prems(4) by (intro update_fresh) simp
  have room: "length (skipped st) < MAX_STORED_SKIPPED" using Suc.prems(3) Suc.hyps(2) by simp
  then have "skip_loop K d until ?c st = skip_loop K d until (ck_at K c (unat (nr ?st))) ?st"
    using lt by (subst skip_loop.simps) (simp add: kdf_ck_at nx del: ck_at.simps)
  moreover have "\<exists>m. skip_loop K d until (ck_at K c (unat (nr ?st))) ?st
      = (?st\<lparr>ckr := Some (ck_at K c (unat until)), nr := until, skipped := m\<rparr>, Inr ())
      \<and> banked K c d (nr ?st) until (skipped ?st) m"
  proof (rule Suc.hyps(1), goal_cases)
    case 4
    then show ?case using lt nx Suc.hyps(2) Suc.prems(3) by (simp add: upd)
  next
    case (5 n)
    then have "nr st \<le> n" "n \<noteq> nr st" using nx by (auto simp: word_le_nat_alt)
    then show ?case using Suc.prems(4) by (simp add: update_conv')
  qed (use Suc.hyps(2) nx lt in \<open>simp_all add: word_le_nat_alt word_less_nat_alt del: ck_at.simps\<close>)
  ultimately show ?case
    using banked_step [OF lt Suc.prems(4)] by (fastforce simp del: ck_at.simps)
qed

lemma skip_message_keys_chain:
  assumes "dhr st = Some d" and "ckr st = Some (ck_at K c (unat (nr st)))" and "nr st \<le> until"
    and "unat until \<le> unat (nr st) + 1000"
    and "length (skipped st) + (unat until - unat (nr st)) \<le> MAX_STORED_SKIPPED"
    and "\<And>n. nr st \<le> n \<Longrightarrow> map_of (skipped st) (d, n) = None"
  obtains m where "skip_message_keys K until st
      = (st\<lparr>ckr := Some (ck_at K c (unat until)), nr := until, skipped := m\<rparr>, Inr ())"
    "banked K c d (nr st) until (skipped st) m"
proof -
  have "unat until \<le> unat (saturating_add (nr st) MAX_SKIP)"
    using assms(4) unat_u32_less [of until] by (simp add: unat_saturating_add MAX_SKIP_def)
  then have "\<not> until > saturating_add (nr st) MAX_SKIP" by (simp add: word_less_nat_alt)
  with that show thesis
    using skip_loop_chain [OF assms(2,3,5,6)] assms(1,2) by (auto simp: skip_message_keys_def)
qed

section \<open>Messages in flight\<close>

text \<open>\<open>R\<close> maps a ratchet public key to the root of the chain its owner sends on.\<close>

definition sealed_msg :: "prims \<Rightarrow> (bytes \<Rightarrow> bytes) \<Rightarrow> header \<Rightarrow> bytes \<Rightarrow> bytes \<Rightarrow> bool" where
  "sealed_msg K R h p msg \<longleftrightarrow>
     (\<exists>c. seal K (fst (message_keys K (mk_at K (R (h_dh h)) (unat (h_n h)))))
              (snd (message_keys K (mk_at K (R (h_dh h)) (unat (h_n h))))) (to_aad h) p = Inr c
        \<and> length c < 2 ^ 32 \<and> length (h_dh h) = 32 \<and> msg = ratchet_message h c)"

definition msg_key :: "prims \<Rightarrow> bytes \<Rightarrow> bytes \<times> u32" where
  "msg_key K msg = (case parse_message K msg of Inr (h, _) \<Rightarrow> (h_dh h, h_n h) | Inl _ \<Rightarrow> ([], 0))"

lemma session_laws_simps:
  assumes "session_laws K"
  shows "platform_ok K" "hkdf_laws K" "x25519_laws K" "aead_laws K"
  using assms by (simp_all add: session_laws_def)

lemma sealed_msgE:
  assumes "session_laws K" and "sealed_msg K R h p msg"
  obtains c where "parse_message K msg = Inr (h, c)" "msg_key K msg = (h_dh h, h_n h)"
    "open_message K (mk_at K (R (h_dh h)) (unat (h_n h))) (to_aad h) c = Inr p"
proof -
  from assms(2) obtain c where c: "seal K (fst (message_keys K (mk_at K (R (h_dh h)) (unat (h_n h)))))
      (snd (message_keys K (mk_at K (R (h_dh h)) (unat (h_n h))))) (to_aad h) p = Inr c"
    "length c < 2 ^ 32" "length (h_dh h) = 32" "msg = ratchet_message h c"
    by (auto simp: sealed_msg_def)
  have "parse_message K msg = Inr (h, c)"
    using c parse_ratchet_message session_laws_simps(1) [OF assms(1)] by blast
  moreover have "open_message K (mk_at K (R (h_dh h)) (unat (h_n h))) (to_aad h) c = Inr p"
    using open_seal [OF session_laws_simps(4) [OF assms(1)] c(1)]
    by (simp add: open_message_def case_prod_beta)
  ultimately show thesis by (intro that) (simp_all add: msg_key_def)
qed

lemma sealed_msg_upd: "d' \<noteq> h_dh h \<Longrightarrow> sealed_msg K (R(d' := x)) h p msg = sealed_msg K R h p msg"
  by (simp add: sealed_msg_def)

lemma encrypt_sealed:
  assumes "session_laws K" and "ratchet_ok K st" and "cks st = Some (ck_at K (R (dhs_pub st)) (unat (ns st)))"
    and "length p + 16 < 2 ^ 32" and "encrypt K st p = (st', Inr msg)"
  shows "st' = st\<lparr>cks := Some (ck_at K (R (dhs_pub st)) (Suc (unat (ns st)))), ns := ns st + 1\<rparr>"
    and "sealed_msg K R \<lparr>h_dh = dhs_pub st, h_pn = pn st, h_n = ns st\<rparr> p msg"
proof -
  have len: "length (dhs_pub st) = 32"
    using assms(2) x25519_lengths(3) [OF session_laws_simps(3) [OF assms(1)]] by (simp add: ratchet_ok_def)
  note enc = assms(5) [unfolded encrypt_def assms(3) option.case kdf_ck_at Let_def split]
  show "st' = st\<lparr>cks := Some (ck_at K (R (dhs_pub st)) (Suc (unat (ns st)))), ns := ns st + 1\<rparr>"
    using enc by (auto simp: case_prod_beta)
  show "sealed_msg K R \<lparr>h_dh = dhs_pub st, h_pn = pn st, h_n = ns st\<rparr> p msg"
    using enc len assms(4) seal_length [OF session_laws_simps(4) [OF assms(1)]]
    by (fastforce simp: case_prod_beta sealed_msg_def)
qed

section \<open>Receiving\<close>

lemma open_next_chain:
  "ckr st = Some (ck_at K c n) \<Longrightarrow>
     open_next K st h ct = (st\<lparr>ckr := Some (ck_at K c (Suc n)), nr := nr st + 1\<rparr>,
       open_message K (mk_at K c n) (to_aad h) ct)"
  by (simp add: open_next_def kdf_ck_at del: ck_at.simps)

text \<open>The receiver \<open>r\<close> follows the chain \<open>d\<close>, of which \<open>len\<close> messages have been sent.\<close>

definition on_chain :: "prims \<Rightarrow> (bytes \<Rightarrow> bytes) \<Rightarrow> ratchet_state \<Rightarrow> bytes \<Rightarrow> u32 \<Rightarrow> bool" where
  "on_chain K R r d len \<longleftrightarrow> dhr r = Some d \<and> ckr r = Some (ck_at K (R d) (unat (nr r)))
     \<and> nr r \<le> len \<and> (\<forall>n. nr r \<le> n \<longrightarrow> map_of (skipped r) (d, n) = None)"

definition off_chain :: "ratchet_state \<Rightarrow> bool" where
  "off_chain r \<longleftrightarrow> ckr r = None \<and> skipped r = [] \<and> nr r = 0"

lemma receive_current:
  assumes "on_chain K R r d len" and "nr r \<le> h_n h" and "h_n h < len" and "unat len \<le> 1000"
    and "length (skipped r) + (unat len - unat (nr r)) \<le> 2000"
  obtains m where "then_do (skip_message_keys K (h_n h) r) (\<lambda>st3 _. open_next K st3 h ct)
      = (r\<lparr>ckr := Some (ck_at K (R d) (unat (h_n h + 1))), nr := h_n h + 1, skipped := m\<rparr>,
         open_message K (mk_at K (R d) (unat (h_n h))) (to_aad h) ct)"
    "banked K (R d) d (nr r) (h_n h) (skipped r) m"
proof -
  have lt: "unat (h_n h) < unat len" using assms(3) by (simp add: word_less_nat_alt)
  then have nx: "unat (h_n h + 1) = Suc (unat (h_n h))" using assms(4) by (intro unat_Suc_u32) auto
  obtain m where m: "skip_message_keys K (h_n h) r
      = (r\<lparr>ckr := Some (ck_at K (R d) (unat (h_n h))), nr := h_n h, skipped := m\<rparr>, Inr ())"
    "banked K (R d) d (nr r) (h_n h) (skipped r) m"
    by (rule skip_message_keys_chain [of r d K "R d" "h_n h"])
      (use assms lt in \<open>auto simp: on_chain_def MAX_STORED_SKIPPED_def\<close>)
  show thesis
    by (rule that [OF _ m(2)]) (simp add: m(1) open_next_chain nx del: ck_at.simps)
qed

lemma on_chain_receive:
  assumes "on_chain K R r d len" and "h_n h < len" and "unat len \<le> 1000" and "nr r \<le> h_n h"
    and "banked K (R d) d (nr r) (h_n h) (skipped r) m"
    and "r' = r\<lparr>ckr := Some (ck_at K (R d) (unat (h_n h + 1))), nr := h_n h + 1, skipped := m\<rparr>"
  shows "on_chain K R r' d len"
proof -
  have lt: "unat (h_n h) < unat len" using assms(2) by (simp add: word_less_nat_alt)
  then have nx: "unat (h_n h + 1) = Suc (unat (h_n h))" using assms(3) by (intro unat_Suc_u32) auto
  then show ?thesis
    using assms(1,4,5) lt by (auto simp: assms(6) on_chain_def banked_def word_le_nat_alt word_less_nat_alt)
qed

section \<open>The session invariant\<close>

text \<open>
  One party, \<open>X\<close>, is always ahead: it holds the peer's current ratchet key, and its own has
  not been seen. \<open>nX\<close> and \<open>nY\<close> are the messages in flight from \<open>X\<close> and from \<open>Y\<close>, \<open>cX\<close> and
  \<open>cY\<close> count what each has sent, \<open>U\<close> collects the ratchet keys ever published.
\<close>

definition banked_key :: "prims \<Rightarrow> (bytes \<Rightarrow> bytes) \<Rightarrow> ratchet_state \<Rightarrow> header \<Rightarrow> bool" where
  "banked_key K R r h \<longleftrightarrow>
     map_of (skipped r) (h_dh h, h_n h) = Some (mk_at K (R (h_dh h)) (unat (h_n h)))"

definition flight_to_ahead ::
    "prims \<Rightarrow> (bytes \<Rightarrow> bytes) \<Rightarrow> bytes set \<Rightarrow> ratchet_state \<Rightarrow> ratchet_state \<Rightarrow> bytes \<times> bytes \<Rightarrow> bool" where
  "flight_to_ahead K R U X Y e \<longleftrightarrow> (\<exists>h. sealed_msg K R h (snd e) (fst e) \<and> h_dh h \<in> U
     \<and> (banked_key K R X h \<or> h_dh h = dhs_pub Y \<and> nr X \<le> h_n h \<and> h_n h < ns Y))"

definition flight_from_ahead ::
    "prims \<Rightarrow> (bytes \<Rightarrow> bytes) \<Rightarrow> bytes set \<Rightarrow> ratchet_state \<Rightarrow> ratchet_state \<Rightarrow> bytes \<times> bytes \<Rightarrow> bool" where
  "flight_from_ahead K R U X Y e \<longleftrightarrow> (\<exists>h. sealed_msg K R h (snd e) (fst e) \<and> h_dh h \<in> U
     \<and> (banked_key K R Y h
        \<or> dhr Y = Some (h_dh h) \<and> ckr Y \<noteq> None \<and> h_dh h \<noteq> dhs_pub X \<and> nr Y \<le> h_n h \<and> h_n h < pn X
        \<or> h_dh h = dhs_pub X \<and> h_pn h = pn X \<and> h_n h < ns X))"

definition skipped_in :: "bytes set \<Rightarrow> ratchet_state \<Rightarrow> bool" where
  "skipped_in U r \<longleftrightarrow> (\<forall>e n. map_of (skipped r) (e, n) \<noteq> None \<longrightarrow> e \<in> U)"

definition root_agreed :: "prims \<Rightarrow> (bytes \<Rightarrow> bytes) \<Rightarrow> ratchet_state \<Rightarrow> ratchet_state \<Rightarrow> bool" where
  "root_agreed K R X Y \<longleftrightarrow> ratchet_ok K X \<and> ratchet_ok K Y
     \<and> dhr X = Some (dhs_pub Y) \<and> cks X = Some (ck_at K (R (dhs_pub X)) (unat (ns X)))
     \<and> kdf_rk K (rk Y) (diffie_hellman K (dhs X) (dhs_pub Y)) = (rk X, R (dhs_pub X))"

definition ahead_receives :: "prims \<Rightarrow> (bytes \<Rightarrow> bytes) \<Rightarrow> ratchet_state \<Rightarrow> ratchet_state \<Rightarrow> bool" where
  "ahead_receives K R X Y \<longleftrightarrow>
     on_chain K R X (dhs_pub Y) (ns Y) \<and> cks Y = Some (ck_at K (R (dhs_pub Y)) (unat (ns Y)))
   \<or> off_chain X \<and> cks Y = None \<and> ns Y = 0"

definition behind_receives ::
    "prims \<Rightarrow> (bytes \<Rightarrow> bytes) \<Rightarrow> bytes set \<Rightarrow> ratchet_state \<Rightarrow> ratchet_state \<Rightarrow> bool" where
  "behind_receives K R U X Y \<longleftrightarrow> dhr Y \<noteq> Some (dhs_pub X)
     \<and> (\<forall>n. map_of (skipped Y) (dhs_pub X, n) = None)
     \<and> ((\<exists>d \<in> U. on_chain K R Y d (pn X)) \<or> off_chain Y \<and> pn X = 0)"

definition within_budget :: "ratchet_state \<Rightarrow> ratchet_state \<Rightarrow> nat \<Rightarrow> nat \<Rightarrow> bool" where
  "within_budget X Y cX cY \<longleftrightarrow>
     length (skipped Y) + (unat (pn X) - unat (nr Y)) + unat (ns X) \<le> cX
   \<and> length (skipped X) + (unat (ns Y) - unat (nr X)) \<le> cY
   \<and> unat (pn X) \<le> cX \<and> unat (ns Y) \<le> cY \<and> cX \<le> 1000 \<and> cY \<le> 1000"

definition distinct_keys :: "prims \<Rightarrow> (bytes \<times> bytes) list \<Rightarrow> bool" where
  "distinct_keys K es \<longleftrightarrow> distinct (map (msg_key K \<circ> fst) es)"

definition linked :: "prims \<Rightarrow> (bytes \<Rightarrow> bytes) \<Rightarrow> bytes set \<Rightarrow> ratchet_state \<Rightarrow> ratchet_state \<Rightarrow>
    (bytes \<times> bytes) list \<Rightarrow> (bytes \<times> bytes) list \<Rightarrow> nat \<Rightarrow> nat \<Rightarrow> bool" where
  "linked K R U X Y nX nY cX cY \<longleftrightarrow>
     root_agreed K R X Y \<and> ahead_receives K R X Y \<and> behind_receives K R U X Y
   \<and> skipped_in U X \<and> skipped_in U Y \<and> dhs_pub X \<in> U \<and> dhs_pub Y \<in> U
   \<and> list_all (flight_from_ahead K R U X Y) nX \<and> list_all (flight_to_ahead K R U X Y) nY
   \<and> distinct_keys K nX \<and> distinct_keys K nY \<and> within_budget X Y cX cY"

lemmas linked_parts = root_agreed_def ahead_receives_def behind_receives_def skipped_in_def
  within_budget_def

lemma distinct_keys_snoc:
  "distinct_keys K (es @ [(msg, p)]) \<longleftrightarrow>
     distinct_keys K es \<and> (\<forall>e \<in> set es. msg_key K (fst e) \<noteq> msg_key K msg)"
  by (simp add: distinct_keys_def image_iff) metis

lemma distinct_keys_remove:
  assumes "distinct_keys K (xs @ (msg, p) # ys)"
  shows "distinct_keys K (xs @ ys)" and "\<And>e. e \<in> set (xs @ ys) \<Longrightarrow> msg_key K (fst e) \<noteq> msg_key K msg"
  using assms by (simp_all add: distinct_keys_def image_iff) metis

subsection \<open>Sending\<close>

lemma msg_key_sealed: "session_laws K \<Longrightarrow> sealed_msg K R h p msg \<Longrightarrow> msg_key K msg = (h_dh h, h_n h)"
  by (erule (1) sealed_msgE)

lemma linked_send_ahead:
  assumes "session_laws K" and "linked K R U X Y nX nY cX cY" and "encrypt K X p = (X', Inr msg)"
    and "length p + 16 < 2 ^ 32" and "cX < 1000"
  shows "linked K R U X' Y (nX @ [(msg, p)]) nY (Suc cX) cY"
proof -
  let ?h = "\<lparr>h_dh = dhs_pub X, h_pn = pn X, h_n = ns X\<rparr>"
  note l = assms(2) [unfolded linked_def]
  have X': "X' = X\<lparr>cks := Some (ck_at K (R (dhs_pub X)) (Suc (unat (ns X)))), ns := ns X + 1\<rparr>"
    and sealed: "sealed_msg K R ?h p msg"
    using encrypt_sealed [OF assms(1) _ _ assms(4,3)] l by (auto simp: root_agreed_def)
  have "unat (ns X) \<le> cX" using l by (simp add: within_budget_def)
  then have nx: "unat (ns X + 1) = Suc (unat (ns X))" using assms(5) by (intro unat_Suc_u32) auto
  have ok: "ratchet_ok K X'"
    using encrypt_ok [of K X p] session_laws_simps(2) [OF assms(1)] l assms(3) by (simp add: root_agreed_def)
  have old: "flight_from_ahead K R U X' Y e" if "flight_from_ahead K R U X Y e" for e
    using that nx by (auto simp: X' flight_from_ahead_def word_less_nat_alt less_Suc_eq)
  have fresh: "msg_key K (fst e) \<noteq> (dhs_pub X, ns X)" if "e \<in> set nX" for e
  proof -
    have "flight_from_ahead K R U X Y e" using that l by (auto simp: list_all_iff)
    then show ?thesis
      using l msg_key_sealed [OF assms(1)]
      by (fastforce simp: flight_from_ahead_def banked_key_def behind_receives_def)
  qed
  have "distinct_keys K (nX @ [(msg, p)])"
    using l fresh msg_key_sealed [OF assms(1) sealed] by (simp add: distinct_keys_snoc)
  moreover have "list_all (flight_from_ahead K R U X' Y) (nX @ [(msg, p)])"
    using l sealed nx old by (auto simp: X' list_all_iff flight_from_ahead_def [of _ _ _ _ _ "(msg, p)"]
        word_less_nat_alt intro!: exI [of _ ?h])
  moreover have "flight_to_ahead K R U X' Y = flight_to_ahead K R U X Y"
    by (simp add: fun_eq_iff X' flight_to_ahead_def banked_key_def)
  ultimately show ?thesis
    using l ok nx assms(5) unfolding linked_def
    by (auto simp: X' linked_parts on_chain_def off_chain_def)
qed

lemma linked_send_behind:
  assumes "session_laws K" and "linked K R U X Y nX nY cX cY" and "encrypt K Y p = (Y', Inr msg)"
    and "length p + 16 < 2 ^ 32" and "cY < 1000"
  shows "linked K R U X Y' nX (nY @ [(msg, p)]) cX (Suc cY)"
proof -
  let ?h = "\<lparr>h_dh = dhs_pub Y, h_pn = pn Y, h_n = ns Y\<rparr>"
  note l = assms(2) [unfolded linked_def]
  have "cks Y \<noteq> None" using assms(3) by (cases "cks Y") (auto simp: encrypt_def)
  then have on: "on_chain K R X (dhs_pub Y) (ns Y)" and cks: "cks Y = Some (ck_at K (R (dhs_pub Y)) (unat (ns Y)))"
    using l by (auto simp: ahead_receives_def)
  have Y': "Y' = Y\<lparr>cks := Some (ck_at K (R (dhs_pub Y)) (Suc (unat (ns Y)))), ns := ns Y + 1\<rparr>"
    and sealed: "sealed_msg K R ?h p msg"
    using encrypt_sealed [of K Y R, OF assms(1) _ cks assms(4,3)] l by (auto simp: root_agreed_def)
  have "unat (ns Y) \<le> cY" using l by (simp add: within_budget_def)
  then have nx: "unat (ns Y + 1) = Suc (unat (ns Y))" using assms(5) by (intro unat_Suc_u32) auto
  have ok: "ratchet_ok K Y'"
    using encrypt_ok [of K Y p] session_laws_simps(2) [OF assms(1)] l assms(3) by (simp add: root_agreed_def)
  have old: "flight_to_ahead K R U X Y' e" if "flight_to_ahead K R U X Y e" for e
    using that nx by (auto simp: Y' flight_to_ahead_def word_less_nat_alt less_Suc_eq)
  have fresh: "msg_key K (fst e) \<noteq> (dhs_pub Y, ns Y)" if "e \<in> set nY" for e
  proof -
    have "flight_to_ahead K R U X Y e" using that l by (auto simp: list_all_iff)
    then show ?thesis
      using on msg_key_sealed [OF assms(1)] by (fastforce simp: flight_to_ahead_def banked_key_def on_chain_def)
  qed
  have "distinct_keys K (nY @ [(msg, p)])"
    using l fresh msg_key_sealed [OF assms(1) sealed] by (simp add: distinct_keys_snoc)
  moreover have "list_all (flight_to_ahead K R U X Y') (nY @ [(msg, p)])"
    using l sealed nx on old by (auto simp: Y' list_all_iff flight_to_ahead_def [of _ _ _ _ _ "(msg, p)"]
        word_less_nat_alt on_chain_def intro!: exI [of _ ?h])
  moreover have "flight_from_ahead K R U X Y' = flight_from_ahead K R U X Y"
    by (simp add: fun_eq_iff Y' flight_from_ahead_def banked_key_def)
  moreover have "on_chain K R X (dhs_pub Y) (ns Y + 1)"
    using on nx by (auto simp: on_chain_def word_le_nat_alt)
  ultimately show ?thesis
    using l ok nx assms(5) cks unfolding linked_def
    by (auto simp: Y' linked_parts on_chain_def [of _ _ Y] on_chain_def [of _ _ "Y\<lparr>cks := _\<rparr>"]
        on_chain_def [of _ _ "Y\<lparr>cks := _, ns := _\<rparr>"] off_chain_def)
qed

subsection \<open>Delivering\<close>

text \<open>A message whose key is banked: the key is used up, nothing else moves.\<close>

lemma decrypt_banked:
  assumes "session_laws K" and "sealed_msg K R h p msg" and "banked_key K R r h"
  shows "decrypt K rnd r msg = (r\<lparr>skipped := AList.delete (msg_key K msg) (skipped r)\<rparr>, Inr p)"
  using assms(3) by (rule_tac sealed_msgE [OF assms(1,2)]) (simp add: decrypt_def decrypt_parsed_def banked_key_def)

text \<open>A message of the chain the receiver is on.\<close>

lemma decrypt_on_chain:
  assumes "session_laws K" and "sealed_msg K R h p msg" and "on_chain K R r (h_dh h) len"
    and "nr r \<le> h_n h" and "h_n h < len" and "unat len \<le> 1000"
    and "length (skipped r) + (unat len - unat (nr r)) \<le> 2000"
  obtains m where "decrypt K rnd r msg = (r\<lparr>ckr := Some (ck_at K (R (h_dh h)) (unat (h_n h + 1))),
        nr := h_n h + 1, skipped := m\<rparr>, Inr p)"
    "banked K (R (h_dh h)) (h_dh h) (nr r) (h_n h) (skipped r) m"
proof -
  from assms(1,2) obtain c where c: "parse_message K msg = Inr (h, c)"
    "open_message K (mk_at K (R (h_dh h)) (unat (h_n h))) (to_aad h) c = Inr p" by (rule sealed_msgE)
  from assms(3-7) obtain m where m: "then_do (skip_message_keys K (h_n h) r) (\<lambda>st3 _. open_next K st3 h c)
      = (r\<lparr>ckr := Some (ck_at K (R (h_dh h)) (unat (h_n h + 1))), nr := h_n h + 1, skipped := m\<rparr>,
         open_message K (mk_at K (R (h_dh h)) (unat (h_n h))) (to_aad h) c)"
    "banked K (R (h_dh h)) (h_dh h) (nr r) (h_n h) (skipped r) m" by (rule receive_current)
  have "map_of (skipped r) (h_dh h, h_n h) = None" "dhr r = Some (h_dh h)"
    using assms(3,4) by (simp_all add: on_chain_def)
  then show thesis
    using m c by (intro that [OF _ m(2)]) (simp add: decrypt_def decrypt_parsed_def turn_if_new_def)
qed

text \<open>What a receiver that stays on its chain has to keep for the invariant.\<close>

lemma linked_recv_ahead:
  assumes "linked K R U X Y nX nY cX cY" and "X' = X\<lparr>ckr := a, nr := b, skipped := m\<rparr>"
    and "ratchet_ok K X'" and "ahead_receives K R X' Y" and "skipped_in U X'"
    and "distinct_keys K nY'" and "list_all (flight_to_ahead K R U X' Y) nY'"
    and "length m + (unat (ns Y) - unat b) \<le> length (skipped X) + (unat (ns Y) - unat (nr X))"
  shows "linked K R U X' Y nX nY' cX cY"
proof -
  have "flight_from_ahead K R U X' Y = flight_from_ahead K R U X Y"
    by (simp add: fun_eq_iff assms(2) flight_from_ahead_def)
  moreover have "root_agreed K R X' Y" "behind_receives K R U X' Y" "within_budget X' Y cX cY"
    using assms(1,3,8) unfolding linked_def
    by (simp_all add: assms(2) root_agreed_def behind_receives_def within_budget_def)
  ultimately show ?thesis using assms unfolding linked_def by simp
qed

lemma linked_recv_behind:
  assumes "linked K R U X Y nX nY cX cY" and "Y' = Y\<lparr>ckr := a, nr := b, skipped := m\<rparr>"
    and "ratchet_ok K Y'" and "behind_receives K R U X Y'" and "skipped_in U Y'"
    and "distinct_keys K nX'" and "list_all (flight_from_ahead K R U X Y') nX'"
    and "length m + (unat (pn X) - unat b) \<le> length (skipped Y) + (unat (pn X) - unat (nr Y))"
  shows "linked K R U X Y' nX' nY cX cY"
proof -
  have "flight_to_ahead K R U X Y' = flight_to_ahead K R U X Y"
    by (simp add: fun_eq_iff assms(2) flight_to_ahead_def)
  moreover have "root_agreed K R X Y'" "ahead_receives K R X Y'" "within_budget X Y' cX cY"
    using assms(1,3,8) unfolding linked_def
    by (simp_all add: assms(2) root_agreed_def ahead_receives_def within_budget_def)
  ultimately show ?thesis using assms unfolding linked_def by simp
qed

lemma banked_key_mono:
  assumes "banked K (R d) d from until (skipped r) m"
    and "banked_key K R r h \<or> h_dh h = d \<and> from \<le> h_n h \<and> h_n h < until"
  shows "banked_key K R (r\<lparr>ckr := a, nr := b, skipped := m\<rparr>) h"
  using assms by (auto simp: banked_def banked_key_def)

text \<open>After message \<open>n\<close> of chain \<open>d\<close>, another one still ahead is banked or still ahead.\<close>

lemma flight_advance:
  assumes "banked K (R d) d (nr r) n (skipped r) m" and "n < len" and "(h_dh h, h_n h) \<noteq> (d, n)"
    and "banked_key K R r h \<or> h_dh h = d \<and> nr r \<le> h_n h \<and> h_n h < len"
  shows "banked_key K R (r\<lparr>ckr := a, nr := n + 1, skipped := m\<rparr>) h
    \<or> h_dh h = d \<and> n + 1 \<le> h_n h \<and> h_n h < len"
proof (cases "banked_key K R r h \<or> h_dh h = d \<and> nr r \<le> h_n h \<and> h_n h < n")
  case False
  with assms(3,4) have "h_dh h = d" "n < h_n h" "h_n h < len" by auto
  then show ?thesis using unat_next_u32 [OF assms(2)] by (simp add: word_le_nat_alt word_less_nat_alt)
qed (use banked_key_mono [of K R d, OF assms(1)] in blast)

lemma banked_key_delete:
  "banked_key K R r h \<Longrightarrow> (h_dh h, h_n h) \<noteq> k \<Longrightarrow>
     banked_key K R (r\<lparr>skipped := AList.delete k (skipped r)\<rparr>) h"
  by (simp add: banked_key_def)

lemma skipped_in_banked:
  assumes "skipped_in U r" and "d \<in> U" and "banked K c d from until (skipped r) m"
  shows "skipped_in U (r\<lparr>ckr := a, nr := b, skipped := m\<rparr>)"
  using assms by (auto simp: skipped_in_def banked_def split: if_splits)

lemma skipped_in_delete:
  "skipped_in U r \<Longrightarrow> skipped_in U (r\<lparr>skipped := AList.delete k (skipped r)\<rparr>)"
  by (auto simp: skipped_in_def delete_conv')

lemma on_chain_delete:
  "on_chain K R r d len \<Longrightarrow> on_chain K R (r\<lparr>skipped := AList.delete k (skipped r)\<rparr>) d len"
  by (auto simp: on_chain_def delete_conv')

lemma off_chain_delete: "off_chain r \<Longrightarrow> off_chain (r\<lparr>skipped := AList.delete k (skipped r)\<rparr>)"
  by (simp add: off_chain_def)

lemma decrypt_keeps_ok:
  "session_laws K \<Longrightarrow> ratchet_ok K r \<Longrightarrow> length rnd = 32 \<Longrightarrow> decrypt K rnd r msg = (r', x) \<Longrightarrow> ratchet_ok K r'"
  using decrypt_ok [of K r rnd msg] by (simp add: session_laws_def)

lemma linked_deliver_ahead_banked:
  assumes "session_laws K" and "linked K R U X Y nX (xs @ (msg, p) # ys) cX cY"
    and "ratchet_ok K X'" and h: "sealed_msg K R h p msg" "banked_key K R X h"
    and X': "X' = X\<lparr>skipped := AList.delete (msg_key K msg) (skipped X)\<rparr>"
  shows "linked K R U X' Y nX (xs @ ys) cX cY"
proof -
  note l = assms(2) [unfolded linked_def]
  have dist: "distinct_keys K (xs @ (msg, p) # ys)" using l by blast
  note rest = distinct_keys_remove [OF dist]
  have "flight_to_ahead K R U X' Y e" if e: "e \<in> set (xs @ ys)" for e
  proof -
    have "flight_to_ahead K R U X Y e" using e l by (auto simp: list_all_iff)
    then show ?thesis
      using rest(2) [OF e] msg_key_sealed [OF assms(1)]
      by (fastforce simp: X' flight_to_ahead_def intro: banked_key_delete)
  qed
  moreover have "ahead_receives K R X' Y"
    using l by (auto simp: X' ahead_receives_def on_chain_delete off_chain_delete)
  moreover have "skipped_in U X'" using l by (simp add: X' skipped_in_delete)
  moreover have upd: "X' = X\<lparr>ckr := ckr X, nr := nr X, skipped := AList.delete (msg_key K msg) (skipped X)\<rparr>"
    by (simp add: X')
  ultimately show ?thesis
    by (intro linked_recv_ahead [OF assms(2) upd assms(3) _ _ rest(1)]) (simp_all add: list_all_iff length_delete_le)
qed

lemma linked_deliver_ahead_current:
  assumes "session_laws K" and "linked K R U X Y nX (xs @ (msg, p) # ys) cX cY"
    and "ratchet_ok K X'" and h: "sealed_msg K R h p msg" "h_dh h \<in> U"
    and cur: "h_dh h = dhs_pub Y" "nr X \<le> h_n h" "h_n h < ns Y"
    and on: "on_chain K R X (h_dh h) (ns Y)" and cks: "cks Y = Some (ck_at K (R (dhs_pub Y)) (unat (ns Y)))"
    and m: "banked K (R (h_dh h)) (h_dh h) (nr X) (h_n h) (skipped X) m"
    and X': "X' = X\<lparr>ckr := Some (ck_at K (R (h_dh h)) (unat (h_n h + 1))), nr := h_n h + 1, skipped := m\<rparr>"
  shows "linked K R U X' Y nX (xs @ ys) cX cY"
proof -
  note l = assms(2) [unfolded linked_def]
  note key = msg_key_sealed [OF assms(1)]
  have dist: "distinct_keys K (xs @ (msg, p) # ys)" using l by blast
  note rest = distinct_keys_remove [OF dist]
  have b: "unat (ns Y) \<le> 1000" using l by (auto simp: within_budget_def)
  have nx: "unat (h_n h + 1) = Suc (unat (h_n h))" using cur(3) by (rule unat_next_u32)
  have "flight_to_ahead K R U X' Y e" if e: "e \<in> set (xs @ ys)" for e
  proof -
    have "flight_to_ahead K R U X Y e" using e l by (auto simp: list_all_iff)
    then obtain h' where h': "sealed_msg K R h' (snd e) (fst e)" "h_dh h' \<in> U"
      and c': "banked_key K R X h' \<or> h_dh h' = dhs_pub Y \<and> nr X \<le> h_n h' \<and> h_n h' < ns Y"
      by (auto simp: flight_to_ahead_def)
    have "(h_dh h', h_n h') \<noteq> (h_dh h, h_n h)" using rest(2) [OF e] key h(1) h'(1) by metis
    then have "banked_key K R X' h' \<or> h_dh h' = dhs_pub Y \<and> nr X' \<le> h_n h' \<and> h_n h' < ns Y"
      unfolding X' using flight_advance [of K R "dhs_pub Y" X "h_n h" m "ns Y" h'] m cur c' by simp
    with h' show ?thesis by (auto simp: flight_to_ahead_def)
  qed
  moreover have "ahead_receives K R X' Y"
    using on_chain_receive [OF on cur(3) b cur(2) m X'] cks by (simp add: ahead_receives_def cur(1))
  moreover have "skipped_in U X'" unfolding X' using l h(2) m by (blast intro: skipped_in_banked)
  moreover have "length m + (unat (ns Y) - unat (h_n h + 1)) \<le> length (skipped X) + (unat (ns Y) - unat (nr X))"
    using m cur(2,3) nx by (auto simp: banked_def word_le_nat_alt word_less_nat_alt)
  ultimately show ?thesis
    using linked_recv_ahead [OF assms(2) X' assms(3) _ _ rest(1)] by (simp add: list_all_iff)
qed

lemma linked_deliver_ahead:
  assumes "session_laws K" and "linked K R U X Y nX (xs @ (msg, p) # ys) cX cY"
    and "decrypt K rnd X msg = (X', res)" and "length rnd = 32"
  shows "res = Inr p \<and> linked K R U X' Y nX (xs @ ys) cX cY"
proof -
  note l = assms(2) [unfolded linked_def]
  have okX: "ratchet_ok K X" using l by (simp add: root_agreed_def)
  note ok = decrypt_keeps_ok [OF assms(1) okX assms(4,3)]
  have "flight_to_ahead K R U X Y (msg, p)" using l by simp
  then obtain h where h: "sealed_msg K R h p msg" "h_dh h \<in> U"
    and cases: "banked_key K R X h \<or> h_dh h = dhs_pub Y \<and> nr X \<le> h_n h \<and> h_n h < ns Y"
    by (auto simp: flight_to_ahead_def)
  show ?thesis
  proof (cases "banked_key K R X h")
    case True
    with decrypt_banked [OF assms(1) h(1) True, of rnd] show ?thesis
      using linked_deliver_ahead_banked [OF assms(1,2) ok h(1)] assms(3) by simp
  next
    case False
    with cases have cur: "h_dh h = dhs_pub Y" "nr X \<le> h_n h" "h_n h < ns Y" by auto
    then have "ns Y \<noteq> 0" by auto
    then have on: "on_chain K R X (h_dh h) (ns Y)" and cks: "cks Y = Some (ck_at K (R (dhs_pub Y)) (unat (ns Y)))"
      using l by (auto simp: ahead_receives_def cur)
    have b: "unat (ns Y) \<le> 1000" "length (skipped X) + (unat (ns Y) - unat (nr X)) \<le> 2000"
      using l by (auto simp: within_budget_def)
    obtain m where "decrypt K rnd X msg = (X\<lparr>ckr := Some (ck_at K (R (h_dh h)) (unat (h_n h + 1))),
        nr := h_n h + 1, skipped := m\<rparr>, Inr p)" "banked K (R (h_dh h)) (h_dh h) (nr X) (h_n h) (skipped X) m"
      using decrypt_on_chain [OF assms(1) h(1) on cur(2,3) b] .
    then show ?thesis
      using linked_deliver_ahead_current [OF assms(1,2) ok h cur on cks] assms(3) by simp
  qed
qed

lemma linked_deliver_behind_banked:
  assumes "session_laws K" and "linked K R U X Y (xs @ (msg, p) # ys) nY cX cY"
    and "ratchet_ok K Y'" and h: "sealed_msg K R h p msg" "banked_key K R Y h"
    and Y': "Y' = Y\<lparr>skipped := AList.delete (msg_key K msg) (skipped Y)\<rparr>"
  shows "linked K R U X Y' (xs @ ys) nY cX cY"
proof -
  note l = assms(2) [unfolded linked_def]
  have dist: "distinct_keys K (xs @ (msg, p) # ys)" using l by blast
  note rest = distinct_keys_remove [OF dist]
  have "flight_from_ahead K R U X Y' e" if e: "e \<in> set (xs @ ys)" for e
  proof -
    have "flight_from_ahead K R U X Y e" using e l by (auto simp: list_all_iff)
    then show ?thesis
      using rest(2) [OF e] msg_key_sealed [OF assms(1)]
      by (fastforce simp: Y' flight_from_ahead_def intro: banked_key_delete)
  qed
  moreover have "behind_receives K R U X Y'"
    using l unfolding behind_receives_def Y'
    by (fastforce simp: delete_conv' intro: on_chain_delete off_chain_delete)
  moreover have "skipped_in U Y'" using l by (simp add: Y' skipped_in_delete)
  moreover have upd: "Y' = Y\<lparr>ckr := ckr Y, nr := nr Y, skipped := AList.delete (msg_key K msg) (skipped Y)\<rparr>"
    by (simp add: Y')
  ultimately show ?thesis
    by (intro linked_recv_behind [OF assms(2) upd assms(3) _ _ rest(1)]) (simp_all add: list_all_iff length_delete_le)
qed

lemma linked_deliver_behind_old:
  assumes "session_laws K" and "linked K R U X Y (xs @ (msg, p) # ys) nY cX cY"
    and "ratchet_ok K Y'" and h: "sealed_msg K R h p msg" "h_dh h \<in> U" "h_dh h \<noteq> dhs_pub X"
    and cur: "nr Y \<le> h_n h" "h_n h < pn X" and on: "on_chain K R Y (h_dh h) (pn X)"
    and m: "banked K (R (h_dh h)) (h_dh h) (nr Y) (h_n h) (skipped Y) m"
    and Y': "Y' = Y\<lparr>ckr := Some (ck_at K (R (h_dh h)) (unat (h_n h + 1))), nr := h_n h + 1, skipped := m\<rparr>"
  shows "linked K R U X Y' (xs @ ys) nY cX cY"
proof -
  note l = assms(2) [unfolded linked_def]
  note key = msg_key_sealed [OF assms(1)]
  have dist: "distinct_keys K (xs @ (msg, p) # ys)" using l by blast
  note rest = distinct_keys_remove [OF dist]
  have b: "unat (pn X) \<le> 1000" using l by (auto simp: within_budget_def)
  have nx: "unat (h_n h + 1) = Suc (unat (h_n h))" using cur(2) by (rule unat_next_u32)
  have dhr: "dhr Y = Some (h_dh h)" using on by (simp add: on_chain_def)
  have "flight_from_ahead K R U X Y' e" if e: "e \<in> set (xs @ ys)" for e
  proof -
    have "flight_from_ahead K R U X Y e" using e l by (auto simp: list_all_iff)
    then obtain h' where h': "sealed_msg K R h' (snd e) (fst e)" "h_dh h' \<in> U"
      and c': "(banked_key K R Y h' \<or> h_dh h' = h_dh h \<and> nr Y \<le> h_n h' \<and> h_n h' < pn X)
        \<or> h_dh h' = dhs_pub X \<and> h_pn h' = pn X \<and> h_n h' < ns X"
      by (auto simp: flight_from_ahead_def dhr)
    have ne: "(h_dh h', h_n h') \<noteq> (h_dh h, h_n h)" using rest(2) [OF e] key h(1) h'(1) by metis
    have "banked_key K R Y' h' \<or> h_dh h' = h_dh h \<and> nr Y' \<le> h_n h' \<and> h_n h' < pn X"
      if "banked_key K R Y h' \<or> h_dh h' = h_dh h \<and> nr Y \<le> h_n h' \<and> h_n h' < pn X"
      unfolding Y' using flight_advance [of K R "h_dh h" Y "h_n h" m "pn X" h', OF m cur(2) ne that] by simp
    with c' h' h(3) show ?thesis by (auto simp: flight_from_ahead_def Y' dhr)
  qed
  moreover have "on_chain K R Y' (h_dh h) (pn X)"
    using on cur(2) b cur(1) m Y' by (rule on_chain_receive)
  then have "behind_receives K R U X Y'"
    using l h m by (auto simp: behind_receives_def Y' dhr banked_def)
  moreover have "skipped_in U Y'" unfolding Y' using l h(2) m by (blast intro: skipped_in_banked)
  moreover have "length m + (unat (pn X) - unat (h_n h + 1)) \<le> length (skipped Y) + (unat (pn X) - unat (nr Y))"
    using m cur nx by (auto simp: banked_def word_le_nat_alt word_less_nat_alt)
  ultimately show ?thesis
    using linked_recv_behind [OF assms(2) Y' assms(3) _ _ rest(1)] by (simp add: list_all_iff)
qed

subsection \<open>Turning the ratchet\<close>

text \<open>The receiver finishes its old chain: every message of it still in flight is banked.\<close>

definition closed_chain :: "prims \<Rightarrow> (bytes \<Rightarrow> bytes) \<Rightarrow> bytes set \<Rightarrow> ratchet_state \<Rightarrow> ratchet_state \<Rightarrow>
    skipped_map \<Rightarrow> bool" where
  "closed_chain K R U X Y m \<longleftrightarrow> length m = length (skipped Y) + (unat (pn X) - unat (nr Y))
     \<and> (\<forall>e n. map_of m (e, n) \<noteq> None \<longrightarrow> e \<in> U \<and> e \<noteq> dhs_pub X)
     \<and> (\<forall>h. banked_key K R Y h \<or> dhr Y = Some (h_dh h) \<and> ckr Y \<noteq> None \<and> nr Y \<le> h_n h \<and> h_n h < pn X
          \<longrightarrow> map_of m (h_dh h, h_n h) = Some (mk_at K (R (h_dh h)) (unat (h_n h))))"

lemma closed_chain_in: "closed_chain K R U X Y m \<Longrightarrow> map_of m (e, n) = Some v \<Longrightarrow> e \<in> U"
  unfolding closed_chain_def by blast

lemma close_chain:
  assumes "behind_receives K R U X Y" and "skipped_in U Y" and "within_budget X Y cX cY"
  obtains m c n where "skip_message_keys K (pn X) Y = (Y\<lparr>ckr := c, nr := n, skipped := m\<rparr>, Inr ())"
    "closed_chain K R U X Y m"
proof (cases "off_chain Y")
  case True
  then have off: "ckr Y = None" "skipped Y = []" "nr Y = 0" by (simp_all add: off_chain_def)
  then have "pn X = 0" using assms(1) by (auto simp: behind_receives_def on_chain_def)
  with off show thesis
    by (intro that [of "[]" 0 None]) (auto simp: skip_message_keys_def closed_chain_def banked_key_def split: option.splits)
next
  case False
  then obtain d where d: "d \<in> U" "on_chain K R Y d (pn X)" using assms(1) by (auto simp: behind_receives_def)
  have ne: "d \<noteq> dhs_pub X" using assms(1) d(2) by (auto simp: behind_receives_def on_chain_def)
  obtain m where m: "skip_message_keys K (pn X) Y
      = (Y\<lparr>ckr := Some (ck_at K (R d) (unat (pn X))), nr := pn X, skipped := m\<rparr>, Inr ())"
    "banked K (R d) d (nr Y) (pn X) (skipped Y) m"
    by (rule skip_message_keys_chain [of Y d K "R d" "pn X"])
      (use d assms(3) in \<open>auto simp: on_chain_def within_budget_def MAX_STORED_SKIPPED_def\<close>)
  have "closed_chain K R U X Y m"
    using m(2) d ne assms(1,2)
    by (auto simp: closed_chain_def banked_def banked_key_def on_chain_def behind_receives_def skipped_in_def
        split: if_splits)
  with m(1) that show thesis by blast
qed

text \<open>The state after the DH step, before the message itself.\<close>

definition turned :: "prims \<Rightarrow> (bytes \<Rightarrow> bytes) \<Rightarrow> bytes \<Rightarrow> ratchet_state \<Rightarrow> ratchet_state \<Rightarrow> skipped_map \<Rightarrow>
    ratchet_state" where
  "turned K R rnd X Y m =
     (let secret = x25519_generate K rnd; rc = kdf_rk K (rk X) (diffie_hellman K secret (dhs_pub X))
      in \<lparr>dhs = secret, dhs_pub = x25519_public_key K secret, dhr = Some (dhs_pub X), rk = fst rc,
          cks = Some (snd rc), ckr = Some (R (dhs_pub X)), ns = 0, nr = 0, pn = ns Y, skipped = m\<rparr>)"

lemma turn_if_new_turned:
  assumes "x25519_laws K" and "root_agreed K R X Y" and "dhr Y \<noteq> Some (dhs_pub X)"
    and "h_dh h = dhs_pub X" and "h_pn h = pn X"
    and "skip_message_keys K (pn X) Y = (Y\<lparr>ckr := c, nr := n, skipped := m\<rparr>, Inr ())"
  shows "turn_if_new K rnd Y h = (turned K R rnd X Y m, Inr ())"
proof -
  have "diffie_hellman K (dhs Y) (dhs_pub X) = diffie_hellman K (dhs X) (dhs_pub Y)"
    using assms(2) dh_agreement [OF assms(1)] by (simp add: root_agreed_def ratchet_ok_def)
  then have "kdf_rk K (rk Y) (diffie_hellman K (dhs Y) (dhs_pub X)) = (rk X, R (dhs_pub X))"
    using assms(2) by (simp add: root_agreed_def)
  then show ?thesis
    using assms(3-6) by (simp add: turn_if_new_def dh_ratchet_def turned_def Let_def case_prod_beta)
qed

lemma decrypt_turn:
  assumes "session_laws K" and "linked K R U X Y nX nY cX cY" and h: "sealed_msg K R h p msg"
    and cur: "h_dh h = dhs_pub X" "h_pn h = pn X" "h_n h < ns X"
  obtains m m' where "closed_chain K R U X Y m"
    "on_chain K R (turned K R rnd X Y m) (dhs_pub X) (ns X)"
    "banked K (R (dhs_pub X)) (dhs_pub X) 0 (h_n h) m m'"
    "decrypt K rnd Y msg = ((turned K R rnd X Y m)\<lparr>ckr := Some (ck_at K (R (dhs_pub X)) (unat (h_n h + 1))),
       nr := h_n h + 1, skipped := m'\<rparr>, Inr p)"
proof -
  note l = assms(2) [unfolded linked_def]
  from l have behind: "behind_receives K R U X Y" and sk: "skipped_in U Y" and b: "within_budget X Y cX cY"
    and root: "root_agreed K R X Y" by blast+
  obtain m c n where m: "skip_message_keys K (pn X) Y = (Y\<lparr>ckr := c, nr := n, skipped := m\<rparr>, Inr ())"
    "closed_chain K R U X Y m" using close_chain [OF behind sk b] .
  let ?T = "turned K R rnd X Y m"
  have T: "turn_if_new K rnd Y h = (?T, Inr ())"
    using turn_if_new_turned [OF session_laws_simps(3) [OF assms(1)] root _ cur(1,2) m(1)] behind
    by (simp add: behind_receives_def)
  have none: "map_of m (dhs_pub X, k) = None" for k using m(2) unfolding closed_chain_def by blast
  then have on: "on_chain K R ?T (dhs_pub X) (ns X)" by (simp add: turned_def Let_def on_chain_def)
  have room: "unat (ns X) \<le> 1000" "length (skipped ?T) + (unat (ns X) - unat (nr ?T)) \<le> 2000"
    "nr ?T \<le> h_n h"
    using m(2) b by (simp_all add: turned_def Let_def closed_chain_def within_budget_def)
  from assms(1) h obtain ct where ct: "parse_message K msg = Inr (h, ct)"
    "open_message K (mk_at K (R (h_dh h)) (unat (h_n h))) (to_aad h) ct = Inr p" by (rule sealed_msgE)
  from on room(3) cur(3) room(1,2) obtain m' where
    m': "then_do (skip_message_keys K (h_n h) ?T) (\<lambda>st3 _. open_next K st3 h ct)
      = (?T\<lparr>ckr := Some (ck_at K (R (dhs_pub X)) (unat (h_n h + 1))), nr := h_n h + 1, skipped := m'\<rparr>,
         open_message K (mk_at K (R (dhs_pub X)) (unat (h_n h))) (to_aad h) ct)"
    "banked K (R (dhs_pub X)) (dhs_pub X) (nr ?T) (h_n h) (skipped ?T) m'" by (rule receive_current)
  have "map_of (skipped Y) (h_dh h, h_n h) = None" using behind cur(1) by (simp add: behind_receives_def)
  then have "decrypt K rnd Y msg = (?T\<lparr>ckr := Some (ck_at K (R (dhs_pub X)) (unat (h_n h + 1))),
       nr := h_n h + 1, skipped := m'\<rparr>, Inr p)"
    using ct(2) by (simp add: decrypt_def ct(1) decrypt_parsed_def T m'(1) cur(1))
  moreover have "banked K (R (dhs_pub X)) (dhs_pub X) 0 (h_n h) m m'"
    using m'(2) by (simp add: turned_def Let_def)
  ultimately show thesis using that m(2) on by blast
qed

lemma flight_swap_behind:
  assumes "linked K R U X Y nX nY cX cY" and "y \<notin> U" and "flight_to_ahead K R U X Y e"
    and "dhs_pub Y' = y" and "pn Y' = ns Y"
  shows "flight_from_ahead K (R(y := v)) (insert y U) Y' X e"
proof -
  note l = assms(1) [unfolded linked_def]
  from assms(3) obtain h where h: "sealed_msg K R h (snd e) (fst e)" "h_dh h \<in> U"
    and c: "banked_key K R X h \<or> h_dh h = dhs_pub Y \<and> nr X \<le> h_n h \<and> h_n h < ns Y"
    by (auto simp: flight_to_ahead_def)
  have ne: "h_dh h \<noteq> y" using h(2) assms(2) by auto
  have "dhr X = Some (h_dh h) \<and> ckr X \<noteq> None" if "h_dh h = dhs_pub Y" "h_n h < ns Y"
    using that l by (auto simp: ahead_receives_def on_chain_def)
  moreover have "sealed_msg K (R(y := v)) h (snd e) (fst e)" using h(1) ne by (simp add: sealed_msg_upd)
  moreover have "banked_key K (R(y := v)) X h = banked_key K R X h" using ne by (simp add: banked_key_def)
  ultimately show ?thesis
    using c ne h(2) unfolding flight_from_ahead_def assms(4,5) by blast
qed

lemma flight_swap_ahead:
  assumes "closed_chain K R U X Y m" and "y \<notin> U" and "flight_from_ahead K R U X Y e"
    and m': "banked K (R (dhs_pub X)) (dhs_pub X) 0 n m m'" and "n < ns X"
    and "msg_key K (fst e) \<noteq> (dhs_pub X, n)" and "session_laws K"
    and Y': "nr Y' = n + 1" "skipped Y' = m'"
  shows "flight_to_ahead K (R(y := c)) (insert y U) Y' X e"
proof -
  from assms(3) obtain h where h: "sealed_msg K R h (snd e) (fst e)" "h_dh h \<in> U"
    and c: "(banked_key K R Y h \<or> dhr Y = Some (h_dh h) \<and> ckr Y \<noteq> None \<and> nr Y \<le> h_n h \<and> h_n h < pn X)
      \<or> h_dh h = dhs_pub X \<and> h_n h < ns X"
    by (auto simp: flight_from_ahead_def)
  let ?T = "Y\<lparr>nr := 0, skipped := m\<rparr>"
  have ne: "(h_dh h, h_n h) \<noteq> (dhs_pub X, n)" using assms(6) msg_key_sealed [OF assms(7) h(1)] by simp
  have "banked_key K R ?T h \<or> h_dh h = dhs_pub X \<and> nr ?T \<le> h_n h \<and> h_n h < ns X"
    using c assms(1) unfolding closed_chain_def by (auto simp: banked_key_def)
  then have "banked_key K R (?T\<lparr>ckr := ckr Y, nr := n + 1, skipped := m'\<rparr>) h
      \<or> h_dh h = dhs_pub X \<and> n + 1 \<le> h_n h \<and> h_n h < ns X"
    using m' assms(5) ne by (intro flight_advance) simp_all
  moreover have "h_dh h \<noteq> y" using h(2) assms(2) by auto
  ultimately show ?thesis
    using h Y' by (auto simp: flight_to_ahead_def sealed_msg_upd banked_key_def)
qed

lemma linked_turn:
  assumes "session_laws K" and "linked K R U X Y (xs @ (msg, p) # ys) nY cX cY"
    and "ratchet_ok K Y'" and h: "sealed_msg K R h p msg"
    and cur: "h_dh h = dhs_pub X" "h_n h < ns X"
    and y: "y = x25519_public_key K (x25519_generate K rnd)" "y \<notin> U"
    and m: "closed_chain K R U X Y m" and on: "on_chain K R (turned K R rnd X Y m) (dhs_pub X) (ns X)"
    and m': "banked K (R (dhs_pub X)) (dhs_pub X) 0 (h_n h) m m'"
    and Y': "Y' = (turned K R rnd X Y m)\<lparr>ckr := Some (ck_at K (R (dhs_pub X)) (unat (h_n h + 1))),
       nr := h_n h + 1, skipped := m'\<rparr>"
  shows "\<exists>R'. linked K R' (insert y U) Y' X nY (xs @ ys) cY cX"
proof -
  let ?c = "snd (kdf_rk K (rk X) (diffie_hellman K (x25519_generate K rnd) (dhs_pub X)))"
  let ?R = "R(y := ?c)" and ?T = "turned K R rnd X Y m"
  note l = assms(2) [unfolded linked_def]
  have dist: "distinct_keys K (xs @ (msg, p) # ys)" using l by blast
  note rest = distinct_keys_remove [OF dist]
  have ne: "dhs_pub X \<noteq> y" "dhs_pub Y \<noteq> y" using l y(2) by auto
  have nx: "unat (h_n h + 1) = Suc (unat (h_n h))" using cur(2) by (rule unat_next_u32)
  have b: "unat (ns X) \<le> 1000" using l by (auto simp: within_budget_def)
  have f: "dhs_pub Y' = y" "pn Y' = ns Y" "nr Y' = h_n h + 1" "skipped Y' = m'" "ns Y' = 0"
      "dhr Y' = Some (dhs_pub X)" "cks Y' = Some ?c" "dhs Y' = x25519_generate K rnd"
      "rk Y' = fst (kdf_rk K (rk X) (diffie_hellman K (x25519_generate K rnd) (dhs_pub X)))"
    by (simp_all add: Y' turned_def Let_def y(1))
  have "root_agreed K ?R Y' X"
    using l assms(3) ne by (simp add: root_agreed_def f)
  moreover have "on_chain K R Y' (dhs_pub X) (ns X)"
    by (rule on_chain_receive [OF on cur(2) b _ _ Y']) (use m' in \<open>simp_all add: turned_def Let_def\<close>)
  then have "ahead_receives K ?R Y' X" using l ne by (simp add: ahead_receives_def on_chain_def root_agreed_def)
  moreover have "map_of (skipped X) (y, n) = None" for n
    using l y(2) unfolding skipped_in_def by blast
  then have "behind_receives K ?R (insert y U) Y' X"
    using l ne f by (auto simp: behind_receives_def ahead_receives_def on_chain_def root_agreed_def)
  moreover have "skipped_in (insert y U) X" using l by (auto simp: skipped_in_def)
  moreover have "skipped_in (insert y U) Y'"
    using m' l closed_chain_in [OF m] by (auto simp: skipped_in_def f banked_def split: if_splits)
  moreover have "list_all (flight_from_ahead K ?R (insert y U) Y' X) nY"
    using l flight_swap_behind [OF assms(2) y(2) _ f(1,2)] by (auto simp: list_all_iff)
  moreover have "flight_to_ahead K ?R (insert y U) Y' X e" if e: "e \<in> set (xs @ ys)" for e
    using flight_swap_ahead [OF m y(2) _ m' cur(2) _ assms(1) f(3,4)] e l rest(2) [OF e]
      msg_key_sealed [OF assms(1) h] cur(1) by (auto simp: list_all_iff)
  moreover have "within_budget Y' X cY cX"
    using l m m' cur(2) nx by (auto simp: within_budget_def f closed_chain_def banked_def word_less_nat_alt)
  moreover have "dhs_pub Y' \<in> insert y U" "dhs_pub X \<in> insert y U" using l f by auto
  ultimately have "linked K ?R (insert y U) Y' X nY (xs @ ys) cY cX"
    using l rest(1) unfolding linked_def by (simp add: list_all_iff)
  then show ?thesis by blast
qed

lemma linked_deliver_behind:
  assumes "session_laws K" and "linked K R U X Y (xs @ (msg, p) # ys) nY cX cY"
    and "decrypt K rnd Y msg = (Y', res)" and "length rnd = 32"
    and y: "y = x25519_public_key K (x25519_generate K rnd)" "y \<notin> U"
  shows "res = Inr p \<and> (linked K R U X Y' (xs @ ys) nY cX cY
    \<or> (\<exists>R'. linked K R' (insert y U) Y' X nY (xs @ ys) cY cX))"
proof -
  note l = assms(2) [unfolded linked_def]
  have okY: "ratchet_ok K Y" using l by (simp add: root_agreed_def)
  note ok = decrypt_keeps_ok [OF assms(1) okY assms(4,3)]
  have "flight_from_ahead K R U X Y (msg, p)" using l by simp
  then obtain h where h: "sealed_msg K R h p msg" "h_dh h \<in> U"
    and cases: "banked_key K R Y h
        \<or> dhr Y = Some (h_dh h) \<and> ckr Y \<noteq> None \<and> h_dh h \<noteq> dhs_pub X \<and> nr Y \<le> h_n h \<and> h_n h < pn X
        \<or> h_dh h = dhs_pub X \<and> h_pn h = pn X \<and> h_n h < ns X"
    by (auto simp: flight_from_ahead_def)
  from cases consider (banked) "banked_key K R Y h"
    | (old) "dhr Y = Some (h_dh h)" "ckr Y \<noteq> None" "h_dh h \<noteq> dhs_pub X" "nr Y \<le> h_n h" "h_n h < pn X"
    | (new) "h_dh h = dhs_pub X" "h_pn h = pn X" "h_n h < ns X" by blast
  then show ?thesis
  proof cases
    case banked
    with decrypt_banked [OF assms(1) h(1) banked, of rnd] show ?thesis
      using linked_deliver_behind_banked [OF assms(1,2) ok h(1)] assms(3) by simp
  next
    case old
    then have on: "on_chain K R Y (h_dh h) (pn X)"
      using l by (auto simp: behind_receives_def off_chain_def on_chain_def)
    have b: "unat (pn X) \<le> 1000" "length (skipped Y) + (unat (pn X) - unat (nr Y)) \<le> 2000"
      using l by (auto simp: within_budget_def)
    obtain m where "decrypt K rnd Y msg = (Y\<lparr>ckr := Some (ck_at K (R (h_dh h)) (unat (h_n h + 1))),
        nr := h_n h + 1, skipped := m\<rparr>, Inr p)" "banked K (R (h_dh h)) (h_dh h) (nr Y) (h_n h) (skipped Y) m"
      using decrypt_on_chain [OF assms(1) h(1) on old(4,5) b] .
    then show ?thesis
      using linked_deliver_behind_old [OF assms(1,2) ok h old(3-5) on] assms(3) by simp
  next
    case new
    obtain m m' where m: "closed_chain K R U X Y m"
      "on_chain K R (turned K R rnd X Y m) (dhs_pub X) (ns X)"
      "banked K (R (dhs_pub X)) (dhs_pub X) 0 (h_n h) m m'"
      "decrypt K rnd Y msg = ((turned K R rnd X Y m)\<lparr>ckr := Some (ck_at K (R (dhs_pub X)) (unat (h_n h + 1))),
         nr := h_n h + 1, skipped := m'\<rparr>, Inr p)"
      using decrypt_turn [OF assms(1,2) h(1) new] .
    then show ?thesis
      using linked_turn [OF assms(1,2) ok h(1) new(1,3) y m(1-3)] assms(3) by simp
  qed
qed

subsection \<open>Losing messages and restarting\<close>

lemma linked_drop:
  assumes "linked K R U X Y nX nY cX cY"
  shows "nX = xs @ e # ys \<Longrightarrow> linked K R U X Y (xs @ ys) nY cX cY"
    and "nY = xs @ e # ys \<Longrightarrow> linked K R U X Y nX (xs @ ys) cX cY"
  using assms by (auto simp: linked_def distinct_keys_def)

lemma canonical_ok: "ratchet_ok K st \<Longrightarrow> ratchet_ok K (canonical st)"
  by (simp add: ratchet_ok_def canonical_def skipped_ok_def list_all_iff)

lemma linked_restart:
  assumes "linked K R U X Y nX nY cX cY"
  shows "linked K R U (canonical X) Y nX nY cX cY" and "linked K R U X (canonical Y) nX nY cX cY"
proof -
  note l = assms [unfolded linked_def]
  have ok: "ratchet_ok K X" "ratchet_ok K Y" using l by (simp_all add: root_agreed_def)
  then have map: "map_of (skipped (canonical X)) = map_of (skipped X)"
      "map_of (skipped (canonical Y)) = map_of (skipped Y)"
    by (simp_all add: map_of_canonical ratchet_ok_def)
  have upd: "canonical Z = Z\<lparr>ckr := ckr Z, nr := nr Z, skipped := sort_key fst (skipped Z)\<rparr>" for Z
    by (simp add: canonical_def)
  have same: "dhr (canonical Z) = dhr Z" "ckr (canonical Z) = ckr Z" "nr (canonical Z) = nr Z"
      "skipped (canonical Z) = [] \<longleftrightarrow> skipped Z = []" for Z
    by (simp_all add: canonical_def) (metis length_0_conv length_sort)
  have flight: "flight_to_ahead K R U (canonical X) Y = flight_to_ahead K R U X Y"
      "flight_from_ahead K R U X (canonical Y) = flight_from_ahead K R U X Y"
    by (simp_all add: fun_eq_iff flight_to_ahead_def flight_from_ahead_def banked_key_def map same)
  show "linked K R U (canonical X) Y nX nY cX cY"
    using l by (intro linked_recv_ahead [OF assms upd] canonical_ok ok)
      (simp_all add: ahead_receives_def on_chain_def off_chain_def skipped_in_def map same flight)
  show "linked K R U X (canonical Y) nX nY cX cY"
    using l by (intro linked_recv_behind [OF assms upd] canonical_ok ok)
      (simp_all add: behind_receives_def on_chain_def off_chain_def skipped_in_def map same flight)
qed

section \<open>Two parties and a network\<close>

text \<open>
  The parties are \<open>True\<close> (who initiated) and \<open>False\<close>. \<open>net s\<close> holds the messages \<open>s\<close> has
  sent and the network still has, each with its plaintext; \<open>sent s\<close> counts them; \<open>used\<close>
  collects the ratchet public keys ever drawn.
\<close>

record config =
  party :: "bool \<Rightarrow> ratchet_state"
  net :: "bool \<Rightarrow> (bytes \<times> bytes) list"
  sent :: "bool \<Rightarrow> nat"
  used :: "bytes set"

text \<open>
  The steps: a party encrypts; the network delivers any message in flight, in any order,
  or loses it; a party stores its session and loads it again. A fresh ratchet key is one
  not drawn before, and each party sends at most \<open>MAX_SKIP\<close> messages.
\<close>

inductive session_step :: "prims \<Rightarrow> config \<Rightarrow> config \<Rightarrow> bool" for K where
  send: "encrypt K (party c s) p = (st', Inr msg) \<Longrightarrow> length p + 16 < 2 ^ 32 \<Longrightarrow> sent c s < unat MAX_SKIP \<Longrightarrow>
    session_step K c (c\<lparr>party := (party c)(s := st'), net := (net c)(s := net c s @ [(msg, p)]),
      sent := (sent c)(s := Suc (sent c s))\<rparr>)"
| deliver: "net c s = xs @ (msg, p) # ys \<Longrightarrow> decrypt K rnd (party c (\<not> s)) msg = (st', res) \<Longrightarrow>
    length rnd = 32 \<Longrightarrow> x25519_public_key K (x25519_generate K rnd) \<notin> used c \<Longrightarrow>
    session_step K c (c\<lparr>party := (party c)(\<not> s := st'), net := (net c)(s := xs @ ys),
      used := insert (x25519_public_key K (x25519_generate K rnd)) (used c)\<rparr>)"
| drop: "net c s = xs @ e # ys \<Longrightarrow> session_step K c (c\<lparr>net := (net c)(s := xs @ ys)\<rparr>)"
| restart: "state_from_bytes K (state_to_bytes (party c s)) = Inr st' \<Longrightarrow>
    session_step K c (c\<lparr>party := (party c)(s := st')\<rparr>)"

inductive_cases session_stepE: "session_step K c c'"

definition session_start :: "prims \<Rightarrow> bytes \<Rightarrow> bytes \<Rightarrow> bytes \<Rightarrow> config" where
  "session_start K rnd root ratchet_key =
     (let a = initiator K rnd root (x25519_public_key K ratchet_key); b = responder K root ratchet_key
      in \<lparr>party = (\<lambda>s. if s then a else b), net = (\<lambda>_. []), sent = (\<lambda>_. 0),
          used = {dhs_pub a, dhs_pub b}\<rparr>)"

definition start_ok :: "prims \<Rightarrow> bytes \<Rightarrow> bytes \<Rightarrow> bytes \<Rightarrow> bool" where
  "start_ok K rnd root ratchet_key \<longleftrightarrow> length rnd = 32 \<and> length root = 32 \<and> length ratchet_key = 32
     \<and> x25519_from_bytes K ratchet_key = ratchet_key"

definition session_inv :: "prims \<Rightarrow> config \<Rightarrow> bool" where
  "session_inv K c \<longleftrightarrow> (\<exists>R U s. U \<subseteq> used c
     \<and> linked K R U (party c s) (party c (\<not> s)) (net c s) (net c (\<not> s)) (sent c s) (sent c (\<not> s)))"

lemma session_start_inv:
  assumes "session_laws K" and "start_ok K rnd root ratchet_key"
  shows "session_inv K (session_start K rnd root ratchet_key)"
proof -
  let ?b = "responder K root ratchet_key"
  let ?a = "initiator K rnd root (dhs_pub ?b)"
  have b: "ratchet_ok K ?b" using assms(2) by (intro responder_ok) (simp_all add: start_ok_def)
  have pb: "dhs_pub ?b = x25519_public_key K ratchet_key" by (simp add: responder_def)
  have a: "ratchet_ok K ?a"
    using assms by (intro initiator_ok) (simp_all add: pb start_ok_def session_laws_simps x25519_lengths)
  define R where "R = (\<lambda>_ :: bytes. snd (kdf_rk K root (diffie_hellman K (x25519_generate K rnd) (dhs_pub ?b))))"
  have "linked K R {dhs_pub ?a, dhs_pub ?b} ?a ?b [] [] 0 0"
    using a b
    by (simp add: linked_def root_agreed_def ahead_receives_def behind_receives_def off_chain_def
        skipped_in_def distinct_keys_def within_budget_def R_def initiator_def responder_def Let_def case_prod_beta)
  then show ?thesis
    unfolding session_inv_def session_start_def Let_def pb
    by (intro exI [of _ R] exI [of _ "{dhs_pub ?a, dhs_pub ?b}"] exI [of _ True]) (simp add: pb)
qed

lemma session_invI:
  assumes "U \<subseteq> used c"
    and "linked K R U (party c s) (party c t) (net c s) (net c t) (sent c s) (sent c t)" and "t = (\<not> s)"
  shows "session_inv K c"
  using assms unfolding session_inv_def by blast

text \<open>What delivery does, whichever party receives.\<close>

lemma session_deliver:
  assumes "session_laws K" and "session_inv K c" and "net c s = xs @ (msg, p) # ys"
    and "decrypt K rnd (party c (\<not> s)) msg = (st', res)" and "length rnd = 32"
    and "x25519_public_key K (x25519_generate K rnd) \<notin> used c"
  shows "res = Inr p \<and> session_inv K (c\<lparr>party := (party c)(\<not> s := st'), net := (net c)(s := xs @ ys),
      used := insert (x25519_public_key K (x25519_generate K rnd)) (used c)\<rparr>)"
    (is "_ \<and> session_inv K ?c")
proof -
  let ?y = "x25519_public_key K (x25519_generate K rnd)"
  from assms(2) obtain R U t where U: "U \<subseteq> used c" and l: "linked K R U (party c t) (party c (\<not> t))
      (net c t) (net c (\<not> t)) (sent c t) (sent c (\<not> t))" by (auto simp: session_inv_def)
  have y: "?y \<notin> U" using U assms(6) by blast
  show ?thesis
  proof (cases "s = t")
    case True
    note d = linked_deliver_behind [OF assms(1) l [folded True, unfolded assms(3)] assms(4,5) refl y]
    then have res: "res = Inr p" by blast
    from d have "session_inv K ?c"
    proof (elim conjE disjE exE)
      assume "linked K R U (party c s) st' (xs @ ys) (net c (\<not> s)) (sent c s) (sent c (\<not> s))"
      then show ?thesis using U by (intro session_invI [of U _ K R s "\<not> s"]) auto
    next
      fix R' assume "linked K R' (insert ?y U) st' (party c s) (net c (\<not> s)) (xs @ ys) (sent c (\<not> s)) (sent c s)"
      then show ?thesis using U by (intro session_invI [of "insert ?y U" _ K R' "\<not> s" s]) auto
    qed
    with res show ?thesis by blast
  next
    case False
    then have t: "t = (\<not> s)" by blast
    note d = linked_deliver_ahead [OF assms(1) l [unfolded t not_not assms(3)] assms(4,5)]
    then show ?thesis using U by (auto intro!: session_invI [of U _ K R "\<not> s" s])
  qed
qed

lemma session_step_inv:
  assumes "session_laws K" and "session_step K c c'" and "session_inv K c"
  shows "session_inv K c'"
  using assms(2)
proof (cases rule: session_step.cases)
  case (deliver s xs msg p ys rnd st' res)
  then show ?thesis using session_deliver [OF assms(1,3) deliver(2-5)] by simp
next
  case (send s p st' msg)
  have cnt: "sent c s < 1000" using send(4) by (simp add: MAX_SKIP_def)
  from assms(3) obtain R U t where U: "U \<subseteq> used c" and l: "linked K R U (party c t) (party c (\<not> t))
      (net c t) (net c (\<not> t)) (sent c t) (sent c (\<not> t))" by (auto simp: session_inv_def)
  show ?thesis
  proof (cases "s = t")
    case True
    show ?thesis
      using linked_send_ahead [OF assms(1) l [folded True] send(2,3) cnt] U
      unfolding send(1) by (intro session_invI [of U _ K R s "\<not> s"]) auto
  next
    case False
    then have t: "t = (\<not> s)" by blast
    show ?thesis
      using linked_send_behind [OF assms(1) l [unfolded t not_not] send(2,3) cnt] U
      unfolding send(1) by (intro session_invI [of U _ K R "\<not> s" s]) auto
  qed
next
  case (drop s xs e ys)
  from assms(3) obtain R U t where U: "U \<subseteq> used c" and l: "linked K R U (party c t) (party c (\<not> t))
      (net c t) (net c (\<not> t)) (sent c t) (sent c (\<not> t))" by (auto simp: session_inv_def)
  show ?thesis
    unfolding drop(1) using U linked_drop [OF l] drop(2)
    by (intro session_invI [of U _ K R t "\<not> t"]; cases "s = t") auto
next
  case (restart s st')
  from assms(3) obtain R U t where U: "U \<subseteq> used c" and l: "linked K R U (party c t) (party c (\<not> t))
      (net c t) (net c (\<not> t)) (sent c t) (sent c (\<not> t))" by (auto simp: session_inv_def)
  have "ratchet_ok K (party c s)"
    using l by (cases "s = t") (auto simp: linked_def root_agreed_def)
  then have st': "st' = canonical (party c s)" using restart(2) by (simp add: state_from_to_bytes)
  show ?thesis
    unfolding restart(1) st' using U linked_restart [OF l]
    by (intro session_invI [of U _ K R t "\<not> t"]; cases "s = t") auto
qed

lemma session_reachable_inv:
  assumes "session_laws K" and "(session_step K)\<^sup>*\<^sup>* c c'" and "session_inv K c"
  shows "session_inv K c'"
  using assms(2,3) by (induction rule: rtranclp_induct) (auto intro: session_step_inv [OF assms(1)])

text \<open>What is in flight in a reachable session can be read.\<close>

lemma session_in_flight:
  assumes "session_laws K" and "start_ok K rnd root ratchet_key"
    and "(session_step K)\<^sup>*\<^sup>* (session_start K rnd root ratchet_key) c"
    and "(msg, p) \<in> set (net c s)" and "length rnd' = 32"
    and "x25519_public_key K (x25519_generate K rnd') \<notin> used c"
  shows "snd (decrypt K rnd' (party c (\<not> s)) msg) = Inr p"
proof -
  have inv: "session_inv K c"
    using session_reachable_inv [OF assms(1,3)] session_start_inv [OF assms(1,2)] .
  from assms(4) obtain xs ys where n: "net c s = xs @ (msg, p) # ys" by (meson split_list)
  obtain st' res where d: "decrypt K rnd' (party c (\<not> s)) msg = (st', res)" by force
  from session_deliver [OF assms(1) inv n d assms(5,6)] d show ?thesis by simp
qed

end
