(* ===== verification/Ffi.thy ===== *)
theory Ffi
  imports Invite Ratchet_Session
begin

text \<open>
  The state-returning facade of \<open>crates/buh-crypto/src/ffi.rs\<close>, the surface the web client
  uses. Every call takes opaque blobs and returns new ones; a JavaScript exception is the
  left of the result. A \<open>js_error\<close> stands for the message text: of the library error it
  renders, or of a length check.

  An \<open>f64\<close> that carries a time is its integral part (the fraction is dropped by the
  conversion in either direction): \<open>f64_as_u64\<close> is the saturating cast, \<open>u64_as_f64\<close>
  rounds to 53 significant bits, ties to even.
\<close>

datatype js_error =
    JsCrypto crypto_error
  | JsLength nat string

definition QUEUE_ID_LEN :: nat where "QUEUE_ID_LEN = 32"

abbreviation js :: "crypto_error + 'a \<Rightarrow> js_error + 'a" where
  "js m \<equiv> map_err JsCrypto m"

definition fixed :: "nat \<Rightarrow> string \<Rightarrow> bytes \<Rightarrow> js_error + bytes" where
  "fixed n what b = (if length b = n then Inr b else Inl (JsLength n what))"

definition f64_as_u64 :: "int \<Rightarrow> u64" where
  "f64_as_u64 x = (if x < 0 then 0 else if x \<ge> 2 ^ 64 then - 1 else of_int x)"

fun excess_bits :: "nat \<Rightarrow> nat" where
  "excess_bits n = (if n < 2 ^ 53 then 0 else Suc (excess_bits (n div 2)))"

declare excess_bits.simps [simp del]

definition u64_as_f64 :: "u64 \<Rightarrow> int" where
  "u64_as_f64 w =
     (let n = unat w; e = excess_bits n;
          q = n div 2 ^ e; r = n mod 2 ^ e;
          up = 2 * r > 2 ^ e \<or> 2 * r = 2 ^ e \<and> odd q
      in int ((if up then q + 1 else q) * 2 ^ e))"

section \<open>Self tests\<close>

definition VERSION :: string where "VERSION = ''0.1.0''"

definition ffi_version :: string where "ffi_version = VERSION"

definition ffi_echo :: "bytes \<Rightarrow> bytes" where "ffi_echo b = b"

definition wire_self_test :: "prims \<Rightarrow> bool" where
  "wire_self_test K =
     (let f = with_field (with_field (with_flags frame_new FLAG_HANDSHAKE)
                TAG_IDENTITY_PUB [1, 2, 3]) TAG_SIGNATURE (replicate 8 9)
      in case frame_decode (usize_max K) (frame_encode f) of
           Inl _ \<Rightarrow> False
         | Inr back \<Rightarrow> back = f \<and> is_ok (reject_reserved_pq back))"

definition KAT_KEY :: bytes where
  "KAT_KEY = map word_of_nat [128..<160]"

definition KAT_NONCE :: bytes where
  "KAT_NONCE = map word_of_nat [64..<88]"

definition KAT_AAD :: bytes where
  "KAT_AAD = [80, 81, 82, 83, 192, 193, 194, 195, 196, 197, 198, 199]"

definition KAT_PLAINTEXT :: bytes where
  "KAT_PLAINTEXT = bstr (''Ladies and Gentlemen of the class of '' @ [CHR 0x27] @ ''99: ''
     @ ''If I could offer you only one tip for the future, sunscreen would be it.'')"

definition aead_self_test :: "prims \<Rightarrow> bool" where
  "aead_self_test K = (case seal K KAT_KEY KAT_NONCE KAT_AAD KAT_PLAINTEXT of
       Inl _ \<Rightarrow> False
     | Inr sealed \<Rightarrow> open_aead K KAT_KEY KAT_NONCE KAT_AAD sealed = Inr KAT_PLAINTEXT)"

definition identity_self_test :: "prims \<Rightarrow> bytes \<Rightarrow> bytes \<Rightarrow> bool" where
  "identity_self_test K seed rnd =
     (let pk = identity_public_key K seed;
          msg = bstr ''buh wasm boundary'';
          sig = sign K seed rnd msg
      in is_ok (verify K pk msg sig) \<and> \<not> is_ok (verify K pk (bstr ''tampered'') sig))"

section \<open>Session facade\<close>

definition generate_identity :: "bytes \<Rightarrow> bytes" where
  "generate_identity rnd = to_seed (identity_from_seed rnd)"

definition ffi_identity_public_key :: "prims \<Rightarrow> bytes \<Rightarrow> js_error + bytes" where
  "ffi_identity_public_key K identity =
     and_then (fixed SEED_LEN ''identity'' identity) (\<lambda>seed.
       Inr (identity_public_key K (identity_from_seed seed)))"

record prekey_material =
  pm_secrets :: bytes
  pm_bundle :: bytes

definition publishable_prekey_bundle ::
    "prims \<Rightarrow> prekey_randomness \<Rightarrow> bytes \<Rightarrow> js_error + prekey_material" where
  "publishable_prekey_bundle K rnd identity =
     and_then (fixed SEED_LEN ''identity'' identity) (\<lambda>seed.
       let (secrets, b) = bundle_generate K rnd (identity_from_seed seed) True
       in Inr \<lparr>pm_secrets = secrets_to_bytes secrets, pm_bundle = bundle_encode b\<rparr>)"

definition create_invite ::
    "prims \<Rightarrow> bytes \<Rightarrow> bytes \<Rightarrow> bytes \<Rightarrow> bytes \<Rightarrow> bytes \<Rightarrow> bytes \<Rightarrow> bytes \<Rightarrow> int \<Rightarrow> js_error + string" where
  "create_invite K rnd identity queue_id relay_url ca_fingerprint bundle_bytes nonce expiry_ms =
     and_then (fixed SEED_LEN ''identity'' identity) (\<lambda>seed.
     and_then (fixed QUEUE_ID_LEN ''queue id'' queue_id) (\<lambda>qid.
     and_then (fixed CA_FINGERPRINT_LEN ''ca fingerprint'' ca_fingerprint) (\<lambda>ca.
     and_then (js (bundle_decode K bundle_bytes)) (\<lambda>b.
     and_then (fixed INVITE_NONCE_LEN ''invite nonce'' nonce) (\<lambda>n.
       Inr (to_uri K (invite_create K rnd (identity_from_seed seed)
         \<lparr>qd_queue_id = qid, qd_relay_url = relay_url, qd_ca_fingerprint = ca\<rparr>
         b n (f64_as_u64 expiry_ms))))))))"

record parsed_invite =
  pi_queue_id :: bytes
  pi_relay_url :: bytes
  pi_ca_fingerprint :: bytes
  pi_identity_public_key :: bytes
  pi_bundle :: bytes
  pi_expiry_ms :: int

definition parse_invite :: "prims \<Rightarrow> string \<Rightarrow> js_error + parsed_invite" where
  "parse_invite K uri =
     and_then (js (invite_parse K uri)) (\<lambda>i.
       Inr \<lparr>pi_queue_id = qd_queue_id (inv_queue i), pi_relay_url = qd_relay_url (inv_queue i),
            pi_ca_fingerprint = qd_ca_fingerprint (inv_queue i),
            pi_identity_public_key = pb_identity (inv_bundle i),
            pi_bundle = bundle_encode (inv_bundle i),
            pi_expiry_ms = u64_as_f64 (inv_expiry_ms i)\<rparr>)"

record initiated_session =
  is_session :: bytes
  is_initial_message :: bytes

definition initiate_session ::
    "prims \<Rightarrow> handshake_randomness \<Rightarrow> bytes \<Rightarrow> bytes \<Rightarrow> bytes \<Rightarrow> js_error + initiated_session" where
  "initiate_session K rnd rnd_ratchet identity bundle_bytes =
     and_then (fixed SEED_LEN ''identity'' identity) (\<lambda>seed.
     and_then (js (bundle_decode K bundle_bytes)) (\<lambda>b.
       let (message, root) = initiate K rnd (identity_from_seed seed) b;
           session = initiator K rnd_ratchet root (pb_signed_prekey b)
       in Inr \<lparr>is_session = state_to_bytes session, is_initial_message = im_encode message\<rparr>))"

definition accept_session :: "prims \<Rightarrow> bytes \<Rightarrow> bytes \<Rightarrow> bytes \<Rightarrow> js_error + bytes" where
  "accept_session K secrets bundle_bytes initial =
     and_then (js (secrets_from_bytes K secrets)) (\<lambda>s.
     and_then (js (bundle_decode K bundle_bytes)) (\<lambda>b.
     and_then (js (im_decode K initial)) (\<lambda>message.
     and_then (js (respond K b s message)) (\<lambda>root.
       Inr (state_to_bytes (responder K root (sec_signed_prekey s)))))))"

record encrypted_message =
  em_session :: bytes
  em_message :: bytes

definition encrypt_message :: "prims \<Rightarrow> bytes \<Rightarrow> bytes \<Rightarrow> js_error + encrypted_message" where
  "encrypt_message K session plaintext =
     and_then (js (state_from_bytes K session)) (\<lambda>st.
     (case encrypt K st plaintext of (st', res) \<Rightarrow>
       and_then (js res) (\<lambda>message.
         Inr \<lparr>em_session = state_to_bytes st', em_message = message\<rparr>)))"

record decrypted_message =
  dm_session :: bytes
  dm_plaintext :: bytes

definition decrypt_message :: "prims \<Rightarrow> bytes \<Rightarrow> bytes \<Rightarrow> bytes \<Rightarrow> js_error + decrypted_message" where
  "decrypt_message K rnd session message =
     and_then (js (state_from_bytes K session)) (\<lambda>st.
     (case decrypt K rnd st message of (st', res) \<Rightarrow>
       and_then (js res) (\<lambda>plaintext.
         Inr \<lparr>dm_session = state_to_bytes st', dm_plaintext = plaintext\<rparr>)))"

section \<open>Media facade\<close>

record sealed_media =
  sm_key_material :: bytes
  sm_ciphertext :: bytes

definition ffi_seal_media :: "prims \<Rightarrow> bytes \<Rightarrow> bytes \<Rightarrow> bytes \<Rightarrow> sealed_media option" where
  "ffi_seal_media K rnd_key rnd_nonce plaintext =
     (case seal_media K rnd_key rnd_nonce plaintext of
        None \<Rightarrow> None
      | Some (key, ciphertext) \<Rightarrow>
          Some \<lparr>sm_key_material = media_key_to_bytes key, sm_ciphertext = ciphertext\<rparr>)"

definition ffi_open_media :: "prims \<Rightarrow> bytes \<Rightarrow> bytes \<Rightarrow> js_error + bytes" where
  "ffi_open_media K key_material ciphertext =
     and_then (js (media_key_from_bytes key_material)) (\<lambda>key. js (open_media K key ciphertext))"

end
