(* ===== verification/E2e.thy ===== *)
theory E2e
  imports Daemon Peer_Probe Ffi
begin

text \<open>
  The end-to-end client, \<open>crates/buh-e2e/src/main.rs\<close>: it creates an authority of its
  own, and sends a sealed first flight through a live node over mutual TLS, reads it back,
  opens it, acknowledges it and checks that the queue is empty.

  The state has the files of the client, the remote node behind the network of
  \<open>Peer_Probe\<close> and the number of random draws so far; the randomness of the
  cryptography is the record \<open>e2e_rnd\<close>. What is printed on the way is left out.
\<close>

section \<open>State and errors\<close>

record 'p e2e =
  e2_fs :: fs
  e2_remote :: 'p
  e2_draws :: nat

datatype e2e_error =
    E2eCa core_error
  | E2eTls core_error
  | E2eNode string
  | E2eIo string
  | E2eNoStatus
  | E2eHttp string nat ustring
  | E2eJson
  | E2eCrypto string crypto_error
  | E2eMissing nat
  | E2eMismatch bytes
  | E2eNotAcked ustring
  | E2eLeft nat

record e2e_rnd =
  er_recipient :: bytes
  er_prekeys :: prekey_randomness
  er_sender :: bytes
  er_handshake :: handshake_randomness
  er_ratchet :: bytes
  er_queue :: bytes
  er_open :: bytes

definition put_e2_fs :: "fs \<Rightarrow> 'p e2e \<Rightarrow> 'p e2e" where
  "put_e2_fs F st = st\<lparr>e2_fs := F\<rparr>"

definition draw :: "('db, 'r, 'k, 'h) deps \<Rightarrow> 'p e2e \<Rightarrow> nat" where
  "draw D st = dp_rand D (e2_draws st)"

definition drawn :: "'p e2e \<Rightarrow> 'p e2e" where
  "drawn st = st\<lparr>e2_draws := Suc (e2_draws st)\<rparr>"

section \<open>The client's authority\<close>

definition e2e_load_ca ::
  "('db, 'r, 'k, 'h) deps \<Rightarrow> string \<Rightarrow> 'p e2e \<Rightarrow> 'p e2e \<times> (e2e_error + 'k node_ca)" where
  "e2e_load_ca D dir st = map_prod drawn (map_err E2eCa) (through e2_fs put_e2_fs
     (load_or_init (dp_libs D) (dp_os D) (dp_rcgen D) (draw D st) (dp_path D dir) [''buh-e2e-client''] 3600) st)"

definition e2e_mint :: "('db, 'r, 'k, 'h) deps \<Rightarrow> string \<Rightarrow> 'p e2e \<Rightarrow> 'p e2e \<times> (e2e_error + string)" where
  "e2e_mint D out st = then_do (e2e_load_ca D out st) (\<lambda>st ca. (st, Inr (nc_fingerprint ca)))"

section \<open>The HTTP client\<close>

record 'h e2e_conn =
  ec_host :: ustring
  ec_port :: nat
  ec_tls :: "'h node_tls"

definition conn_new :: "'p tls_net \<Rightarrow> ustring \<Rightarrow> 'h node_tls \<Rightarrow> e2e_error + 'h e2e_conn" where
  "conn_new N node node_tls =
     and_then (ok_or (E2eNode ''node must be host:port'') (rsplit_once 58 node)) (\<lambda>(host, port).
     if \<not> tn_server_name N host then Inl (E2eNode ''invalid server name'')
     else and_then (ok_or (E2eNode ''invalid port'') (parse_u16 port)) (\<lambda>port.
       Inr \<lparr>ec_host = host, ec_port = port, ec_tls = node_tls\<rparr>))"

definition e2e_request_text :: "ustring \<Rightarrow> ustring \<Rightarrow> ustring \<Rightarrow> ustring \<Rightarrow> ustring" where
  "e2e_request_text host meth path body =
     meth @ ustr '' '' @ path @ ustr '' HTTP/1.1'' @ CRLF @ ustr ''Host: '' @ host @ CRLF
     @ ustr ''Content-Type: application/json'' @ CRLF
     @ ustr ''Content-Length: '' @ ustr (show_nat (length (utf8 body))) @ CRLF
     @ ustr ''Connection: close'' @ CRLF @ CRLF @ body"

definition e2e_response :: "bytes \<Rightarrow> e2e_error + nat \<times> ustring" where
  "e2e_response bs = (let response = from_utf8_lossy bs in
     and_then (ok_or E2eNoStatus (status_of_line response)) (\<lambda>status. Inr (status, response_body response)))"

text \<open>One request over a fresh connection, with a fresh leaf of the client's authority.\<close>

definition conn_request ::
  "('db, 'r, 'k, 'h) deps \<Rightarrow> 'p tls_net \<Rightarrow> 'k node_ca \<Rightarrow> 'h e2e_conn \<Rightarrow> ustring \<Rightarrow> ustring \<Rightarrow> ustring option \<Rightarrow>
   'p e2e \<Rightarrow> 'p e2e \<times> (e2e_error + nat \<times> ustring)" where
  "conn_request D N ca c meth path body st =
     (let addr = AddrPair (ec_host c) (ec_port c);
          body = (case body of Some b \<Rightarrow> b | None \<Rightarrow> []);
          req = utf8 (e2e_request_text (ec_host c) meth path body) in
      then_do (drawn st, map_err E2eTls (client_config (dp_rustls D) (issue_leaf (dp_rcgen D) (draw D st) (dp_now D) ca) (ec_tls c)))
      (\<lambda>st cfg.
      case tn_connect N addr (e2_remote st) of Some e \<Rightarrow> (st, Inl (E2eIo e)) | None \<Rightarrow>
      case tn_handshake N addr (ec_host c) cfg (e2_remote st) of Some e \<Rightarrow> (st, Inl (E2eIo e)) | None \<Rightarrow>
      case tn_write N addr cfg req (e2_remote st) of Some e \<Rightarrow> (st, Inl (E2eIo e)) | None \<Rightarrow>
      case tn_exchange N addr cfg req (e2_remote st) of (p, r) \<Rightarrow>
        (st\<lparr>e2_remote := p\<rparr>, case r of
           ReadOk bs \<Rightarrow> e2e_response bs
         | ReadEof bs \<Rightarrow> if bs \<noteq> [] then e2e_response bs else Inl (E2eIo ''unexpected eof'')
         | ReadErr e \<Rightarrow> Inl (E2eIo e))))"

definition conn_push ::
  "('db, 'r, 'k, 'h) deps \<Rightarrow> web_libs \<Rightarrow> 'p tls_net \<Rightarrow> 'k node_ca \<Rightarrow> 'h e2e_conn \<Rightarrow> ustring \<Rightarrow> bytes \<Rightarrow> int \<Rightarrow>
   'p e2e \<Rightarrow> 'p e2e \<times> (e2e_error + ustring)" where
  "conn_push D W N ca c queue_hex payload ttl st =
     (let body = js_print W (push_envelope_json W \<lparr>pe_payload = payload, pe_ttl = ttl\<rparr>) in
      then_do (conn_request D N ca c (ustr ''POST'') (ustr ''/v1/queue/'' @ queue_hex @ ustr ''/envelopes'') (Some body) st)
      (\<lambda>st (status, body).
        if status \<noteq> 200 \<and> status \<noteq> 201 then (st, Inl (E2eHttp ''push'' status body))
        else (st, and_then (ok_or E2eJson (Option.bind (js_parse W body) (envelope_accepted_of (dp_libs D)))) (\<lambda>i.
          Inr (ustr (uuid_to_string (dp_libs D) i))))))"

definition conn_pull ::
  "('db, 'r, 'k, 'h) deps \<Rightarrow> web_libs \<Rightarrow> 'p tls_net \<Rightarrow> 'k node_ca \<Rightarrow> 'h e2e_conn \<Rightarrow> ustring \<Rightarrow> nat \<Rightarrow>
   'p e2e \<Rightarrow> 'p e2e \<times> (e2e_error + stored_envelope list)" where
  "conn_pull D W N ca c queue_hex wait st =
     (let path = ustr ''/v1/queue/'' @ queue_hex @ ustr ''/envelopes?wait='' @ ustr (show_nat wait) @ ustr ''&limit=16'' in
      then_do (conn_request D N ca c (ustr ''GET'') path None st)
      (\<lambda>st (status, body).
        if status \<noteq> 200 then (st, Inl (E2eHttp ''pull'' status body))
        else (st, ok_or E2eJson (Option.bind (js_parse W body) (pull_response_of (dp_libs D) W)))))"

definition conn_ack ::
  "('db, 'r, 'k, 'h) deps \<Rightarrow> web_libs \<Rightarrow> 'p tls_net \<Rightarrow> 'k node_ca \<Rightarrow> 'h e2e_conn \<Rightarrow> ustring \<Rightarrow> ustring \<Rightarrow>
   'p e2e \<Rightarrow> 'p e2e \<times> (e2e_error + bool)" where
  "conn_ack D W N ca c queue_hex envelope_id st =
     then_do (conn_request D N ca c (ustr ''POST'') (ustr ''/v1/queue/'' @ queue_hex @ ustr ''/envelopes/'' @ envelope_id @ ustr ''/ack'') None st)
     (\<lambda>st (status, body).
       if status \<noteq> 200 then (st, Inl (E2eHttp ''ack'' status body))
       else (st, and_then (ok_or E2eJson (js_parse W body)) (\<lambda>v.
         Inr (case Option.bind (json_get (ustr ''acknowledged'') v) as_bool of Some b \<Rightarrow> b | None \<Rightarrow> False))))"

section \<open>Sending\<close>

text \<open>The recipient's prekeys and the sender's first flight: the secrets, the bundle, the handshake and the ciphertext.\<close>

definition seal_flight ::
  "prims \<Rightarrow> e2e_rnd \<Rightarrow> bytes \<Rightarrow> e2e_error + prekey_secrets \<times> bytes \<times> bytes \<times> bytes" where
  "seal_flight K r message =
     (let recipient_id = identity_from_seed (er_recipient r);
          (recipient_secrets, recipient_bundle) = bundle_generate K (er_prekeys r) recipient_id True;
          bundle_blob = bundle_encode recipient_bundle;
          sender_id = identity_from_seed (er_sender r) in
      and_then (map_err (E2eCrypto ''decode bundle (sender view)'') (bundle_decode K bundle_blob)) (\<lambda>sender_view.
      let (handshake, root) = initiate K (er_handshake r) sender_id sender_view;
          sender_session = initiator K (er_ratchet r) root (pb_signed_prekey sender_view) in
      and_then (map_err (E2eCrypto ''ratchet encrypt'') (snd (encrypt K sender_session message))) (\<lambda>ciphertext.
        Inr (recipient_secrets, bundle_blob, im_encode handshake, ciphertext))))"

text \<open>The recipient opens the first two envelopes.\<close>

definition open_flight ::
  "prims \<Rightarrow> e2e_rnd \<Rightarrow> prekey_secrets \<Rightarrow> bytes \<Rightarrow> stored_envelope list \<Rightarrow> e2e_error + bytes" where
  "open_flight K r secrets bundle_blob es =
     and_then (map_err (E2eCrypto ''decode bundle (recipient)'') (bundle_decode K bundle_blob)) (\<lambda>recipient_view.
     and_then (map_err (E2eCrypto ''decode handshake'') (im_decode K (se_payload (es ! 0)))) (\<lambda>m.
     and_then (map_err (E2eCrypto ''pqxdh respond'') (respond K recipient_view secrets m)) (\<lambda>root.
       map_err (E2eCrypto ''ratchet decrypt'')
         (snd (decrypt K (er_open r) (responder K root (sec_signed_prekey secrets)) (se_payload (es ! 1)))))))"

fun ack_each ::
  "('db, 'r, 'k, 'h) deps \<Rightarrow> web_libs \<Rightarrow> 'p tls_net \<Rightarrow> 'k node_ca \<Rightarrow> 'h e2e_conn \<Rightarrow> ustring \<Rightarrow> stored_envelope list \<Rightarrow>
   'p e2e \<Rightarrow> 'p e2e \<times> (e2e_error + unit)" where
  "ack_each D W N ca c queue_hex [] st = (st, Inr ())"
| "ack_each D W N ca c queue_hex (e # es) st =
     (let eid = ustr (uuid_to_string (dp_libs D) (se_id e)) in
      then_do (conn_ack D W N ca c queue_hex eid st) (\<lambda>st acked.
        if \<not> acked then (st, Inl (E2eNotAcked eid)) else ack_each D W N ca c queue_hex es st))"

definition e2e_send ::
  "prims \<Rightarrow> ('db, 'r, 'k, 'h) deps \<Rightarrow> web_libs \<Rightarrow> 'p tls_net \<Rightarrow> e2e_rnd \<Rightarrow> string \<Rightarrow> ustring \<Rightarrow> ustring \<Rightarrow> ustring \<Rightarrow>
   'p e2e \<Rightarrow> 'p e2e \<times> (e2e_error + unit)" where
  "e2e_send K D W N r client_ca node node_ca_fp message st =
     then_do (e2e_load_ca D client_ca st) (\<lambda>st ca.
     then_do (drawn st, map_err E2eTls (node_tls_new (dp_rustls D)
       (issue_leaf (dp_rcgen D) (draw D st) (dp_now D) ca) (from_fingerprints [node_ca_fp]))) (\<lambda>st client_tls.
     then_do (st, conn_new N node client_tls) (\<lambda>st c.
     then_do (st, seal_flight K r (utf8 message)) (\<lambda>st (secrets, bundle_blob, initial, ciphertext).
     let queue_hex = ustr (hex_encode (dp_libs D) (er_queue r)) in
     then_do (conn_push D W N ca c queue_hex initial 300 st) (\<lambda>st id_initial.
     then_do (conn_push D W N ca c queue_hex ciphertext 300 st) (\<lambda>st id_cipher.
     then_do (conn_pull D W N ca c queue_hex 5 st) (\<lambda>st pulled.
     if length pulled < 2 then (st, Inl (E2eMissing (length pulled))) else
     then_do (st, open_flight K r secrets bundle_blob pulled) (\<lambda>st opened.
     if opened \<noteq> utf8 message then (st, Inl (E2eMismatch opened)) else
     then_do (ack_each D W N ca c queue_hex pulled st) (\<lambda>st _.
     then_do (conn_pull D W N ca c queue_hex 0 st) (\<lambda>st after.
     if after \<noteq> [] then (st, Inl (E2eLeft (length after))) else (st, Inr ())))))))))))"

datatype e2e_cmd = Mint string | Send string ustring ustring ustring

definition e2e_main ::
  "prims \<Rightarrow> ('db, 'r, 'k, 'h) deps \<Rightarrow> web_libs \<Rightarrow> 'p tls_net \<Rightarrow> e2e_rnd \<Rightarrow> e2e_cmd \<Rightarrow>
   'p e2e \<Rightarrow> 'p e2e \<times> (e2e_error + string option)" where
  "e2e_main K D W N r cmd st = (case cmd of
       Mint out \<Rightarrow> map_prod id (map_sum id Some) (e2e_mint D out st)
     | Send client_ca node node_ca_fp message \<Rightarrow>
         map_prod id (map_sum id (\<lambda>_. None)) (e2e_send K D W N r client_ca node node_ca_fp message st))"

end
