(* ===== verification/Demo_Prims.thy ===== *)
theory Demo_Prims
  imports Primitives
begin

text \<open>
  A concrete instance of the third-party primitives that satisfies every law of
  \<open>Primitives\<close>, with no security at all: Diffie-Hellman is byte-wise addition, a
  signature is the message length followed by a prefix of key and message, the AEAD appends a tag taken from the key.
  It shows that the laws are satisfiable and serves the concrete instances of the
  theorems.
\<close>

definition toy_sig :: "bytes \<Rightarrow> bytes \<Rightarrow> bytes" where
  "toy_sig pk m = take 3309 (u64_to_be (of_nat (length m)) @ pk @ m @ replicate 3309 0)"

definition toy_tag :: "bytes \<Rightarrow> bytes \<Rightarrow> bytes \<Rightarrow> bytes" where
  "toy_tag k n a = take 16 (drop 24 k @ n @ a @ replicate 16 0)"

definition demo :: prims where
  "demo = \<lparr>usize_max = 2 ^ 32 - 1,
     hkdf_extract = (\<lambda>salt ikm. take 32 salt @ ikm),
     hkdf_expand = (\<lambda>prk info n. take n (rev prk @ info @ replicate n 0)),
     x_secret_from = (\<lambda>s. s), x_public = (\<lambda>s. s), x_dh = map2 (+),
     kem_ek = (\<lambda>seed. seed @ replicate 1120 0), kem_ek_valid = (\<lambda>_. True),
     kem_encaps = (\<lambda>ek _. (take 1088 ek, take 32 ek)), kem_decaps = (\<lambda>seed _. take 32 seed),
     dsa_pk = (\<lambda>seed. seed @ replicate 1920 0),
     dsa_sign = (\<lambda>seed _ m. toy_sig (seed @ replicate 1920 0) m),
     dsa_sign_det = (\<lambda>seed m. toy_sig (seed @ replicate 1920 0) m),
     dsa_sig_valid = (\<lambda>_. True), dsa_verify = (\<lambda>pk m s. s = toy_sig pk m),
     aead_encrypt = (\<lambda>k n a m. Some (m @ toy_tag k n a)),
     aead_decrypt = (\<lambda>k n a c. if length c \<ge> 16 \<and> drop (length c - 16) c = toy_tag k n a
        then Some (take (length c - 16) c) else None),
     b64url_encode = map (\<lambda>b. char_of (unat b)),
     b64url_decode = (\<lambda>s. Some (map (\<lambda>c. of_nat (of_char c)) s))\<rparr>"

lemma length_toy_tag [simp]: "length (toy_tag k n a) = 16"
  unfolding toy_tag_def length_take by (rule min_absorb2) simp

lemma length_toy_sig [simp]: "length (toy_sig pk m) = 3309"
  unfolding toy_sig_def length_take by (rule min_absorb2) simp

lemma demo_platform: "platform_ok demo"
  by (simp add: platform_ok_def demo_def)

lemma demo_hkdf: "hkdf_laws demo"
  by (simp add: hkdf_laws_def demo_def min_def)

lemma demo_x25519: "x25519_laws demo"
proof -
  have "map2 (+) a b = map2 (+) b a" for a b :: bytes
    by (rule nth_equalityI) (auto simp: add.commute)
  then show ?thesis by (simp add: x25519_laws_def demo_def)
qed

lemma demo_kem: "kem_laws demo"
  by (simp add: kem_laws_def demo_def)

lemma demo_dsa: "dsa_laws demo"
  by (simp add: dsa_laws_def demo_def)

lemma demo_aead: "aead_laws demo"
proof -
  have "c = take n c @ toy_tag k v a" if "drop n c = toy_tag k v a" for c n k v a
    using that by (metis append_take_drop_id)
  then show ?thesis by (auto simp: aead_laws_def demo_def)
qed

lemma demo_base64: "base64_laws demo"
  by (simp add: base64_laws_def demo_def comp_def unsigned_less [THEN less_le_trans])

lemmas demo_laws = demo_platform demo_hkdf demo_x25519 demo_kem demo_dsa demo_aead demo_base64

lemma demo_crypto: "crypto_laws demo"
  by (simp add: crypto_laws_def demo_laws)

end
