(* ===== verification/Ratchet_Properties.thy ===== *)
theory Ratchet_Properties
  imports Ratchet_Session Demo_Prims
begin

text \<open>
  The correctness statements of the Double Ratchet, each with a concrete instance over
  the demonstration primitives: delivery in an asynchronous session, the state
  invariant, persistence, the bound on skipping, and what the implementation does with
  messages that are replayed or overflow the key store.
\<close>

section \<open>Concrete sessions\<close>

lemma encrypt_total:
  assumes "session_laws K" and "cks st = Some ck" and "length p < 2 ^ 32"
  shows "\<exists>msg. encrypt K st p = (st\<lparr>cks := Some (fst (kdf_ck K ck)), ns := ns st + 1\<rparr>, Inr msg)"
proof -
  let ?mk = "message_keys K (snd (kdf_ck K ck))"
  have "length (fst ?mk) = 32" "length (snd ?mk) = 24"
    using message_keys_lengths [OF session_laws_simps(2) [OF assms(1)]] by simp_all
  then obtain c where "seal K (fst ?mk) (snd ?mk) (to_aad \<lparr>h_dh = dhs_pub st, h_pn = pn st, h_n = ns st\<rparr>) p = Inr c"
    using assms(3) by (rule seal_total [OF session_laws_simps(4) [OF assms(1)]])
  then show ?thesis by (simp add: encrypt_def assms(2) Let_def case_prod_beta)
qed

definition alice :: ratchet_state where
  "alice = initiator demo (replicate 32 1) (replicate 32 2) (replicate 32 3)"

definition bob :: ratchet_state where
  "bob = responder demo (replicate 32 2) (replicate 32 3)"

lemma demo_session: "session_laws demo"
  by (simp add: session_laws_def demo_laws)

lemma demo_keys: "x25519_public_key demo s = s" "x25519_generate demo s = s" "x25519_from_bytes demo s = s"
  by (simp_all add: x25519_public_key_def x25519_generate_def x25519_from_bytes_def demo_def)

lemma alice_ok: "ratchet_ok demo alice"
  unfolding alice_def by (intro initiator_ok demo_laws) simp_all

lemma bob_ok: "ratchet_ok demo bob"
  unfolding bob_def by (intro responder_ok) (simp_all add: demo_keys)

lemma alice_sends: "\<exists>st msg. encrypt demo alice [7] = (st, Inr msg)"
proof -
  obtain ck where "cks alice = Some ck" by (auto simp: alice_def initiator_def Let_def case_prod_beta)
  from encrypt_total [OF demo_session this, of "[7]"] show ?thesis by auto
qed

section \<open>Delivery\<close>

lemma demo_start_ok: "start_ok demo (replicate 32 1) (replicate 32 2) (replicate 32 3)"
  by (simp add: start_ok_def demo_keys)

text \<open>A session in which the first message is on its way.\<close>

lemma demo_in_flight:
  "\<exists>c st msg. encrypt demo alice [7] = (st, Inr msg) \<and> (msg, [7]) \<in> set (net c True)
    \<and> (session_step demo)\<^sup>*\<^sup>* (session_start demo (replicate 32 1) (replicate 32 2) (replicate 32 3)) c
    \<and> party c False = bob \<and> used c = {replicate 32 1, replicate 32 3}"
proof -
  let ?c = "session_start demo (replicate 32 1) (replicate 32 2) (replicate 32 3)"
  have parties: "party ?c True = alice" "party ?c False = bob" "sent ?c True = 0" "net ?c True = []"
    by (simp_all add: session_start_def alice_def bob_def demo_keys Let_def)
  have used: "used ?c = {replicate 32 1, replicate 32 3}"
    by (simp add: session_start_def initiator_def responder_def demo_keys Let_def case_prod_beta)
  obtain st msg where e: "encrypt demo alice [7] = (st, Inr msg)" using alice_sends by blast
  let ?c' = "?c\<lparr>party := (party ?c)(True := st), net := (net ?c)(True := net ?c True @ [(msg, [7])]),
      sent := (sent ?c)(True := Suc (sent ?c True))\<rparr>"
  have "session_step demo ?c ?c'"
    using e by (intro session_step.send) (simp_all add: parties MAX_SKIP_def)
  then have "(session_step demo)\<^sup>*\<^sup>* ?c ?c'" by blast
  with e show ?thesis by (intro exI [of _ ?c'] exI [of _ st] exI [of _ msg]) (simp add: parties used)
qed

text \<open>C1. In a session set up by the handshake, whatever interleaving of sending,
  out-of-order delivery, loss and save/restore has happened (each side sending at most
  \<open>MAX_SKIP\<close> messages, ratchet keys never repeating), every message still in flight
  decrypts to exactly the plaintext that was sent.\<close>

theorem session_delivers:
  assumes "session_laws K" and "start_ok K rnd root ratchet_key"
    and "(session_step K)\<^sup>*\<^sup>* (session_start K rnd root ratchet_key) c"
    and "(msg, p) \<in> set (net c s)" and "length rnd' = 32"
    and "x25519_public_key K (x25519_generate K rnd') \<notin> used c"
  shows "snd (decrypt K rnd' (party c (\<not> s)) msg) = Inr p"
  by (rule session_in_flight [OF assms])

theorem session_delivers_witness:
  "\<exists>st msg. encrypt demo alice [7] = (st, Inr msg) \<and> snd (decrypt demo (replicate 32 4) bob msg) = Inr [7]"
proof -
  obtain c st msg where d: "encrypt demo alice [7] = (st, Inr msg)" "(msg, [7]) \<in> set (net c True)"
      "(session_step demo)\<^sup>*\<^sup>* (session_start demo (replicate 32 1) (replicate 32 2) (replicate 32 3)) c"
      "party c False = bob" "used c = {replicate 32 1, replicate 32 3}"
    using demo_in_flight by blast
  from session_delivers [OF demo_session demo_start_ok d(3,2), of "replicate 32 4"]
  have "snd (decrypt demo (replicate 32 4) bob msg) = Inr [7]"
    by (simp add: d(4,5) demo_keys replicate_eq_replicate)
  with d(1) show ?thesis by blast
qed

section \<open>State\<close>

text \<open>C10. Well-formed sessions stay well-formed: the ratchet keys match, every key has its
  length, and at most \<open>MAX_STORED_SKIPPED\<close> skipped keys are held under distinct
  indices. This holds after encryption and decryption on every path, errors and hostile
  input included, and for whatever loads from storage.\<close>

theorem ratchet_invariant:
  assumes "x25519_laws K" and "hkdf_laws K" and "ratchet_ok K st" and "length rnd = 32"
  shows "ratchet_ok K (fst (encrypt K st p)) \<and> ratchet_ok K (fst (decrypt K rnd st msg))
    \<and> (state_from_bytes K b = Inr st' \<longrightarrow> ratchet_ok K st')"
  using encrypt_ok [OF assms(2,3)] decrypt_ok [OF assms] state_from_bytes_ok [OF assms(1)] by blast

theorem ratchet_invariant_witness: "ratchet_ok demo (fst (decrypt demo (replicate 32 9) bob [1, 2, 3]))"
  using ratchet_invariant [OF demo_x25519 demo_hkdf bob_ok, of "replicate 32 9"] by simp

text \<open>C11. Storing a session and loading it back is invisible: the loaded session encrypts
  and decrypts every message to the same result as the original, and stores to the same
  bytes, whatever order the hash map iterates in.\<close>

theorem persistence_transparent:
  assumes "ratchet_ok K st"
  shows "\<exists>st'. state_from_bytes K (state_to_bytes st) = Inr st'
    \<and> snd (encrypt K st' p) = snd (encrypt K st p)
    \<and> snd (decrypt K rnd st' msg) = snd (decrypt K rnd st msg)
    \<and> state_to_bytes st' = state_to_bytes st"
proof (intro exI conjI)
  have same: "same_session st (canonical st)"
    using assms by (intro same_session_canonical) (simp add: ratchet_ok_def)
  show "state_from_bytes K (state_to_bytes st) = Inr (canonical st)"
    using assms by (rule state_from_to_bytes)
  show "snd (encrypt K (canonical st) p) = snd (encrypt K st p)"
    by (simp add: canonical_def encrypt_def Let_def case_prod_beta split: option.split)
  show "snd (decrypt K rnd (canonical st) msg) = snd (decrypt K rnd st msg)"
    using same_decrypt [OF same, of K rnd msg] by (simp add: same_outcome_def)
  show "state_to_bytes (canonical st) = state_to_bytes st"
    using same by (rule same_session_bytes)
qed

theorem persistence_transparent_witness:
  "\<exists>st'. state_from_bytes demo (state_to_bytes alice) = Inr st' \<and> state_to_bytes st' = state_to_bytes alice"
  using persistence_transparent [OF alice_ok, of "[]" "[]" "[]"] by blast

section \<open>Limits and faults\<close>

text \<open>A receiver on chain \<open>d\<close> at index \<open>n\<close>, used in the concrete instances below.\<close>

definition listener :: "u32 \<Rightarrow> skipped_map \<Rightarrow> ratchet_state" where
  "listener n m = \<lparr>dhs = replicate 32 3, dhs_pub = replicate 32 3, dhr = Some (replicate 32 1),
     rk = replicate 32 2, cks = None, ckr = Some (replicate 32 5), ns = 0, nr = n, pn = 0, skipped = m\<rparr>"

definition probe :: "u32 \<Rightarrow> bytes" where
  "probe n = ratchet_message \<lparr>h_dh = replicate 32 1, h_pn = 0, h_n = n\<rparr> [0, 0]"

lemma parse_probe: "parse_message demo (probe n) = Inr (\<lparr>h_dh = replicate 32 1, h_pn = 0, h_n = n\<rparr>, [0, 0])"
  unfolding probe_def by (rule parse_ratchet_message) (simp_all add: demo_platform)

lemma skip_loop_others: "d \<noteq> d' \<Longrightarrow> map_of (skipped (fst (skip_loop K d until ck st))) (d', j) = map_of (skipped st) (d', j)"
proof (induction K d until ck st rule: skip_loop.induct)
  case (1 K d until ck st)
  obtain c' mk where ck: "kdf_ck K ck = (c', mk)" by force
  show ?case
  proof (cases "nr st < until \<and> length (skipped st) < MAX_STORED_SKIPPED")
    case True
    with "1.IH" [OF _ refl ck [symmetric] refl] "1.prems" ck show ?thesis
      by (subst skip_loop.simps) (simp add: update_conv' fun_upd_other)
  next
    case False
    then show ?thesis by (subst skip_loop.simps) (auto simp: ck Let_def)
  qed
qed

lemma skip_message_keys_others:
  "dhr st \<noteq> Some d' \<Longrightarrow> map_of (skipped (fst (skip_message_keys K until st))) (d', j) = map_of (skipped st) (d', j)"
  by (auto simp: skip_message_keys_def skip_loop_others split: option.split)

lemma skip_message_keys_limit:
  assumes "dhr st \<noteq> None" and "ckr st \<noteq> None" and "unat (nr st) + unat MAX_SKIP < unat until"
  shows "skip_message_keys K until st = (st, Inl (RatchetErr ''too many skipped messages''))"
proof -
  have "saturating_add (nr st) MAX_SKIP < until"
    using assms(3) by (simp add: word_less_nat_alt unat_saturating_add)
  then show ?thesis using assms(1,2) by (auto simp: skip_message_keys_def)
qed

lemma dh_ratchet_fields:
  "dhr (dh_ratchet K rnd h st) = Some (h_dh h)" "ckr (dh_ratchet K rnd h st) \<noteq> None"
  "nr (dh_ratchet K rnd h st) = 0" "skipped (dh_ratchet K rnd h st) = skipped st"
  by (simp_all add: dh_ratchet_def Let_def case_prod_beta)

text \<open>C13. A header that asks to skip more than \<open>MAX_SKIP\<close> messages is rejected. When it
  continues the current chain, or when it announces a new ratchet key but leaves too large a
  gap at the end of the current chain, the session is left exactly as it was. When only its
  index on the new chain is too large, the end of the old chain is settled and the DH ratchet
  has turned before the refusal, so the session does change; the message is refused all the
  same and no key of the new chain is put into the store.\<close>

theorem skip_limit_enforced:
  assumes "parse_message K msg = Inr (h, c)" and "map_of (skipped st) (h_dh h, h_n h) = None"
  shows "(dhr st = Some (h_dh h) \<and> ckr st \<noteq> None \<and> unat (nr st) + unat MAX_SKIP < unat (h_n h) \<longrightarrow>
      decrypt K rnd st msg = (st, Inl (RatchetErr ''too many skipped messages'')))
    \<and> (dhr st \<noteq> None \<and> dhr st \<noteq> Some (h_dh h) \<and> ckr st \<noteq> None
        \<and> unat (nr st) + unat MAX_SKIP < unat (h_pn h) \<longrightarrow>
      decrypt K rnd st msg = (st, Inl (RatchetErr ''too many skipped messages'')))
    \<and> (dhr st \<noteq> Some (h_dh h) \<and> unat MAX_SKIP < unat (h_n h) \<longrightarrow>
      decrypt K rnd st msg = (case turn_if_new K rnd st h of
          (st1, Inl e) \<Rightarrow> (st1, Inl e)
        | (st1, Inr _) \<Rightarrow> (st1, Inl (RatchetErr ''too many skipped messages'')))
      \<and> (\<forall>j. map_of (skipped (fst (decrypt K rnd st msg))) (h_dh h, j) = map_of (skipped st) (h_dh h, j)))"
proof (intro conjI impI; (elim conjE)?)
  assume "dhr st = Some (h_dh h)" "ckr st \<noteq> None" "unat (nr st) + unat MAX_SKIP < unat (h_n h)"
  with skip_message_keys_limit [of st "h_n h" K] assms
  show "decrypt K rnd st msg = (st, Inl (RatchetErr ''too many skipped messages''))"
    by (simp add: decrypt_def decrypt_parsed_def turn_if_new_def)
next
  assume "dhr st \<noteq> None" "dhr st \<noteq> Some (h_dh h)" "ckr st \<noteq> None" "unat (nr st) + unat MAX_SKIP < unat (h_pn h)"
  with skip_message_keys_limit [of st "h_pn h" K] assms
  show "decrypt K rnd st msg = (st, Inl (RatchetErr ''too many skipped messages''))"
    by (simp add: decrypt_def decrypt_parsed_def turn_if_new_def)
next
  assume new: "dhr st \<noteq> Some (h_dh h)" and gap: "unat MAX_SKIP < unat (h_n h)"
  obtain s1 r1 where skip: "skip_message_keys K (h_pn h) st = (s1, r1)" by force
  have "skip_message_keys K (h_n h) (dh_ratchet K rnd h s1)
      = (dh_ratchet K rnd h s1, Inl (RatchetErr ''too many skipped messages''))"
    using gap by (intro skip_message_keys_limit) (simp_all add: dh_ratchet_fields)
  then have refused: "decrypt K rnd st msg = (case turn_if_new K rnd st h of
          (st1, Inl e) \<Rightarrow> (st1, Inl e)
        | (st1, Inr _) \<Rightarrow> (st1, Inl (RatchetErr ''too many skipped messages'')))"
    using assms new by (cases r1) (simp_all add: decrypt_def decrypt_parsed_def turn_if_new_def skip)
  then show "decrypt K rnd st msg = (case turn_if_new K rnd st h of
          (st1, Inl e) \<Rightarrow> (st1, Inl e)
        | (st1, Inr _) \<Rightarrow> (st1, Inl (RatchetErr ''too many skipped messages'')))" .
  show "\<forall>j. map_of (skipped (fst (decrypt K rnd st msg))) (h_dh h, j) = map_of (skipped st) (h_dh h, j)"
    using refused new skip_message_keys_others [OF new, of K "h_pn h"]
    by (cases r1) (simp_all add: turn_if_new_def skip dh_ratchet_fields)
qed

text \<open>A receiver still on the chain of an older ratchet key.\<close>

definition late_listener :: ratchet_state where
  "late_listener = (listener 0 [])\<lparr>dhr := Some (replicate 32 7)\<rparr>"

lemma late_listener_turns: "turn_if_new demo [] late_listener \<lparr>h_dh = replicate 32 1, h_pn = 0, h_n = n\<rparr>
    = (dh_ratchet demo [] \<lparr>h_dh = replicate 32 1, h_pn = 0, h_n = n\<rparr> late_listener, Inr ())"
proof -
  have "skip_message_keys demo 0 late_listener = (late_listener, Inr ())"
    by (simp add: skip_message_keys_def skip_loop.simps late_listener_def listener_def)
  then show ?thesis by (simp add: turn_if_new_def late_listener_def listener_def)
qed

theorem skip_limit_enforced_witness:
  "decrypt demo [] (listener 0 []) (probe 1001) = (listener 0 [], Inl (RatchetErr ''too many skipped messages''))
   \<and> decrypt demo [] late_listener (probe 1001)
     = (dh_ratchet demo [] \<lparr>h_dh = replicate 32 1, h_pn = 0, h_n = 1001\<rparr> late_listener,
        Inl (RatchetErr ''too many skipped messages''))"
proof
  show "decrypt demo [] (listener 0 []) (probe 1001) = (listener 0 [], Inl (RatchetErr ''too many skipped messages''))"
    by (rule skip_limit_enforced [OF parse_probe, THEN conjunct1, rule_format])
      (simp_all add: listener_def MAX_SKIP_def)
  have "dhr late_listener \<noteq> Some (replicate 32 1)" "skipped late_listener = []"
    by (simp_all add: late_listener_def listener_def)
  then show "decrypt demo [] late_listener (probe 1001)
     = (dh_ratchet demo [] \<lparr>h_dh = replicate 32 1, h_pn = 0, h_n = 1001\<rparr> late_listener,
        Inl (RatchetErr ''too many skipped messages''))"
    using skip_limit_enforced [OF parse_probe [of 1001], of late_listener "[]", THEN conjunct2, THEN conjunct2]
    by (simp add: MAX_SKIP_def late_listener_turns)
qed

text \<open>A message of the current chain that has been received already still moves the
  receiving chain when it arrives again: the counter and the chain key advance although
  nothing is authenticated. The next honest message is then opened with the key after its
  own.\<close>

theorem replay_desynchronises:
  assumes "parse_message K msg = Inr (h, c)" and "dhr st = Some (h_dh h)" and "ckr st = Some ck"
    and "map_of (skipped st) (h_dh h, h_n h) = None" and "h_n h < nr st"
    and "parse_message K msg' = Inr (h', c')" and "h_dh h' = h_dh h" and "h_n h' = nr st"
    and "map_of (skipped st) (h_dh h', h_n h') = None" and "nr st < nr st + 1"
  shows "fst (decrypt K rnd st msg) = st\<lparr>ckr := Some (fst (kdf_ck K ck)), nr := nr st + 1\<rparr>
    \<and> snd (decrypt K rnd' st msg') = open_message K (snd (kdf_ck K ck)) (to_aad h') c'
    \<and> snd (decrypt K rnd' (fst (decrypt K rnd st msg)) msg')
        = open_message K (snd (kdf_ck K (fst (kdf_ck K ck)))) (to_aad h') c'"
proof -
  have idle: "skip_message_keys K until s = (s, Inr ())"
    if "ckr s = Some k" "until \<le> nr s" for s k until
  proof -
    have "unat (nr s) \<le> unat (saturating_add (nr s) MAX_SKIP)"
      using unat_u32_less [of "nr s"] by (simp add: unat_saturating_add)
    then have "\<not> saturating_add (nr s) MAX_SKIP < until" "\<not> nr s < until"
      using that(2) by (simp_all add: word_le_nat_alt not_less)
    with that(1) show ?thesis
      by (cases "dhr s") (simp_all add: skip_message_keys_def skip_loop.simps)
  qed
  have first: "fst (decrypt K rnd st msg) = st\<lparr>ckr := Some (fst (kdf_ck K ck)), nr := nr st + 1\<rparr>"
    using assms(1-5) idle [of st ck "h_n h"]
    by (simp add: decrypt_def decrypt_parsed_def turn_if_new_def open_next_def Let_def case_prod_beta)
  moreover have "snd (decrypt K rnd' st msg') = open_message K (snd (kdf_ck K ck)) (to_aad h') c'"
    using assms(2,3,6-9) idle [of st ck "h_n h'"]
    by (simp add: decrypt_def decrypt_parsed_def turn_if_new_def open_next_def Let_def case_prod_beta)
  moreover have "snd (decrypt K rnd' (st\<lparr>ckr := Some (fst (kdf_ck K ck)), nr := nr st + 1\<rparr>) msg')
      = open_message K (snd (kdf_ck K (fst (kdf_ck K ck)))) (to_aad h') c'"
    using assms(2,6-10) idle [of "st\<lparr>ckr := Some (fst (kdf_ck K ck)), nr := nr st + 1\<rparr>" _ "h_n h'"]
    by (simp add: decrypt_def decrypt_parsed_def turn_if_new_def open_next_def Let_def case_prod_beta)
  ultimately show ?thesis by simp
qed

theorem replay_desynchronises_witness:
  "fst (decrypt demo [] (listener 3 []) (probe 1))
     = (listener 3 [])\<lparr>ckr := Some (fst (kdf_ck demo (replicate 32 5))), nr := 4\<rparr>"
  using replay_desynchronises [OF parse_probe [of 1], of "listener 3 []" "replicate 32 5" "probe 3"
      "\<lparr>h_dh = replicate 32 1, h_pn = 0, h_n = 3\<rparr>" "[0, 0]" "[]"] parse_probe [of 3]
  by (simp add: listener_def)

text \<open>When the store of skipped keys is full, the attempt to skip fails after the chain
  key has been replaced but before the counter moves: from then on the chain key is one
  step ahead of the index it is used for.\<close>

theorem full_store_desynchronises:
  assumes "parse_message K msg = Inr (h, c)" and "dhr st = Some (h_dh h)" and "ckr st = Some ck"
    and "map_of (skipped st) (h_dh h, h_n h) = None" and "nr st < h_n h"
    and "unat (h_n h) \<le> unat (nr st) + unat MAX_SKIP" and "MAX_STORED_SKIPPED \<le> length (skipped st)"
  shows "decrypt K rnd st msg = (st\<lparr>ckr := Some (fst (kdf_ck K ck))\<rparr>, Inl (RatchetErr ''skipped-key store full''))"
proof -
  have "unat (h_n h) \<le> unat (saturating_add (nr st) MAX_SKIP)"
    using assms(6) unat_u32_less [of "h_n h"] by (simp add: unat_saturating_add)
  then have "h_n h \<le> saturating_add (nr st) MAX_SKIP" by (simp add: word_le_nat_alt)
  then have "skip_message_keys K (h_n h) st
      = (st\<lparr>ckr := Some (fst (kdf_ck K ck))\<rparr>, Inl (RatchetErr ''skipped-key store full''))"
    using assms(2,3,5,7) by (simp add: skip_message_keys_def skip_loop.simps Let_def case_prod_beta not_less)
  then show ?thesis
    using assms(1,2,4) by (simp add: decrypt_def decrypt_parsed_def turn_if_new_def)
qed

definition full_store :: skipped_map where
  "full_store = map (\<lambda>i. ((replicate 32 0, of_nat i), replicate 32 0)) [0..<2000]"

theorem full_store_desynchronises_witness:
  "decrypt demo [] (listener 3 full_store) (probe 5) =
     ((listener 3 full_store)\<lparr>ckr := Some (fst (kdf_ck demo (replicate 32 5)))\<rparr>,
      Inl (RatchetErr ''skipped-key store full''))"
proof (rule full_store_desynchronises [OF parse_probe])
  have "map_of full_store (replicate 32 1, n) = None" for n
    by (auto simp: full_store_def map_of_eq_None_iff replicate_eq_replicate)
  then show "map_of (skipped (listener 3 full_store)) (h_dh \<lparr>h_dh = replicate 32 1, h_pn = 0, h_n = 5\<rparr>,
      h_n \<lparr>h_dh = replicate 32 1, h_pn = 0, h_n = 5\<rparr>) = None" by (simp add: listener_def)
qed (simp_all add: listener_def MAX_SKIP_def MAX_STORED_SKIPPED_def full_store_def)

end
