(* ===== verification/Handshake_Properties.thy ===== *)
theory Handshake_Properties
  imports Ffi Ratchet_Properties
begin

text \<open>
  The correctness statements of prekeys, the handshake, invites, media and the facade, each
  with a concrete instance over the demonstration primitives.
\<close>

section \<open>A concrete bundle\<close>

definition demo_rnd :: prekey_randomness where
  "demo_rnd = \<lparr>rnd_spk = replicate 32 3, rnd_kem = replicate 64 5, rnd_opk = replicate 32 6, rnd_sig = []\<rparr>"

definition demo_secrets :: prekey_secrets where
  "demo_secrets = fst (bundle_generate demo demo_rnd (replicate 32 7) True)"

definition demo_bundle :: prekey_bundle where
  "demo_bundle = snd (bundle_generate demo demo_rnd (replicate 32 7) True)"

definition demo_queue :: queue_descriptor where
  "demo_queue = \<lparr>qd_queue_id = replicate 32 1, qd_relay_url = bstr ''https://relay'',
     qd_ca_fingerprint = replicate 32 2\<rparr>"

definition demo_handshake :: handshake_randomness where
  "demo_handshake = \<lparr>rnd_ephemeral = replicate 32 9, rnd_encaps = [], rnd_transcript_sig = []\<rparr>"

lemma demo_generate: "bundle_generate demo demo_rnd (replicate 32 7) True = (demo_secrets, demo_bundle)"
  by (simp add: demo_secrets_def demo_bundle_def)

lemma demo_rnd_lengths:
  "length (rnd_spk demo_rnd) = 32" "length (rnd_kem demo_rnd) = 64" "length (rnd_opk demo_rnd) = 32"
  "length (replicate 32 (7 :: u8)) = 32" "length (rnd_ephemeral demo_handshake) = 32"
  by (simp_all add: demo_rnd_def demo_handshake_def)

lemma demo_bundle_ok: "bundle_ok demo demo_bundle" "bundle_authentic demo demo_bundle" "secrets_ok demo demo_secrets"
  using bundle_generate_ok [OF demo_x25519 demo_kem demo_dsa demo_rnd_lengths(1-4) demo_generate] by simp_all

lemma demo_match: "secrets_match demo demo_secrets demo_bundle"
  by (rule bundle_generate_match [OF demo_x25519 demo_kem demo_dsa demo_rnd_lengths(1-4) demo_generate])

lemma demo_queue_ok: "qd_ok demo demo_queue"
proof -
  have "utf8_valid (bstr ''https://relay'')" by code_simp
  then show ?thesis using demo_platform by (simp add: qd_ok_def demo_queue_def platform_ok_def)
qed

lemma demo_identity: "pb_identity demo_bundle = identity_public_key demo (replicate 32 7)"
  by (simp add: demo_bundle_def bundle_generate_def Let_def mlkem_generate_def)

section \<open>Prekeys\<close>

text \<open>C7. A prekey bundle becomes a value only when it is authentic: whatever bytes the
  decoder accepts, the keys have their sizes, the identity's signature covers exactly the
  keys carried, and the bundle survives another round trip.\<close>

theorem bundle_verified_on_parse:
  assumes "platform_ok K" and "bundle_decode K bytes = Inr b"
  shows "bundle_ok K b \<and> bundle_authentic K b \<and> bundle_decode K (bundle_encode b) = Inr b"
  using bundle_codec.dec_ok [OF assms(2)] bundle_codec.reencode_stable [OF assms] by blast

theorem bundle_verified_on_parse_witness:
  "bundle_authentic demo demo_bundle \<and> bundle_decode demo (bundle_encode demo_bundle) = Inr demo_bundle"
  using bundle_verified_on_parse [OF demo_platform bundle_decode_encode [OF demo_platform demo_bundle_ok(1,2)]]
  by blast

text \<open>A freshly generated prekey set round-trips in both halves: the published bundle
  decodes (so its signature verifies) and the stored secrets load back, and every public
  key of the bundle belongs to the secret kept.\<close>

theorem prekey_generate_roundtrip:
  assumes "crypto_laws K" and "length (rnd_spk r) = 32" and "length (rnd_kem r) = 64"
    and "length (rnd_opk r) = 32" and "length identity = 32"
    and "bundle_generate K r identity one = (s, b)"
  shows "bundle_decode K (bundle_encode b) = Inr b \<and> secrets_from_bytes K (secrets_to_bytes s) = Inr s
    \<and> secrets_match K s b"
proof -
  have l: "platform_ok K" "x25519_laws K" "kem_laws K" "dsa_laws K" using assms(1) by (simp_all add: crypto_laws_def)
  note g = bundle_generate_ok [OF l(2-4) assms(2-6)]
  show ?thesis
    using g bundle_decode_encode [OF l(1)] secrets_from_to_bytes bundle_generate_match [OF l(2-4) assms(2-6)]
    by blast
qed

theorem prekey_generate_roundtrip_witness:
  "bundle_decode demo (bundle_encode demo_bundle) = Inr demo_bundle
   \<and> secrets_from_bytes demo (secrets_to_bytes demo_secrets) = Inr demo_secrets"
  using prekey_generate_roundtrip [OF demo_crypto demo_rnd_lengths(1-4) demo_generate] by blast

section \<open>Handshake\<close>

text \<open>C5. Both sides of PQXDH derive the same 32-byte root: the responder, given the wire
  form of the initiator's first flight and the secrets of the bundle it was made for,
  accepts it and computes the initiator's root.\<close>

theorem handshake_agreement:
  assumes "crypto_laws K" and "length initiator_sk = 32" and "length (rnd_ephemeral rnd) = 32"
    and "bundle_ok K b" and "secrets_match K s b" and "initiate K rnd initiator_sk b = (m, root)"
  shows "and_then (im_decode K (im_encode m)) (respond K b s) = Inr root \<and> length root = 32"
proof -
  have l: "platform_ok K" "x25519_laws K" "kem_laws K" "dsa_laws K" using assms(1) by (simp_all add: crypto_laws_def)
  have "length (pb_kem_key b) = 1184" using assms(4) by (simp add: bundle_ok_def)
  note im = initiate_im_ok [OF assms(1-3) this assms(6)]
  then show ?thesis
    using im_decode_encode [OF l(1)] initiate_respond [OF l(2-4) assms(2,3,5,6)] by simp
qed

theorem handshake_agreement_witness:
  "\<exists>m root. initiate demo demo_handshake (replicate 32 8) demo_bundle = (m, root)
     \<and> respond demo demo_bundle demo_secrets m = Inr root"
proof -
  obtain m root where i: "initiate demo demo_handshake (replicate 32 8) demo_bundle = (m, root)" by force
  from handshake_agreement [OF demo_crypto _ demo_rnd_lengths(5) demo_bundle_ok(1) demo_match i]
  have "and_then (im_decode demo (im_encode m)) (respond demo demo_bundle demo_secrets) = Inr root" by simp
  moreover have "im_decode demo (im_encode m) = Inr m"
    using initiate_im_ok [OF demo_crypto _ demo_rnd_lengths(5) _ i] demo_bundle_ok(1)
    by (intro im_decode_encode demo_platform) (simp add: bundle_ok_def)
  ultimately show ?thesis using i by auto
qed

text \<open>The transcript as a frame, and its injectivity.\<close>

definition transcript_frame :: "responder_view \<Rightarrow> bytes \<Rightarrow> bytes \<Rightarrow> bytes \<Rightarrow> frame" where
  "transcript_frame v i e c =
     with_field (with_field (with_field
       (with_opt_field (with_field (with_field (with_field (with_field frame_new
          TAG_CONTEXT TRANSCRIPT_CONTEXT) TAG_IDENTITY_PUB (rv_identity v))
          TAG_PREKEY_X25519 (rv_signed_prekey v)) TAG_MLKEM_EK (rv_kem_key_bytes v))
          TAG_ONETIME_PREKEY (rv_one_time_prekey v))
        TAG_IDENTITY_PUB i) TAG_EPHEMERAL_X25519 e) TAG_KEM_CT c"

definition view_fits :: "responder_view \<Rightarrow> bytes \<Rightarrow> bytes \<Rightarrow> bytes \<Rightarrow> bool" where
  "view_fits v i e c \<longleftrightarrow> list_all (\<lambda>b. length b < 2 ^ 32)
     ([rv_identity v, rv_signed_prekey v, rv_kem_key_bytes v, i, e, c]
      @ (case rv_one_time_prekey v of None \<Rightarrow> [] | Some k \<Rightarrow> [k]))"

text \<open>C6. The signed transcript binds the whole handshake: two handshakes with the same
  transcript agree on every public value, the presence of the one-time prekey included.
  A signature over it can therefore not be moved to other keys.\<close>

theorem transcript_binds:
  assumes "view_fits v i e c" and "view_fits v' i' e' c'"
    and "transcript v i e c = transcript v' i' e' c'"
  shows "v = v' \<and> i = i' \<and> e = e' \<and> c = c'"
proof -
  have fit: "frame_ok (2 ^ 32) (transcript_frame v i e c)" if "view_fits v i e c" for v i e c
    using that by (cases "rv_one_time_prekey v")
      (simp_all add: transcript_frame_def view_fits_def TRANSCRIPT_CONTEXT_def)
  have "transcript_frame v i e c = transcript_frame v' i' e' c'"
    using frame_codec.enc_inject [OF _ fit [OF assms(1)] fit [OF assms(2)]] assms(3)
    by (simp add: transcript_frame_def transcript_def)
  then have "rv_identity v = rv_identity v' \<and> rv_signed_prekey v = rv_signed_prekey v'
      \<and> rv_kem_key_bytes v = rv_kem_key_bytes v' \<and> rv_one_time_prekey v = rv_one_time_prekey v'
      \<and> i = i' \<and> e = e' \<and> c = c'"
    by (cases "rv_one_time_prekey v"; cases "rv_one_time_prekey v'")
      (simp_all add: transcript_frame_def with_field_def with_opt_field_def frame_new_def tag_defs)
  then show ?thesis by (cases v; cases v') simp
qed

theorem transcript_binds_witness:
  "transcript \<lparr>rv_identity = [1], rv_signed_prekey = [2], rv_kem_key_bytes = [3], rv_one_time_prekey = None\<rparr> [4] [5] [6]
   \<noteq> transcript \<lparr>rv_identity = [1], rv_signed_prekey = [2], rv_kem_key_bytes = [3], rv_one_time_prekey = Some [4]\<rparr> [4] [5] [6]"
  using transcript_binds [of "\<lparr>rv_identity = [1], rv_signed_prekey = [2], rv_kem_key_bytes = [3], rv_one_time_prekey = None\<rparr>"
      "[4]" "[5]" "[6]" "\<lparr>rv_identity = [1], rv_signed_prekey = [2], rv_kem_key_bytes = [3], rv_one_time_prekey = Some [4]\<rparr>"
      "[4]" "[5]" "[6]"] by (auto simp: view_fits_def)

text \<open>The decoder of the first flight does not reject the reserved post-quantum tags:
  a handshake frame carrying one is accepted, although \<open>reject_reserved_pq\<close> refuses the
  same frame.\<close>

theorem handshake_accepts_reserved_tags:
  assumes "platform_ok K" and "im_ok K m" and "length v < 2 ^ 32"
  shows "im_decode K (frame_encode (with_field (im_frame m) TAG_SPQR_CHUNK v)) = Inr m
    \<and> reject_reserved_pq (with_field (im_frame m) TAG_SPQR_CHUNK v) = Inl (ReservedTag TAG_SPQR_CHUNK)"
proof -
  let ?f = "with_field (im_frame m) TAG_SPQR_CHUNK v"
  have "length TRANSCRIPT_CONTEXT = 23" by (simp add: TRANSCRIPT_CONTEXT_def)
  then have "frame_ok (usize_max K) ?f"
    using assms by (simp add: im_frame_def im_ok_def platform_ok_def)
  then have dec: "frame_decode (usize_max K) (frame_encode ?f) = Inr ?f" by (rule frame_decode_encode_ok)
  have "reject_reserved_pq ?f = Inl (ReservedTag TAG_SPQR_CHUNK)"
    by (simp add: reject_reserved_pq_def im_frame_def with_field_def frame_new_def PQ_RESERVED_TAGS_def tag_defs
        word_le_nat_alt)
  moreover have "im_decode K (frame_encode ?f) = Inr m"
    using assms(2) by (simp add: im_decode_def dec) (simp add: im_frame_def tag_defs im_ok_def)
  ultimately show ?thesis by blast
qed

definition demo_flight :: initial_message where
  "demo_flight = \<lparr>im_identity = replicate 1952 0, im_ephemeral = replicate 32 0, im_kem_ciphertext = [],
     im_signature = replicate 3309 0\<rparr>"

theorem handshake_accepts_reserved_tags_witness:
  "im_decode demo (frame_encode (with_field (im_frame demo_flight) TAG_SPQR_CHUNK [1])) = Inr demo_flight"
proof -
  have "im_ok demo demo_flight" by (simp add: im_ok_def demo_flight_def) (simp add: demo_def)
  from handshake_accepts_reserved_tags [OF demo_platform this, of "[1]"] show ?thesis by simp
qed

section \<open>Invites\<close>

text \<open>An invite made from one's own bundle parses back from its URI to exactly the
  invite that was created.\<close>

theorem invite_uri_roundtrip:
  assumes "crypto_laws K" and "length identity = 32" and "qd_ok K q" and "length (qd_relay_url q) < 2 ^ 31"
    and "bundle_ok K b" and "bundle_authentic K b" and "pb_identity b = identity_public_key K identity"
    and "length nonce = 16"
  shows "invite_parse K (to_uri K (invite_create K rnd identity q b nonce expiry))
    = Inr (invite_create K rnd identity q b nonce expiry)"
proof -
  have l: "platform_ok K" "dsa_laws K" "base64_laws K" using assms(1) by (simp_all add: crypto_laws_def)
  let ?i = "invite_create K rnd identity q b nonce expiry"
  have parts: "inv_queue ?i = q" "inv_bundle ?i = b" by (simp_all add: invite_create_def Let_def)
  have "invite_ok K ?i \<and> invite_signed K ?i (bundle_encode b)"
    using invite_create_ok [OF l(2) assms(2,3,5-8)] .
  then show ?thesis
    using invite_decode_encode [OF l(1), of ?i] assms(4) by (simp add: invite_parse_uri [OF l(3)] parts)
qed

theorem invite_uri_roundtrip_witness:
  "is_ok (invite_parse demo (to_uri demo
     (invite_create demo [] (replicate 32 7) demo_queue demo_bundle (replicate 16 0) 1700000000000)))"
  using invite_uri_roundtrip [OF demo_crypto demo_rnd_lengths(4) demo_queue_ok _ demo_bundle_ok(1,2) demo_identity,
      of "replicate 16 0" "[]" 1700000000000] by (simp add: demo_queue_def)

text \<open>C8. A parsed invite is authentic: its bundle is well-formed and signed by the identity
  it names, and that identity's signature covers the queue, the nonce, the expiry and the
  bytes the bundle was carried in.\<close>

theorem invite_authentic_on_parse:
  assumes "invite_parse K uri = Inr i"
  shows "invite_ok K i \<and> bundle_authentic K (inv_bundle i)
    \<and> (\<exists>bundle_bytes. bundle_decode K bundle_bytes = Inr (inv_bundle i) \<and> invite_signed K i bundle_bytes)"
  using invite_parse_sound [OF assms] by (simp add: invite_ok_def)

theorem invite_authentic_on_parse_witness:
  "\<exists>i. invite_parse demo (to_uri demo
     (invite_create demo [] (replicate 32 7) demo_queue demo_bundle (replicate 16 0) 5)) = Inr i
   \<and> bundle_authentic demo (inv_bundle i)"
proof -
  let ?i = "invite_create demo [] (replicate 32 7) demo_queue demo_bundle (replicate 16 0) 5"
  have c: "invite_ok demo ?i \<and> invite_signed demo ?i (bundle_encode demo_bundle)"
    by (rule invite_create_ok [OF demo_dsa demo_rnd_lengths(4) demo_queue_ok demo_bundle_ok(1,2) demo_identity]) simp
  have "inv_queue ?i = demo_queue" "inv_bundle ?i = demo_bundle" by (simp_all add: invite_create_def Let_def)
  with c have "invite_parse demo (to_uri demo ?i) = Inr ?i"
    using invite_decode_encode [OF demo_platform, of ?i]
    by (simp add: invite_parse_uri [OF demo_base64]) (simp add: demo_queue_def)
  with invite_authentic_on_parse [OF this] show ?thesis by blast
qed

text \<open>The bundle of an invite carried with one more, unknown, field.\<close>

definition padded_bundle :: "prekey_bundle \<Rightarrow> bytes" where
  "padded_bundle b = frame_encode (with_field (bundle_frame b) 0x99 [])"

lemma padded_bundle_decodes:
  assumes "platform_ok K" and "bundle_ok K b" and "bundle_authentic K b"
  shows "bundle_decode K (padded_bundle b) = Inr b"
proof -
  have "frame_ok (usize_max K) (with_field (bundle_frame b) 0x99 [])"
    using bundle_frame_ok [OF assms(1,2)] by simp
  then have dec: "frame_decode (usize_max K) (padded_bundle b) = Inr (with_field (bundle_frame b) 0x99 [])"
    unfolding padded_bundle_def by (rule frame_decode_encode_ok)
  show ?thesis
    using assms(2,3) by (cases "pb_one_time_prekey b")
      (auto simp: bundle_decode_def dec bundle_frame_def tag_defs bundle_ok_def bundle_authentic_def)
qed

lemma length_padded_bundle: "bundle_ok K b \<Longrightarrow> length (padded_bundle b) < 2 ^ 32"
  using length_frame_encode [of "with_field (bundle_frame b) 0x99 []"]
  by (cases "pb_one_time_prekey b")
    (simp_all add: padded_bundle_def bundle_frame_def with_field_def with_opt_field_def frame_new_def bundle_ok_def)

text \<open>An accepted invite need not re-encode to an accepted one: the signature covers the
  bundle bytes as received, \<open>encode\<close> writes the bundle afresh. With an unknown field in
  the carried bundle the invite decodes, and its own encoding is rejected (given that a
  signature over one body is not one over the other).\<close>

theorem invite_reencode_rejected:
  assumes "platform_ok K" and "invite_ok K i" and "length (qd_relay_url (inv_queue i)) < 2 ^ 31"
    and "invite_signed K i (padded_bundle (inv_bundle i))"
    and "\<not> invite_signed K i (bundle_encode (inv_bundle i))"
  shows "invite_decode K (frame_encode (invite_wire i (padded_bundle (inv_bundle i)))) = Inr i
    \<and> invite_decode K (invite_encode i) = Inl BadSignature"
proof -
  have b: "bundle_ok K (inv_bundle i)" "bundle_authentic K (inv_bundle i)" using assms(2) by (simp_all add: invite_ok_def)
  show ?thesis
    using invite_decode_wire [OF assms(1-3) length_padded_bundle [OF b(1)] padded_bundle_decodes [OF assms(1) b]]
      invite_decode_encode [OF assms(1-3)] assms(4,5) by simp
qed

definition padded_invite :: invite where
  "padded_invite = \<lparr>inv_queue = demo_queue, inv_bundle = demo_bundle, inv_nonce = replicate 16 0, inv_expiry_ms = 5,
     inv_signature = toy_sig (pb_identity demo_bundle) (invite_signing_body demo_queue (pb_identity demo_bundle)
       (padded_bundle demo_bundle) (replicate 16 0) 5)\<rparr>"

lemma demo_verify: "dsa_verify demo pk m s \<longleftrightarrow> s = toy_sig pk m"
  by (simp add: demo_def)

lemma toy_sig_length:
  assumes "toy_sig pk m = toy_sig pk m'" and "length m < 2 ^ 64" and "length m' < 2 ^ 64"
  shows "length m = length m'"
proof -
  have "take 8 (toy_sig pk x) = u64_to_be (of_nat (length x))" for x by (simp add: toy_sig_def)
  with assms(1) have "(of_nat (length m) :: u64) = of_nat (length m')" by (metis u64_to_be_inject)
  then show ?thesis using assms(2,3) by (metis unat_of_nat_u64)
qed

lemma padded_body_longer:
  assumes "bundle_ok K b"
  shows "length (invite_signing_body q i (bundle_encode b) n e) < length (invite_signing_body q i (padded_bundle b) n e)"
proof -
  have eq: "length (invite_signing_body q i bb n e) = 2 + length (write_varint 0)
      + length (field_encode \<lparr>tag = TAG_CONTEXT, val = INVITE_CONTEXT\<rparr>)
      + length (field_encode \<lparr>tag = TAG_QUEUE_URI, val = qd_encode q\<rparr>)
      + length (field_encode \<lparr>tag = TAG_IDENTITY_PUB, val = i\<rparr>)
      + length (field_encode \<lparr>tag = TAG_PREKEY_BUNDLE, val = bb\<rparr>)
      + length (field_encode \<lparr>tag = TAG_INVITE_NONCE, val = n\<rparr>)
      + length (field_encode \<lparr>tag = TAG_EXPIRY, val = u64_to_be e\<rparr>)" for bb
    by (simp add: invite_signing_body_def frame_encode_def with_field_def frame_new_def)
  have "length (bundle_encode b) < length (padded_bundle b)"
    using field_encode_nonempty by (simp add: bundle_encode_def padded_bundle_def frame_encode_def with_field_def)
  then show ?thesis
    using length_field_encode_mono [of "bundle_encode b" "padded_bundle b" TAG_PREKEY_BUNDLE]
      length_padded_bundle [OF assms] by (simp add: eq)
qed

lemma length_invite_body:
  assumes "qd_ok K q" and "length (qd_relay_url q) < 2 ^ 31" and "length i = 1952" and "length bb < 2 ^ 32"
    and "length n = 16"
  shows "length (invite_signing_body q i bb n e) < 2 ^ 64"
proof -
  let ?f = "with_field (with_field (with_field (with_field (with_field (with_field frame_new
        TAG_CONTEXT INVITE_CONTEXT) TAG_QUEUE_URI (qd_encode q)) TAG_IDENTITY_PUB i)
        TAG_PREKEY_BUNDLE bb) TAG_INVITE_NONCE n) TAG_EXPIRY (u64_to_be e)"
  have "length (frame_encode ?f) \<le> 12 + (\<Sum>x\<leftarrow>field_list ?f. 20 + length (val x))" by (rule length_frame_encode)
  then show ?thesis
    using assms length_qd_encode [OF assms(1)]
    by (simp add: invite_signing_body_def with_field_def frame_new_def INVITE_CONTEXT_def)
qed

theorem invite_reencode_rejected_witness:
  "is_ok (invite_decode demo (frame_encode (invite_wire padded_invite (padded_bundle demo_bundle))))
   \<and> invite_decode demo (invite_encode padded_invite) = Inl BadSignature"
proof -
  have f: "inv_bundle padded_invite = demo_bundle" "inv_queue padded_invite = demo_queue"
    by (simp_all add: padded_invite_def)
  have ok: "invite_ok demo padded_invite"
    using demo_queue_ok demo_bundle_ok by (simp add: invite_ok_def padded_invite_def) (simp add: demo_def)
  have url: "length (qd_relay_url demo_queue) < 2 ^ 31" by (simp add: demo_queue_def)
  have id: "length (pb_identity demo_bundle) = 1952" using demo_bundle_ok(1) by (simp add: bundle_ok_def)
  have b: "length (bundle_encode demo_bundle) < 2 ^ 32" "length (padded_bundle demo_bundle) < 2 ^ 32"
    using length_bundle_encode [OF demo_bundle_ok(1)] length_padded_bundle [OF demo_bundle_ok(1)] by simp_all
  have "invite_signed demo padded_invite (padded_bundle demo_bundle)"
    by (simp add: invite_signed_def padded_invite_def demo_verify)
  moreover have "\<not> invite_signed demo padded_invite (bundle_encode demo_bundle)"
    using toy_sig_length [OF _ length_invite_body [OF demo_queue_ok url id b(2)] length_invite_body [OF demo_queue_ok url id b(1)]]
      padded_body_longer [OF demo_bundle_ok(1), of demo_queue "pb_identity demo_bundle" "replicate 16 0" 5]
    by (fastforce simp: invite_signed_def padded_invite_def demo_verify)
  ultimately show ?thesis
    using invite_reencode_rejected [OF demo_platform ok] url by (simp add: f)
qed

section \<open>Media\<close>

lemma ffi_media_opens:
  assumes "aead_laws K" and "length key_rnd = 32" and "length nonce_rnd = 24" and "length p < 2 ^ 32"
  obtains sm where "ffi_seal_media K key_rnd nonce_rnd p = Some sm" "length (sm_key_material sm) = MEDIA_KEY_LEN"
    "length (sm_ciphertext sm) = length p + 16" "ffi_open_media K (sm_key_material sm) (sm_ciphertext sm) = Inr p"
    "\<And>c. ffi_open_media K (sm_key_material sm) c = Inr p \<Longrightarrow> c = sm_ciphertext sm"
proof -
  obtain k ct where k: "seal_media K key_rnd nonce_rnd p = Some (k, ct)" "media_key_ok k" "length ct = length p + 16"
    using seal_media_total [OF assms] by metis
  note key = media_codec.dec_enc [OF TrueI k(2)]
  have "c = ct" if "open_media K k c = Inr p" for c
    using that k(1) open_only_sealed [OF assms(1)]
    by (fastforce simp: open_media_def seal_media_def Let_def split: sum.splits)
  then have only: "c = ct" if "ffi_open_media K (media_key_to_bytes k) c = Inr p" for c
    using that by (cases "open_media K k c") (auto simp: ffi_open_media_def key)
  let ?sm = "\<lparr>sm_key_material = media_key_to_bytes k, sm_ciphertext = ct\<rparr>"
  show thesis
  proof (rule that [of ?sm])
    show "ffi_seal_media K key_rnd nonce_rnd p = Some ?sm" by (simp add: ffi_seal_media_def k(1))
    show "length (sm_key_material ?sm) = MEDIA_KEY_LEN"
      using k(2) by (simp add: media_key_ok_def media_key_to_bytes_def MEDIA_KEY_LEN_def len_consts)
    show "ffi_open_media K (sm_key_material ?sm) (sm_ciphertext ?sm) = Inr p"
      by (simp add: ffi_open_media_def key open_seal_media [OF assms(1) k(1)])
  qed (use k(3) only in simp_all)
qed

text \<open>Sealing a file always succeeds; the 56-byte key material opens the ciphertext to the
  file, and no other ciphertext opens to it under that key.\<close>

theorem media_roundtrip:
  assumes "aead_laws K" and "length key_rnd = 32" and "length nonce_rnd = 24" and "length p < 2 ^ 32"
  shows "\<exists>sm. ffi_seal_media K key_rnd nonce_rnd p = Some sm \<and> length (sm_key_material sm) = MEDIA_KEY_LEN
    \<and> ffi_open_media K (sm_key_material sm) (sm_ciphertext sm) = Inr p
    \<and> (ffi_open_media K (sm_key_material sm) c = Inr p \<longrightarrow> c = sm_ciphertext sm)"
  using ffi_media_opens [OF assms] by metis

theorem media_roundtrip_witness:
  "\<exists>sm. ffi_seal_media demo (replicate 32 1) (replicate 24 2) [9, 9] = Some sm
     \<and> ffi_open_media demo (sm_key_material sm) (sm_ciphertext sm) = Inr [9, 9]"
  using media_roundtrip [OF demo_aead, of "replicate 32 1" "replicate 24 2" "[9, 9]"] by auto

section \<open>First contact\<close>

lemma fixed_eq [simp]: "fixed n w b = Inr d \<longleftrightarrow> d = b \<and> length b = n"
  by (auto simp: fixed_def)

lemma canonical_start:
  "canonical (initiator K rnd root peer) = initiator K rnd root peer"
  "canonical (responder K root sk) = responder K root sk"
  by (simp_all add: canonical_def initiator_def responder_def Let_def case_prod_beta)

lemma first_message:
  assumes "session_laws K" and "start_ok K rnd root sk" and "length p + 16 < 2 ^ 32" and "length rd = 32"
    and "encrypt K (initiator K rnd root (x25519_public_key K sk)) p = (st', Inr msg)"
    and "x25519_public_key K (x25519_generate K rd) \<notin> used (session_start K rnd root sk)"
  shows "snd (decrypt K rd (responder K root sk) msg) = Inr p"
proof -
  let ?c = "session_start K rnd root sk"
  have f: "party ?c True = initiator K rnd root (x25519_public_key K sk)" "party ?c False = responder K root sk"
    "net ?c True = []" "sent ?c True = 0" by (simp_all add: session_start_def Let_def)
  define c where "c = ?c\<lparr>party := (party ?c)(True := st'), net := (net ?c)(True := net ?c True @ [(msg, p)]),
      sent := (sent ?c)(True := Suc (sent ?c True))\<rparr>"
  have "session_step K ?c c"
    unfolding c_def using assms(3,5) by (intro session_step.send) (simp_all add: f MAX_SKIP_def)
  then have inv: "session_inv K c"
    using session_step_inv [OF assms(1)] session_start_inv [OF assms(1,2)] by blast
  obtain s r where d: "decrypt K rd (party c (\<not> True)) msg = (s, r)" by force
  have "net c True = [] @ (msg, p) # []" by (simp add: c_def f)
  from session_deliver [OF assms(1) inv this d assms(4)] assms(6) d show ?thesis
    by (simp add: c_def f)
qed

text \<open>The two ends of a handshake as sessions on disk: the blobs the facade returns load to
  an initiator and a responder that share the root.\<close>

lemma facade_handshake:
  assumes "crypto_laws K" and "length idA = 32" and "length (rnd_ephemeral rh) = 32" and "length rr = 32"
    and "bundle_ok K b" and "bundle_authentic K b" and "secrets_match K s b"
  obtains ses sB root where "initiate_session K rh rr idA (bundle_encode b) = Inr ses"
    "accept_session K (secrets_to_bytes s) (bundle_encode b) (is_initial_message ses) = Inr sB"
    "state_from_bytes K (is_session ses) = Inr (initiator K rr root (x25519_public_key K (sec_signed_prekey s)))"
    "state_from_bytes K sB = Inr (responder K root (sec_signed_prekey s))"
    "start_ok K rr root (sec_signed_prekey s)"
proof -
  have l: "platform_ok K" "hkdf_laws K" "x25519_laws K" "kem_laws K" "dsa_laws K"
    using assms(1) by (simp_all add: crypto_laws_def)
  obtain m root where i: "initiate K rh idA b = (m, root)" by force
  have "length (pb_kem_key b) = 1184" using assms(5) by (simp add: bundle_ok_def)
  note im = initiate_im_ok [OF assms(1-3) this i]
  have s: "secrets_ok K s" "pb_signed_prekey b = x25519_public_key K (sec_signed_prekey s)"
    using assms(7) by (simp_all add: secrets_match_def)
  then have spk: "length (sec_signed_prekey s) = 32" "x25519_from_bytes K (sec_signed_prekey s) = sec_signed_prekey s"
    by (simp_all add: secrets_ok_def)
  note dec = bundle_decode_encode [OF l(1) assms(5,6)] im_decode_encode [OF l(1)] secrets_from_to_bytes [OF s(1)]
  have okA: "ratchet_ok K (initiator K rr root (x25519_public_key K (sec_signed_prekey s)))"
    using l spk assms(4) by (intro initiator_ok) (simp_all add: x25519_lengths)
  have okB: "ratchet_ok K (responder K root (sec_signed_prekey s))"
    using im spk by (intro responder_ok) simp_all
  show thesis
  proof (rule that)
    show "initiate_session K rh rr idA (bundle_encode b) = Inr
        \<lparr>is_session = state_to_bytes (initiator K rr root (x25519_public_key K (sec_signed_prekey s))),
         is_initial_message = im_encode m\<rparr>"
      using assms(2) by (simp add: initiate_session_def fixed_def SEED_LEN_def dec identity_from_seed_def i s(2))
    show "accept_session K (secrets_to_bytes s) (bundle_encode b) (is_initial_message
        \<lparr>is_session = state_to_bytes (initiator K rr root (x25519_public_key K (sec_signed_prekey s))),
         is_initial_message = im_encode m\<rparr>) = Inr (state_to_bytes (responder K root (sec_signed_prekey s)))"
      using im initiate_respond [OF l(3-5) assms(2,3,7) i] by (simp add: accept_session_def dec)
    show "state_from_bytes K (is_session
        \<lparr>is_session = state_to_bytes (initiator K rr root (x25519_public_key K (sec_signed_prekey s))),
         is_initial_message = im_encode m\<rparr>)
        = Inr (initiator K rr root (x25519_public_key K (sec_signed_prekey s)))"
      using okA by (simp add: state_from_to_bytes canonical_start)
    show "state_from_bytes K (state_to_bytes (responder K root (sec_signed_prekey s)))
        = Inr (responder K root (sec_signed_prekey s))"
      using okB by (simp add: state_from_to_bytes canonical_start)
    show "start_ok K rr root (sec_signed_prekey s)" using im spk assms(4) by (simp add: start_ok_def)
  qed
qed

text \<open>The invite half: what the inviter publishes is what the recipient reads.\<close>

lemma facade_invite:
  assumes "crypto_laws K" and "length idB = 32"
    and "length (rnd_spk r) = 32" and "length (rnd_kem r) = 64" and "length (rnd_opk r) = 32"
    and "length qid = 32" and "length ca = 32" and "utf8_valid url" and "length url < 2 ^ 31" and "length nonce = 16"
    and g: "bundle_generate K r idB True = (s, b)"
  shows "publishable_prekey_bundle K r idB = Inr \<lparr>pm_secrets = secrets_to_bytes s, pm_bundle = bundle_encode b\<rparr>"
    and "\<exists>uri e. create_invite K rs idB qid url ca (bundle_encode b) nonce expiry = Inr uri
      \<and> parse_invite K uri = Inr \<lparr>pi_queue_id = qid, pi_relay_url = url, pi_ca_fingerprint = ca,
        pi_identity_public_key = identity_public_key K idB, pi_bundle = bundle_encode b, pi_expiry_ms = e\<rparr>"
proof -
  have l: "platform_ok K" "x25519_laws K" "kem_laws K" "dsa_laws K" "base64_laws K"
    using assms(1) by (simp_all add: crypto_laws_def)
  note ok = bundle_generate_ok [OF l(2-4) assms(3-5,2) g]
  have id: "pb_identity b = identity_public_key K idB"
    using g by (auto simp: bundle_generate_def Let_def mlkem_generate_def)
  let ?q = "\<lparr>qd_queue_id = qid, qd_relay_url = url, qd_ca_fingerprint = ca\<rparr>"
  let ?i = "invite_create K rs idB ?q b nonce (f64_as_u64 expiry)"
  have q: "qd_ok K ?q" using assms(6-9) l(1) by (simp add: qd_ok_def platform_ok_def)
  have i: "inv_queue ?i = ?q" "inv_bundle ?i = b" by (simp_all add: invite_create_def Let_def)
  have "invite_ok K ?i \<and> invite_signed K ?i (bundle_encode b)"
    using invite_create_ok [OF l(4) assms(2) q _ _ id assms(10)] ok by blast
  then have "invite_parse K (to_uri K ?i) = Inr ?i"
    using invite_decode_encode [OF l(1), of ?i] assms(9) by (simp add: invite_parse_uri [OF l(5)] i)
  then have "parse_invite K (to_uri K ?i) = Inr \<lparr>pi_queue_id = qid, pi_relay_url = url, pi_ca_fingerprint = ca,
      pi_identity_public_key = identity_public_key K idB, pi_bundle = bundle_encode b,
      pi_expiry_ms = u64_as_f64 (inv_expiry_ms ?i)\<rparr>"
    by (simp add: parse_invite_def i id)
  moreover have "create_invite K rs idB qid url ca (bundle_encode b) nonce expiry = Inr (to_uri K ?i)"
    using assms(2,6,7,10) ok bundle_decode_encode [OF l(1)]
    by (simp add: create_invite_def fixed_def SEED_LEN_def QUEUE_ID_LEN_def CA_FINGERPRINT_LEN_def
        INVITE_NONCE_LEN_def identity_from_seed_def)
  ultimately show "\<exists>uri e. create_invite K rs idB qid url ca (bundle_encode b) nonce expiry = Inr uri
      \<and> parse_invite K uri = Inr \<lparr>pi_queue_id = qid, pi_relay_url = url, pi_ca_fingerprint = ca,
        pi_identity_public_key = identity_public_key K idB, pi_bundle = bundle_encode b, pi_expiry_ms = e\<rparr>"
    by blast
  show "publishable_prekey_bundle K r idB = Inr \<lparr>pm_secrets = secrets_to_bytes s, pm_bundle = bundle_encode b\<rparr>"
    using assms(2) by (simp add: publishable_prekey_bundle_def fixed_def SEED_LEN_def identity_from_seed_def g)
qed

text \<open>The message half: blobs that load to the two ends of a session carry a message.\<close>

lemma facade_first_message:
  assumes "session_laws K" and "start_ok K rr root sk" and "length p + 16 < 2 ^ 32" and "length rd = 32"
    and "state_from_bytes K sA = Inr (initiator K rr root (x25519_public_key K sk))"
    and "state_from_bytes K sB = Inr (responder K root sk)"
    and "x25519_public_key K (x25519_generate K rd) \<notin>
      {x25519_public_key K (x25519_generate K rr), x25519_public_key K sk}"
  shows "\<exists>em dm. encrypt_message K sA p = Inr em \<and> decrypt_message K rd sB (em_message em) = Inr dm
    \<and> dm_plaintext dm = p"
proof -
  let ?A = "initiator K rr root (x25519_public_key K sk)"
  obtain ck where "cks ?A = Some ck" by (auto simp: initiator_def Let_def case_prod_beta)
  then obtain st msg where e: "encrypt K ?A p = (st, Inr msg)"
    using encrypt_total [OF assms(1), of ?A ck p] assms(3) by auto
  have "x25519_public_key K (x25519_generate K rd) \<notin> used (session_start K rr root sk)"
    using assms(7) by (simp add: session_start_def initiator_def responder_def Let_def case_prod_beta)
  from first_message [OF assms(1-4) e this] obtain st2 where
    d: "decrypt K rd (responder K root sk) msg = (st2, Inr p)" by (metis prod.collapse)
  have "encrypt_message K sA p = Inr \<lparr>em_session = state_to_bytes st, em_message = msg\<rparr>"
    by (simp add: encrypt_message_def assms(5) e)
  moreover have "decrypt_message K rd sB msg = Inr \<lparr>dm_session = state_to_bytes st2, dm_plaintext = p\<rparr>"
    by (simp add: decrypt_message_def assms(6) d)
  ultimately show ?thesis by auto
qed

text \<open>C4. First contact works end to end through the facade: from a published prekey set and
  an invite URI, the recipient recovers the queue and the inviter's identity, opens a
  session and encrypts; the inviter accepts the first flight and reads the first message.
  All state passes through the stored blobs.\<close>

theorem first_contact:
  assumes "crypto_laws K" and "length idA = 32" and "length idB = 32"
    and "length (rnd_spk r) = 32" and "length (rnd_kem r) = 64" and "length (rnd_opk r) = 32"
    and "length qid = 32" and "length ca = 32" and "utf8_valid url" and "length url < 2 ^ 31" and "length nonce = 16"
    and "length (rnd_ephemeral rh) = 32" and "length rr = 32" and "length rd = 32" and "length p + 16 < 2 ^ 32"
    and "x25519_public_key K (x25519_generate K rd) \<notin>
      {x25519_public_key K (x25519_generate K rr), x25519_public_key K (x25519_generate K (rnd_spk r))}"
  shows "\<exists>pm uri inv ses sB em dm. publishable_prekey_bundle K r idB = Inr pm
    \<and> create_invite K rs idB qid url ca (pm_bundle pm) nonce expiry = Inr uri
    \<and> parse_invite K uri = Inr inv
    \<and> pi_queue_id inv = qid \<and> pi_relay_url inv = url \<and> pi_ca_fingerprint inv = ca
    \<and> ffi_identity_public_key K idB = Inr (pi_identity_public_key inv)
    \<and> initiate_session K rh rr idA (pi_bundle inv) = Inr ses
    \<and> accept_session K (pm_secrets pm) (pm_bundle pm) (is_initial_message ses) = Inr sB
    \<and> encrypt_message K (is_session ses) p = Inr em
    \<and> decrypt_message K rd sB (em_message em) = Inr dm \<and> dm_plaintext dm = p"
proof -
  have l: "platform_ok K" "hkdf_laws K" "x25519_laws K" "kem_laws K" "dsa_laws K" "aead_laws K"
    using assms(1) by (simp_all add: crypto_laws_def)
  obtain s b where g: "bundle_generate K r idB True = (s, b)" by force
  note ok = bundle_generate_ok [OF l(3-5) assms(4-6,3) g] and match = bundle_generate_match [OF l(3-5) assms(4-6,3) g]
  note inv = facade_invite [OF assms(1,3-11) g]
  have spk: "sec_signed_prekey s = x25519_generate K (rnd_spk r)"
    using g by (auto simp: bundle_generate_def Let_def mlkem_generate_def)
  obtain uri e where uri: "create_invite K rs idB qid url ca (bundle_encode b) nonce expiry = Inr uri"
    "parse_invite K uri = Inr \<lparr>pi_queue_id = qid, pi_relay_url = url, pi_ca_fingerprint = ca,
        pi_identity_public_key = identity_public_key K idB, pi_bundle = bundle_encode b, pi_expiry_ms = e\<rparr>"
    using inv(2) by blast
  obtain ses sB root where hs: "initiate_session K rh rr idA (bundle_encode b) = Inr ses"
    "accept_session K (secrets_to_bytes s) (bundle_encode b) (is_initial_message ses) = Inr sB"
    "state_from_bytes K (is_session ses) = Inr (initiator K rr root (x25519_public_key K (sec_signed_prekey s)))"
    "state_from_bytes K sB = Inr (responder K root (sec_signed_prekey s))" "start_ok K rr root (sec_signed_prekey s)"
    using facade_handshake [OF assms(1,2,12,13) _ _ match] ok by blast
  have sl: "session_laws K" using l by (simp add: session_laws_def)
  obtain em dm where msg: "encrypt_message K (is_session ses) p = Inr em"
    "decrypt_message K rd sB (em_message em) = Inr dm" "dm_plaintext dm = p"
    using facade_first_message [OF sl hs(5) assms(15,14) hs(3,4)] assms(16) by (auto simp: spk)
  show ?thesis
    by (intro exI conjI, rule inv(1), simp add: uri(1), rule uri(2))
      (use hs msg assms(3) in \<open>simp_all add: ffi_identity_public_key_def fixed_def SEED_LEN_def identity_from_seed_def\<close>)
qed

theorem first_contact_witness:
  "\<exists>pm ses sB. publishable_prekey_bundle demo demo_rnd (replicate 32 7) = Inr pm
    \<and> initiate_session demo demo_handshake (replicate 32 1) (replicate 32 8) (pm_bundle pm) = Inr ses
    \<and> accept_session demo (pm_secrets pm) (pm_bundle pm) (is_initial_message ses) = Inr sB"
proof -
  have url: "utf8_valid (bstr ''https://relay'')" by code_simp
  have fresh: "x25519_public_key demo (x25519_generate demo (replicate 32 4)) \<notin>
      {x25519_public_key demo (x25519_generate demo (replicate 32 1)),
       x25519_public_key demo (x25519_generate demo (rnd_spk demo_rnd))}"
    by (simp add: demo_keys demo_rnd_def)
  obtain pm uri inv ses sB em dm where c: "publishable_prekey_bundle demo demo_rnd (replicate 32 7) = Inr pm"
    "create_invite demo [] (replicate 32 7) (replicate 32 1) (bstr ''https://relay'') (replicate 32 2)
       (pm_bundle pm) (replicate 16 0) 0 = Inr uri"
    "parse_invite demo uri = Inr inv"
    "initiate_session demo demo_handshake (replicate 32 1) (replicate 32 8) (pi_bundle inv) = Inr ses"
    "accept_session demo (pm_secrets pm) (pm_bundle pm) (is_initial_message ses) = Inr sB"
    using first_contact [OF demo_crypto _ demo_rnd_lengths(4,1-3) _ _ url _ _ demo_rnd_lengths(5) _ _ _ fresh,
        of "replicate 32 8" "replicate 32 1" "replicate 32 2" "replicate 16 0" "[1]" "[]" 0]
    by auto
  have "pm_bundle pm = bundle_encode demo_bundle"
    using c(1) by (auto simp: publishable_prekey_bundle_def fixed_def SEED_LEN_def identity_from_seed_def demo_generate)
  moreover have "pi_bundle inv = bundle_encode demo_bundle"
    using facade_invite(2) [OF demo_crypto demo_rnd_lengths(4,1-3) _ _ url _ _ demo_generate,
        of "replicate 32 1" "replicate 32 2" "replicate 16 0" "[]" 0] c(2,3) calculation by auto
  ultimately show ?thesis using c by auto
qed

section \<open>Forward compatibility\<close>

text \<open>No encoder of this version uses a tag from the range reserved for the post-quantum
  ratchet: every frame it writes passes the reserved-tag gate.\<close>

theorem encoders_avoid_reserved_tags:
  "(\<exists>f. ratchet_message h c = frame_encode f \<and> reject_reserved_pq f = Inr ())
   \<and> (\<exists>f. bundle_encode b = frame_encode f \<and> reject_reserved_pq f = Inr ())
   \<and> (\<exists>f. im_encode m = frame_encode f \<and> reject_reserved_pq f = Inr ())
   \<and> (\<exists>f. qd_encode q = frame_encode f \<and> reject_reserved_pq f = Inr ())
   \<and> (\<exists>f. invite_encode i = frame_encode f \<and> reject_reserved_pq f = Inr ())"
proof -
  have t: "\<not> PQ_RESERVED_TAGS TAG_CONTEXT" "\<not> PQ_RESERVED_TAGS TAG_IDENTITY_PUB" "\<not> PQ_RESERVED_TAGS TAG_PREKEY_X25519"
    "\<not> PQ_RESERVED_TAGS TAG_MLKEM_EK" "\<not> PQ_RESERVED_TAGS TAG_ONETIME_PREKEY" "\<not> PQ_RESERVED_TAGS TAG_SIGNATURE"
    "\<not> PQ_RESERVED_TAGS TAG_EPHEMERAL_X25519" "\<not> PQ_RESERVED_TAGS TAG_KEM_CT" "\<not> PQ_RESERVED_TAGS TAG_QUEUE_ID"
    "\<not> PQ_RESERVED_TAGS TAG_RELAY_URL" "\<not> PQ_RESERVED_TAGS TAG_CA_FINGERPRINT" "\<not> PQ_RESERVED_TAGS TAG_QUEUE_URI"
    "\<not> PQ_RESERVED_TAGS TAG_PREKEY_BUNDLE" "\<not> PQ_RESERVED_TAGS TAG_INVITE_NONCE" "\<not> PQ_RESERVED_TAGS TAG_EXPIRY"
    "\<not> PQ_RESERVED_TAGS TAG_RATCHET_DH" "\<not> PQ_RESERVED_TAGS TAG_RATCHET_PN" "\<not> PQ_RESERVED_TAGS TAG_RATCHET_N"
    "\<not> PQ_RESERVED_TAGS TAG_CIPHERTEXT"
    by (simp_all add: PQ_RESERVED_TAGS_def tag_defs word_le_nat_alt)
  have "\<exists>f. frame_encode g = frame_encode f \<and> reject_reserved_pq f = Inr ()" if "reject_reserved_pq g = Inr ()" for g
    using that by blast
  then show ?thesis
    unfolding ratchet_message_def bundle_encode_def im_encode_def qd_encode_def invite_encode_def
    using t by (simp add: bundle_frame_def im_frame_def qd_frame_def invite_frame_def)
qed

text \<open>The browser self test of the codec succeeds on every supported platform.\<close>

theorem wire_self_test_passes:
  assumes "platform_ok K"
  shows "wire_self_test K"
proof -
  let ?f = "with_field (with_field (with_flags frame_new FLAG_HANDSHAKE) TAG_IDENTITY_PUB [1, 2, 3])
      TAG_SIGNATURE (replicate 8 9)"
  have "frame_ok (usize_max K) ?f" using assms
    by (simp add: platform_ok_def frame_ok_def field_ok_def with_field_def with_flags_def frame_new_def)
  then have "frame_decode (usize_max K) (frame_encode ?f) = Inr ?f" by (rule frame_decode_encode_ok)
  moreover have "reject_reserved_pq ?f = Inr ()"
    by (simp add: reject_reserved_pq_def with_field_def with_flags_def frame_new_def PQ_RESERVED_TAGS_def
        tag_defs word_le_nat_alt)
  ultimately show ?thesis unfolding wire_self_test_def Let_def by (simp only: sum.case is_ok_simps simp_thms)
qed

theorem wire_self_test_passes_witness: "wire_self_test demo"
  by (rule wire_self_test_passes [OF demo_platform])

text \<open>The self test of the cipher compares with no known ciphertext: every cipher with the
  AEAD interface passes it, not only the one whose test vector it uses.\<close>

theorem aead_self_test_any_cipher:
  assumes "aead_laws K"
  shows "aead_self_test K"
proof -
  have "length KAT_KEY = 32" "length KAT_NONCE = 24" "length KAT_PLAINTEXT < 2 ^ 32"
    by (simp_all add: KAT_KEY_def KAT_NONCE_def KAT_PLAINTEXT_def)
  then obtain c where c: "seal K KAT_KEY KAT_NONCE KAT_AAD KAT_PLAINTEXT = Inr c" by (rule seal_total [OF assms])
  then have "open_aead K KAT_KEY KAT_NONCE KAT_AAD c = Inr KAT_PLAINTEXT" using open_seal [OF assms] by blast
  then show ?thesis using c by (simp add: aead_self_test_def)
qed

theorem aead_self_test_any_cipher_witness: "aead_self_test demo"
  by (rule aead_self_test_any_cipher [OF demo_aead])

end
