(* ===== verification/Cli.thy ===== *)
theory Cli
  imports Daemon Peer_Probe
begin

text \<open>
  The operator's command line tool, \<open>crates/buh-cli/src/main.rs\<close>: the commands on the
  datastore, on the node's authority and on the peer registry, the hand-written client of
  the admin API with its fall-back to the datastore, and the probe of a peer.

  The state is the record \<open>host\<close>: the files and the datastore of \<open>Daemon\<close>, the snapshot in
  the memory of the running node, and the remote node a probe reaches. The admin API is
  reached through an argument \<open>net\<close>, which takes an address and the bytes of a request and
  gives the bytes read until the connection ends, or \<open>None\<close> when connecting, writing or reading
  fails. What a command prints is the list of its lines; parsing the arguments is the
  crate \<open>clap\<close>.
\<close>

section \<open>Commands\<close>

datatype ca_command = CaInit | CaShow | CaRotate bool

datatype peer_command =
    PeerTrust ustring "ustring option"
  | PeerDistrust ustring
  | PeerList
  | PeerPing ustring

datatype command = Migrate | Sweep | Ca ca_command | Peer peer_command

record cli =
  cli_db_path :: string
  cli_pki_dir :: string
  cli_admin_url :: ustring
  cli_command :: command

datatype cli_error =
    CliCore core_error
  | CliNeedsForce
  | CliHttp nat
  | CliJson

record ('db, 'r, 'p) host =
  h_world :: "('db, 'r) world"
  h_live :: trust_store
  h_remote :: 'p

definition put_world :: "('db, 'r) world \<Rightarrow> ('db, 'r, 'p) host \<Rightarrow> ('db, 'r, 'p) host" where
  "put_world w h = h\<lparr>h_world := w\<rparr>"

definition put_remote :: "'p \<Rightarrow> ('db, 'r, 'p) host \<Rightarrow> ('db, 'r, 'p) host" where
  "put_remote p h = h\<lparr>h_remote := p\<rparr>"

abbreviation on_world :: "(('db, 'r) world \<Rightarrow> ('db, 'r) world \<times> (core_error + 'a)) \<Rightarrow> ('db, 'r, 'p) host \<Rightarrow>
    ('db, 'r, 'p) host \<times> (cli_error + 'a)" where
  "on_world f h \<equiv> map_prod id (map_err CliCore) (through h_world put_world f h)"

section \<open>The authority\<close>

definition default_sans :: "string list" where
  "default_sans = [''localhost'']"

definition NOMINAL_LEAF_TTL :: int where "NOMINAL_LEAF_TTL = 48 * 3600"

definition cli_load_ca ::
  "('db, 'r, 'k, 'h) deps \<Rightarrow> string \<Rightarrow> ('db, 'r, 'p) host \<Rightarrow> ('db, 'r, 'p) host \<times> (cli_error + 'k node_ca)" where
  "cli_load_ca D dir = on_world (through w_fs put_fs (load_or_init (dp_libs D) (dp_os D) (dp_rcgen D) (dp_rand D 0)
     (dp_path D dir) default_sans NOMINAL_LEAF_TTL))"

definition run_ca ::
  "('db, 'r, 'k, 'h) deps \<Rightarrow> string \<Rightarrow> ca_command \<Rightarrow> ('db, 'r, 'p) host \<Rightarrow> ('db, 'r, 'p) host \<times> (cli_error + ustring list)" where
  "run_ca D dir cmd h = (case cmd of
       CaInit \<Rightarrow>
         then_do (cli_load_ca D dir h) (\<lambda>h ca.
           (h, Inr [ustr ''CA ready in '' @ text_of dir, ustr ''ca_fingerprint '' @ ustr (nc_fingerprint ca)]))
     | CaShow \<Rightarrow>
         then_do (cli_load_ca D dir h) (\<lambda>h ca. (h, Inr [ustr (nc_fingerprint ca)]))
     | CaRotate force \<Rightarrow>
         if \<not> force then (h, Inl CliNeedsForce)
         else then_do (on_world (through w_fs put_fs (rekey (dp_libs D) (dp_os D) (dp_rcgen D) (dp_rand D 0)
             (dp_path D dir) default_sans NOMINAL_LEAF_TTL)) h) (\<lambda>h ca.
           (h, Inr [ustr ''CA re-keyed; old material backed up to *.bak in '' @ text_of dir,
                    ustr ''ca_fingerprint '' @ ustr (nc_fingerprint ca),
                    ustr ''peers must now re-pin this fingerprint''])))"

section \<open>The datastore\<close>

definition cli_stack :: "('db, 'r, 'k, 'h) deps \<Rightarrow> string \<Rightarrow> cli_error + ('db, 'r, 'k) node_stack" where
  "cli_stack D db_path = map_err CliCore (stack_connect D db_path core_config_default)"

definition cli_migrate ::
  "('db, 'r, 'k, 'h) deps \<Rightarrow> string \<Rightarrow> ('db, 'r, 'p) host \<Rightarrow> ('db, 'r, 'p) host \<times> (cli_error + ustring list)" where
  "cli_migrate D db_path h =
     then_do (h, cli_stack D db_path) (\<lambda>h st.
     then_do (on_world (stack_migrate D) h) (\<lambda>h _. (h, Inr [ustr ''migrations applied''])))"

definition cli_sweep ::
  "('db, 'r, 'k, 'h) deps \<Rightarrow> string \<Rightarrow> moment \<Rightarrow> ('db, 'r, 'p) host \<Rightarrow> ('db, 'r, 'p) host \<times> (cli_error + ustring list)" where
  "cli_sweep D db_path mo h =
     then_do (h, cli_stack D db_path) (\<lambda>h st.
     then_do (on_world (stack_migrate D) h) (\<lambda>h _.
     then_do (on_world (mailbox_sweep (ds_ctx st) mo) h) (\<lambda>h removed.
       (h, Inr [ustr ''swept '' @ ustr (show_nat removed) @ ustr '' expired envelope(s)'']))))"

text \<open>The registry, opened directly; the operation runs on the database of the stack.\<close>

definition open_registry ::
  "('db, 'r, 'k, 'h) deps \<Rightarrow> string \<Rightarrow> ('db, 'r, 'p) host \<Rightarrow> ('db, 'r, 'p) host \<times> (cli_error + 'db registry_port)" where
  "open_registry D db_path h =
     then_do (h, cli_stack D db_path) (\<lambda>h st.
     then_do (on_world (stack_migrate D) h) (\<lambda>h _.
       (h, Inr (turso_registry (dp_libs D) (dp_lower D) (dp_engine D)))))"

definition on_db :: "('db \<Rightarrow> 'db \<times> (core_error + 'a)) \<Rightarrow> ('db, 'r, 'p) host \<Rightarrow> ('db, 'r, 'p) host \<times> (cli_error + 'a)" where
  "on_db f = on_world (through (tm_db \<circ> w_mail) (\<lambda>db w. put_mail ((w_mail w)\<lparr>tm_db := db\<rparr>) w) f)"

section \<open>The admin client\<close>

type_synonym 'w admin_net = "ustring \<Rightarrow> bytes \<Rightarrow> 'w \<Rightarrow> 'w \<times> bytes option"

definition ensure_ok :: "nat \<Rightarrow> cli_error + unit" where
  "ensure_ok status = (if 200 \<le> status \<and> status < 300 then Inr () else Inl (CliHttp status))"

definition admin_hostport :: "ustring \<Rightarrow> ustring" where
  "admin_hostport url = (let s = (case strip_prefix (ustr ''http://'') url of Some s \<Rightarrow> s | None \<Rightarrow> url)
     in hd (split_on 47 s))"

definition json_bool :: "web_libs \<Rightarrow> ustring \<Rightarrow> ustring \<Rightarrow> bool" where
  "json_bool W body key = (case Option.bind (js_parse W body) (\<lambda>v. as_bool (json_index key v)) of
       Some b \<Rightarrow> b | None \<Rightarrow> False)"

definition admin_request :: "ustring \<Rightarrow> ustring \<Rightarrow> ustring \<Rightarrow> ustring option \<Rightarrow> ustring" where
  "admin_request hostport meth path body =
     (let req = meth @ ustr '' '' @ path @ ustr '' HTTP/1.1'' @ CRLF @ ustr ''Host: '' @ hostport @ CRLF
            @ ustr ''Connection: close'' @ CRLF;
          req = (case body of
              Some b \<Rightarrow> req @ ustr ''Content-Type: application/json'' @ CRLF
                @ ustr ''Content-Length: '' @ ustr (show_nat (length (utf8 b))) @ CRLF
            | None \<Rightarrow> req);
          req = req @ CRLF
      in (case body of Some b \<Rightarrow> req @ b | None \<Rightarrow> req))"

definition admin_response :: "bytes \<Rightarrow> (nat \<times> ustring) option" where
  "admin_response bs = (let resp = from_utf8_lossy bs in
     (case lines_of resp of
        [] \<Rightarrow> None
      | l # _ \<Rightarrow> map_option (\<lambda>status. (status, response_body resp)) (status_of_line l)))"

definition admin_req ::
  "'w admin_net \<Rightarrow> ustring \<Rightarrow> ustring \<Rightarrow> ustring \<Rightarrow> ustring option \<Rightarrow> 'w \<Rightarrow> 'w \<times> (nat \<times> ustring) option" where
  "admin_req net hostport meth path body w =
     (case net hostport (utf8 (admin_request hostport meth path body)) w of
        (w', None) \<Rightarrow> (w', None)
      | (w', Some bs) \<Rightarrow> (w', admin_response bs))"

section \<open>The registry commands\<close>

definition peers_of_json :: "json \<Rightarrow> (ustring \<times> ustring option) list" where
  "peers_of_json v = (case as_array (json_index (ustr ''peers'') v) of
       None \<Rightarrow> []
     | Some arr \<Rightarrow> List.map_filter (\<lambda>p.
         Option.bind (as_str (json_index (ustr ''ca_fingerprint'') p)) (\<lambda>fp.
           Some (fp, as_str (json_index (ustr ''note'') p)))) arr)"

definition trusted_fingerprints_with_notes ::
  "('db, 'r, 'k, 'h) deps \<Rightarrow> web_libs \<Rightarrow> ('db, 'r, 'p) host admin_net \<Rightarrow> ustring \<Rightarrow> string \<Rightarrow> ('db, 'r, 'p) host \<Rightarrow>
   ('db, 'r, 'p) host \<times> (cli_error + (ustring \<times> ustring option) list)" where
  "trusted_fingerprints_with_notes D W net admin db_path h =
     (case admin_req net admin (ustr ''GET'') (ustr ''/admin/peers'') None h of
        (h, Some (status, body)) \<Rightarrow>
          (h, and_then (ensure_ok status) (\<lambda>_.
              and_then (ok_or CliJson (js_parse W body)) (\<lambda>v. Inr (peers_of_json v))))
      | (h, None) \<Rightarrow>
          then_do (open_registry D db_path h) (\<lambda>h reg.
          then_do (on_db (\<lambda>db. (db, reg_list reg db)) h) (\<lambda>h peers.
            (h, Inr (map (\<lambda>p. (tp_fingerprint p, tp_note p)) peers)))))"

definition NODE_SUFFIX :: ustring where "NODE_SUFFIX = ustr '' (applied to the running node)''"
definition DIRECT :: ustring where "DIRECT = ustr ''direct DB '' @ [8212] @ ustr '' daemon not running''"

definition run_trust ::
  "('db, 'r, 'k, 'h) deps \<Rightarrow> web_libs \<Rightarrow> ('db, 'r, 'p) host admin_net \<Rightarrow> ustring \<Rightarrow> string \<Rightarrow> ustring \<Rightarrow> ustring option \<Rightarrow> int \<Rightarrow>
   ('db, 'r, 'p) host \<Rightarrow> ('db, 'r, 'p) host \<times> (cli_error + ustring list)" where
  "run_trust D W net admin db_path ca_fp note now h =
     (let body = js_print W (JObject [(ustr ''ca_fingerprint'', JString ca_fp),
            (ustr ''note'', case note of None \<Rightarrow> JNull | Some s \<Rightarrow> JString s)]) in
      case admin_req net admin (ustr ''POST'') (ustr ''/admin/peers'') (Some body) h of
        (h, Some (status, _)) \<Rightarrow>
          (h, and_then (ensure_ok status) (\<lambda>_. Inr [ustr ''trusting peer CA '' @ ca_fp @ NODE_SUFFIX]))
      | (h, None) \<Rightarrow>
          then_do (open_registry D db_path h) (\<lambda>h reg.
          then_do (on_db (reg_trust reg ca_fp note now) h) (\<lambda>h _.
            (h, Inr [ustr ''trusting peer CA '' @ ca_fp @ ustr '' ('' @ DIRECT @ ustr '')'']))))"

definition run_distrust ::
  "('db, 'r, 'k, 'h) deps \<Rightarrow> web_libs \<Rightarrow> ('db, 'r, 'p) host admin_net \<Rightarrow> ustring \<Rightarrow> string \<Rightarrow> ustring \<Rightarrow>
   ('db, 'r, 'p) host \<Rightarrow> ('db, 'r, 'p) host \<times> (cli_error + ustring list)" where
  "run_distrust D W net admin db_path ca_fp h =
     (let said = (\<lambda>removed. if removed then ustr ''distrusted peer CA '' @ ca_fp
            else ustr ''peer CA '' @ ca_fp @ ustr '' was not trusted'') in
      case admin_req net admin (ustr ''DELETE'') (ustr ''/admin/peers/'' @ ca_fp) None h of
        (h, Some (status, body)) \<Rightarrow>
          (h, and_then (ensure_ok status) (\<lambda>_. Inr [said (json_bool W body (ustr ''removed'')) @ NODE_SUFFIX]))
      | (h, None) \<Rightarrow>
          then_do (open_registry D db_path h) (\<lambda>h reg.
          then_do (on_db (reg_distrust reg ca_fp) h) (\<lambda>h removed.
            (h, Inr [said removed @ ustr '' ('' @ DIRECT @ ustr '')'']))))"

definition run_list ::
  "('db, 'r, 'k, 'h) deps \<Rightarrow> web_libs \<Rightarrow> ('db, 'r, 'p) host admin_net \<Rightarrow> ustring \<Rightarrow> string \<Rightarrow>
   ('db, 'r, 'p) host \<Rightarrow> ('db, 'r, 'p) host \<times> (cli_error + ustring list)" where
  "run_list D W net admin db_path h =
     then_do (trusted_fingerprints_with_notes D W net admin db_path h) (\<lambda>h peers.
       (h, Inr ((if peers = [] then [ustr ''no trusted peer CAs''] else [])
         @ map (\<lambda>(fp, note). case note of Some note \<Rightarrow> fp @ ustr ''  '' @ note | None \<Rightarrow> fp) peers)))"

text \<open>A probe that fails is reported, and the command succeeds; \<open>show\<close> is the text of an error.\<close>

definition run_ping ::
  "('db, 'r, 'k, 'h) deps \<Rightarrow> web_libs \<Rightarrow> ('db, 'r, 'p) host admin_net \<Rightarrow> 'p tls_net \<Rightarrow> (probe_error \<Rightarrow> ustring) \<Rightarrow>
   ustring \<Rightarrow> string \<Rightarrow> string \<Rightarrow> ustring \<Rightarrow> ('db, 'r, 'p) host \<Rightarrow> ('db, 'r, 'p) host \<times> (cli_error + ustring list)" where
  "run_ping D W net N show admin db_path dir addr h =
     then_do (cli_load_ca D dir h) (\<lambda>h ca.
     then_do (trusted_fingerprints_with_notes D W net admin db_path h) (\<lambda>h trusted.
     let trust_set = from_fingerprints (map fst trusted) in
     then_do (h, map_err CliCore (node_tls_new (dp_rustls D) (issue_leaf (dp_rcgen D) (dp_rand D 1) (dp_now D) ca) trust_set))
       (\<lambda>h node_tls.
         case through h_remote put_remote
           (probe_peer W N (dp_rustls D) (issue_leaf (dp_rcgen D) (dp_rand D 2) (dp_now D) ca) node_tls addr) h of
           (h, Inr health) \<Rightarrow> (h, Inr [ustr ''reachable: '' @ ph_status_line health,
             (case ph_ca_fingerprint health of
                Some fp \<Rightarrow> ustr ''peer CA '' @ fp @ ustr '' '' @ [8212] @ ustr '' mutual PQ-mTLS OK (both nodes trust)''
              | None \<Rightarrow> ustr ''peer did not advertise a CA fingerprint'')])
         | (h, Inl e) \<Rightarrow> (h, Inr [ustr ''unreachable or refused: '' @ show e,
             ustr ''(mutual trust required: you must `peer trust <peer-ca-fp>` and the peer must trust your CA ''
               @ [8212] @ ustr '' share `ca show`)'']))))"

definition run_peer ::
  "('db, 'r, 'k, 'h) deps \<Rightarrow> web_libs \<Rightarrow> ('db, 'r, 'p) host admin_net \<Rightarrow> 'p tls_net \<Rightarrow> (probe_error \<Rightarrow> ustring) \<Rightarrow>
   string \<Rightarrow> string \<Rightarrow> ustring \<Rightarrow> int \<Rightarrow> peer_command \<Rightarrow> ('db, 'r, 'p) host \<Rightarrow> ('db, 'r, 'p) host \<times> (cli_error + ustring list)" where
  "run_peer D W net N show db_path dir admin_url now cmd h =
     (let admin = admin_hostport admin_url in
      case cmd of
        PeerTrust ca_fp note \<Rightarrow> run_trust D W net admin db_path ca_fp note now h
      | PeerDistrust ca_fp \<Rightarrow> run_distrust D W net admin db_path ca_fp h
      | PeerList \<Rightarrow> run_list D W net admin db_path h
      | PeerPing addr \<Rightarrow> run_ping D W net N show admin db_path dir addr h)"

definition cli_main ::
  "('db, 'r, 'k, 'h) deps \<Rightarrow> web_libs \<Rightarrow> ('db, 'r, 'p) host admin_net \<Rightarrow> 'p tls_net \<Rightarrow> (probe_error \<Rightarrow> ustring) \<Rightarrow>
   moment \<Rightarrow> cli \<Rightarrow> ('db, 'r, 'p) host \<Rightarrow> ('db, 'r, 'p) host \<times> (cli_error + ustring list)" where
  "cli_main D W net N show mo cl h = (case cli_command cl of
       Migrate \<Rightarrow> cli_migrate D (cli_db_path cl) h
     | Sweep \<Rightarrow> cli_sweep D (cli_db_path cl) mo h
     | Ca cmd \<Rightarrow> run_ca D (cli_pki_dir cl) cmd h
     | Peer cmd \<Rightarrow> run_peer D W net N show (cli_db_path cl) (cli_pki_dir cl) (cli_admin_url cl) (now_ms mo) cmd h)"

end
