(* ===== verification/Demo_Node.thy ===== *)
theory Demo_Node
  imports Node_Api
begin

text \<open>
  A concrete instance of the libraries the node uses: hexadecimal as the crate \<open>hex\<close>
  writes and reads it, identifiers written as their 32 digits, dates up to the year
  9999, and a stand-in for the digest. It shows that the laws of \<open>Entities\<close> are
  satisfiable and, with the reference engine, gives concrete nodes.
\<close>

definition hex_digit :: "nat \<Rightarrow> char" where
  "hex_digit v = char_of (if v < 10 then 48 + v else 87 + v)"

definition hex_val :: "char \<Rightarrow> nat option" where
  "hex_val c = (let n = of_char c in
     if 48 \<le> n \<and> n \<le> 57 then Some (n - 48)
     else if 97 \<le> n \<and> n \<le> 102 then Some (n - 87)
     else if 65 \<le> n \<and> n \<le> 70 then Some (n - 55)
     else None)"

definition hex_of :: "bytes \<Rightarrow> string" where
  "hex_of bs = concat (map (\<lambda>b. [hex_digit (unat b div 16), hex_digit (unat b mod 16)]) bs)"

fun unhex :: "string \<Rightarrow> string + bytes" where
  "unhex [] = Inr []"
| "unhex [c] = Inl ''Odd number of digits''"
| "unhex (a # b # cs) = (case (hex_val a, hex_val b) of
     (Some h, Some l) \<Rightarrow> and_then (unhex cs) (\<lambda>bs. Inr (of_nat (16 * h + l) # bs))
   | _ \<Rightarrow> Inl ''Invalid character'')"

definition demo_libs :: libs where
  "demo_libs = \<lparr>hex_encode = hex_of, hex_decode = unhex,
     uuid_to_string = (\<lambda>u. hex_of (to_be_bytes 16 u)),
     uuid_parse = (\<lambda>s. and_then (unhex (map char_of s)) (\<lambda>bs.
        if length bs = 16 then Inr (from_be_bytes bs) else Inl ''invalid length'')),
     from_timestamp_millis = (\<lambda>t. if 0 \<le> t \<and> t \<le> LAST_MS then Some t else None),
     sha256 = (\<lambda>b. take 32 (b @ replicate 32 0))\<rparr>"

lemma hex_val_digit: "v < 16 \<Longrightarrow> hex_val (hex_digit v) = Some v"
  by (auto simp: hex_val_def hex_digit_def Let_def of_char_mod_256)

lemma hex_digit_val:
  assumes "hex_val c = Some v"
  shows "v < 16 \<and> hex_digit v = ascii_lower c"
  using assms by (auto simp: hex_val_def hex_digit_def ascii_lower_def Let_def split: if_splits)

lemma unat_of_byte: "of_nat (unat b) = (b :: u8)"
  by simp

lemma unhex_hex: "unhex (hex_of bs) = Inr bs"
proof (induction bs)
  case (Cons b bs)
  have b: "unat b < 256" using unsigned_less [of b] by simp
  then have "unat b div 16 < 16" "unat b mod 16 < 16" by auto
  moreover have "16 * (unat b div 16) + unat b mod 16 = unat b" by simp
  then have "(of_nat (16 * (unat b div 16) + unat b mod 16) :: u8) = b" by (simp only: unat_of_byte)
  ultimately show ?case using Cons by (simp add: hex_of_def hex_val_digit del: of_nat_add of_nat_mult)
qed (simp add: hex_of_def)

lemma hex_unhex: "unhex s = Inr bs \<Longrightarrow> hex_of bs = map ascii_lower s"
proof (induction s arbitrary: bs rule: unhex.induct)
  case (3 a b cs)
  from 3(2) obtain h l rest where hl: "hex_val a = Some h" "hex_val b = Some l"
      and rest: "unhex cs = Inr rest" and bs: "bs = of_nat (16 * h + l) # rest"
    by (auto split: option.splits)
  have d: "h < 16" "l < 16" "hex_digit h = ascii_lower a" "hex_digit l = ascii_lower b"
    using hex_digit_val hl by auto
  have "unat (of_nat (16 * h + l) :: u8) = 16 * h + l"
    unfolding unsigned_of_nat using d by (simp add: take_bit_eq_mod)
  then have "unat (of_nat (16 * h + l) :: u8) div 16 = h" "unat (of_nat (16 * h + l) :: u8) mod 16 = l"
    using d by simp_all
  then show ?case using 3(1) [OF refl hl rest] bs d
    by (simp add: hex_of_def del: of_nat_add of_nat_mult)
qed (auto simp: hex_of_def)

lemma length_hex_of [simp]: "length (hex_of bs) = 2 * length bs"
  by (induction bs) (simp_all add: hex_of_def)

lemma hex_digit_chars: "v < 16 \<Longrightarrow> hex_digit v \<in> set ''0123456789abcdef''"
proof -
  assume "v < 16"
  then have "v \<in> set [0..<16]" by simp
  moreover have "\<forall>v \<in> set [0..<16]. hex_digit v \<in> set ''0123456789abcdef''" by code_simp
  ultimately show ?thesis by blast
qed

lemma hex_of_chars: "set (hex_of bs) \<subseteq> set ''0123456789abcdef''"
proof (induction bs)
  case (Cons b bs)
  have "unat b < 256" using unsigned_less [of b] by simp
  then have "hex_digit (unat b div 16) \<in> set ''0123456789abcdef''"
      "hex_digit (unat b mod 16) \<in> set ''0123456789abcdef''"
    by (intro hex_digit_chars; simp)+
  then show ?case using Cons unfolding hex_of_def by auto
qed (simp add: hex_of_def)

lemma demo_libs_laws: "libs_laws demo_libs"
proof -
  have "hex_laws demo_libs"
    unfolding hex_laws_def by (simp add: demo_libs_def unhex_hex hex_unhex hex_of_chars del: list.set)
  moreover have "map char_of (ustr s) = s" for s by (simp add: ustr_def comp_def)
  then have "uuid_laws demo_libs"
    by (simp add: uuid_laws_def demo_libs_def unhex_hex from_be_bytes_def foldl_be_bytes take_bit_word_eq_self)
  moreover have "chrono_laws demo_libs" by (simp add: chrono_laws_def demo_libs_def)
  moreover have "sha256_laws demo_libs" by (auto simp: sha256_laws_def demo_libs_def)
  ultimately show ?thesis by (simp add: libs_laws_def)
qed

section \<open>A node\<close>

definition demo_ctx :: "tables turso ctx" where
  "demo_ctx = \<lparr>ctx_mailbox = turso_repo demo_libs ref_engine, ctx_blob = None,
     ctx_pki_fingerprint = None, ctx_config = core_config_default\<rparr>"

definition demo_turso :: "tables turso" where
  "demo_turso = turso_new empty_tables"

lemma demo_env: "turso_env demo_libs ref_engine (\<lambda>T. T)"
  by (simp add: turso_env_def demo_libs_laws ref_engine_sound)

lemma demo_up: "turso_up demo_libs ref_engine (\<lambda>T. T)"
  by (simp add: turso_up_def demo_env ref_engine_available)

lemma demo_inv: "turso_inv demo_libs (\<lambda>T. T) demo_turso"
  by (simp add: turso_inv_def demo_turso_def turso_new_def empty_tables_def rows_ok_def)

lemma demo_ctx_mailbox [simp]: "ctx_mailbox demo_ctx = turso_repo demo_libs ref_engine"
  by (simp add: demo_ctx_def)

end
