(* ===== verification/Demo_Pki.thy ===== *)
theory Demo_Pki
  imports Node_Ca Demo_Node
begin

text \<open>
  Concrete instances of the libraries behind peer trust: ASCII lower-casing, and a
  certificate library with two possible keys whose certificates spell out their fields.
  They show that \<open>lower_laws\<close> and \<open>pki_laws\<close> are satisfiable.
\<close>

definition ascii_lowercase :: "nat \<Rightarrow> nat list" where
  "ascii_lowercase c = [if 65 \<le> c \<and> c \<le> 90 then c + 32 else c]"

lemma ascii_lowercase_laws: "lower_laws ascii_lowercase"
  by (simp add: lower_laws_def ascii_lowercase_def)

datatype toy_cert = ToyCert (toy_ca: bool) (toy_key: bool) (toy_issuer: bool) (toy_from: int) (toy_until: int)

definition toy_bit :: "bool \<Rightarrow> u8" where
  "toy_bit b = (if b then 1 else 0)"

lemma toy_bit_eq [simp]: "toy_bit b = 1 \<longleftrightarrow> b" "toy_bit a = toy_bit b \<longleftrightarrow> a = b"
  by (simp_all add: toy_bit_def)

definition toy_der :: "bool \<Rightarrow> bool \<Rightarrow> bool \<Rightarrow> int \<Rightarrow> int \<Rightarrow> bytes" where
  "toy_der ca k i a b = [toy_bit ca, toy_bit k, toy_bit i] @ u64_to_be (of_int a) @ u64_to_be (of_int b)"

fun toy_parse :: "bytes \<Rightarrow> toy_cert option" where
  "toy_parse (ca # k # i # w) = Some (ToyCert (ca = 1) (k = 1) (i = 1)
     (sint (from_be_bytes (take 8 w) :: u64)) (sint (from_be_bytes (drop 8 w) :: u64)))"
| "toy_parse _ = None"

definition in_i64 :: "int \<Rightarrow> bool" where
  "in_i64 t \<longleftrightarrow> - (2 ^ 63) \<le> t \<and> t < 2 ^ 63"

lemma sint_of_int64: "in_i64 t \<Longrightarrow> sint (of_int t :: u64) = t"
  by (simp add: in_i64_def sint_sbintrunc' signed_take_bit_int_eq_self)

lemma toy_parse_der:
  "in_i64 a \<Longrightarrow> in_i64 b \<Longrightarrow> toy_parse (toy_der ca k i a b) = Some (ToyCert ca k i a b)"
  by (simp add: toy_der_def sint_of_int64)

definition toy_x509 :: "toy_cert x509" where
  "toy_x509 = \<lparr>x_from_der = toy_parse, x_basic_constraints = (\<lambda>c. Inr (Some (toy_ca c))),
     x_public_key = (\<lambda>c. [toy_bit (toy_key c)]),
     x_verify_signature = (\<lambda>c pk. case pk of
        None \<Rightarrow> toy_issuer c = toy_key c | Some k \<Rightarrow> k = [toy_bit (toy_issuer c)]),
     x_not_before = toy_from, x_not_after = toy_until\<rparr>"

definition toy_from_of :: "cert_params \<Rightarrow> int" where
  "toy_from_of p = (case cp_not_before p of None \<Rightarrow> DEFAULT_NOT_BEFORE | Some t \<Rightarrow> t)"

definition toy_until_of :: "cert_params \<Rightarrow> int" where
  "toy_until_of p = (case cp_not_after p of None \<Rightarrow> DEFAULT_NOT_AFTER | Some t \<Rightarrow> t)"

definition toy_sign :: "cert_params \<Rightarrow> bool \<Rightarrow> bool \<Rightarrow> string + bytes" where
  "toy_sign p k i =
     (if in_i64 (toy_from_of p) \<and> in_i64 (toy_until_of p)
      then Inr (toy_der (cp_is_ca p \<noteq> NoCa) k i (toy_from_of p) (toy_until_of p)) else Inl ''bad date'')"

definition toy_rcgen :: "bool rcgen" where
  "toy_rcgen = \<lparr>rc_generate = (\<lambda>r. Inr (odd r)),
     rc_from_pem = (\<lambda>b. if b = [1] then Inr True else if b = [0] then Inr False else Inl ''bad pem''),
     rc_serialize_pem = (\<lambda>k. [toy_bit k]), rc_serialize_der = (\<lambda>k. [toy_bit k]),
     rc_params_new = (\<lambda>sans. Inr \<lparr>cp_sans = sans, cp_common_name = None, cp_is_ca = NoCa,
        cp_not_before = None, cp_not_after = None, cp_use_authority_key_identifier = False,
        cp_key_usages = [], cp_extended_key_usages = []\<rparr>),
     rc_self_signed = (\<lambda>p k. toy_sign p k k),
     rc_signed_by = (\<lambda>p lk iss k. toy_sign p lk k)\<rparr>"

lemma toy_sign_ok:
  assumes "toy_sign p k i = Inr der"
  shows "\<exists>c. toy_parse der = Some c \<and> shows_params toy_x509 c p \<and> toy_key c = k \<and> toy_issuer c = i"
  using assms
  by (auto simp: toy_sign_def toy_parse_der shows_params_def toy_x509_def toy_from_of_def toy_until_of_def
      split: if_splits)

lemma toy_pki_laws: "pki_laws toy_x509 toy_rcgen (\<lambda>k. [toy_bit k])"
proof -
  have "utf8_valid [toy_bit k]" for k by (simp add: toy_bit_def)
  moreover have "\<exists>c. x_from_der toy_x509 der = Some c \<and> shows_params toy_x509 c p
      \<and> x_verify_signature toy_x509 c None \<and> x_public_key toy_x509 c = [toy_bit k]"
    if "rc_self_signed toy_rcgen p k = Inr der" for p k der
    using toy_sign_ok [of p k k der] that by (auto simp: toy_rcgen_def toy_x509_def)
  moreover have "\<exists>c. x_from_der toy_x509 der = Some c \<and> shows_params toy_x509 c p
      \<and> x_verify_signature toy_x509 c (Some [toy_bit k])"
    if "rc_signed_by toy_rcgen p lk iss k = Inr der" for p lk iss k der
    using toy_sign_ok [of p lk k der] that by (auto simp: toy_rcgen_def toy_x509_def)
  ultimately show ?thesis
    unfolding pki_laws_def by (simp add: toy_rcgen_def toy_bit_def)
qed

end
