(* ===== verification/Trust_Properties.thy ===== *)
theory Trust_Properties
  imports Demo_Pki
begin

text \<open>
  Peer trust from the operator's command to the handshake: the admin handlers change
  the registry and the live snapshot together, the verifiers accept exactly the chains
  that the snapshot pins, a node that is trusted is accepted with the leaves its own
  authority issues, and one that is distrusted is refused on the next handshake.
\<close>

section \<open>Concrete data\<close>

abbreviation demo_registry :: "tables registry_port" where
  "demo_registry \<equiv> turso_registry demo_libs ascii_lowercase ref_engine"

definition demo_admin :: "tables admin_state" where
  "demo_admin = \<lparr>adm_store = empty_tables, adm_live = trust_store_new\<rparr>"

lemma demo_registry_env: "registry_env demo_libs ref_engine (\<lambda>T. T)"
  using demo_libs_laws ref_engine_sound by (auto simp: registry_env_def)

lemma demo_admin_inv: "registry_inv (\<lambda>T. T) (adm_store demo_admin)"
  by (simp add: registry_inv_def demo_admin_def empty_tables_def)

text \<open>The reference engine answers the registry.\<close>

lemma demo_trust_ok:
  "\<exists>db. trust ascii_lowercase ref_engine fp n now db0 = (db, Inr ())"
  "\<exists>db b. distrust ascii_lowercase ref_engine fp db0 = (db, Inr b)"
  by (simp_all add: trust_def distrust_def registry_execute_def ref_engine_def Let_def)

lemma demo_list_ok:
  assumes "\<And>r. r \<in> set (t_peers db) \<Longrightarrow> 0 \<le> pr_trusted_at r \<and> pr_trusted_at r \<le> LAST_MS"
  shows "\<exists>ps. list_trusted demo_libs ref_engine db = Inr ps"
proof -
  have row: "is_ok (peer_of_row demo_libs ref_engine (peer_columns r))" if "r \<in> set (t_peers db)" for r
    using assms [OF that]
    by (auto simp: peer_of_row_def peer_columns_def ref_engine_def demo_libs_def split: option.splits)
  have "\<exists>ps. collect_peers demo_libs ref_engine (map peer_columns rs) None = Inr ps" if "set rs \<subseteq> set (t_peers db)" for rs
    using that
  proof (induction rs)
    case (Cons r rs)
    then show ?case using row [of r] by (auto simp: is_ok_iff)
  qed simp
  from this [of "sort_key (\<lambda>r. - pr_trusted_at r) (t_peers db)"] show ?thesis
    by (simp add: list_trusted_def) (simp add: ref_engine_def)
qed

lemma demo_trust_peer:
  assumes "0 \<le> now" "now \<le> LAST_MS"
  shows "\<exists>a. trust_peer demo_registry fp n now demo_admin = (a, Inr fp)"
proof -
  have db: "trust ascii_lowercase ref_engine fp n now empty_tables
      = (empty_tables\<lparr>t_peers := [\<lparr>pr_fingerprint = normalize_fp ascii_lowercase fp, pr_note = n, pr_trusted_at = now\<rparr>]\<rparr>, Inr ())"
    by (simp add: trust_def registry_execute_def ref_engine_def Let_def upsert_peer_def empty_tables_def)
  obtain ps where "list_trusted demo_libs ref_engine (empty_tables\<lparr>t_peers :=
      [\<lparr>pr_fingerprint = normalize_fp ascii_lowercase fp, pr_note = n, pr_trusted_at = now\<rparr>]\<rparr>) = Inr ps"
    using demo_list_ok [of "empty_tables\<lparr>t_peers :=
      [\<lparr>pr_fingerprint = normalize_fp ascii_lowercase fp, pr_note = n, pr_trusted_at = now\<rparr>]\<rparr>"] assms by auto
  with db show ?thesis
    by (simp add: trust_peer_def on_store_def turso_registry_def demo_admin_def refresh_live_def)
qed

section \<open>Changing trust\<close>

text \<open>
  When the admin API reports that a peer is trusted or distrusted, the registry
  differs by exactly that fingerprint, in its normal form, and the live snapshot the
  verifiers read equals the registry. When it reports an error the snapshot is
  unchanged.
\<close>

theorem admin_changes_exact:
  assumes env: "registry_env L E view" and inv: "registry_inv view (adm_store a)"
    and op: "trust_peer (turso_registry L lower E) fp n now a = (a', r)
      \<and> change = insert (normalize_fp lower fp)
      \<or> (\<exists>rb. distrust_peer (turso_registry L lower E) fp a = (a', rb) \<and> r = map_sum id (\<lambda>_. fp) rb)
      \<and> change = (\<lambda>T. T - {normalize_fp lower fp})"
  shows "registry_inv view (adm_store a') \<and>
    (if is_ok r then registry_trusted view (adm_store a') = change (registry_trusted view (adm_store a))
        \<and> adm_live a' = registry_trusted view (adm_store a')
     else adm_live a' = adm_live a)"
  using op
proof
  assume "trust_peer (turso_registry L lower E) fp n now a = (a', r) \<and> change = insert (normalize_fp lower fp)"
  then show ?thesis using turso_peers.trust_peer_cases [OF env inv, of lower fp n now a' r] by (cases r) auto
next
  assume d: "(\<exists>rb. distrust_peer (turso_registry L lower E) fp a = (a', rb) \<and> r = map_sum id (\<lambda>_. fp) rb)
      \<and> change = (\<lambda>T. T - {normalize_fp lower fp})"
  then obtain rb where rb: "distrust_peer (turso_registry L lower E) fp a = (a', rb)" "r = map_sum id (\<lambda>_. fp) rb" by blast
  from turso_peers.distrust_peer_cases [OF env inv rb(1)] show ?thesis using rb(2) d by (cases rb) auto
qed

theorem admin_changes_exact_witness:
  "\<exists>a. trust_peer demo_registry (ustr ''AB:cd'') None 5 demo_admin = (a, Inr (ustr ''AB:cd''))
    \<and> adm_live a = {normalize_fp ascii_lowercase (ustr ''AB:cd'')}"
proof -
  obtain a where a: "trust_peer demo_registry (ustr ''AB:cd'') None 5 demo_admin = (a, Inr (ustr ''AB:cd''))"
    using demo_trust_peer [of 5 "ustr ''AB:cd''" None] by (auto simp: LAST_MS_def)
  have "registry_trusted (\<lambda>T. T) (adm_store demo_admin) = {}"
    by (simp add: registry_trusted_def demo_admin_def empty_tables_def)
  with admin_changes_exact [OF demo_registry_env demo_admin_inv, of ascii_lowercase "ustr ''AB:cd''" None 5 a
      "Inr (ustr ''AB:cd'')" "insert (normalize_fp ascii_lowercase (ustr ''AB:cd''))"] a
  show ?thesis by auto
qed

section \<open>Handshakes\<close>

text \<open>
  C19. Both verifiers accept a chain exactly when its last certificate is pinned in the
  snapshot, is a self-signed CA, has signed the leaf, and both certificates are valid at
  that time. The server name and everything else of the handshake play no part.
\<close>

theorem verifiers_accept_exactly:
  "is_ok (verify_server_cert L X T ee chain name ocsp now) = is_ok (verify_client_cert L X T ee chain now)
  \<and> (is_ok (verify_client_cert L X T ee chain now) \<longleftrightarrow>
     chain \<noteq> [] \<and> ustr (fingerprint L (last chain)) \<in> T \<and>
     (\<exists>ca leaf. x_from_der X (last chain) = Some ca \<and> x_from_der X ee = Some leaf
        \<and> x_basic_constraints X ca = Inr (Some True)
        \<and> x_verify_signature X ca None \<and> x_verify_signature X leaf (Some (x_public_key X ca))
        \<and> x_not_before X ca \<le> u64_to_i64 now \<and> u64_to_i64 now \<le> x_not_after X ca
        \<and> x_not_before X leaf \<le> u64_to_i64 now \<and> u64_to_i64 now \<le> x_not_after X leaf))"
  by (simp add: verifiers_agree is_ok_iff verify_pinned_chain_ok)

text \<open>
  A distrusted peer is refused on the next handshake: once the admin API has
  reported the removal of the fingerprint of a CA, written in any form that normalises
  to it, both verifiers reject every chain that ends in that CA.
\<close>

theorem distrusted_peer_refused:
  assumes "registry_env L E view" "registry_inv view (adm_store a)"
    and "distrust_peer (turso_registry L lower E) fp a = (a', Inr removed)"
    and "normalize_fp lower fp = ustr (fingerprint L ca_der)"
    and "chain \<noteq> []" "last chain = ca_der"
  shows "verify_client_cert L X (adm_live a') ee chain now = Inl (General ''peer CA is not trusted (unpinned)'')
    \<and> verify_server_cert L X (adm_live a') ee chain name ocsp now = Inl (General ''peer CA is not trusted (unpinned)'')"
proof -
  have "adm_live a' = registry_trusted view (adm_store a) - {ustr (fingerprint L ca_der)}"
    using turso_peers.distrust_peer_cases [OF assms(1-3)] assms(4) by simp
  then show ?thesis using assms(5,6)
    by (simp add: verifiers_agree verify_pinned_chain_def trust_store_contains_def)
qed

lemma demo_distrust_peer: "\<exists>a b. distrust_peer demo_registry fp demo_admin = (a, Inr b)"
proof -
  have "distrust ascii_lowercase ref_engine fp empty_tables = (empty_tables, Inr False)"
    by (simp add: distrust_def registry_execute_def ref_engine_def Let_def empty_tables_def)
  moreover obtain ps where "list_trusted demo_libs ref_engine empty_tables = Inr ps"
    using demo_list_ok [of empty_tables] by (auto simp: empty_tables_def)
  ultimately have "distrust_peer demo_registry fp demo_admin = (demo_admin\<lparr>adm_live := trust_store_replace (map tp_fingerprint ps) trust_store_new\<rparr>, Inr False)"
    by (simp add: distrust_peer_def on_store_def turso_registry_def demo_admin_def refresh_live_def)
  then show ?thesis by blast
qed

theorem distrusted_peer_refused_witness:
  "\<exists>a b. distrust_peer demo_registry (ustr (fingerprint demo_libs [1, 2])) demo_admin = (a, Inr b)
    \<and> verify_client_cert demo_libs toy_x509 (adm_live a) [] [[1, 2]] 0 = Inl (General ''peer CA is not trusted (unpinned)'')"
proof -
  obtain a b where a: "distrust_peer demo_registry (ustr (fingerprint demo_libs [1, 2])) demo_admin = (a, Inr b)"
    using demo_distrust_peer by blast
  have "normalize_fp ascii_lowercase (ustr (fingerprint demo_libs [1, 2])) = ustr (fingerprint demo_libs [1, 2])"
    unfolding fingerprint_def by (rule normalize_hex [OF ascii_lowercase_laws]) (use demo_libs_laws in blast)
  from distrusted_peer_refused [OF demo_registry_env demo_admin_inv a this, of "[[1, 2]]" toy_x509 "[]" 0] a
  show ?thesis by auto
qed

text \<open>
  A trusted node is accepted: when an operator has trusted the fingerprint of
  another node's authority, in any form that normalises to it, the verifiers accept every
  leaf that authority issues, from five minutes before its issue until its expiry,
  with the chain the leaf is served with.
\<close>

theorem trusted_node_accepted:
  assumes "registry_env L E view" "registry_inv view (adm_store a)" "pki_laws X RC pub"
    and "trust_peer (turso_registry L lower E) fp n at_ms a = (a', Inr shown)"
    and "authority_ok L X pub ca" "normalize_fp lower fp = ustr (nc_fingerprint ca)"
    and "issue_leaf RC rnd now ca = Inr leaf"
    and "now - CLOCK_SKEW \<le> u64_to_i64 t" "u64_to_i64 t \<le> now + nc_leaf_ttl ca"
      "DEFAULT_NOT_BEFORE \<le> u64_to_i64 t" "u64_to_i64 t \<le> DEFAULT_NOT_AFTER"
  shows "\<exists>ee. chain_der leaf = [ee, nc_der ca]
    \<and> verify_client_cert L X (adm_live a') ee [nc_der ca] t = Inr ()
    \<and> verify_server_cert L X (adm_live a') ee [nc_der ca] name ocsp t = Inr ()"
proof -
  have "ustr (nc_fingerprint ca) \<in> adm_live a'"
    using turso_peers.trust_peer_cases [OF assms(1,2,4)] assms(6) by simp
  from issued_leaf_accepted [OF assms(3,5,7) this assms(8-11)] show ?thesis
    by (simp add: verifiers_agree)
qed

definition demo_ca :: "bool node_ca" where
  "demo_ca = (let der = toy_der True True True DEFAULT_NOT_BEFORE DEFAULT_NOT_AFTER in
     \<lparr>nc_key = True, nc_issuer = der, nc_der = der, nc_fingerprint = fingerprint demo_libs der,
      nc_sans = [''localhost''], nc_leaf_ttl = 172800\<rparr>)"

lemma demo_ca_ok: "authority_ok demo_libs toy_x509 (\<lambda>k. [toy_bit k]) demo_ca"
  by (simp add: authority_ok_def demo_ca_def Let_def toy_x509_def toy_parse_der in_i64_def
      DEFAULT_NOT_BEFORE_def DEFAULT_NOT_AFTER_def)

theorem trusted_node_accepted_witness:
  "\<exists>a leaf ee. trust_peer demo_registry (ustr (nc_fingerprint demo_ca)) None 5 demo_admin = (a, Inr (ustr (nc_fingerprint demo_ca)))
    \<and> issue_leaf toy_rcgen 0 1700000000 demo_ca = Inr leaf \<and> chain_der leaf = [ee, nc_der demo_ca]
    \<and> verify_client_cert demo_libs toy_x509 (adm_live a) ee [nc_der demo_ca] 1700000001 = Inr ()"
proof -
  obtain a where a: "trust_peer demo_registry (ustr (nc_fingerprint demo_ca)) None 5 demo_admin = (a, Inr (ustr (nc_fingerprint demo_ca)))"
    using demo_trust_peer [of 5 _ None] by (auto simp: LAST_MS_def)
  have fp: "normalize_fp ascii_lowercase (ustr (nc_fingerprint demo_ca)) = ustr (nc_fingerprint demo_ca)"
    unfolding demo_ca_def Let_def node_ca.simps fingerprint_def
    by (rule normalize_hex [OF ascii_lowercase_laws]) (use demo_libs_laws in blast)
  obtain leaf where leaf: "issue_leaf toy_rcgen 0 1700000000 demo_ca = Inr leaf"
    by (simp add: issue_leaf_def toy_rcgen_def toy_sign_def Let_def in_i64_def toy_from_of_def toy_until_of_def
        leaf_ttl_skew_def CLOCK_SKEW_def demo_ca_def)
  have t: "u64_to_i64 1700000001 = 1700000001" by (simp add: u64_to_i64_def I64_MAX_def)
  have ttl: "nc_leaf_ttl demo_ca = 172800" by (simp add: demo_ca_def Let_def)
  obtain ee where "chain_der leaf = [ee, nc_der demo_ca]"
      "verify_client_cert demo_libs toy_x509 (adm_live a) ee [nc_der demo_ca] 1700000001 = Inr ()"
    using trusted_node_accepted [OF demo_registry_env demo_admin_inv toy_pki_laws a demo_ca_ok fp leaf, of 1700000001]
    by (auto simp: t ttl CLOCK_SKEW_def DEFAULT_NOT_BEFORE_def DEFAULT_NOT_AFTER_def)
  then show ?thesis using a leaf by blast
qed

section \<open>Refreshes in the background\<close>

text \<open>
  The rotation timer reads the registry and replaces the snapshot in two steps, between
  which the admin API may run.
\<close>

definition refresh_read :: "'s registry_port \<Rightarrow> 's admin_state \<Rightarrow> core_error + trusted_peer list" where
  "refresh_read R a = reg_list R (adm_store a)"

definition refresh_apply :: "core_error + trusted_peer list \<Rightarrow> 's admin_state \<Rightarrow> 's admin_state" where
  "refresh_apply r a = (case r of Inl _ \<Rightarrow> a
     | Inr peers \<Rightarrow> a\<lparr>adm_live := trust_store_replace (map tp_fingerprint peers) (adm_live a)\<rparr>)"

lemma refresh_trust_steps: "refresh_trust R a = refresh_apply (refresh_read R a) a"
  by (simp add: refresh_trust_def refresh_apply_def refresh_read_def split: sum.splits)

text \<open>
  A refresh that read the registry before a peer was distrusted and replaces the
  snapshot afterwards lets the peer in again, although the admin API has reported its
  removal; it stays in until the next refresh.
\<close>

theorem stale_refresh_retrusts:
  assumes "registry_env L E view" "registry_inv view (adm_store a)"
    and "refresh_read (turso_registry L lower E) a = Inr peers"
    and "normalize_fp lower fp \<in> registry_trusted view (adm_store a)"
    and "distrust_peer (turso_registry L lower E) fp a = (a', Inr removed)"
  shows "removed \<and> normalize_fp lower fp \<notin> registry_trusted view (adm_store a') \<and> normalize_fp lower fp \<notin> adm_live a'
    \<and> normalize_fp lower fp \<in> adm_live (refresh_apply (Inr peers) a')"
proof -
  have "set (map tp_fingerprint peers) = registry_trusted view (adm_store a)"
    using turso_peers.list_law [OF assms(1,2), of lower peers] assms(3) by (simp add: refresh_read_def)
  moreover note turso_peers.distrust_peer_cases [OF assms(1,2,5)]
  ultimately show ?thesis using assms(4) by (auto simp: refresh_apply_def trust_store_replace_def)
qed

text \<open>Normalising twice can differ from normalising once.\<close>

lemma normalize_not_idempotent:
  assumes "lower_laws lower"
  shows "normalize_fp lower (ustr '': aa'') = ustr '' aa''" "normalize_fp lower (ustr '' aa'') = ustr ''aa''"
  using assms by (simp_all add: normalize_fp_def trim_def is_whitespace_def lower_laws_def ustr_def)

section \<open>The node's own authority\<close>

lemma load_or_init_loads:
  assumes "fs_ok F" "\<And>p. os_stat io p F = None" "F (dir @ [CA_CERT_FILE]) \<noteq> None" "F (dir @ [CA_KEY_FILE]) \<noteq> None"
    and "load_ca io RC (dir @ [CA_CERT_FILE]) (dir @ [CA_KEY_FILE]) F = Inr (k, der)"
  shows "load_or_init L io RC rnd dir sans ttl F = (F, from_loaded L RC k der sans ttl)"
  using assms by (simp add: load_or_init_def Let_def fs_exists_file)

lemma from_loaded_fields:
  assumes "from_loaded L RC k der sans ttl = Inr ca"
  shows "nc_key ca = k" "nc_der ca = der" "nc_fingerprint ca = fingerprint L der"
    "\<exists>ca'. from_loaded L RC k der sans' ttl' = Inr ca' \<and> nc_key ca' = k \<and> nc_der ca' = der
       \<and> nc_fingerprint ca' = fingerprint L der"
  using assms by (auto simp: from_loaded_def)

text \<open>The two ways a start can succeed.\<close>

lemma load_or_init_cases:
  assumes "load_or_init L io RC rnd dir sans ttl F = (F', Inr ca)"
  obtains (loaded) k der where "F' = F" "load_ca io RC (dir @ [CA_CERT_FILE]) (dir @ [CA_KEY_FILE]) F = Inr (k, der)"
      "from_loaded L RC k der sans ttl = Inr ca"
      "fs_exists io (dir @ [CA_CERT_FILE]) F \<and> fs_exists io (dir @ [CA_KEY_FILE]) F"
    | (created) k der where "create_ca io RC rnd dir (dir @ [CA_CERT_FILE]) (dir @ [CA_KEY_FILE]) F = (F', Inr (k, der))"
      "from_loaded L RC k der sans ttl = Inr ca"
      "\<not> (fs_exists io (dir @ [CA_CERT_FILE]) F \<and> fs_exists io (dir @ [CA_KEY_FILE]) F)"
  using assms unfolding load_or_init_def Let_def by (elim then_do_okE) (auto split: if_splits)

text \<open>The files a successful start leaves behind.\<close>

lemma load_or_init_files:
  assumes laws: "pki_laws X RC pub" and inv: "fs_ok F"
    and start: "load_or_init L io RC rnd dir sans ttl F = (F', Inr ca)"
  shows "fs_ok F' \<and> F' (dir @ [CA_CERT_FILE]) = Some (File (nc_der ca)) \<and>
    (\<exists>pem. F' (dir @ [CA_KEY_FILE]) = Some (File pem) \<and> utf8_valid pem \<and> rc_from_pem RC pem = Inr (nc_key ca))"
  using start
proof (cases rule: load_or_init_cases)
  case (loaded k der)
  from loaded(2) obtain pem where "fs_read io (dir @ [CA_KEY_FILE]) F = Inr pem" "utf8_valid pem"
      "rc_from_pem RC pem = Inr k" "fs_read io (dir @ [CA_CERT_FILE]) F = Inr der"
    by (auto simp: load_ca_def fs_read_to_string_def split: if_splits)
  with loaded(1) from_loaded_fields [OF loaded(3)] inv show ?thesis by (simp add: fs_read_ok)
next
  case (created k der)
  from create_ca_ok [OF created(1)] obtain u
    where "persist io RC dir (dir @ [CA_CERT_FILE]) (dir @ [CA_KEY_FILE]) der k F = (F', Inr u)" by blast
  from persist_ok [OF inv pki_paths(1) this] from_loaded_fields [OF created(2)] show ?thesis
    using pki_lawsD(1,2) [OF laws, of k] by simp
qed

text \<open>
  C33. A node keeps its identity across restarts: once \<open>load_or_init\<close> has returned an
  authority, whether it loaded it or has just created it, every later start on the same
  directory in which reads succeed returns the same key, certificate and fingerprint and
  leaves the files alone, whatever the random generator, the names and the lifetime of
  leaves are then.
\<close>

theorem ca_stable_across_restart:
  assumes laws: "pki_laws X RC pub" and inv: "fs_ok F"
    and start: "load_or_init L io RC rnd dir sans ttl F = (F', Inr ca)"
    and reads: "\<And>p. os_stat io' p F' = None" "\<And>p. os_read io' p F' = None"
  shows "\<exists>ca'. load_or_init L io' RC rnd' dir sans' ttl' F' = (F', Inr ca')
    \<and> nc_key ca' = nc_key ca \<and> nc_der ca' = nc_der ca \<and> nc_fingerprint ca' = nc_fingerprint ca"
proof -
  from load_or_init_files [OF laws inv start] obtain pem where files: "fs_ok F'"
      "F' (dir @ [CA_CERT_FILE]) = Some (File (nc_der ca))" "F' (dir @ [CA_KEY_FILE]) = Some (File pem)"
      "utf8_valid pem" "rc_from_pem RC pem = Inr (nc_key ca)"
    by blast
  have "load_ca io' RC (dir @ [CA_CERT_FILE]) (dir @ [CA_KEY_FILE]) F' = Inr (nc_key ca, nc_der ca)"
    using fs_read_ok [OF files(1), of io'] files reads(2) by (simp add: load_ca_def fs_read_to_string_def)
  then have reload: "load_or_init L io' RC rnd' dir sans' ttl' F' = (F', from_loaded L RC (nc_key ca) (nc_der ca) sans' ttl')"
    by (intro load_or_init_loads) (use files reads in auto)
  obtain k der where "from_loaded L RC k der sans ttl = Inr ca"
    using start by (cases rule: load_or_init_cases) auto
  from from_loaded_fields [OF this] show ?thesis unfolding reload by simp
qed

definition empty_fs :: fs where
  "empty_fs = [[] \<mapsto> Dir]"

lemma empty_fs_ok: "fs_ok empty_fs"
  by (simp add: fs_ok_def empty_fs_def)

lemmas demo_files = File_System.no_faults_def fs_create_dir_all_def fs_chmod_def fs_write_def
  can_create_def fs_exists_def fs_metadata_def

lemma demo_load_or_init:
  "\<exists>F ca. load_or_init demo_libs no_faults toy_rcgen 1 [''pki''] sans ttl empty_fs = (F, Inr ca) \<and> nc_leaf_ttl ca = ttl"
  by (simp add: load_or_init_def Let_def create_ca_def persist_def restrict_dir_def restrict_file_def ca_params_def from_loaded_def demo_files
      toy_rcgen_def toy_sign_def in_i64_def toy_from_of_def toy_until_of_def DEFAULT_NOT_BEFORE_def
      DEFAULT_NOT_AFTER_def empty_fs_def CA_CERT_FILE_def CA_KEY_FILE_def)

theorem ca_stable_across_restart_witness:
  "\<exists>F ca ca'. load_or_init demo_libs no_faults toy_rcgen 1 [''pki''] [] 60 empty_fs = (F, Inr ca)
    \<and> load_or_init demo_libs no_faults toy_rcgen 2 [''pki''] [''host''] 90 F = (F, Inr ca')
    \<and> nc_fingerprint ca' = nc_fingerprint ca"
proof -
  obtain F ca where start: "load_or_init demo_libs no_faults toy_rcgen 1 [''pki''] [] 60 empty_fs = (F, Inr ca)"
    using demo_load_or_init by blast
  have "os_stat no_faults p F = None" "os_read no_faults p F = None" for p by (simp_all add: no_faults_def)
  from ca_stable_across_restart [OF toy_pki_laws empty_fs_ok start this, of 2 "[''host'']" 90] start
  show ?thesis by blast
qed

lemma back_up_files:
  assumes inv: "fs_ok F" and stat: "\<And>p F. os_stat io p F = None"
    and ps: "ps = [dir @ [CA_CERT_FILE], dir @ [CA_KEY_FILE]]"
    and ok: "back_up io ps F = (F', Inr u)"
    and files: "F (dir @ [CA_CERT_FILE]) = Some (File c)" "F (dir @ [CA_KEY_FILE]) = Some (File k)"
  shows "fs_ok F' \<and> F' (dir @ [CA_CERT_FILE]) = None \<and> F' (dir @ [CA_KEY_FILE]) = None
    \<and> F' (dir @ [CA_CERT_FILE @ ''.bak'']) = Some (File c) \<and> F' (dir @ [CA_KEY_FILE @ ''.bak'']) = Some (File k)"
proof -
  have ex1: "fs_exists io (dir @ [CA_CERT_FILE]) F" using fs_exists_file [OF inv stat] files by simp
  from ok ex1 obtain F1 u1 u2 where
      m1: "fs_rename io (dir @ [CA_CERT_FILE]) (dir @ [CA_CERT_FILE @ ''.bak'']) F = (F1, Inr u1)"
      and rest: "back_up io [dir @ [CA_KEY_FILE]] F1 = (F', Inr u2)"
    unfolding ps back_up.simps
    by (elim then_do_okE) (auto simp: bak_path_def dest!: map_prod_ok)
  have r1: "fs_ok F1" "F1 (dir @ [CA_CERT_FILE]) = None" "F1 (dir @ [CA_CERT_FILE @ ''.bak'']) = Some (File c)"
      "F1 (dir @ [CA_KEY_FILE]) = Some (File k)"
    using fs_rename_ok [OF inv m1] files by (auto simp: CA_CERT_FILE_def CA_KEY_FILE_def)
  have ex2: "fs_exists io (dir @ [CA_KEY_FILE]) F1" using fs_exists_file [OF r1(1) stat] r1(4) by simp
  from rest ex2 obtain u3 where
      m2: "fs_rename io (dir @ [CA_KEY_FILE]) (dir @ [CA_KEY_FILE @ ''.bak'']) F1 = (F', Inr u3)"
    unfolding back_up.simps by (elim then_do_okE) (auto simp: bak_path_def dest!: map_prod_ok)
  show ?thesis
    using fs_rename_ok [OF r1(1) m2] r1 by (auto simp: CA_CERT_FILE_def CA_KEY_FILE_def)
qed

text \<open>
  C34. A successful \<open>rekey\<close> generates a new authority with a newly generated key,
  which the verifiers of its peers will accept once they pin it, and
  keeps the old certificate and key, byte for byte, under their \<open>.bak\<close> names.
\<close>

theorem rekey_keeps_backup:
  assumes laws: "pki_laws X RC pub" and inv: "fs_ok F" and stat: "\<And>p F. os_stat io p F = None"
    and rekeyed: "rekey L io RC rnd dir sans ttl F = (F', Inr ca)"
    and files: "F (dir @ [CA_CERT_FILE]) = Some (File c)" "F (dir @ [CA_KEY_FILE]) = Some (File k)"
  shows "rc_generate RC rnd = Inr (nc_key ca) \<and> authority_ok L X pub ca
    \<and> F' (dir @ [CA_CERT_FILE]) = Some (File (nc_der ca))
    \<and> F' (dir @ [CA_CERT_FILE @ ''.bak'']) = Some (File c)
    \<and> F' (dir @ [CA_KEY_FILE @ ''.bak'']) = Some (File k)"
proof -
  from rekeyed obtain F1 u where bk: "back_up io [dir @ [CA_CERT_FILE], dir @ [CA_KEY_FILE]] F = (F1, Inr u)"
      and start: "load_or_init L io RC rnd dir sans ttl F1 = (F', Inr ca)"
    unfolding rekey_def by (elim then_do_okE)
  note b = back_up_files [OF inv stat refl bk files]
  from start show ?thesis
  proof (cases rule: load_or_init_cases)
    case (loaded k' der)
    then show ?thesis using b fs_exists_file [of F1 io, OF _ stat] by auto
  next
    case (created k' der)
    from create_ca_ok [OF created(1)] obtain p u where cr: "ca_params RC = Inr p" "rc_generate RC rnd = Inr k'"
        "rc_self_signed RC p k' = Inr der"
        "persist io RC dir (dir @ [CA_CERT_FILE]) (dir @ [CA_KEY_FILE]) der k' F1 = (F', Inr u)"
      by blast
    have "fs_ok F1" using b by simp
    note w = persist_ok [OF this pki_paths(1) cr(4)]
    have "F' (dir @ [CA_CERT_FILE @ ''.bak'']) = Some (File c)" "F' (dir @ [CA_KEY_FILE @ ''.bak'']) = Some (File k)"
      using b w by (auto simp: CA_CERT_FILE_def CA_KEY_FILE_def)
    then show ?thesis
      using created_authority_ok [OF laws cr(1,3) created(2)] from_loaded_fields [OF created(2)] cr(2) w by simp
  qed
qed

definition pki_fs :: "bytes option \<Rightarrow> bytes option \<Rightarrow> fs" where
  "pki_fs c k = (\<lambda>p. if p = [] \<or> p = [''pki''] then Some Dir
     else if p = [''pki'', ''ca.cert.der''] then map_option File c
     else if p = [''pki'', ''ca.key.pem''] then map_option File k else None)"

lemma pki_fs_ok: "fs_ok (pki_fs c k)"
  by (auto simp: fs_ok_def pki_fs_def append_eq_Cons_conv split: if_splits)

lemma demo_rekey:
  "\<exists>F ca. rekey demo_libs no_faults toy_rcgen 1 [''pki''] [] 60 (pki_fs (Some [7]) (Some [0])) = (F, Inr ca)"
  by (simp add: rekey_def bak_path_def fs_rename_def load_or_init_def Let_def create_ca_def persist_def restrict_dir_def restrict_file_def ca_params_def
      from_loaded_def demo_files
      toy_rcgen_def toy_sign_def in_i64_def toy_from_of_def toy_until_of_def DEFAULT_NOT_BEFORE_def
      DEFAULT_NOT_AFTER_def pki_fs_def CA_CERT_FILE_def CA_KEY_FILE_def)

theorem rekey_keeps_backup_witness:
  "\<exists>F ca. rekey demo_libs no_faults toy_rcgen 1 [''pki''] [] 60 (pki_fs (Some [7]) (Some [0])) = (F, Inr ca)
    \<and> rc_generate toy_rcgen 1 = Inr (nc_key ca) \<and> F [''pki'', ''ca.key.pem.bak''] = Some (File [0])"
proof -
  obtain F ca where rk: "rekey demo_libs no_faults toy_rcgen 1 [''pki''] [] 60 (pki_fs (Some [7]) (Some [0])) = (F, Inr ca)"
    using demo_rekey by blast
  have stat: "os_stat no_faults p F = None" for p F by (simp add: no_faults_def)
  have "pki_fs (Some [7]) (Some [0]) ([''pki''] @ [CA_CERT_FILE]) = Some (File [7])"
       "pki_fs (Some [7]) (Some [0]) ([''pki''] @ [CA_KEY_FILE]) = Some (File [0])"
    by (simp_all add: pki_fs_def CA_CERT_FILE_def CA_KEY_FILE_def)
  from rekey_keeps_backup [OF toy_pki_laws pki_fs_ok stat rk this] rk show ?thesis
    by (auto simp: CA_KEY_FILE_def)
qed

text \<open>
  When only one of the two files is there, say because the certificate was lost or
  a \<open>rekey\<close> stopped half way, a start that succeeds generates a new identity and
  overwrites the file that is left; no file elsewhere gets a copy of it.
\<close>

theorem orphan_key_overwritten:
  assumes laws: "pki_laws X RC pub" and inv: "fs_ok F" and stat: "\<And>p F. os_stat io p F = None"
    and orphan: "F (dir @ [CA_CERT_FILE]) = None" "F (dir @ [CA_KEY_FILE]) = Some (File old)"
    and start: "load_or_init L io RC rnd dir sans ttl F = (F', Inr ca)"
  shows "rc_generate RC rnd = Inr (nc_key ca) \<and> F' (dir @ [CA_KEY_FILE]) = Some (File (rc_serialize_pem RC (nc_key ca)))
    \<and> (\<forall>q. F' q = Some (File old) \<longrightarrow> q = dir @ [CA_CERT_FILE] \<or> q = dir @ [CA_KEY_FILE] \<or> F q = Some (File old))"
  using start
proof (cases rule: load_or_init_cases)
  case (loaded k der)
  then show ?thesis using fs_exists_file [OF inv stat] orphan by auto
next
  case (created k der)
  from create_ca_ok [OF created(1)] obtain u where cr: "rc_generate RC rnd = Inr k"
      "persist io RC dir (dir @ [CA_CERT_FILE]) (dir @ [CA_KEY_FILE]) der k F = (F', Inr u)"
    by blast
  from persist_ok [OF inv pki_paths(1) cr(2)] from_loaded_fields [OF created(2)] cr(1) show ?thesis by auto
qed

lemma demo_orphan:
  "\<exists>F ca. load_or_init demo_libs no_faults toy_rcgen 1 [''pki''] [] 60 (pki_fs None (Some [0])) = (F, Inr ca)"
  by (simp add: load_or_init_def Let_def create_ca_def persist_def restrict_dir_def restrict_file_def ca_params_def from_loaded_def demo_files
      toy_rcgen_def toy_sign_def in_i64_def toy_from_of_def toy_until_of_def DEFAULT_NOT_BEFORE_def
      DEFAULT_NOT_AFTER_def pki_fs_def CA_CERT_FILE_def CA_KEY_FILE_def)

theorem orphan_key_overwritten_witness:
  "\<exists>F ca. load_or_init demo_libs no_faults toy_rcgen 1 [''pki''] [] 60 (pki_fs None (Some [0])) = (F, Inr ca)
    \<and> pki_fs None (Some [0]) [''pki'', ''ca.key.pem''] = Some (File [0])
    \<and> F [''pki'', ''ca.key.pem''] = Some (File [1])"
proof -
  obtain F ca where st: "load_or_init demo_libs no_faults toy_rcgen 1 [''pki''] [] 60 (pki_fs None (Some [0])) = (F, Inr ca)"
    using demo_orphan by blast
  have stat: "os_stat no_faults p F = None" for p F by (simp add: no_faults_def)
  have files: "pki_fs None (Some [0]) ([''pki''] @ [CA_CERT_FILE]) = None"
       "pki_fs None (Some [0]) ([''pki''] @ [CA_KEY_FILE]) = Some (File [0])"
    by (simp_all add: pki_fs_def CA_CERT_FILE_def CA_KEY_FILE_def)
  from orphan_key_overwritten [OF toy_pki_laws pki_fs_ok stat files st] st files(2) show ?thesis
    by (auto simp: CA_KEY_FILE_def toy_rcgen_def)
qed

end
