(* ===== verification/Demo_Web.thy ===== *)
theory Demo_Web
  imports Peer_Probe "HOL-Library.Countable"
begin

text \<open>
  Concrete instances of the web libraries: a JSON text that is a number, a matcher for
  routes, and a network on which every request that is well-formed is answered by the
  application. They show that \<open>web_laws\<close>, \<open>axum_laws\<close>, \<open>http_serves\<close>, \<open>mtls_sound\<close> and
  \<open>mtls_serves\<close> are satisfiable.
\<close>

section \<open>JSON\<close>

instance json_number :: countable
  by countable_datatype

instance json :: countable
  by countable_datatype

definition toy_web :: web_libs where
  "toy_web = \<lparr>js_parse = (\<lambda>s. Some (canon (from_nat (length s - 2)))),
     js_print = (\<lambda>v. 123 # replicate (to_nat v) 48 @ [125]),
     b64_encode = map unat, b64_decode = (\<lambda>s. Some (map of_nat s)),
     time_print = (\<lambda>t. ustr (show_nat (nat t))), time_parse = (\<lambda>s. Some (int (digits_value s)))\<rparr>"

lemma toy_print_text: "text_ok (js_print toy_web v)"
  by (simp add: toy_web_def is_scalar_def list_all_iff)

lemma toy_web_laws: "web_laws toy_web"
proof -
  have "unat b < 256" for b :: u8 using unsigned_less [of b, where 'a = nat] by simp
  moreover have "n < 256 \<Longrightarrow> is_scalar n" for n by (simp add: is_scalar_def)
  ultimately have "is_scalar (unat b)" for b :: u8 by blast
  then have "text_ok (b64_encode toy_web bs)" for bs by (simp add: toy_web_def list_all_iff)
  then show ?thesis using toy_print_text
    by (simp add: web_laws_def) (simp add: toy_web_def show_nat_digits comp_def)
qed

section \<open>Routes\<close>

lemma render_start: "render ps args = [] \<or> hd (render ps args) = 47"
  by (cases "(ps, args)" rule: render.cases) auto

lemma seg_prefix:
  assumes "47 \<notin> set a" "47 \<notin> set b" "x = [] \<or> hd x = 47" "y = [] \<or> hd y = 47" "a @ x = b @ y"
  shows "a = b \<and> x = y"
proof -
  have "takeWhile (\<lambda>c. c \<noteq> 47) (a @ x) = a" "takeWhile (\<lambda>c. c \<noteq> 47) (b @ y) = b"
    using assms(1-4) by (cases x; cases y; auto simp: takeWhile_append)+
  then show ?thesis using assms(5) by (metis same_append_eq)
qed

lemma render_inject: "fits pat args \<Longrightarrow> fits pat args' \<Longrightarrow> render pat args = render pat args' \<Longrightarrow> args = args'"
proof (induction pat arbitrary: args args')
  case (Cons s ps)
  show ?case
  proof (cases s)
    case (Lit x)
    then show ?thesis using Cons by simp
  next
    case Param
    then obtain a as b bs where ab: "args = a # as" "args' = b # bs" using Cons.prems by (cases args; cases args') auto
    then have "a = b \<and> render ps as = render ps bs"
      using Cons.prems Param seg_ok_slash render_start by (intro seg_prefix) auto
    then show ?thesis using Cons Param ab by auto
  next
    case Wild
    then show ?thesis using Cons.prems by (cases args; cases args') auto
  qed
qed simp

definition toy_axum :: axum where
  "toy_axum = \<lparr>ax_match = (\<lambda>pat path. if \<exists>args. fits pat args \<and> path = render pat args
       then Some (THE args. fits pat args \<and> path = render pat args) else None),
     ax_query = (\<lambda>q. let r = drop 5 q; w = takeWhile is_digit r; l = drop (7 + length w) r
       in Some \<lparr>pp_limit = Some (int (digits_value l)), pp_wait = Some (digits_value w)\<rparr>)\<rparr>"

lemma toy_axum_laws: "axum_laws toy_axum"
proof -
  have the: "(THE args. fits pat args \<and> render pat args0 = render pat args) = args0" if "fits pat args0" for pat args0
    using that render_inject by blast
  have "ax_match toy_axum pat path = Some args \<longleftrightarrow> fits pat args \<and> path = render pat args" for pat path args
    using the by (auto simp: toy_axum_def)
  moreover have "ax_query toy_axum (pull_query w l) = Some \<lparr>pp_limit = Some (int l), pp_wait = Some w\<rparr>" for w l
  proof -
    have w: "takeWhile is_digit (ustr (show_nat w) @ ustr ''&limit='' @ ustr (show_nat l)) = ustr (show_nat w)"
      using show_nat_digits [of w] by (auto simp: list_all_iff takeWhile_append ustr_def [of "''&limit=''"] is_digit_def)
    have d: "drop 5 (pull_query w l) = ustr (show_nat w) @ ustr ''&limit='' @ ustr (show_nat l)"
      by (simp add: pull_query_def ustr_def [of "''wait=''"])
    have "drop (7 + length (ustr (show_nat w))) (drop 5 (pull_query w l)) = ustr (show_nat l)"
      unfolding d by (simp add: ustr_def [of "''&limit=''"])
    then show ?thesis using show_nat_digits w d
      by (simp add: toy_axum_def Let_def del: drop_drop)
  qed
  ultimately show ?thesis by (simp add: axum_laws_def)
qed

section \<open>A network\<close>

lemma header_block_inject:
  assumes "list_all line_ok hs" "list_all line_ok hs'" "header_block hs @ b = header_block hs' @ b'"
  shows "hs = hs' \<and> b = b'"
  using assms
proof (induction hs arbitrary: hs')
  case Nil
  then show ?case by (cases hs'; auto simp: header_block_def line_ok_def neq_Nil_conv)
next
  case (Cons h hs)
  then obtain h' hs'' where hs': "hs' = h' # hs''" by (cases hs'; auto simp: header_block_def line_ok_def neq_Nil_conv)
  have split: "header_block (h # hs) @ b = h @ 13 # 10 # header_block hs @ b" for h :: ustring and hs b by (simp add: header_block_def)
  have "13 \<notin> set h" "13 \<notin> set h'" using Cons.prems hs' by (auto simp: line_ok_def)
  then have "takeWhile (\<lambda>c. c \<noteq> 13) (h @ 13 # x) = h" "takeWhile (\<lambda>c. c \<noteq> 13) (h' @ 13 # x) = h'" for x
    by (auto simp: takeWhile_append)
  then have "h = h'" using Cons.prems(3) unfolding hs' split by metis
  moreover have "header_block hs @ b = header_block hs'' @ b'"
    using Cons.prems(3) unfolding hs' split calculation by simp
  ultimately show ?case using Cons hs' by simp
qed

lemma request_inject:
  assumes "request_ok m t hs b" "request_ok m' t' hs' b'" "utf8 (http_request_text m t hs b) = utf8 (http_request_text m' t' hs' b')"
  shows "m = m' \<and> t = t' \<and> hs = hs' \<and> b = b'"
proof -
  have tx: "text_ok (http_request_text m t hs b)" if "request_ok m t hs b" for m t hs b
  proof -
    have "text_ok t" using that by (auto simp: request_ok_def target_ok_def list_all_iff is_scalar_def)
    moreover have "text_ok (header_block hs)"
      using that by (auto simp: request_ok_def header_block_def line_ok_def list_all_iff is_scalar_def)
    ultimately show ?thesis using that by (auto simp: request_ok_def http_request_text_def is_scalar_def)
  qed
  have eq: "http_request_text m t hs b = http_request_text m' t' hs' b'"
    using assms(3) lossy_utf8 [OF tx [OF assms(1)]] lossy_utf8 [OF tx [OF assms(2)]] by metis
  have word: "x = y \<and> u = v" if "32 \<notin> set x" "32 \<notin> set y" "x @ ustr '' '' @ u = y @ ustr '' '' @ v" for x y u v
  proof -
    have "takeWhile (\<lambda>c. c \<noteq> 32) (x @ 32 # u) = x" "takeWhile (\<lambda>c. c \<noteq> 32) (y @ 32 # v) = y"
      using that(1,2) by (auto simp: takeWhile_append)
    then show ?thesis using that(3) by (simp add: ustr_def)
  qed
  have sp: "32 \<notin> set m" "32 \<notin> set t" if "request_ok m t hs b" for m t hs b
    using that by (auto simp: request_ok_def target_ok_def list_all_iff ustr_def)
  have 1: "m = m'" "t @ ustr '' HTTP/1.1'' @ CRLF @ header_block hs @ b = t' @ ustr '' HTTP/1.1'' @ CRLF @ header_block hs' @ b'"
    using word [OF sp(1) [OF assms(1)] sp(1) [OF assms(2)]] eq unfolding http_request_text_def by blast+
  have 2: "t @ ustr '' '' @ ustr ''HTTP/1.1'' @ CRLF @ header_block hs @ b = t' @ ustr '' '' @ ustr ''HTTP/1.1'' @ CRLF @ header_block hs' @ b'"
    using 1(2) by (simp add: ustr_def)
  note w = word [OF sp(2) [OF assms(1)] sp(2) [OF assms(2)] 2]
  have "header_block hs @ b = header_block hs' @ b'" using conjunct2 [OF w] by simp
  then show ?thesis using 1(1) header_block_inject [of hs hs' b b'] w assms(1,2) by (simp add: request_ok_def)
qed

text \<open>An application that answers every request.\<close>

definition total_app :: "'w http_app \<Rightarrow> bool" where
  "total_app app \<longleftrightarrow> (\<forall>m t b w. \<exists>w' n reply. app m t b w w' n reply \<and> text_ok reply \<and> n < 1000)"

definition ideal_net :: "'w http_app \<Rightarrow> bytes \<Rightarrow> 'w \<Rightarrow> 'w \<times> bytes option" where
  "ideal_net app r w =
     (if \<exists>m t hs b. request_ok m t hs b \<and> r = utf8 (http_request_text m t hs b)
      then (let (w', resp) = (SOME x. \<exists>m t hs b n reply. request_ok m t hs b \<and> r = utf8 (http_request_text m t hs b)
              \<and> app m t b w (fst x) n reply \<and> text_ok reply \<and> http_response n (utf8 reply) (snd x)) in (w', Some resp))
      else (w, None))"

lemma ideal_serves:
  assumes "total_app app"
  shows "http_serves app (ideal_net app)"
  unfolding http_serves_def
proof (intro allI impI)
  fix m t hs b w
  assume req: "request_ok m t hs b"
  let ?r = "utf8 (http_request_text m t hs b)"
  let ?P = "\<lambda>x. \<exists>m' t' hs' b' n reply. request_ok m' t' hs' b' \<and> ?r = utf8 (http_request_text m' t' hs' b')
      \<and> app m' t' b' w (fst x) n reply \<and> text_ok reply \<and> http_response n (utf8 reply) (snd x)"
  obtain w' n reply where a: "app m t b w w' n reply" "text_ok reply" "n < 1000"
    using assms unfolding total_app_def by blast
  define resp where "resp = utf8 (status_line n (ustr ''OK'') @ CRLF @ header_block []) @ utf8 reply"
  have "http_response n (utf8 reply) resp"
    unfolding http_response_def resp_def using a(3)
    by (intro conjI exI [of _ "ustr ''OK''"] exI [of _ "[]"]) (simp_all add: line_ok_def ustr_def is_scalar_def is_whitespace_def)
  then have "?P (w', resp)" unfolding fst_conv snd_conv using req a(1,2) by blast
  then have "\<exists>x. ?P x" by blast
  then have "?P (Eps ?P)" by (rule someI_ex)
  then obtain m' t' hs' b' n' reply' where r: "request_ok m' t' hs' b'" "?r = utf8 (http_request_text m' t' hs' b')"
      "app m' t' b' w (fst (Eps ?P)) n' reply'" "text_ok reply'" "http_response n' (utf8 reply') (snd (Eps ?P))"
    by blast
  have "app m t b w (fst (Eps ?P)) n' reply'" using r(3) request_inject [OF req r(1,2)] by blast
  moreover have "\<exists>m' t' hs' b'. request_ok m' t' hs' b' \<and> ?r = utf8 (http_request_text m' t' hs' b')" using req by blast
  then have "ideal_net app ?r w = (fst (Eps ?P), Some (snd (Eps ?P)))"
    unfolding ideal_net_def by (simp only: if_True Let_def split_def)
  moreover note r(4,5)
  ultimately show "\<exists>w' n reply resp. ideal_net app ?r w = (w', Some resp) \<and> app m t b w w' n reply \<and> text_ok reply
      \<and> http_response n (utf8 reply) resp" by blast
qed

text \<open>A TLS network between a client and the node with server configuration \<open>srv\<close>.\<close>

definition ideal_tls :: "libs \<Rightarrow> 'c x509 \<Rightarrow> u64 \<Rightarrow> ('p \<Rightarrow> tls_config) \<Rightarrow> 'p http_app \<Rightarrow> 'p tls_net" where
  "ideal_tls L X now srv app = \<lparr>tn_connect = (\<lambda>_ _. None), tn_server_name = (\<lambda>_. True),
     tn_handshake = (\<lambda>_ _ cfg p. if chain_accepted L X now (tc_trust cfg) (tc_presented (srv p)) then None else Some ''bad certificate''),
     tn_write = (\<lambda>_ _ _ _. None),
     tn_exchange = (\<lambda>_ cfg r p. if chain_accepted L X now (tc_trust (srv p)) (tc_presented cfg)
        then (case ideal_net app r p of (p', Some bs) \<Rightarrow> (p', ReadOk bs) | (p', None) \<Rightarrow> (p', ReadErr ''closed''))
        else (p, ReadErr ''bad certificate''))\<rparr>"

lemma ideal_tls_sound: "mtls_sound L X srv (ideal_tls L X now srv app)"
  unfolding mtls_sound_def by (auto simp: ideal_tls_def split: if_splits)

lemma ideal_tls_serves:
  assumes "total_app app"
  shows "mtls_serves L X now srv app addr (ideal_tls L X now srv app)"
  unfolding mtls_serves_def
proof (intro allI impI conjI, goal_cases)
  case (4 cfg p meth target hs body)
  obtain p' n reply resp where "ideal_net app (utf8 (http_request_text meth target hs body)) p = (p', Some resp)"
      "app meth target body p p' n reply" "text_ok reply" "http_response n (utf8 reply) resp"
    using ideal_serves [OF assms] 4(2) unfolding http_serves_def by blast
  moreover from this(1) have "tn_exchange (ideal_tls L X now srv app) addr cfg (utf8 (http_request_text meth target hs body)) p = (p', ReadOk resp)"
    using 4(1) by (simp add: ideal_tls_def)
  ultimately show ?case by blast
qed (simp_all add: ideal_tls_def)

end
