(* ===== verification/Demo_Daemon.thy ===== *)
theory Demo_Daemon
  imports Daemon Trust_Properties Demo_Web
begin

text \<open>
  A concrete platform: a database that is up to date, the loopback address, the toy
  certificates and no failures. A node starts on it, and its two HTTP applications answer every request.
\<close>

text \<open>A platform whose database is up to date and whose only address is the loopback one.\<close>

definition demo_deps :: "(tables, locator \<Rightarrow> bytes option, bool, unit) deps" where
  "demo_deps = \<lparr>dp_libs = demo_libs, dp_lower = ascii_lowercase, dp_open = (\<lambda>_. Inr ()), dp_engine = ref_engine,
     dp_conn = \<lparr>cn_execute = (\<lambda>_ _ T. (T, Inr 0)), cn_query = (\<lambda>_ _ _. Inr ([[Integer 1]], None))\<rparr>,
     dp_os = no_faults, dp_path = (\<lambda>_. [''pki'']), dp_s3 = (\<lambda>_. map_s3), dp_s3_feature = False, dp_rcgen = toy_rcgen,
     dp_rustls = \<lparr>load_private_key = (\<lambda>_. Inr ()), tls13_protocols = Inr (), client_auth_cert = (\<lambda>_ _. Inr ())\<rparr>,
     dp_rand = (\<lambda>n. 1), dp_now = 1700000000, dp_resolve = (\<lambda>_ _. Inr [V4 127 0 0 1]), dp_listen = (\<lambda>_. None)\<rparr>"

definition demo_cfg :: app_config where
  "demo_cfg = app_config_default\<lparr>app_pki := (app_pki app_config_default)\<lparr>pki_enabled := True\<rparr>\<rparr>"

definition demo_world :: "(tables, locator \<Rightarrow> bytes option) world" where
  "demo_world = \<lparr>w_mail = demo_turso, w_fs = empty_fs, w_s3 = Map.empty\<rparr>"

lemma demo_cfg_fields [simp]:
  "pki_enabled (app_pki demo_cfg)" "admin_enabled (app_admin demo_cfg)" "\<not> blob_enabled (app_blob demo_cfg)"
  "pki_leaf_ttl_hours (app_pki demo_cfg) = 48"
  by (simp_all add: demo_cfg_def app_config_default_def Let_def)

lemma demo_migrate: "stack_migrate demo_deps w = (w, Inr ())"
  by (simp add: stack_migrate_def demo_deps_def ref_engine_def through_def migrate_run_def execute_def MIGRATIONS_def
      is_applied_def put_mail_def)

lemma demo_start: "\<exists>w' sv. daemon_start demo_deps demo_cfg demo_world = (w', Inr sv)"
proof -
  obtain F ca where ca: "load_or_init demo_libs no_faults toy_rcgen 1 [''pki''] (pki_sans (app_pki demo_cfg)) 172800 empty_fs
      = (F, Inr ca)" and ttl: "nc_leaf_ttl ca = 172800"
    using demo_load_or_init by blast
  obtain leaf where leaf: "issue_leaf toy_rcgen 1 1700000000 ca = Inr leaf"
    by (simp add: issue_leaf_def toy_rcgen_def toy_sign_def Let_def in_i64_def toy_from_of_def toy_until_of_def
        leaf_ttl_skew_def CLOCK_SKEW_def ttl)
  have tls: "node_tls_new (dp_rustls demo_deps) (Inr leaf) trust_store_new
      = Inr \<lparr>nt_kx_groups = pq_kx_groups, nt_trust = trust_store_new, nt_current = \<lparr>ck_certs = chain_der leaf, ck_key = ()\<rparr>\<rparr>"
    by (simp add: node_tls_new_def certified_key_def demo_deps_def)
  have bind: "tcp_bind demo_deps n a = Inr (V4 127 0 0 1)" "spawn_admin demo_deps adm = Inr (V4 127 0 0 1)" for n a adm
    by (simp_all add: tcp_bind_def spawn_admin_def demo_deps_def is_loopback_bind_def)
  have "\<exists>sv. daemon_listen demo_deps demo_cfg st w = Inr sv" if "ds_ca st = Some ca" for st w
    using that leaf tls bind
    by (simp add: daemon_listen_def Let_def serve_pqmtls_start_def server_config_def) (simp add: demo_deps_def)
  moreover have "hours_to_secs 48 = 172800" by (simp add: hours_to_secs_def)
  moreover have "dp_libs demo_deps = demo_libs" "dp_os demo_deps = no_faults" "dp_rcgen demo_deps = toy_rcgen"
      "dp_rand demo_deps = (\<lambda>_. 1)" "dp_path demo_deps = (\<lambda>_. [''pki''])" "dp_open demo_deps = (\<lambda>_. Inr ())"
    by (simp_all add: demo_deps_def)
  ultimately show ?thesis using ca
    by (simp add: daemon_start_def stack_connect_def demo_migrate with_node_pki_def through_def demo_world_def)
qed

section \<open>Applications that answer\<close>

lemma json_reply_total: "json_reply toy_web f r = (n, reply) \<Longrightarrow> text_ok reply \<and> n < 1000"
  by (cases r; (cases "projl r")?) (auto simp: json_reply_def toy_print_text)

lemma json_reply_exists: "\<exists>n reply. (n, reply) = json_reply toy_web f r \<and> text_ok reply \<and> n < 1000"
  using json_reply_total [of f r] by (metis surj_pair)

lemma refused_exists: "\<exists>n reply. client_error n \<and> text_ok reply \<and> n < 1000"
  by (intro exI [of _ 404] exI [of _ "[]"]) (simp add: client_error_def)

lemma admin_app_total: "\<exists>a' n reply. admin_app A toy_web R own m t b a a' n reply \<and> text_ok reply \<and> n < 1000"
proof (cases "find_route A admin_routes m (target_path t)")
  case None
  then show ?thesis using refused_exists by (auto simp: admin_app_def)
next
  case (Some x)
  obtain h args where x: "x = (h, args)" by (cases x)
  show ?thesis
  proof (cases h)
    case AdminTrustPeer
    show ?thesis
    proof (cases "Option.bind (js_parse toy_web b) trust_request_of")
      case None
      then show ?thesis using refused_exists Some x AdminTrustPeer by (auto simp: admin_app_def)
    next
      case (Some y)
      obtain fp note' a' r where "y = (fp, note')" "trust_peer R fp note' 0 a = (a', r)" by (metis surj_pair)
      then show ?thesis using json_reply_exists [of "\<lambda>fp. JObject [(ustr ''trusted'', JString fp)]" r]
          \<open>find_route A admin_routes m (target_path t) = Some x\<close> Some x AdminTrustPeer
        by (simp add: admin_app_def) metis
    qed
  next
    case AdminDistrustPeer
    obtain a' r where "distrust_peer R (hd args) a = (a', r)" by (metis surj_pair)
    then show ?thesis using json_reply_exists [of "\<lambda>b. JObject [(ustr ''removed'', JBool b)]" r] Some x AdminDistrustPeer
      by (simp add: admin_app_def)
  qed (use Some x json_reply_exists in \<open>simp_all add: admin_app_def\<close>)
qed

lemma node_reply_exists:
  assumes "status_of r < 1000"
  shows "\<exists>n reply. node_reply L toy_web r n reply \<and> text_ok reply \<and> n < 1000"
proof (cases "response_json L toy_web r")
  case None
  then show ?thesis using assms by (intro exI [of _ "status_of r"] exI [of _ "[]"]) (simp add: node_reply_def)
next
  case (Some v)
  then show ?thesis using assms toy_print_text by (auto simp: node_reply_def)
qed

lemma error_status: "status_of (error_response e) < 1000"
  by (cases e) auto

lemma respond_status: "(\<And>x. status_of (f x) < 1000) \<Longrightarrow> status_of (respond_with f r) < 1000"
  by (cases r) (simp_all add: respond_with_def error_status)

lemma handler_status:
  "handle_push L st mo x e s = (s', r) \<Longrightarrow> status_of r < 1000"
  "handle_ack L st mo x i s = (s', r) \<Longrightarrow> status_of r < 1000"
  "handle_blob_put st x y bs s = (s', r) \<Longrightarrow> status_of r < 1000"
  by (auto simp: handle_push_def handle_ack_def handle_blob_put_def intro: respond_status split: prod.splits)

lemma pull_alone_done:
  assumes "1 \<le> max_pull_limit (ctx_config (app_ctx st))"
  shows "\<exists>r s'. pull_alone st params mo q s = (PollDone r, s')"
proof -
  obtain n where n: "mailbox_pull (app_ctx st) mo q (pull_limit st params) s = Some n"
    using assms by (simp add: mailbox_pull_def i64_clamp_def)
  show ?thesis by (cases n; cases "pp_wait params") (auto simp: pull_alone_def poll_first_def n)
qed

lemma node_app_push:
  assumes "find_route A node_routes m (target_path t) = Some (Push, args)"
  shows "\<exists>p' n reply. node_app A L toy_web st mos m t b (k, s) p' n reply \<and> text_ok reply \<and> n < 1000"
proof (cases "Option.bind (js_parse toy_web b) (push_envelope_of toy_web)")
  case None
  then show ?thesis using refused_exists assms by (auto simp: node_app_def)
next
  case (Some e)
  obtain s' r where r: "handle_push L st (mos k) (string_of (hd args)) e s = (s', r)" by (metis surj_pair)
  then have "status_of r < 1000" by (rule handler_status)
  then show ?thesis using node_reply_exists [of r L] assms Some r by (auto simp: node_app_def)
qed

lemma node_app_pull:
  assumes "find_route A node_routes m (target_path t) = Some (Pull, args)" "1 \<le> max_pull_limit (ctx_config (app_ctx st))"
  shows "\<exists>p' n reply. node_app A L toy_web st mos m t b (k, s) p' n reply \<and> text_ok reply \<and> n < 1000"
proof (cases "ax_query A (target_query t)")
  case None
  then show ?thesis using refused_exists assms(1) by (auto simp: node_app_def)
next
  case (Some params)
  show ?thesis
  proof (cases "handle_pull_start L (string_of (hd args))")
    case (Inl e)
    then show ?thesis using node_reply_exists [OF error_status, of L e] assms(1) Some by (auto simp: node_app_def)
  next
    case (Inr q)
    obtain r s' where r: "pull_alone st params (mos k) q s = (PollDone r, s')"
      using pull_alone_done [OF assms(2)] by blast
    then show ?thesis using node_reply_exists [of _ L, OF respond_status, of PullResponse r] assms(1) Some Inr
      by (auto simp: node_app_def handle_pull_response_def)
  qed
qed

lemma node_app_total:
  assumes "1 \<le> max_pull_limit (ctx_config (app_ctx st))"
  shows "\<exists>p' n reply. node_app A L toy_web st mos m t b p p' n reply \<and> text_ok reply \<and> n < 1000"
proof (cases "find_route A node_routes m (target_path t)")
  case None
  then show ?thesis using refused_exists by (cases p) (auto simp: node_app_def)
next
  case (Some x)
  obtain k s where p: "p = (k, s)" by (cases p)
  obtain h args where x: "find_route A node_routes m (target_path t) = Some (h, args)" using Some by (cases x) simp
  show ?thesis
  proof (cases h)
    case Health
    then show ?thesis using node_reply_exists [of "handle_health st" L] x by (auto simp: node_app_def p handle_health_def)
  next
    case Ack
    obtain s' r where r: "handle_ack L st (mos k) (string_of (hd args)) (args ! 1) s = (s', r)" by (metis surj_pair)
    then have "status_of r < 1000" by (rule handler_status)
    then show ?thesis using node_reply_exists [of r L] x Ack r by (auto simp: node_app_def p)
  next
    case BlobPut
    obtain s' r where r: "handle_blob_put st (string_of (hd args)) (string_of (args ! 1)) (utf8 b) s = (s', r)" by (metis surj_pair)
    then have "status_of r < 1000" by (rule handler_status)
    then show ?thesis using node_reply_exists [of r L] x BlobPut r by (auto simp: node_app_def p)
  next
    case BlobGet
    then show ?thesis using x
        node_reply_exists [of _ L, OF respond_status, of OctetStream "blob_get (app_ctx st) (string_of (hd args)) (string_of (args ! 1)) s"]
      by (auto simp: node_app_def p handle_blob_get_def)
  qed (use node_app_push node_app_pull assms x p in simp_all)
qed

end
