(* ===== verification/Cli_Properties.thy ===== *)
theory Cli_Properties
  imports Cli Demo_Daemon
begin

text \<open>
  The correctness of the operator's tool: a command that reports success on a running
  node has changed the registry and the live snapshot as it says, a listing shows the
  registry, and a ping reports mutual trust exactly when both nodes trust each other.
\<close>

section \<open>The admin client and its server\<close>

definition admin_headers :: "ustring \<Rightarrow> ustring option \<Rightarrow> ustring list" where
  "admin_headers hostport body = [ustr ''Host: '' @ hostport, CONNECTION_CLOSE]
     @ (case body of Some b \<Rightarrow> [CONTENT_JSON, content_length (length (utf8 b))] | None \<Rightarrow> [])"

lemma admin_request_text:
  "admin_request hostport meth path body
     = http_request_text meth path (admin_headers hostport body) (case body of None \<Rightarrow> [] | Some b \<Rightarrow> b)"
  by (cases body) (simp_all add: admin_request_def http_request_text_def admin_headers_def header_block_def
      CONNECTION_CLOSE_def CONTENT_JSON_def content_length_def Let_def)

lemma admin_response_read:
  "http_response n (utf8 reply) resp \<Longrightarrow> text_ok reply \<Longrightarrow> admin_response resp = Some (n, reply)"
  using response_read(1,2) [of n reply resp] by (auto simp: admin_response_def Let_def)

lemma admin_req_served:
  assumes serves: "http_serves app (net admin)" and "host_ok admin"
    and "meth \<in> {ustr ''GET'', ustr ''POST'', ustr ''PUT'', ustr ''DELETE''}" "target_ok path"
    and body: "\<And>b. body = Some b \<Longrightarrow> text_ok b"
  shows "\<exists>h' n reply. admin_req net admin meth path body h = (h', Some (n, reply))
    \<and> app meth path (case body of None \<Rightarrow> [] | Some b \<Rightarrow> b) h h' n reply"
proof -
  let ?b = "case body of None \<Rightarrow> [] | Some b \<Rightarrow> b"
  have "request_ok meth path (admin_headers admin body) ?b"
    by (rule request_okI [OF assms(2-4)]) (use body in \<open>auto simp: admin_headers_def split: option.splits\<close>)
  then obtain h' n reply resp where "net admin (utf8 (http_request_text meth path (admin_headers admin body) ?b)) h = (h', Some resp)"
      "app meth path ?b h h' n reply" "text_ok reply" "http_response n (utf8 reply) resp"
    using serves unfolding http_serves_def by blast
  then show ?thesis using admin_response_read by (auto simp: admin_req_def admin_request_text)
qed

section \<open>The running node\<close>

text \<open>
  The admin API works on the node's database and its snapshot. A request runs from its arrival
  to its answer without another request in between; \<open>Serving\<close> splits the change, the listing and
  the replacement of the snapshot.
\<close>

definition admin_view :: "('db, 'r, 'p) host \<Rightarrow> 'db admin_state" where
  "admin_view h = \<lparr>adm_store = tm_db (w_mail (h_world h)), adm_live = h_live h\<rparr>"

definition put_admin :: "'db admin_state \<Rightarrow> ('db, 'r, 'p) host \<Rightarrow> ('db, 'r, 'p) host" where
  "put_admin a h = h\<lparr>h_world := put_mail ((w_mail (h_world h))\<lparr>tm_db := adm_store a\<rparr>) (h_world h), h_live := adm_live a\<rparr>"

definition host_app :: "'db admin_state http_app \<Rightarrow> ('db, 'r, 'p) host http_app" where
  "host_app app meth target body h h' n reply \<longleftrightarrow>
     (\<exists>a. app meth target body (admin_view h) a n reply \<and> h' = put_admin a h)"

lemma admin_view_put [simp]: "admin_view (put_admin a h) = a"
  by (simp add: admin_view_def put_admin_def put_mail_def)

abbreviation node_registry :: "('db, 'r, 'k, 'h) deps \<Rightarrow> 'db registry_port" where
  "node_registry D \<equiv> turso_registry (dp_libs D) (dp_lower D) (dp_engine D)"

text \<open>The daemon is up: its registry is sound and its admin API is served at the address.\<close>

definition daemon_up ::
  "('db, 'r, 'k, 'h) deps \<Rightarrow> web_libs \<Rightarrow> axum \<Rightarrow> ('db \<Rightarrow> tables) \<Rightarrow> ('db, 'r, 'p) host admin_net \<Rightarrow> ustring \<Rightarrow> bool" where
  "daemon_up D W A view net admin \<longleftrightarrow> web_laws W \<and> axum_laws A \<and> host_ok admin
     \<and> registry_env (dp_libs D) (dp_engine D) view
     \<and> (\<exists>own. http_serves (host_app (admin_app A W (node_registry D) own)) (net admin))"

abbreviation node_trusts :: "('db \<Rightarrow> tables) \<Rightarrow> ('db, 'r, 'p) host \<Rightarrow> ustring set" where
  "node_trusts view h \<equiv> registry_trusted view (tm_db (w_mail (h_world h)))"

abbreviation node_registry_ok :: "('db \<Rightarrow> tables) \<Rightarrow> ('db, 'r, 'p) host \<Rightarrow> bool" where
  "node_registry_ok view h \<equiv> registry_inv view (tm_db (w_mail (h_world h)))"

lemma json_reply_ok:
  assumes "json_reply W f r = (n, reply)"
  shows "is_ok (ensure_ok n) \<longleftrightarrow> is_ok r"
proof (cases r)
  case (Inl e)
  then show ?thesis using assms by (cases e) (auto simp: json_reply_def ensure_ok_def)
qed (use assms in \<open>auto simp: json_reply_def ensure_ok_def\<close>)

lemma trust_request_json:
  assumes "web_laws W" "text_ok fp" "\<And>s. note = Some s \<Longrightarrow> text_ok s"
  defines "v \<equiv> JObject [(ustr ''ca_fingerprint'', JString fp), (ustr ''note'', case note of None \<Rightarrow> JNull | Some s \<Rightarrow> JString s)]"
  shows "text_ok (js_print W v)" "Option.bind (js_parse W (js_print W v)) trust_request_of = Some (fp, note)"
proof -
  have ok: "json_ok v" using assms(2,3) by (cases "note") (simp_all add: v_def)
  then show "text_ok (js_print W v)" using web_lawsD(2) [OF assms(1)] by simp
  have "trust_request_of (canon v) = Some (fp, note)"
    using ok by (cases "note") (simp_all add: v_def trust_request_of_def struct_fields_canon option_string_of_def del: canon.simps(6))
  then show "Option.bind (js_parse W (js_print W v)) trust_request_of = Some (fp, note)"
    using ok assms(1) by (simp add: web_lawsD)
qed

lemma admin_target_ok: "target_ok (ustr ''/admin/peers'')" "seg_ok fp \<Longrightarrow> target_ok (ustr ''/admin/peers/'' @ fp)"
  by (auto simp: target_ok_def ustr_def seg_ok_def list_all_iff plain_char_def is_digit_def)

lemma plain_target: "63 \<notin> set t \<Longrightarrow> target_path t = t"
  by (auto simp: target_path_def takeWhile_eq_all_conv)

text \<open>One call of the admin API.\<close>

lemma admin_call:
  assumes up: "daemon_up D W A view net admin"
    and req: "meth \<in> {ustr ''GET'', ustr ''POST'', ustr ''PUT'', ustr ''DELETE''}" "target_ok path" "\<And>b. body = Some b \<Longrightarrow> text_ok b"
  shows "\<exists>own a n reply. admin_req net admin meth path body h = (put_admin a h, Some (n, reply))
    \<and> admin_app A W (node_registry D) own meth path (case body of None \<Rightarrow> [] | Some b \<Rightarrow> b) (admin_view h) a n reply"
proof -
  from up obtain own where "host_ok admin" "http_serves (host_app (admin_app A W (node_registry D) own)) (net admin)"
    by (auto simp: daemon_up_def)
  from admin_req_served [where net = net, OF this(2,1) req, where h = h] show ?thesis unfolding host_app_def by blast
qed

lemma daemon_upD:
  assumes "daemon_up D W A view net admin"
  shows "web_laws W" "axum_laws A" "registry_env (dp_libs D) (dp_engine D) view"
  using assms by (auto simp: daemon_up_def)

lemma put_admin_fields [simp]:
  "tm_db (w_mail (h_world (put_admin a h))) = adm_store a" "h_live (put_admin a h) = adm_live a" "h_remote (put_admin a h) = h_remote h"
  "w_fs (h_world (put_admin a h)) = w_fs (h_world h)"
  by (simp_all add: put_admin_def put_mail_def)

lemma admin_view_fields [simp]: "adm_store (admin_view h) = tm_db (w_mail (h_world h))" "adm_live (admin_view h) = h_live h"
  by (simp_all add: admin_view_def)

lemma run_trust_served:
  assumes up: "daemon_up D W A view net admin" and inv: "node_registry_ok view h"
    and texts: "text_ok fp" "\<And>s. note = Some s \<Longrightarrow> text_ok s"
    and run: "run_trust D W net admin db_path fp note now h = (h', r)"
  shows "node_registry_ok view h' \<and>
    (case r of
       Inr lines \<Rightarrow> lines = [ustr ''trusting peer CA '' @ fp @ NODE_SUFFIX]
         \<and> node_trusts view h' = insert (normalize_fp (dp_lower D) fp) (node_trusts view h)
         \<and> h_live h' = node_trusts view h'
     | Inl _ \<Rightarrow> h_live h' = h_live h \<and> node_trusts view h'
         \<in> {node_trusts view h, insert (normalize_fp (dp_lower D) fp) (node_trusts view h)})"
proof -
  let ?v = "JObject [(ustr ''ca_fingerprint'', JString fp), (ustr ''note'', case note of None \<Rightarrow> JNull | Some s \<Rightarrow> JString s)]"
  note laws = daemon_upD [OF up] and body = trust_request_json [OF daemon_upD(1) [OF up] texts]
  have path: "target_path (ustr ''/admin/peers'') = ustr ''/admin/peers''" by (rule plain_target) (simp add: ustr_def)
  obtain own a n reply where req: "admin_req net admin (ustr ''POST'') (ustr ''/admin/peers'') (Some (js_print W ?v)) h
        = (put_admin a h, Some (n, reply))"
      and app: "admin_app A W (node_registry D) own (ustr ''POST'') (ustr ''/admin/peers'') (js_print W ?v) (admin_view h) a n reply"
    using admin_call [OF up, of "ustr ''POST''" "ustr ''/admin/peers''" "Some (js_print W ?v)" h] admin_target_ok(1) body(1) by auto
  from app obtain t r1 where a: "trust_peer (node_registry D) fp note t (admin_view h) = (a, r1)"
      and reply: "json_reply W (\<lambda>fp. JObject [(ustr ''trusted'', JString fp)]) r1 = (n, reply)"
    using body(2) admin_peers_route(2) [OF laws(2)] by (auto simp: admin_app_def path)
  have h': "h' = put_admin a h" "is_ok r \<longleftrightarrow> is_ok r1" "\<And>lines. r = Inr lines \<Longrightarrow> lines = [ustr ''trusting peer CA '' @ fp @ NODE_SUFFIX]"
    using run req json_reply_ok [OF reply] by (auto simp: run_trust_def is_ok_iff)
  show ?thesis
    using turso_peers.trust_peer_cases [OF laws(3) _ a] inv h' by (cases r; cases r1; auto)
qed

lemma run_distrust_served:
  assumes up: "daemon_up D W A view net admin" and inv: "node_registry_ok view h" and fp: "seg_ok fp"
    and run: "run_distrust D W net admin db_path fp h = (h', r)"
  shows "node_registry_ok view h' \<and>
    (case r of
       Inr lines \<Rightarrow> lines = [(if normalize_fp (dp_lower D) fp \<in> node_trusts view h then ustr ''distrusted peer CA '' @ fp
             else ustr ''peer CA '' @ fp @ ustr '' was not trusted'') @ NODE_SUFFIX]
         \<and> node_trusts view h' = node_trusts view h - {normalize_fp (dp_lower D) fp}
         \<and> h_live h' = node_trusts view h'
     | Inl _ \<Rightarrow> h_live h' = h_live h \<and> node_trusts view h'
         \<in> {node_trusts view h, node_trusts view h - {normalize_fp (dp_lower D) fp}})"
proof -
  let ?path = "ustr ''/admin/peers/'' @ fp" and ?f = "\<lambda>b. JObject [(ustr ''removed'', JBool b)]"
  note laws = daemon_upD [OF up]
  have path: "target_path ?path = ?path"
    by (rule plain_target) (use fp in \<open>auto simp: ustr_def seg_ok_def list_all_iff plain_char_def is_digit_def\<close>)
  obtain own a n reply where req: "admin_req net admin (ustr ''DELETE'') ?path None h = (put_admin a h, Some (n, reply))"
      and app: "admin_app A W (node_registry D) own (ustr ''DELETE'') ?path [] (admin_view h) a n reply"
    using admin_call [OF up, of "ustr ''DELETE''" ?path None h] admin_target_ok(2) [OF fp] by auto
  from app obtain r1 where a: "distrust_peer (node_registry D) fp (admin_view h) = (a, r1)"
      and reply: "json_reply W ?f r1 = (n, reply)"
    using admin_distrust_route [OF laws(2) fp] by (auto simp: admin_app_def path)
  have said: "json_bool W reply (ustr ''removed'') = b" if "r1 = Inr b" for b
  proof -
    have ok: "json_ok (?f b)" by simp
    have "reply = js_print W (?f b)" using reply that by (simp add: json_reply_def)
    then have "json_bool W reply (ustr ''removed'') = (case as_bool (json_index (ustr ''removed'') (canon (?f b))) of Some b \<Rightarrow> b | None \<Rightarrow> False)"
      using web_lawsD(1) [OF laws(1) ok] by (simp add: json_bool_def)
    then show ?thesis by (simp add: json_index_def)
  qed
  have ok: "is_ok (ensure_ok n) \<longleftrightarrow> is_ok r1" by (rule json_reply_ok [OF reply])
  have h': "h' = put_admin a h" "is_ok r \<longleftrightarrow> is_ok r1"
      "\<And>b lines. r1 = Inr b \<Longrightarrow> r = Inr lines \<Longrightarrow> lines = [(if b then ustr ''distrusted peer CA '' @ fp
             else ustr ''peer CA '' @ fp @ ustr '' was not trusted'') @ NODE_SUFFIX]"
    using run req ok said by (auto simp: run_distrust_def is_ok_iff Let_def)
  show ?thesis
    using turso_peers.distrust_peer_cases [OF laws(3) _ a] inv h' by (cases r; cases r1; auto)
qed

section \<open>Listing\<close>

text \<open>The texts of the registry are texts, and its times are 64-bit integers.\<close>

definition registry_texts :: "('db, 'r, 'k, 'h) deps \<Rightarrow> ('db, 'r, 'p) host \<Rightarrow> bool" where
  "registry_texts D h \<longleftrightarrow> (\<forall>ps. reg_list (node_registry D) (tm_db (w_mail (h_world h))) = Inr ps \<longrightarrow>
     list_all (\<lambda>p. text_ok (tp_fingerprint p) \<and> (\<forall>s. tp_note p = Some s \<longrightarrow> text_ok s) \<and> I64_MIN \<le> tp_trusted_at p) ps)"

lemma peer_json_ok:
  assumes "text_ok fp" "\<And>s. note = Some s \<Longrightarrow> text_ok s" "I64_MIN \<le> t"
  shows "json_ok (peer_json (fp, note, t))"
    "json_index (ustr ''ca_fingerprint'') (canon (peer_json (fp, note, t))) = JString fp"
    "as_str (json_index (ustr ''note'') (canon (peer_json (fp, note, t)))) = note"
proof -
  show ok: "json_ok (peer_json (fp, note, t))"
    using assms by (cases "note") (simp_all add: peer_json_def json_int_ok)
  show "json_index (ustr ''ca_fingerprint'') (canon (peer_json (fp, note, t))) = JString fp"
    "as_str (json_index (ustr ''note'') (canon (peer_json (fp, note, t)))) = note"
    using json_get_canon [OF ok] by (cases "note"; simp add: json_index_def; simp add: peer_json_def)+
qed

lemma list_json_read:
  assumes "web_laws W"
    and "list_all (\<lambda>(fp, note, t). text_ok fp \<and> (\<forall>s. note = Some s \<longrightarrow> text_ok s) \<and> I64_MIN \<le> t) ps"
  shows "js_parse W (js_print W (list_peers_json ps)) = Some (canon (list_peers_json ps))"
    "peers_of_json (canon (list_peers_json ps)) = map (\<lambda>(fp, note, t). (fp, note)) ps"
proof -
  have ok: "json_ok (list_peers_json ps)"
    using assms(2) by (simp add: list_peers_json_def) (auto simp: list_all_iff peer_json_ok(1))
  then show "js_parse W (js_print W (list_peers_json ps)) = Some (canon (list_peers_json ps))"
    by (rule web_lawsD(1) [OF assms(1)])
  have "List.map_filter (\<lambda>p. Option.bind (as_str (json_index (ustr ''ca_fingerprint'') p)) (\<lambda>fp.
          Some (fp, as_str (json_index (ustr ''note'') p)))) (map (\<lambda>p. canon (peer_json p)) ps) = map (\<lambda>(fp, note, t). (fp, note)) ps"
    using assms(2) by (induction ps) (auto simp: List.map_filter_simps peer_json_ok)
  moreover have "json_index (ustr ''peers'') (canon (list_peers_json ps)) = JArray (map (\<lambda>p. canon (peer_json p)) ps)"
    using json_get_canon [OF ok] by (simp add: json_index_def) (simp add: list_peers_json_def)
  ultimately show "peers_of_json (canon (list_peers_json ps)) = map (\<lambda>(fp, note, t). (fp, note)) ps"
    by (simp add: peers_of_json_def)
qed

lemma trusted_served:
  assumes up: "daemon_up D W A view net admin" and inv: "node_registry_ok view h" and texts: "registry_texts D h"
    and run: "trusted_fingerprints_with_notes D W net admin db_path h = (h', r)"
  shows "h' = h \<and> (case r of
      Inr ps \<Rightarrow> set (map fst ps) = node_trusts view h \<and> distinct (map fst ps)
    | Inl e \<Rightarrow> \<not> is_ok (reg_list (node_registry D) (tm_db (w_mail (h_world h)))))"
proof -
  note laws = daemon_upD [OF up]
  have path: "target_path (ustr ''/admin/peers'') = ustr ''/admin/peers''" by (rule plain_target) (simp add: ustr_def)
  obtain own a n reply where req: "admin_req net admin (ustr ''GET'') (ustr ''/admin/peers'') None h = (put_admin a h, Some (n, reply))"
      and app: "admin_app A W (node_registry D) own (ustr ''GET'') (ustr ''/admin/peers'') [] (admin_view h) a n reply"
    using admin_call [OF up, of "ustr ''GET''" "ustr ''/admin/peers''" None h] admin_target_ok(1) by auto
  from app have a: "a = admin_view h" and reply: "json_reply W list_peers_json (list_peers (node_registry D) (admin_view h)) = (n, reply)"
    using admin_peers_route(1) [OF laws(2)] by (auto simp: admin_app_def path)
  have h: "put_admin a h = h" by (simp add: a put_admin_def put_mail_def)
  show ?thesis
  proof (cases "reg_list (node_registry D) (tm_db (w_mail (h_world h)))")
    case (Inl e)
    with reply have "\<not> is_ok (ensure_ok n)" using json_reply_ok [OF reply] by (simp add: list_peers_def)
    then show ?thesis using run req h Inl
      by (auto simp: trusted_fingerprints_with_notes_def is_ok_iff and_then_def split: sum.splits)
  next
    case (Inr ps)
    let ?ps = "map (\<lambda>p. (tp_fingerprint p, tp_note p, tp_trusted_at p)) ps"
    have n: "n = 200" "reply = js_print W (list_peers_json ?ps)" using reply Inr by (auto simp: list_peers_def json_reply_def)
    have "list_all (\<lambda>(fp, note, t). text_ok fp \<and> (\<forall>s. note = Some s \<longrightarrow> text_ok s) \<and> I64_MIN \<le> t) ?ps"
      using texts Inr unfolding registry_texts_def by (auto simp: list_all_iff)
    from list_json_read [OF laws(1) this]
    have "r = Inr (map (\<lambda>p. (tp_fingerprint p, tp_note p)) ps)" "h' = h"
      using run req h n by (auto simp: trusted_fingerprints_with_notes_def ensure_ok_def comp_def)
    moreover have "map fst (map (\<lambda>p. (tp_fingerprint p, tp_note p)) ps) = map tp_fingerprint ps" by simp
    ultimately show ?thesis using turso_peers.list_law [OF laws(3) inv, of "dp_lower D" ps] Inr
      by (simp add: comp_def)
  qed
qed

section \<open>Pinging\<close>

lemma cli_load_ca_only_files:
  assumes "cli_load_ca D dir h = (h1, r)"
  shows "w_mail (h_world h1) = w_mail (h_world h)" "h_live h1 = h_live h" "h_remote h1 = h_remote h"
  using assms by (auto simp: cli_load_ca_def through_def put_world_def put_fs_def split: prod.splits)

text \<open>The line of a ping that says both nodes trust each other.\<close>

definition mutual_line :: "ustring \<Rightarrow> ustring" where
  "mutual_line fp = ustr ''peer CA '' @ fp @ ustr '' '' @ [8212] @ ustr '' mutual PQ-mTLS OK (both nodes trust)''"

lemma run_ping_probe:
  assumes up: "daemon_up D W A view net admin" "node_registry_ok view h" "registry_texts D h"
      "is_ok (reg_list (node_registry D) (tm_db (w_mail (h_world h))))"
    and own: "cli_load_ca D dir h = (h1, Inr ca)" "rustls_ok (dp_rustls D)"
      "issue_leaf (dp_rcgen D) (dp_rand D 1) (dp_now D) ca = Inr leaf1" "issue_leaf (dp_rcgen D) (dp_rand D 2) (dp_now D) ca = Inr leaf2"
  shows "\<exists>n h' p' r. nt_trust n = node_trusts view h
    \<and> probe_peer W N (dp_rustls D) (Inr leaf2) n addr (h_remote h) = (p', r)
    \<and> run_ping D W net N show admin db_path dir addr h = (h', Inr (case r of
        Inr health \<Rightarrow> [ustr ''reachable: '' @ ph_status_line health,
          case ph_ca_fingerprint health of Some fp \<Rightarrow> mutual_line fp | None \<Rightarrow> ustr ''peer did not advertise a CA fingerprint'']
      | Inl e \<Rightarrow> [ustr ''unreachable or refused: '' @ show e,
          ustr ''(mutual trust required: you must `peer trust <peer-ca-fp>` and the peer must trust your CA ''
            @ [8212] @ ustr '' share `ca show`)'']))"
proof -
  note same = cli_load_ca_only_files [OF own(1)]
  have up1: "node_registry_ok view h1" "registry_texts D h1" "is_ok (reg_list (node_registry D) (tm_db (w_mail (h_world h1))))"
    using up(2-4) same by (simp_all add: registry_texts_def)
  obtain h2 r2 where t: "trusted_fingerprints_with_notes D W net admin db_path h1 = (h2, r2)"
    by (cases "trusted_fingerprints_with_notes D W net admin db_path h1")
  from trusted_served [OF up(1) up1(1,2) t] up1(3) obtain ps where ps: "r2 = Inr ps" "h2 = h1" "set (map fst ps) = node_trusts view h1"
    by (cases r2) auto
  obtain n where n: "node_tls_new (dp_rustls D) (Inr leaf1) (from_fingerprints (map fst ps)) = Inr n"
      "nt_trust n = from_fingerprints (map fst ps)"
    using node_tls_new_up [OF own(2)] by blast
  obtain p' r where probe: "probe_peer W N (dp_rustls D) (Inr leaf2) n addr (h_remote h) = (p', r)"
    by (cases "probe_peer W N (dp_rustls D) (Inr leaf2) n addr (h_remote h)")
  have "nt_trust n = node_trusts view h" using n(2) ps(3) same(1) by (simp add: from_fingerprints_def)
  moreover have "\<exists>h'. run_ping D W net N show admin db_path dir addr h = (h', Inr (case r of
        Inr health \<Rightarrow> [ustr ''reachable: '' @ ph_status_line health,
          case ph_ca_fingerprint health of Some fp \<Rightarrow> mutual_line fp | None \<Rightarrow> ustr ''peer did not advertise a CA fingerprint'']
      | Inl e \<Rightarrow> [ustr ''unreachable or refused: '' @ show e,
          ustr ''(mutual trust required: you must `peer trust <peer-ca-fp>` and the peer must trust your CA ''
            @ [8212] @ ustr '' share `ca show`)'']))"
    using own t ps(1,2) n(1) probe same(3)
    by (cases r) (simp_all add: run_ping_def Let_def through_def mutual_line_def split: option.split)
  ultimately show ?thesis using probe by blast
qed

section \<open>A host\<close>

text \<open>A host whose registry has its own authority, with a node that answers as its peer.\<close>

definition demo_fp :: ustring where
  "demo_fp = ustr (nc_fingerprint demo_ca)"

definition demo_host :: "(tables, locator \<Rightarrow> bytes option, nat \<times> tables turso) host" where
  "demo_host = \<lparr>h_world = put_mail (turso_new (empty_tables
      \<lparr>t_peers := [\<lparr>pr_fingerprint = demo_fp, pr_note = None, pr_trusted_at = 0\<rparr>]\<rparr>)) demo_world,
     h_live = {demo_fp}, h_remote = (0, demo_turso)\<rparr>"

definition demo_url :: ustring where
  "demo_url = ustr ''http://127.0.0.1:8081''"

definition demo_admin_net :: "(tables, locator \<Rightarrow> bytes option, nat \<times> tables turso) host admin_net" where
  "demo_admin_net = (\<lambda>_. ideal_net (host_app (admin_app toy_axum toy_web (node_registry demo_deps) (nc_fingerprint demo_ca))))"

definition demo_leaf :: node_leaf where
  "demo_leaf = projr (issue_leaf toy_rcgen 1 1700000000 demo_ca)"

definition demo_srv :: "nat \<times> tables turso \<Rightarrow> tls_config" where
  "demo_srv _ = \<lparr>tc_kx_groups = pq_kx_groups, tc_verifier = PinnedClientCertVerifier {demo_fp}, tc_presented = chain_der demo_leaf\<rparr>"

definition demo_node :: "tables turso app_state" where
  "demo_node = \<lparr>app_ctx = demo_ctx\<lparr>ctx_pki_fingerprint := Some (nc_fingerprint demo_ca)\<rparr>, app_max_wait = 30\<rparr>"

definition demo_mos :: "nat \<Rightarrow> moment" where
  "demo_mos k = \<lparr>now_ms = 1700000000000 + int k, fresh_uuid = of_nat k\<rparr>"

definition demo_tls :: "(nat \<times> tables turso) tls_net" where
  "demo_tls = ideal_tls demo_libs toy_x509 1700000001 demo_srv (node_app toy_axum demo_libs toy_web demo_node demo_mos)"

definition demo_show :: "probe_error \<Rightarrow> ustring" where
  "demo_show _ = []"

lemma demo_deps_fields [simp]:
  "dp_libs demo_deps = demo_libs" "dp_lower demo_deps = ascii_lowercase" "dp_engine demo_deps = ref_engine" "dp_os demo_deps = no_faults"
  "dp_rcgen demo_deps = toy_rcgen" "dp_rand demo_deps n = 1" "dp_now demo_deps = 1700000000" "dp_path demo_deps d = [''pki'']"
  by (simp_all add: demo_deps_def)

lemma demo_fp_ok: "normalize_fp ascii_lowercase demo_fp = demo_fp" "seg_ok demo_fp" "text_ok demo_fp"
proof -
  have fp: "demo_fp = ustr (hex_encode demo_libs (sha256 demo_libs (nc_der demo_ca)))"
    by (simp add: demo_fp_def demo_ca_def Let_def fingerprint_def)
  have hex: "hex_laws demo_libs" using demo_libs_laws by (simp add: libs_laws_def)
  then show "normalize_fp ascii_lowercase demo_fp = demo_fp" unfolding fp by (rule normalize_hex [OF ascii_lowercase_laws])
  have c: "48 \<le> c \<and> c < 58 \<or> 97 \<le> c \<and> c < 123" if "c \<in> set demo_fp" for c
    using that ustr_hex_range hex_encode_digits [OF hex] unfolding fp by blast
  have "demo_fp \<noteq> []" by (simp add: fp ustr_def demo_libs_def hex_of_def demo_ca_def Let_def toy_der_def)
  then show "seg_ok demo_fp" using c by (fastforce simp: seg_ok_def list_all_iff plain_char_def is_digit_def)
  show "text_ok demo_fp" using c by (fastforce simp: list_all_iff is_scalar_def)
qed

lemma demo_daemon_up: "daemon_up demo_deps toy_web toy_axum (\<lambda>T. T) demo_admin_net (admin_hostport demo_url)"
proof -
  have "total_app (host_app (admin_app toy_axum toy_web (node_registry demo_deps) (nc_fingerprint demo_ca)))"
    unfolding total_app_def host_app_def using admin_app_total by metis
  then have "http_serves (host_app (admin_app toy_axum toy_web (node_registry demo_deps) (nc_fingerprint demo_ca))) (demo_admin_net x)" for x
    unfolding demo_admin_net_def by (rule ideal_serves)
  moreover have "host_ok (admin_hostport demo_url)"
    by (simp add: demo_url_def admin_hostport_def ustr_def strip_prefix_def host_ok_def is_scalar_def Let_def)
  ultimately show ?thesis unfolding daemon_up_def using toy_web_laws toy_axum_laws demo_registry_env by auto
qed

lemma demo_host_registry:
  "node_registry_ok (\<lambda>T. T) demo_host" "node_trusts (\<lambda>T. T) demo_host = {demo_fp}" "registry_texts demo_deps demo_host"
  "is_ok (reg_list (node_registry demo_deps) (tm_db (w_mail (h_world demo_host))))"
proof -
  have rows: "t_peers (tm_db (w_mail (h_world demo_host))) = [\<lparr>pr_fingerprint = demo_fp, pr_note = None, pr_trusted_at = 0\<rparr>]"
    by (simp add: demo_host_def turso_new_def)
  have "list_trusted demo_libs ref_engine (tm_db (w_mail (h_world demo_host)))
      = Inr [\<lparr>tp_fingerprint = demo_fp, tp_note = None, tp_trusted_at = 0\<rparr>]"
    by (simp add: list_trusted_def peer_of_row_def peer_columns_def ref_engine_def demo_libs_def LAST_MS_def rows)
  then show "registry_texts demo_deps demo_host" "is_ok (reg_list (node_registry demo_deps) (tm_db (w_mail (h_world demo_host))))"
    using demo_fp_ok(3) by (simp_all add: registry_texts_def turso_registry_def I64_MIN_def)
  show "node_registry_ok (\<lambda>T. T) demo_host" "node_trusts (\<lambda>T. T) demo_host = {demo_fp}"
    by (simp_all add: registry_inv_def registry_trusted_def rows)
qed

lemma demo_distrust_runs:
  "\<exists>h' lines. run_peer demo_deps toy_web demo_admin_net N show ''db'' ''pki'' demo_url 0 (PeerDistrust demo_fp) demo_host = (h', Inr lines)"
proof -
  let ?path = "ustr ''/admin/peers/'' @ demo_fp"
  have path: "target_path ?path = ?path"
    by (rule plain_target) (use demo_fp_ok(2) in \<open>auto simp: ustr_def seg_ok_def list_all_iff plain_char_def is_digit_def\<close>)
  obtain own a n reply where req: "admin_req demo_admin_net (admin_hostport demo_url) (ustr ''DELETE'') ?path None demo_host
        = (put_admin a demo_host, Some (n, reply))"
      and app: "admin_app toy_axum toy_web (node_registry demo_deps) own (ustr ''DELETE'') ?path [] (admin_view demo_host) a n reply"
    using admin_call [OF demo_daemon_up, of "ustr ''DELETE''" ?path None demo_host] admin_target_ok(2) [OF demo_fp_ok(2)] by auto
  from app obtain r where r: "distrust_peer (node_registry demo_deps) demo_fp (admin_view demo_host) = (a, r)"
      and reply: "json_reply toy_web (\<lambda>b. JObject [(ustr ''removed'', JBool b)]) r = (n, reply)"
    using admin_distrust_route [OF toy_axum_laws demo_fp_ok(2)] by (auto simp: admin_app_def path)
  have "\<exists>a b. distrust_peer (node_registry demo_deps) demo_fp (admin_view demo_host) = (a, Inr b)"
    using demo_list_ok [of empty_tables]
    by (auto simp: distrust_peer_def on_store_def turso_registry_def distrust_def registry_execute_def ref_engine_def Let_def
        refresh_live_def admin_view_def demo_host_def turso_new_def demo_fp_ok(1) empty_tables_def)
  then have "is_ok (ensure_ok n)" using r json_reply_ok [OF reply] by auto
  then show ?thesis using req by (auto simp: run_peer_def run_distrust_def Let_def is_ok_iff)
qed

section \<open>The commands\<close>

text \<open>
  C25. A registry command that reports success on a running node has taken effect, in
  the registry and for the next handshake: after \<open>peer trust\<close> the normalised fingerprint is
  trusted, after \<open>peer distrust\<close> it is not, nothing else changed, the live snapshot equals the
  registry, and the line printed for a distrust says truly whether the peer had been trusted.
\<close>

theorem peer_commands_effective:
  assumes up: "daemon_up D W A view net (admin_hostport url)" "node_registry_ok view h"
    and run: "run_peer D W net N show db_path dir url now cmd h = (h', Inr lines)"
    and cmd: "cmd = PeerTrust fp note \<and> text_ok fp \<and> (\<forall>s. note = Some s \<longrightarrow> text_ok s) \<or> cmd = PeerDistrust fp \<and> seg_ok fp"
  shows "node_registry_ok view h' \<and> h_live h' = node_trusts view h' \<and>
    (if cmd = PeerDistrust fp
     then node_trusts view h' = node_trusts view h - {normalize_fp (dp_lower D) fp}
       \<and> (lines = [ustr ''distrusted peer CA '' @ fp @ NODE_SUFFIX] \<longleftrightarrow> normalize_fp (dp_lower D) fp \<in> node_trusts view h)
     else node_trusts view h' = insert (normalize_fp (dp_lower D) fp) (node_trusts view h))"
proof (cases "cmd = PeerDistrust fp")
  case True
  then have "run_distrust D W net (admin_hostport url) db_path fp h = (h', Inr lines)" "seg_ok fp"
    using run cmd by (simp_all add: run_peer_def)
  moreover have "ustr ''peer CA '' @ fp @ x \<noteq> ustr ''distrusted peer CA '' @ fp" for x by (simp add: ustr_def)
  ultimately show ?thesis using True
      run_distrust_served [OF up, of fp db_path h' "Inr lines"] by auto
next
  case False
  then show ?thesis
    using run cmd run_trust_served [OF up, of fp "note" db_path now h' "Inr lines"] by (auto simp: run_peer_def)
qed

theorem peer_commands_effective_witness:
  "\<exists>h' lines. run_peer demo_deps toy_web demo_admin_net demo_tls demo_show ''db'' ''pki'' demo_url 0 (PeerDistrust demo_fp) demo_host
      = (h', Inr lines) \<and> node_trusts (\<lambda>T. T) demo_host = {demo_fp} \<and> node_trusts (\<lambda>T. T) h' = {} \<and> h_live h' = {}
    \<and> lines = [ustr ''distrusted peer CA '' @ demo_fp @ NODE_SUFFIX]"
proof -
  obtain h' lines where run: "run_peer demo_deps toy_web demo_admin_net demo_tls demo_show ''db'' ''pki'' demo_url 0
      (PeerDistrust demo_fp) demo_host = (h', Inr lines)"
    using demo_distrust_runs by blast
  from peer_commands_effective [OF demo_daemon_up demo_host_registry(1) run, of demo_fp None] show ?thesis
    using run demo_host_registry demo_fp_ok by auto
qed

text \<open>
  C26. \<open>peer ping\<close> reports mutual trust exactly when there is mutual trust. On a host whose
  node answers its admin API, with both nodes presenting leaves that are currently valid and
  the peer's listener reachable, the command prints the line that says so if and only if
  the peer's snapshot pins this node's authority and this node's registry has the peer's.
\<close>

theorem ping_reports_mutual_trust:
  assumes up: "daemon_up D W A view net (admin_hostport url)" "node_registry_ok view h" "registry_texts D h"
      "is_ok (reg_list (node_registry D) (tm_db (w_mail (h_world h))))"
    and own: "cli_load_ca D dir h = (h1, Inr ca)" "pki_laws X (dp_rcgen D) pub" "authority_ok (dp_libs D) X pub ca" "rustls_ok (dp_rustls D)"
      "issue_leaf (dp_rcgen D) (dp_rand D 1) (dp_now D) ca = Inr leaf1" "issue_leaf (dp_rcgen D) (dp_rand D 2) (dp_now D) ca = Inr leaf2"
    and remote: "mtls_sound (dp_libs D) X srv N" "mtls_serves (dp_libs D) X now srv (node_app A (dp_libs D) W st mos) (AddrText addr) N"
      "host_ok addr" "tn_server_name N (probe_host addr)" "ctx_pki_fingerprint (app_ctx st) = Some (fingerprint (dp_libs D) peer)"
      "leaf_valid (dp_libs D) X now (tc_presented (srv (h_remote h))) peer"
    and clock: "dp_now D - CLOCK_SKEW \<le> u64_to_i64 now" "u64_to_i64 now \<le> dp_now D + nc_leaf_ttl ca"
      "DEFAULT_NOT_BEFORE \<le> u64_to_i64 now" "u64_to_i64 now \<le> DEFAULT_NOT_AFTER"
  shows "\<exists>h' l1 l2. run_peer D W net N show db_path dir url t (PeerPing addr) h = (h', Inr [l1, l2]) \<and>
    (l2 = mutual_line (ustr (fingerprint (dp_libs D) peer)) \<longleftrightarrow>
       ustr (nc_fingerprint ca) \<in> tc_trust (srv (h_remote h)) \<and> ustr (fingerprint (dp_libs D) peer) \<in> node_trusts view h)"
proof -
  obtain n h' p' r where n: "nt_trust n = node_trusts view h"
    and probe: "probe_peer W N (dp_rustls D) (Inr leaf2) n addr (h_remote h) = (p', r)"
    and run: "run_ping D W net N show (admin_hostport url) db_path dir addr h = (h', Inr (case r of
        Inr health \<Rightarrow> [ustr ''reachable: '' @ ph_status_line health,
          case ph_ca_fingerprint health of Some fp \<Rightarrow> mutual_line fp | None \<Rightarrow> ustr ''peer did not advertise a CA fingerprint'']
      | Inl e \<Rightarrow> [ustr ''unreachable or refused: '' @ show e,
          ustr ''(mutual trust required: you must `peer trust <peer-ca-fp>` and the peer must trust your CA ''
            @ [8212] @ ustr '' share `ca show`)'']))"
    using run_ping_probe [OF up own(1,4-6)] by blast
  obtain cfg where cfg: "client_config (dp_rustls D) (Inr leaf2) n = Inr cfg" using client_config_up [OF own(4)] by blast
  have leaf: "leaf_valid (dp_libs D) X now (chain_der leaf2) (nc_der ca)"
    by (rule issued_leaf_valid [OF own(2,3,6) clock])
  have fp: "nc_fingerprint ca = fingerprint (dp_libs D) (nc_der ca)" using own(3) by (simp add: authority_ok_def)
  note iff = probe_iff [OF remote(1,2) daemon_upD(1,2) [OF up(1)] remote(3-5) cfg leaf remote(6) probe]
  have "ustr ''(mutual trust'' @ x \<noteq> mutual_line y" for x y by (simp add: mutual_line_def ustr_def)
  then show ?thesis using run iff n fp
    by (cases r) (auto simp: run_peer_def mutual_line_def ustr_def)
qed

lemma demo_ca_loads:
  "\<exists>F ca. load_or_init demo_libs no_faults toy_rcgen 1 [''pki''] sans ttl empty_fs = (F, Inr ca)
    \<and> nc_key ca = nc_key demo_ca \<and> nc_der ca = nc_der demo_ca \<and> nc_fingerprint ca = nc_fingerprint demo_ca \<and> nc_leaf_ttl ca = ttl"
  by (simp add: load_or_init_def Let_def create_ca_def persist_def restrict_dir_def restrict_file_def ca_params_def from_loaded_def demo_files
    toy_rcgen_def toy_sign_def in_i64_def toy_from_of_def toy_until_of_def DEFAULT_NOT_BEFORE_def
    DEFAULT_NOT_AFTER_def empty_fs_def CA_CERT_FILE_def CA_KEY_FILE_def demo_ca_def)

lemma demo_cli_ca:
  "\<exists>h1 ca. cli_load_ca demo_deps ''pki'' demo_host = (h1, Inr ca) \<and> nc_key ca = nc_key demo_ca \<and> nc_der ca = nc_der demo_ca
    \<and> nc_fingerprint ca = nc_fingerprint demo_ca \<and> nc_leaf_ttl ca = 172800"
  using demo_ca_loads [of default_sans NOMINAL_LEAF_TTL]
  by (auto simp: cli_load_ca_def through_def demo_host_def demo_world_def put_mail_def NOMINAL_LEAF_TTL_def)

lemma demo_leaf_ok:
  "nc_key ca = nc_key demo_ca \<Longrightarrow> nc_leaf_ttl ca \<in> {3600, 172800} \<Longrightarrow> \<exists>leaf. issue_leaf toy_rcgen n 1700000000 ca = Inr leaf"
  "issue_leaf toy_rcgen 1 1700000000 demo_ca = Inr demo_leaf"
  by (auto simp: issue_leaf_def toy_rcgen_def toy_sign_def Let_def in_i64_def toy_from_of_def toy_until_of_def
        leaf_ttl_skew_def CLOCK_SKEW_def demo_ca_def demo_leaf_def)

text \<open>The demonstration node is up: it presents a valid leaf and answers every request of a peer it trusts.\<close>

lemma demo_node_serves:
  "mtls_serves demo_libs toy_x509 1700000001 demo_srv (node_app toy_axum demo_libs toy_web demo_node demo_mos) addr demo_tls"
proof -
  have "total_app (node_app toy_axum demo_libs toy_web demo_node demo_mos)"
    unfolding total_app_def by (intro allI node_app_total) (simp add: demo_node_def demo_ctx_def core_config_default_def)
  then show ?thesis unfolding demo_tls_def by (rule ideal_tls_serves)
qed

lemma demo_clock:
  "1700000000 - CLOCK_SKEW \<le> u64_to_i64 1700000001" "3600 \<le> ttl \<Longrightarrow> u64_to_i64 1700000001 \<le> 1700000000 + ttl"
  "DEFAULT_NOT_BEFORE \<le> u64_to_i64 1700000001" "u64_to_i64 1700000001 \<le> DEFAULT_NOT_AFTER"
  by (simp_all add: u64_to_i64_def CLOCK_SKEW_def DEFAULT_NOT_BEFORE_def DEFAULT_NOT_AFTER_def I64_MAX_def)

lemma demo_node_leaf: "leaf_valid demo_libs toy_x509 1700000001 (tc_presented (demo_srv p)) (nc_der demo_ca)"
  using issued_leaf_valid [OF toy_pki_laws demo_ca_ok demo_leaf_ok(2), of 1700000001] demo_clock demo_clock(2) [of 172800]
  by (simp add: demo_srv_def) (simp add: demo_ca_def Let_def)

theorem ping_reports_mutual_trust_witness:
  "\<exists>h' l1. run_peer demo_deps toy_web demo_admin_net demo_tls demo_show ''db'' ''pki'' demo_url 0 (PeerPing (ustr ''peer:31415'')) demo_host
    = (h', Inr [l1, mutual_line demo_fp])"
proof -
  obtain h1 ca where ca: "cli_load_ca demo_deps ''pki'' demo_host = (h1, Inr ca)" "nc_key ca = nc_key demo_ca"
      "nc_der ca = nc_der demo_ca" "nc_fingerprint ca = nc_fingerprint demo_ca" "nc_leaf_ttl ca = 172800"
    using demo_cli_ca by blast
  obtain leaf where leaf: "issue_leaf toy_rcgen 1 1700000000 ca = Inr leaf" using demo_leaf_ok(1) ca by blast
  have auth: "authority_ok demo_libs toy_x509 (\<lambda>k. [toy_bit k]) ca" using demo_ca_ok ca(2-4) by (simp add: authority_ok_def)
  have fp: "nc_fingerprint demo_ca = fingerprint demo_libs (nc_der demo_ca)" using demo_ca_ok by (simp add: authority_ok_def)
  have tls: "rustls_ok (dp_rustls demo_deps)" by (simp add: rustls_ok_def demo_deps_def)
  have names: "host_ok (ustr ''peer:31415'')" "tn_server_name demo_tls x" for x
    by (simp_all add: host_ok_def ustr_def is_scalar_def demo_tls_def ideal_tls_def)
  have node: "ctx_pki_fingerprint (app_ctx demo_node) = Some (fingerprint demo_libs (nc_der demo_ca))"
    by (simp add: demo_node_def fp)
  have net: "mtls_sound demo_libs toy_x509 demo_srv demo_tls" unfolding demo_tls_def by (rule ideal_tls_sound)
  from ping_reports_mutual_trust [OF demo_daemon_up demo_host_registry(1,3,4) ca(1), of toy_x509 "\<lambda>k. [toy_bit k]" leaf leaf
      demo_srv demo_tls 1700000001 demo_node demo_mos "ustr ''peer:31415''" "nc_der demo_ca" demo_show "''db''" 0]
  obtain h' l1 l2 where "run_peer demo_deps toy_web demo_admin_net demo_tls demo_show ''db'' ''pki'' demo_url 0 (PeerPing (ustr ''peer:31415'')) demo_host
      = (h', Inr [l1, l2])" "l2 = mutual_line (ustr (fingerprint demo_libs (nc_der demo_ca)))
       \<longleftrightarrow> ustr (nc_fingerprint ca) \<in> tc_trust (demo_srv (h_remote demo_host)) \<and> ustr (fingerprint demo_libs (nc_der demo_ca)) \<in> node_trusts (\<lambda>T. T) demo_host"
    using auth leaf tls names node demo_node_leaf demo_node_serves demo_clock demo_clock(2) [of 172800] toy_pki_laws ca(5) net by auto
  then show ?thesis using demo_host_registry(2) ca(4) by (auto simp: demo_srv_def demo_fp_def fp)
qed

end
