(* ===== verification/Relay_Properties.thy ===== *)
theory Relay_Properties
  imports Long_Poll Demo_Node
begin

text \<open>
  The correctness of the relay, from the HTTP handlers down to the tables: what is
  accepted stays available until it is acknowledged or expires, queues do not influence
  each other, a client that pulls and acknowledges obtains everything exactly once and
  oldest first, waiting pulls are woken, and the limits of the node hold. The
  statements hold for every engine that implements SQL (\<open>turso_env\<close>) and, where an
  answer is promised, answers (\<open>turso_up\<close>). The last section shows three behaviours
  that differ from what the code documents.
\<close>

section \<open>Concrete data\<close>

definition demo_q :: queue_id where
  "demo_q = replicate 32 7"

definition demo_moment :: "int \<Rightarrow> moment" where
  "demo_moment t = \<lparr>now_ms = t, fresh_uuid = 5\<rparr>"

definition demo_row :: "int \<Rightarrow> uuid \<Rightarrow> int \<Rightarrow> envelope_row" where
  "demo_row k u t = \<lparr>er_id = k, er_queue_id = demo_q, er_envelope_id = ustr (uuid_to_string demo_libs u),
     er_payload = [1, 2, 3], er_received_at = t, er_expires_at = t + 60000, er_delivered_at = None\<rparr>"

text \<open>A node holding two envelopes, the second with the earlier time stamp.\<close>

definition demo_busy :: "tables turso" where
  "demo_busy = turso_new \<lparr>t_envelopes = [demo_row 1 1 2000, demo_row 2 2 1000], t_receipts = [], t_peers = []\<rparr>"

definition demo_req :: push_envelope where
  "demo_req = \<lparr>pe_payload = [9], pe_ttl = 60\<rparr>"

lemma demo_data [simp]: "now_ms (demo_moment t) = t" "fresh_uuid (demo_moment t) = 5"
    "pe_payload demo_req = [9]" "pe_ttl demo_req = 60" "demo_q \<noteq> []" "[] \<noteq> demo_q"
  by (simp_all add: demo_moment_def demo_req_def demo_q_def)

lemma demo_uuid: "uuid_laws demo_libs"
  using demo_libs_laws by blast

lemma demo_busy_inv: "turso_inv demo_libs (\<lambda>T. T) demo_busy"
  by (simp add: turso_inv_def demo_busy_def turso_new_def rows_ok_def demo_row_def demo_uuid uuid_string_inject)

lemma demo_busy_mails: "turso_mails demo_libs (\<lambda>T. T) demo_busy =
  [\<lparr>mail_queue = demo_q, mail_envelope = \<lparr>se_id = 1, se_payload = [1, 2, 3], se_received_at = 2000, se_expires_at = 62000\<rparr>, mail_delivered = None\<rparr>,
   \<lparr>mail_queue = demo_q, mail_envelope = \<lparr>se_id = 2, se_payload = [1, 2, 3], se_received_at = 1000, se_expires_at = 61000\<rparr>, mail_delivered = None\<rparr>]"
  by (simp add: turso_mails_def demo_busy_def turso_new_def demo_row_def row_mail_def demo_uuid)

lemma demo_busy_live: "live_envelopes demo_q 3000 (turso_mails demo_libs (\<lambda>T. T) demo_busy) =
  [\<lparr>se_id = 2, se_payload = [1, 2, 3], se_received_at = 1000, se_expires_at = 61000\<rparr>,
   \<lparr>se_id = 1, se_payload = [1, 2, 3], se_received_at = 2000, se_expires_at = 62000\<rparr>]"
  by (simp add: demo_busy_mails live_envelopes_def live_def)

lemma demo_config: "ctx_config demo_ctx = core_config_default"
  by (simp add: demo_ctx_def)

section \<open>Delivery\<close>

lemma sorted_live: "sorted (map se_received_at (live_envelopes q t ms))"
  unfolding live_envelopes_def map_map comp_def by (rule sorted_sort_key)

text \<open>
  C17. A client that pulls a queue and acknowledges what it received, round after round,
  obtains every live envelope of the queue exactly once, oldest first, and leaves the
  queue empty: \<open>n\<close> rounds suffice when \<open>n\<close> batches cover the queue. The node answers every
  request on the way.
\<close>

theorem relay_drains_queue:
  assumes "turso_up L E view" "turso_inv L view s" "ctx_mailbox ctx = turso_repo L E"
    and "dates_ok (turso_mails L view s)" "1 \<le> max_pull_limit (ctx_config ctx)"
    and "length (live_envelopes q (now_ms mo) (turso_mails L view s)) \<le> n * batch ctx limit"
  shows "\<exists>s'. drain ctx mo q limit n s = Some (s', Inr (live_envelopes q (now_ms mo) (turso_mails L view s)))
    \<and> turso_inv L view s' \<and> live_envelopes q (now_ms mo) (turso_mails L view s') = []
    \<and> distinct (map se_id (live_envelopes q (now_ms mo) (turso_mails L view s)))
    \<and> sorted (map se_received_at (live_envelopes q (now_ms mo) (turso_mails L view s)))"
  using turso_avail.drain_complete [OF assms] sorted_live mails_ok_ids [OF turso_inv_mails [OF assms(2)]] by blast

theorem relay_drains_queue_witness:
  "\<exists>s'. drain demo_ctx (demo_moment 3000) demo_q 1 2 demo_busy = Some (s', Inr
    [\<lparr>se_id = 2, se_payload = [1, 2, 3], se_received_at = 1000, se_expires_at = 61000\<rparr>,
     \<lparr>se_id = 1, se_payload = [1, 2, 3], se_received_at = 2000, se_expires_at = 62000\<rparr>])"
proof -
  have "dates_ok (turso_mails demo_libs (\<lambda>T. T) demo_busy)"
    by (simp add: demo_busy_mails dates_ok_def LAST_MS_def)
  moreover have "1 \<le> max_pull_limit (ctx_config demo_ctx)" "batch demo_ctx 1 = 1"
    by (simp_all add: demo_config core_config_default_def batch_def)
  ultimately show ?thesis
    using relay_drains_queue [OF demo_up demo_busy_inv demo_ctx_mailbox, of demo_q "demo_moment 3000" 2 1]
    by (auto simp: demo_busy_live)
qed

text \<open>
  An envelope the node accepted stays live: whatever operations other clients run
  afterwards, on this queue or others, failing or not, short of an acknowledgement of
  this envelope or a sweep after its expiry, a pull before the expiry finds it among the live
  envelopes, with the payload and the times it was accepted with.
\<close>

theorem accepted_envelope_kept:
  assumes "turso_env L E view" "turso_inv L view s" "ctx_mailbox ctx = turso_repo L E"
    and "mailbox_push ctx mo q req s = (s', Inr i)"
    and "\<forall>op \<in> set ops. \<not> removes q i (expiry mo (clamp_ttl (pe_ttl req) (ctx_config ctx))) op"
    and "now_ms mo' < expiry mo (clamp_ttl (pe_ttl req) (ctx_config ctx))"
  shows "\<lparr>se_id = i, se_payload = pe_payload req, se_received_at = now_ms mo,
      se_expires_at = expiry mo (clamp_ttl (pe_ttl req) (ctx_config ctx))\<rparr>
    \<in> set (live_envelopes q (now_ms mo') (turso_mails L view (fold (relay_exec ctx) ops s')))"
  by (rule turso.accepted_kept [OF assms])

lemma demo_push: "\<exists>s'. mailbox_push demo_ctx (demo_moment t) demo_q demo_req demo_turso = (s', Inr 5)"
proof -
  have "insert_envelope q ident p a b [] = Inr [\<lparr>er_id = 1, er_queue_id = q, er_envelope_id = ident,
      er_payload = p, er_received_at = a, er_expires_at = b, er_delivered_at = None\<rparr>]" for q ident p a b
    by (simp add: insert_envelope_def next_rowid_def I64_MAX_def)
  then show ?thesis
    by (simp add: mailbox_push_def demo_config core_config_default_def demo_req_def turso_repo_def
        turso_push_def turso_insert_def turso_execute_def ref_engine_def demo_turso_def turso_new_def empty_tables_def
        demo_moment_def Let_def)
qed

theorem accepted_envelope_kept_witness:
  "\<exists>s'. mailbox_push demo_ctx (demo_moment 1000) demo_q demo_req demo_turso = (s', Inr 5) \<and>
    \<lparr>se_id = 5, se_payload = [9], se_received_at = 1000, se_expires_at = 61000\<rparr>
      \<in> set (live_envelopes demo_q 2000 (turso_mails demo_libs (\<lambda>T. T)
          (fold (relay_exec demo_ctx) [OpSweep (demo_moment 60999), OpAck (demo_moment 1500) [] 5] s')))"
proof -
  obtain s' where s': "mailbox_push demo_ctx (demo_moment 1000) demo_q demo_req demo_turso = (s', Inr 5)"
    using demo_push by blast
  have e: "expiry (demo_moment 1000) (clamp_ttl (pe_ttl demo_req) (ctx_config demo_ctx)) = 61000"
    by (simp add: expiry_def demo_moment_def clamp_ttl_def demo_req_def demo_config core_config_default_def
        i64_saturating_add_def i64_saturating_mul_def sat64_def I64_MAX_def I64_MIN_def)
  show ?thesis
    using accepted_envelope_kept [OF demo_env demo_inv demo_ctx_mailbox s', of
        "[OpSweep (demo_moment 60999), OpAck (demo_moment 1500) [] 5]" "demo_moment 2000"] s'
    using e by auto
qed

text \<open>
  Queues are isolated: no sequence of pushes and acknowledgements on other queues,
  and no sweep up to the time of the pull, changes what a pull of this queue can return.
\<close>

theorem queue_isolation:
  assumes "turso_env L E view" "turso_inv L view s" "ctx_mailbox ctx = turso_repo L E"
    and "\<forall>op \<in> set ops. elsewhere q t op"
  shows "live_envelopes q t (turso_mails L view (fold (relay_exec ctx) ops s))
    = live_envelopes q t (turso_mails L view s)"
  by (rule turso.run_elsewhere [OF assms])

theorem queue_isolation_witness:
  "live_envelopes demo_q 3000 (turso_mails demo_libs (\<lambda>T. T)
      (fold (relay_exec demo_ctx) [OpPush (demo_moment 1) [] demo_req, OpSweep (demo_moment 3000)] demo_busy))
    = live_envelopes demo_q 3000 (turso_mails demo_libs (\<lambda>T. T) demo_busy)"
  by (rule queue_isolation [OF demo_env demo_busy_inv demo_ctx_mailbox])
    simp

text \<open>
  Acknowledging answers whether the envelope was waiting, records one receipt
  exactly in that case and takes the envelope out of every later pull; a second
  acknowledgement never answers yes and records nothing.
\<close>

theorem acknowledged_once:
  assumes env: "turso_env L E view" and inv: "turso_inv L view s" and mb: "ctx_mailbox ctx = turso_repo L E"
    and ack: "mailbox_ack ctx mo q i s = (s1, Inr b)" and again: "mailbox_ack ctx mo' q i s1 = (s2, r)"
  shows "(b \<longleftrightarrow> (\<exists>m \<in> set (turso_mails L view s). pending q i m))
    \<and> turso_receipts L view s1 = turso_receipts L view s @ (if b then [(q, i, now_ms mo)] else [])
    \<and> i \<notin> se_id ` set (live_envelopes q t (turso_mails L view s1))
    \<and> r \<noteq> Inr True \<and> turso_receipts L view s2 = turso_receipts L view s1"
proof -
  note first = turso.mailbox_ack_cases [OF env inv mb ack]
  then have s1: "turso_inv L view s1" "turso_mails L view s1 = deliver q i (now_ms mo) (turso_mails L view s)"
    by simp_all
  have "\<not> (\<exists>m \<in> set (turso_mails L view s1). pending q i m)"
    using not_pending_deliver s1(2) by metis
  with turso.mailbox_ack_cases [OF env s1(1) mb again]
  have "r \<noteq> Inr True \<and> turso_receipts L view s2 = turso_receipts L view s1"
    by (auto split: sum.splits)
  moreover have "i \<notin> se_id ` set (live_envelopes q t (turso_mails L view s1))"
    by (auto simp: s1(2) live_envelopes_deliver)
  ultimately show ?thesis using first by simp
qed

lemma demo_busy_pending: "\<exists>m \<in> set (turso_mails demo_libs (\<lambda>T. T) demo_busy). pending demo_q 1 m"
  by (simp add: demo_busy_mails pending_def)

lemma demo_ack: "turso_inv demo_libs (\<lambda>T. T) s \<Longrightarrow>
    \<exists>s1 b. mailbox_ack demo_ctx mo q i s = (s1, Inr b) \<and> turso_inv demo_libs (\<lambda>T. T) s1"
  using turso_avail.ack_up [OF demo_up, of s q i "now_ms mo"]
    turso.mailbox_ack_cases [OF demo_env _ demo_ctx_mailbox, of s mo q i]
  by (cases "mailbox_ack demo_ctx mo q i s") (auto simp: mailbox_ack_def is_ok_iff)

theorem acknowledged_once_witness:
  "\<exists>s1 s2. mailbox_ack demo_ctx (demo_moment 3000) demo_q 1 demo_busy = (s1, Inr True)
    \<and> mailbox_ack demo_ctx (demo_moment 4000) demo_q 1 s1 = (s2, Inr False)
    \<and> turso_receipts demo_libs (\<lambda>T. T) s2 = [(demo_q, 1, 3000)]"
proof -
  obtain s1 b where a1: "mailbox_ack demo_ctx (demo_moment 3000) demo_q 1 demo_busy = (s1, Inr b)"
      and inv1: "turso_inv demo_libs (\<lambda>T. T) s1"
    using demo_ack [OF demo_busy_inv] by blast
  obtain s2 b2 where a2: "mailbox_ack demo_ctx (demo_moment 4000) demo_q 1 s1 = (s2, Inr b2)"
    using demo_ack [OF inv1] by blast
  have "turso_receipts demo_libs (\<lambda>T. T) demo_busy = []"
    by (simp add: turso_receipts_def demo_busy_def turso_new_def)
  then show ?thesis
    using acknowledged_once [OF demo_env demo_busy_inv demo_ctx_mailbox a1 a2] demo_busy_pending a1 a2 by auto
qed

text \<open>
  C18. The relay over the SQL adapter implements the abstract mailbox: every sequence of
  pushes, pulls, acknowledgements and sweeps in which no acknowledgement names an envelope
  that has expired and still waits for the sweep, whatever statements of the database fail,
  gives replies and a final state that a run of the abstract mailbox gives, and keeps the
  invariant of the store. (The excluded acknowledgements are \<open>expired_ack_accepted\<close> below.)
\<close>

theorem relay_refines_mailbox:
  assumes "turso_env L E view" "turso_inv L view s" "ctx_mailbox ctx = turso_repo L E"
    and "timely (turso_mails L view) ctx rqs s" "serve_all ctx rqs s = Some (s', as)"
  shows "turso_inv L view s' \<and> spec_run (ctx_config ctx) rqs (turso_mails L view s, turso_receipts L view s) as
    (turso_mails L view s', turso_receipts L view s')"
  by (rule turso.serve_all_refines [OF assms])

theorem relay_refines_mailbox_witness:
  "\<exists>s'. serve_all demo_ctx [ReqAck (demo_moment 3000) demo_q 1] demo_busy = Some (s', [Acked True])
    \<and> spec_run core_config_default [ReqAck (demo_moment 3000) demo_q 1]
        (turso_mails demo_libs (\<lambda>T. T) demo_busy, []) [Acked True]
        (turso_mails demo_libs (\<lambda>T. T) s', turso_receipts demo_libs (\<lambda>T. T) s')"
proof -
  obtain s1 b where ack: "mailbox_ack demo_ctx (demo_moment 3000) demo_q 1 demo_busy = (s1, Inr b)"
    using demo_ack [OF demo_busy_inv] by blast
  with turso.mailbox_ack_cases [OF demo_env demo_busy_inv demo_ctx_mailbox this] demo_busy_pending have b: "b" by simp
  with ack have run: "serve_all demo_ctx [ReqAck (demo_moment 3000) demo_q 1] demo_busy = Some (s1, [Acked True])"
    by (simp add: reply_of_def)
  have time: "timely (turso_mails demo_libs (\<lambda>T. T)) demo_ctx [ReqAck (demo_moment 3000) demo_q 1] demo_busy"
    by (simp add: demo_busy_mails pending_def split: option.split prod.split)
  have "turso_receipts demo_libs (\<lambda>T. T) demo_busy = []"
    by (simp add: turso_receipts_def demo_busy_def turso_new_def)
  with relay_refines_mailbox [OF demo_env demo_busy_inv demo_ctx_mailbox time run] run show ?thesis
    by (auto simp: demo_config)
qed

section \<open>Limits\<close>

text \<open>
  Sweeping removes exactly the expired envelopes, counts them, touches no receipt,
  and does not change what any pull at that time or later returns.
\<close>

theorem sweep_exact:
  assumes "turso_env L E view" "turso_inv L view s" "ctx_mailbox ctx = turso_repo L E"
    and "mailbox_sweep ctx mo s = (s', Inr n)"
  shows "turso_mails L view s' = filter (\<lambda>m. now_ms mo < se_expires_at (mail_envelope m)) (turso_mails L view s)
    \<and> n = length (filter (\<lambda>m. se_expires_at (mail_envelope m) \<le> now_ms mo) (turso_mails L view s))
    \<and> turso_receipts L view s' = turso_receipts L view s
    \<and> (\<forall>q t. now_ms mo \<le> t \<longrightarrow>
        live_envelopes q t (turso_mails L view s') = live_envelopes q t (turso_mails L view s))"
proof -
  let ?ms = "turso_mails L view s"
  from turso.mailbox_sweep_cases [OF assms] have s': "turso_mails L view s' = unexpired (now_ms mo) ?ms"
      "n + length (turso_mails L view s') = length ?ms" "turso_receipts L view s' = turso_receipts L view s"
    by auto
  moreover have "length (filter (\<lambda>m. se_expires_at (mail_envelope m) \<le> now_ms mo) ?ms)
      + length (unexpired (now_ms mo) ?ms) = length ?ms"
    using sum_length_filter_compl [of "\<lambda>m. se_expires_at (mail_envelope m) \<le> now_ms mo" ?ms]
    by (simp add: unexpired_def not_le)
  ultimately show ?thesis by (auto simp: unexpired_def live_envelopes_unexpired [unfolded unexpired_def])
qed

theorem sweep_exact_witness:
  "\<exists>s' n. mailbox_sweep demo_ctx (demo_moment 61000) demo_busy = (s', Inr n) \<and> n = 1"
proof -
  obtain s' r where sweep: "mailbox_sweep demo_ctx (demo_moment 61000) demo_busy = (s', r)"
    by (cases "mailbox_sweep demo_ctx (demo_moment 61000) demo_busy")
  moreover have "is_ok r"
    using turso_avail.expire_up [OF demo_up demo_busy_inv, of 61000] sweep by (simp add: mailbox_sweep_def)
  ultimately obtain n where n: "mailbox_sweep demo_ctx (demo_moment 61000) demo_busy = (s', Inr n)"
    by (auto simp: is_ok_iff)
  from sweep_exact [OF demo_env demo_busy_inv demo_ctx_mailbox this] have "n = 1"
    by (simp add: demo_busy_mails)
  with n show ?thesis by blast
qed

text \<open>A database that answers and has room takes a valid push.\<close>

lemma accepted_when_up:
  assumes "turso_up L E view" "turso_inv L view s" "ctx_mailbox ctx = turso_repo L E"
    and "pe_payload req \<noteq> []" "length (pe_payload req) \<le> max_payload_bytes (ctx_config ctx)"
    and "turso_room view s" "(q, fresh_uuid mo) \<notin> mail_key ` set (turso_mails L view s)"
    and push: "mailbox_push ctx mo q req s = (s', r)"
  shows "r = Inr (fresh_uuid mo)"
proof -
  have "turso_push L E mo q \<lparr>ne_payload = pe_payload req, ne_ttl = clamp_ttl (pe_ttl req) (ctx_config ctx)\<rparr> s = (s', r)"
    using push assms(3-5) by (simp add: mailbox_push_def turso_repo_def)
  then obtain i where "r = Inr i"
    using turso_push_up [OF assms(1,2,6,7), of "\<lparr>ne_payload = pe_payload req, ne_ttl = clamp_ttl (pe_ttl req) (ctx_config ctx)\<rparr>"]
    by (auto simp: is_ok_iff)
  then show ?thesis using turso.mailbox_push_cases [OF turso_up_env [OF assms(1)] assms(2,3) push] by simp
qed



text \<open>
  A pull returns at most \<open>max_pull_limit\<close> envelopes whatever limit is asked for, and
  it panics exactly when the configured maximum is below one.
\<close>

theorem pull_bounded:
  assumes "turso_env L E view" "turso_inv L view s" "ctx_mailbox ctx = turso_repo L E"
  shows "(mailbox_pull ctx mo q limit s = None \<longleftrightarrow> max_pull_limit (ctx_config ctx) < 1)
    \<and> (\<forall>es. mailbox_pull ctx mo q limit s = Some (Inr es) \<longrightarrow>
        int (length es) \<le> max_pull_limit (ctx_config ctx)
        \<and> set es \<subseteq> set (live_envelopes q (now_ms mo) (turso_mails L view s)))"
proof -
  have none: "mailbox_pull ctx mo q limit s = None \<longleftrightarrow> max_pull_limit (ctx_config ctx) < 1"
    by (auto simp: mailbox_pull_def i64_clamp_def)
  moreover have "int (length es) \<le> max_pull_limit (ctx_config ctx)
      \<and> set es \<subseteq> set (live_envelopes q (now_ms mo) (turso_mails L view s))"
    if "mailbox_pull ctx mo q limit s = Some (Inr es)" for es
  proof -
    have "1 \<le> max_pull_limit (ctx_config ctx)" using that none by force
    then show ?thesis
      using turso.mailbox_pull_ok [OF assms that] by (auto dest: in_set_takeD)
  qed
  ultimately show ?thesis by blast
qed

theorem pull_bounded_witness:
  "mailbox_pull (demo_ctx\<lparr>ctx_config := core_config_default\<lparr>max_pull_limit := 0\<rparr>\<rparr>) (demo_moment 1) demo_q 10 demo_busy = None"
  using pull_bounded [OF demo_env demo_busy_inv, of "demo_ctx\<lparr>ctx_config := core_config_default\<lparr>max_pull_limit := 0\<rparr>\<rparr>"]
  by simp

section \<open>Handlers\<close>

text \<open>A push the handler has to accept: the identifier parses and the payload is within its limits.\<close>

definition push_valid :: "libs \<Rightarrow> core_config \<Rightarrow> string \<Rightarrow> push_envelope \<Rightarrow> bool" where
  "push_valid L cfg queue_hex body \<longleftrightarrow> is_ok (queue_id_from_str L queue_hex) \<and> pe_payload body \<noteq> []
     \<and> length (pe_payload body) \<le> max_payload_bytes cfg"

lemma turso_push_error: "turso_push L E mo q e s = (s', Inl err) \<Longrightarrow> \<exists>why. err = Repo why"
  by (auto simp: turso_push_def turso_insert_def turso_execute_def Let_def
      elim!: then_do_cases split: prod.splits; auto simp: map_err_def split: sum.splits)

text \<open>
  C37. Every answer of the push handler. When the queue identifier does not parse, or the
  payload is empty or over the limit, the answer is 400 and the state is unchanged. When all
  of them are valid, the answer is either 200 with the identifier, and the envelope has been
  appended to the named queue, or 500 with a fixed text that carries nothing of the failure
  inside, and nothing has been appended; it is 200 whenever the database answers, has a row
  identifier left and the drawn envelope identifier is new to the store.
\<close>

theorem push_handler_answers:
  assumes "turso_env L E view" "turso_inv L view s" "ctx_mailbox (app_ctx st) = turso_repo L E"
    and "handle_push L st mo queue_hex body s = (s', resp)"
  shows "(\<not> push_valid L (ctx_config (app_ctx st)) queue_hex body \<longrightarrow> s' = s \<and> (\<exists>why. resp = ErrorJson 400 why))
    \<and> (push_valid L (ctx_config (app_ctx st)) queue_hex body \<longrightarrow>
        (\<exists>q. queue_id_from_str L queue_hex = Inr q \<and> resp = EnvelopeAccepted (fresh_uuid mo)
          \<and> turso_mails L view s' = turso_mails L view s @ [new_mail mo q
              \<lparr>ne_payload = pe_payload body, ne_ttl = clamp_ttl (pe_ttl body) (ctx_config (app_ctx st))\<rparr>])
        \<or> resp = ErrorJson 500 ''internal error'' \<and> turso_mails L view s' = turso_mails L view s)
    \<and> (push_valid L (ctx_config (app_ctx st)) queue_hex body \<and> turso_up L E view \<and> turso_room view s
        \<and> (\<forall>q. (q, fresh_uuid mo) \<notin> mail_key ` set (turso_mails L view s)) \<longrightarrow>
        resp = EnvelopeAccepted (fresh_uuid mo))"
proof (cases "queue_id_from_str L queue_hex")
  case (Inl e)
  then show ?thesis using assms(4) by (auto simp: handle_push_def respond_with_def push_valid_def)
next
  case (Inr q)
  obtain s1 r where push: "mailbox_push (app_ctx st) mo q body s = (s1, r)"
    by (cases "mailbox_push (app_ctx st) mo q body s")
  have resp: "s' = s1" "resp = respond_with EnvelopeAccepted r"
    using assms(4) Inr push by (simp_all add: handle_push_def)
  show ?thesis
  proof (cases "push_valid L (ctx_config (app_ctx st)) queue_hex body")
    case False
    then show ?thesis using push resp Inr by (auto simp: push_valid_def mailbox_push_def respond_with_def split: if_splits)
  next
    case True
    then have run: "turso_push L E mo q \<lparr>ne_payload = pe_payload body, ne_ttl = clamp_ttl (pe_ttl body) (ctx_config (app_ctx st))\<rparr> s = (s1, r)"
      using push assms(3) by (simp add: push_valid_def mailbox_push_def turso_repo_def)
    note law = turso.mailbox_push_cases [OF assms(1-3) push]
    have up: "r = Inr (fresh_uuid mo)"
      if "turso_up L E view" "turso_room view s" "\<forall>q. (q, fresh_uuid mo) \<notin> mail_key ` set (turso_mails L view s)"
      using accepted_when_up [OF that(1) assms(2,3) _ _ that(2) _ push] that(3) True by (simp add: push_valid_def)
    show ?thesis
    proof (cases r)
      case (Inl e)
      then obtain why where "e = Repo why" using turso_push_error run by blast
      then show ?thesis using law True resp Inl up by (auto simp: respond_with_def)
    qed (use law True resp Inr in \<open>simp add: respond_with_def\<close>)
  qed
qed

lemma demo_room: "turso_room (\<lambda>T. T) demo_turso" "turso_mails demo_libs (\<lambda>T. T) demo_turso = []"
  by (simp_all add: turso_room_def turso_mails_def demo_turso_def turso_new_def empty_tables_def next_rowid_def I64_MAX_def)

theorem push_handler_answers_witness:
  "(\<exists>why. handle_push demo_libs \<lparr>app_ctx = demo_ctx, app_max_wait = 30\<rparr> (demo_moment 1000) ''zz'' \<lparr>pe_payload = [], pe_ttl = 1\<rparr> demo_turso
     = (demo_turso, ErrorJson 400 why))
   \<and> (\<exists>s' resp. handle_push demo_libs \<lparr>app_ctx = demo_ctx, app_max_wait = 30\<rparr> (demo_moment 1000)
       (queue_id_display demo_libs demo_q) demo_req demo_turso = (s', resp)
     \<and> resp = EnvelopeAccepted 5)"
proof
  let ?st = "\<lparr>app_ctx = demo_ctx, app_max_wait = 30\<rparr>"
  have mb: "ctx_mailbox (app_ctx ?st) = turso_repo demo_libs ref_engine" by simp
  obtain s' resp where h: "handle_push demo_libs ?st (demo_moment 1000) ''zz'' \<lparr>pe_payload = [], pe_ttl = 1\<rparr> demo_turso = (s', resp)" by fastforce
  have "\<not> push_valid demo_libs (ctx_config (app_ctx ?st)) ''zz'' \<lparr>pe_payload = [], pe_ttl = 1\<rparr>"
    by (simp add: push_valid_def)
  then show "\<exists>why. handle_push demo_libs ?st (demo_moment 1000) ''zz'' \<lparr>pe_payload = [], pe_ttl = 1\<rparr> demo_turso = (demo_turso, ErrorJson 400 why)"
    using push_handler_answers [OF demo_env demo_inv mb h] h by auto
  obtain s' resp where h: "handle_push demo_libs ?st (demo_moment 1000) (queue_id_display demo_libs demo_q) demo_req demo_turso = (s', resp)"
    by fastforce
  have "push_valid demo_libs (ctx_config (app_ctx ?st)) (queue_id_display demo_libs demo_q) demo_req"
    using demo_libs_laws from_str_display [of demo_libs demo_q]
    by (simp add: push_valid_def libs_laws_def queue_id_ok_def queue_id_len_def demo_config core_config_default_def)
      (simp add: demo_q_def)
  then show "\<exists>s' resp. handle_push demo_libs ?st (demo_moment 1000) (queue_id_display demo_libs demo_q) demo_req demo_turso = (s', resp)
     \<and> resp = EnvelopeAccepted 5"
    using push_handler_answers [OF demo_env demo_inv mb h] h demo_up demo_room by simp
qed

section \<open>Waiting pulls\<close>

text \<open>
  C35. Whatever happens while a pull waits, its answer is what its own last query saw: the batch
  of live envelopes of the queue, oldest first, at the moment of that query and in the
  state the run was in then, and no query follows it. An empty answer is given only after a
  wake-up, or to a client that did not ask to wait, or when the time the client asked for, up
  to the node's maximum, has passed since the wait began.
\<close>

theorem poll_answer_sound:
  assumes "turso_env L E view" "ctx_mailbox (app_ctx st) = turso_repo L E" "turso_inv L view s0"
    and "poll_trace L E st params q (PollStart, s0) evs (PollDone (Inr es), s)"
  shows "\<exists>evs1 pull mo evs2 ph s1. evs = evs1 @ pull # evs2 \<and> pull \<in> {First mo, Again mo}
    \<and> (\<forall>mo'. First mo' \<notin> set evs2 \<and> Again mo' \<notin> set evs2)
    \<and> poll_trace L E st params q (PollStart, s0) evs1 (ph, s1)
    \<and> poll_trace L E st params q (ph, s1) (pull # evs2) (PollDone (Inr es), s)
    \<and> es = take (batch (app_ctx st) (pull_limit st params)) (live_envelopes q (now_ms mo) (turso_mails L view s1))
    \<and> (es = [] \<longrightarrow> pull = Again mo \<or> pp_wait params \<in> {None, Some 0}
        \<or> (\<exists>w mo1 mo2. pp_wait params = Some w \<and> Subscribe mo1 \<in> set evs \<and> Expire mo2 \<in> set evs
            \<and> now_ms mo1 + 1000 * int (min w (app_max_wait st)) \<le> now_ms mo2))"
proof -
  from poll_inv_trace [OF assms(4,1-3)] obtain pull where
      last: "last_pull L E view st params q s0 evs (PollDone (Inr es), s) pull es"
      and empty: "es = [] \<longrightarrow> (\<exists>mo. pull = Again mo) \<or> pp_wait params \<in> {None, Some 0} \<or> waited_enough st params evs"
    by (auto simp: poll_inv_def)
  from last obtain evs1 evs2 mo ph s1 where split: "evs = evs1 @ pull # evs2" "pulls pull = Some mo" "\<forall>ev \<in> set evs2. pulls ev = None"
      "poll_trace L E st params q (PollStart, s0) evs1 (ph, s1)"
      "poll_trace L E st params q (ph, s1) (pull # evs2) (PollDone (Inr es), s)"
      "es = take (batch (app_ctx st) (pull_limit st params)) (live_envelopes q (now_ms mo) (turso_mails L view s1))"
    unfolding last_pull_def by blast
  have none: "First mo' \<notin> set evs2 \<and> Again mo' \<notin> set evs2" for mo' using split(3) by fastforce
  have pull: "pull \<in> {First mo, Again mo}" "(\<exists>mo. pull = Again mo) \<longrightarrow> pull = Again mo"
    using split(2) by (cases pull; simp)+
  show ?thesis
    using split(1,4-6) none pull empty unfolding waited_enough_def
    by (intro exI [of _ evs1] exI [of _ pull] exI [of _ mo] exI [of _ evs2] exI [of _ ph] exI [of _ s1] conjI) blast+
qed

definition demo_app :: "tables turso app_state" where
  "demo_app = \<lparr>app_ctx = demo_ctx, app_max_wait = 30\<rparr>"

definition demo_params :: pull_params where
  "demo_params = \<lparr>pp_limit = None, pp_wait = Some 30\<rparr>"

lemma demo_app_mailbox [simp]: "ctx_mailbox (app_ctx demo_app) = turso_repo demo_libs ref_engine"
  by (simp add: demo_app_def)

lemma demo_pull:
  assumes "turso_inv demo_libs (\<lambda>T. T) s" "dates_ok (turso_mails demo_libs (\<lambda>T. T) s)"
  shows "mailbox_pull demo_ctx mo q 100 s
    = Some (Inr (take 100 (live_envelopes q (now_ms mo) (turso_mails demo_libs (\<lambda>T. T) s))))"
proof -
  have "is_ok (mb_pull (turso_repo demo_libs ref_engine) mo q 100 s)"
    by (rule turso_avail.pull_up [OF demo_up assms]) simp
  then obtain es where "mailbox_pull demo_ctx mo q 100 s = Some (Inr es)"
    by (auto simp: mailbox_pull_def i64_clamp_def demo_config core_config_default_def is_ok_iff)
  with turso.mailbox_pull_ok [OF demo_env assms(1) demo_ctx_mailbox this] show ?thesis
    by (simp add: demo_config core_config_default_def)
qed

lemma demo_limit: "pull_limit demo_app demo_params = 100"
  by (simp add: pull_limit_def demo_params_def demo_app_def demo_config core_config_default_def)

lemma demo_first:
  "poll_step demo_libs ref_engine demo_app demo_params demo_q (PollStart, demo_busy) (First (demo_moment 3000))
     (PollDone (Inr (live_envelopes demo_q 3000 (turso_mails demo_libs (\<lambda>T. T) demo_busy))), demo_busy)"
proof -
  have "mailbox_pull demo_ctx (demo_moment 3000) demo_q 100 demo_busy
      = Some (Inr (live_envelopes demo_q 3000 (turso_mails demo_libs (\<lambda>T. T) demo_busy)))"
    using demo_pull [OF demo_busy_inv, of "demo_moment 3000" demo_q]
    by (simp add: dates_ok_def LAST_MS_def demo_busy_live) (simp add: demo_busy_mails)
  then have "poll_first demo_app demo_params (demo_moment 3000) demo_q demo_busy
      = PollDone (Inr (live_envelopes demo_q 3000 (turso_mails demo_libs (\<lambda>T. T) demo_busy)))"
    by (simp add: poll_first_def demo_limit demo_busy_live) (simp add: demo_app_def)
  then show ?thesis
    using poll_step.first [of demo_libs ref_engine demo_app demo_params demo_q demo_busy "demo_moment 3000"] by simp
qed

theorem poll_answer_sound_witness:
  "\<exists>evs1 pull mo evs2 ph s1. [First (demo_moment 3000)] = evs1 @ pull # evs2 \<and> pull \<in> {First mo, Again mo}
    \<and> poll_trace demo_libs ref_engine demo_app demo_params demo_q (PollStart, demo_busy) evs1 (ph, s1)
    \<and> live_envelopes demo_q 3000 (turso_mails demo_libs (\<lambda>T. T) demo_busy)
      = take (batch (app_ctx demo_app) (pull_limit demo_app demo_params)) (live_envelopes demo_q (now_ms mo) (turso_mails demo_libs (\<lambda>T. T) s1))"
proof -
  have "poll_trace demo_libs ref_engine demo_app demo_params demo_q (PollStart, demo_busy) [First (demo_moment 3000)]
     (PollDone (Inr (live_envelopes demo_q 3000 (turso_mails demo_libs (\<lambda>T. T) demo_busy))), demo_busy)"
    using poll_trace.extend [OF poll_trace.start demo_first] by simp
  from poll_answer_sound [OF demo_env demo_app_mailbox demo_busy_inv this] show ?thesis by blast
qed

text \<open>
  C36. An arrival during the wait is never missed. A push is two steps, its \<open>INSERT\<close> and the
  wake-up, with anything in between; once the wake-up has come while the handler waits, the handler
  stays able to notice it and cannot time out any more, and every answer it gives is that of
  a query it makes afterwards in the same run. That answer holds the new envelope, as
  it was accepted, unless a step of the run between the \<open>INSERT\<close> and the query removed it, it
  had expired at the query, or there were more live envelopes than a batch holds.
\<close>

theorem poll_wakes:
  assumes env: "turso_env L E view" and mb: "ctx_mailbox (app_ctx st) = turso_repo L E" and inv: "turso_inv L view s0"
    and before: "poll_trace L E st params q (PollStart, s0) evs0 (ph, s1)"
    and insert: "mailbox_push (insert_ctx L E (app_ctx st)) mo q req s1 = (s1', Inr i)"
    and wait: "poll_trace L E st params q (ph, s1') evs1 (PollWaiting ticket deadline, s2)"
    and run: "poll_trace L E st params q (PollWaiting ticket deadline, notify_waiters q s2) evs2 (ph3, s3)"
  shows "(\<forall>t d. ph3 = PollWaiting t d \<longrightarrow> poll_step L E st params q (ph3, s3) Wake (PollWoken, s3)
        \<and> (\<forall>mo' c. \<not> poll_step L E st params q (ph3, s3) (Expire mo') c))
    \<and> (\<forall>r. ph3 = PollDone r \<longrightarrow> (\<exists>evs3 mo1 evs4 s4. evs2 = evs3 @ Again mo1 # evs4
        \<and> poll_trace L E st params q (PollWaiting ticket deadline, notify_waiters q s2) evs3 (PollWoken, s4)
        \<and> mailbox_pull (app_ctx st) mo1 q (pull_limit st params) s4 = Some r
        \<and> (\<forall>es. r = Inr es
            \<and> (\<forall>op. Other op \<in> set (evs1 @ evs3) \<longrightarrow>
                \<not> step_removes q i (expiry mo (clamp_ttl (pe_ttl req) (ctx_config (app_ctx st)))) op)
            \<and> now_ms mo1 < expiry mo (clamp_ttl (pe_ttl req) (ctx_config (app_ctx st)))
            \<and> length (live_envelopes q (now_ms mo1) (turso_mails L view s4)) \<le> batch (app_ctx st) (pull_limit st params)
          \<longrightarrow> \<lparr>se_id = i, se_payload = pe_payload req, se_received_at = now_ms mo,
                se_expires_at = expiry mo (clamp_ttl (pe_ttl req) (ctx_config (app_ctx st)))\<rparr> \<in> set es)))"
    (is "?woken \<and> ?answer")
proof -
  let ?c0 = "(PollWaiting ticket deadline, notify_waiters q s2)"
  let ?m = "new_mail mo q \<lparr>ne_payload = pe_payload req, ne_ttl = clamp_ttl (pe_ttl req) (ctx_config (app_ctx st))\<rparr>"
  have s1: "turso_inv L view s1" using poll_trace_inv [OF before env] inv by simp
  have s1': "turso_inv L view s1'" "?m \<in> set (turso_mails L view s1')" "i = fresh_uuid mo"
    using insert_cases [OF env s1 insert] by simp_all
  have s2: "turso_inv L view s2" using poll_trace_inv [OF wait env] s1'(1) by simp
  have "ticket_ok q (ph, s1')"
    using ticket_ok_trace [OF before] insert_wakeups [OF insert, of q] by (cases ph) (simp_all add: ticket_ok_def)
  then have "ticket \<le> wakeups q s2" using ticket_ok_trace [OF wait] by (simp add: ticket_ok_def)
  then have "roused L E st params q ticket ?c0 [] ?c0" by (simp add: roused_def wakeups_notify)
  from roused_trace [OF run this] have roused: "roused L E st params q ticket ?c0 evs2 (ph3, s3)" .
  have ?woken using roused by (auto simp: roused_def notified_iff intro: poll_step.wake elim: poll_step.cases)
  moreover have ?answer
  proof (intro allI impI)
    fix r
    assume "ph3 = PollDone r"
    with roused obtain evs3 mo1 evs4 s4 where again: "evs2 = evs3 @ Again mo1 # evs4"
        "poll_trace L E st params q ?c0 evs3 (PollWoken, s4)"
        "mailbox_pull (app_ctx st) mo1 q (pull_limit st params) s4 = Some r"
      by (auto simp: roused_def)
    have s4: "turso_inv L view s4" using poll_trace_inv [OF again(2) env] s2 by simp
    have "\<lparr>se_id = i, se_payload = pe_payload req, se_received_at = now_ms mo,
        se_expires_at = expiry mo (clamp_ttl (pe_ttl req) (ctx_config (app_ctx st)))\<rparr> \<in> set es"
      if es: "r = Inr es" "\<forall>op. Other op \<in> set (evs1 @ evs3) \<longrightarrow>
            \<not> step_removes q i (expiry mo (clamp_ttl (pe_ttl req) (ctx_config (app_ctx st)))) op"
          "now_ms mo1 < expiry mo (clamp_ttl (pe_ttl req) (ctx_config (app_ctx st)))"
          "length (live_envelopes q (now_ms mo1) (turso_mails L view s4)) \<le> batch (app_ctx st) (pull_limit st params)" for es
    proof -
      have m: "pending q i ?m" "se_expires_at (mail_envelope ?m) = expiry mo (clamp_ttl (pe_ttl req) (ctx_config (app_ctx st)))"
          "live q (now_ms mo1) ?m"
        using es(3) s1'(3) by (simp_all add: pending_def new_mail_def live_def)
      have "?m \<in> set (turso_mails L view s2)"
        using poll_trace_keeps [OF wait env _ _ m(1)] s1' es(2) m(2) by simp
      then have "?m \<in> set (turso_mails L view s4)"
        using poll_trace_keeps [OF again(2) env _ _ m(1)] s2 es(2) m(2) by simp
      then have "mail_envelope ?m \<in> set (live_envelopes q (now_ms mo1) (turso_mails L view s4))"
        using m(3) by (auto simp: set_live_envelopes)
      moreover have "es = live_envelopes q (now_ms mo1) (turso_mails L view s4)"
        using turso.mailbox_pull_ok [OF env s4 mb, of mo1 q "pull_limit st params" es] again(3) es(1,4) by (simp add: batch_def)
      ultimately show ?thesis using s1'(3) by (simp add: new_mail_def)
    qed
    with again show "\<exists>evs3 mo1 evs4 s4. evs2 = evs3 @ Again mo1 # evs4
        \<and> poll_trace L E st params q ?c0 evs3 (PollWoken, s4)
        \<and> mailbox_pull (app_ctx st) mo1 q (pull_limit st params) s4 = Some r
        \<and> (\<forall>es. r = Inr es
            \<and> (\<forall>op. Other op \<in> set (evs1 @ evs3) \<longrightarrow>
                \<not> step_removes q i (expiry mo (clamp_ttl (pe_ttl req) (ctx_config (app_ctx st)))) op)
            \<and> now_ms mo1 < expiry mo (clamp_ttl (pe_ttl req) (ctx_config (app_ctx st)))
            \<and> length (live_envelopes q (now_ms mo1) (turso_mails L view s4)) \<le> batch (app_ctx st) (pull_limit st params)
          \<longrightarrow> \<lparr>se_id = i, se_payload = pe_payload req, se_received_at = now_ms mo,
                se_expires_at = expiry mo (clamp_ttl (pe_ttl req) (ctx_config (app_ctx st)))\<rparr> \<in> set es)"
      by blast
  qed
  ultimately show ?thesis ..
qed

text \<open>A waiting handler on an empty queue, woken by a push.\<close>

lemma demo_empty_first:
  "poll_step demo_libs ref_engine demo_app demo_params demo_q (PollStart, demo_turso) (First (demo_moment 0)) (PollEmpty 30, demo_turso)"
proof -
  have "turso_mails demo_libs (\<lambda>T. T) demo_turso = []"
    by (simp add: turso_mails_def demo_turso_def turso_new_def empty_tables_def)
  then have "mailbox_pull demo_ctx (demo_moment 0) demo_q 100 demo_turso = Some (Inr [])"
    using demo_pull [OF demo_inv, of "demo_moment 0" demo_q] by (simp add: live_envelopes_def dates_ok_def)
  then have "poll_first demo_app demo_params (demo_moment 0) demo_q demo_turso = PollEmpty 30"
    by (simp add: poll_first_def demo_limit) (simp add: demo_app_def demo_params_def)
  then show ?thesis
    using poll_step.first [of demo_libs ref_engine demo_app demo_params demo_q demo_turso "demo_moment 0"] by simp
qed

lemma demo_subscribe:
  "poll_step demo_libs ref_engine demo_app demo_params demo_q (PollEmpty 30, s) (Subscribe (demo_moment 1000))
     (PollWaiting (wakeups demo_q s) 31000, fst (notifier demo_q s))"
  using poll_step.subscribe [of demo_libs ref_engine demo_app demo_params demo_q 30 s "demo_moment 1000"]
  by (simp add: poll_subscribe_eq)

lemma demo_insert:
  assumes "t_envelopes (tm_db s) = []"
  shows "\<exists>s'. mailbox_push (insert_ctx demo_libs ref_engine demo_ctx) (demo_moment t) demo_q demo_req s = (s', Inr 5)"
proof -
  have "insert_envelope q ident p a b [] = Inr [\<lparr>er_id = 1, er_queue_id = q, er_envelope_id = ident,
      er_payload = p, er_received_at = a, er_expires_at = b, er_delivered_at = None\<rparr>]" for q ident p a b
    by (simp add: insert_envelope_def next_rowid_def I64_MAX_def)
  then show ?thesis
    using assms by (simp add: mailbox_push_def demo_config core_config_default_def turso_repo_def
        turso_insert_def turso_execute_def ref_engine_def Let_def)
qed

lemma demo_expiry: "expiry (demo_moment 1000) (clamp_ttl 60 (ctx_config demo_ctx)) = 61000"
  by (simp add: expiry_def clamp_ttl_def demo_config core_config_default_def
      i64_saturating_add_def i64_saturating_mul_def sat64_def I64_MAX_def I64_MIN_def)

theorem poll_wakes_witness:
  "\<exists>s1 es. mailbox_push (insert_ctx demo_libs ref_engine demo_ctx) (demo_moment 1000) demo_q demo_req (fst (notifier demo_q demo_turso)) = (s1, Inr 5)
    \<and> poll_trace demo_libs ref_engine demo_app demo_params demo_q (PollWaiting 0 31000, notify_waiters demo_q s1)
        [Wake, Again (demo_moment 2000)] (PollDone (Inr es), notify_waiters demo_q s1)
    \<and> \<lparr>se_id = 5, se_payload = [9], se_received_at = 1000, se_expires_at = 61000\<rparr> \<in> set es"
proof -
  let ?s = "fst (notifier demo_q demo_turso)" and ?run = "poll_trace demo_libs ref_engine demo_app demo_params demo_q"
  have s: "t_envelopes (tm_db ?s) = []" "turso_mails demo_libs (\<lambda>T. T) ?s = []" "turso_inv demo_libs (\<lambda>T. T) ?s"
    using demo_inv by (simp_all add: turso_mails_def turso_inv_def) (simp_all add: demo_turso_def turso_new_def empty_tables_def)
  obtain s1 where ins: "mailbox_push (insert_ctx demo_libs ref_engine demo_ctx) (demo_moment 1000) demo_q demo_req ?s = (s1, Inr 5)"
    using demo_insert [OF s(1)] by blast
  let ?m = "new_mail (demo_moment 1000) demo_q \<lparr>ne_payload = [9], ne_ttl = clamp_ttl 60 (ctx_config demo_ctx)\<rparr>"
  have s1: "turso_inv demo_libs (\<lambda>T. T) s1" "turso_mails demo_libs (\<lambda>T. T) s1 = [?m]"
    using insert_cases [OF demo_env s(3) ins] s(2) by simp_all
  have w0: "wakeups demo_q ?s = 0" by (simp, simp add: wakeups_def notifier_def demo_turso_def turso_new_def)
  then have w: "wakeups demo_q (notify_waiters demo_q s1) = 1" using insert_wakeups [OF ins, of demo_q] by (simp add: wakeups_notify)
  have "?run (PollStart, demo_turso) [First (demo_moment 0), Subscribe (demo_moment 1000)] (PollWaiting 0 31000, ?s)"
    using poll_trace_Cons [OF demo_empty_first poll_trace_Cons [OF demo_subscribe poll_trace.start]] w0 by simp
  note before = this
  let ?es = "take 100 (live_envelopes demo_q 2000 (turso_mails demo_libs (\<lambda>T. T) s1))"
  have "dates_ok (turso_mails demo_libs (\<lambda>T. T) (notify_waiters demo_q s1))"
    by (simp add: s1(2) dates_ok_def new_mail_def demo_expiry LAST_MS_def)
  then have pull: "mailbox_pull demo_ctx (demo_moment 2000) demo_q 100 (notify_waiters demo_q s1) = Some (Inr ?es)"
    using demo_pull [of "notify_waiters demo_q s1" "demo_moment 2000" demo_q] s1(1) by simp
  then have "poll_again demo_app demo_params (demo_moment 2000) demo_q (notify_waiters demo_q s1) = PollDone (Inr ?es)"
    by (simp add: poll_again_def demo_limit) (simp add: demo_app_def)
  then have again: "poll_step demo_libs ref_engine demo_app demo_params demo_q (PollWoken, notify_waiters demo_q s1)
      (Again (demo_moment 2000)) (PollDone (Inr ?es), notify_waiters demo_q s1)"
    using poll_step.again [of demo_libs ref_engine demo_app demo_params demo_q "notify_waiters demo_q s1" "demo_moment 2000"] by simp
  have wake: "poll_step demo_libs ref_engine demo_app demo_params demo_q (PollWaiting 0 31000, notify_waiters demo_q s1) Wake
      (PollWoken, notify_waiters demo_q s1)" using w by (intro poll_step.wake) (simp add: notified_iff)
  have run: "?run (PollWaiting 0 31000, notify_waiters demo_q s1) [Wake, Again (demo_moment 2000)] (PollDone (Inr ?es), notify_waiters demo_q s1)"
    by (rule poll_trace_Cons [OF wake poll_trace_Cons [OF again poll_trace.start]])
  have ins': "mailbox_push (insert_ctx demo_libs ref_engine (app_ctx demo_app)) (demo_moment 1000) demo_q demo_req ?s = (s1, Inr 5)"
    using ins by (simp add: demo_app_def)
  have e: "expiry (demo_moment 1000) (clamp_ttl (pe_ttl demo_req) (ctx_config (app_ctx demo_app))) = 61000"
    using demo_expiry by (simp add: demo_app_def)
  obtain evs3 mo1 evs4 s4 where split: "[Wake, Again (demo_moment 2000)] = evs3 @ Again mo1 # evs4"
      "?run (PollWaiting 0 31000, notify_waiters demo_q s1) evs3 (PollWoken, s4)"
      and holds: "(\<forall>op. Other op \<in> set ([] @ evs3) \<longrightarrow> \<not> step_removes demo_q 5 61000 op) \<and> now_ms mo1 < 61000
        \<and> length (live_envelopes demo_q (now_ms mo1) (turso_mails demo_libs (\<lambda>T. T) s4)) \<le> batch (app_ctx demo_app) (pull_limit demo_app demo_params) \<longrightarrow>
        \<lparr>se_id = 5, se_payload = pe_payload demo_req, se_received_at = now_ms (demo_moment 1000), se_expires_at = 61000\<rparr> \<in> set ?es"
    using poll_wakes [OF demo_env demo_app_mailbox demo_inv before ins' poll_trace.start run, THEN conjunct2, rule_format, OF refl, unfolded e]
    by blast
  have "evs3 = [Wake]" "mo1 = demo_moment 2000" using split(1) by (cases evs3; auto simp: Cons_eq_append_conv)+
  moreover from split(2) have "turso_mails demo_libs (\<lambda>T. T) s4 = [?m]"
    unfolding \<open>evs3 = [Wake]\<close> using s1(2)
    by (auto elim!: poll_trace.cases [of _ _ _ _ _ _ "[Wake]"] poll_trace.cases [of _ _ _ _ _ _ "[]"] poll_step.cases)
  moreover have "batch (app_ctx demo_app) (pull_limit demo_app demo_params) = 100"
    by (simp add: batch_def demo_limit) (simp add: demo_app_def demo_config core_config_default_def)
  ultimately have "\<lparr>se_id = 5, se_payload = [9], se_received_at = 1000, se_expires_at = 61000\<rparr> \<in> set ?es"
    using holds by (simp add: live_envelopes_def)
  with ins run show ?thesis by blast
qed

section \<open>Where the code differs from its documentation\<close>

text \<open>
  The wait begins only after the first pull has returned: an envelope accepted in
  between wakes nobody, and since a timed-out handler does not look again, the client
  gets an empty answer after the full wait while its envelope has been there all along.
\<close>

theorem poll_can_miss:
  "\<exists>evs s. poll_trace demo_libs ref_engine demo_app demo_params demo_q (PollStart, demo_turso) evs (PollDone (Inr []), s)
    \<and> (\<forall>t < 61000. 5 \<in> se_id ` set (live_envelopes demo_q t (turso_mails demo_libs (\<lambda>T. T) s)))"
proof -
  have "t_envelopes (tm_db demo_turso) = []" by (simp add: demo_turso_def turso_new_def empty_tables_def)
  then obtain s1 where ins: "mailbox_push (insert_ctx demo_libs ref_engine demo_ctx) (demo_moment 1000) demo_q demo_req demo_turso = (s1, Inr 5)"
    using demo_insert by blast
  let ?s1 = "notify_waiters demo_q s1"
  let ?s2 = "fst (notifier demo_q ?s1)"
  have "poll_step demo_libs ref_engine demo_app demo_params demo_q (PollEmpty 30, demo_turso) (Other (Insert (demo_moment 1000) demo_q demo_req)) (PollEmpty 30, s1)"
    using poll_step.other [of demo_libs ref_engine demo_app demo_params demo_q "PollEmpty 30" demo_turso "Insert (demo_moment 1000) demo_q demo_req"] ins
    by (simp add: demo_app_def)
  moreover have "poll_step demo_libs ref_engine demo_app demo_params demo_q (PollEmpty 30, s1) (Other (Notify demo_q)) (PollEmpty 30, ?s1)"
    using poll_step.other [of demo_libs ref_engine demo_app demo_params demo_q "PollEmpty 30" s1 "Notify demo_q"] by simp
  moreover have "poll_step demo_libs ref_engine demo_app demo_params demo_q (PollEmpty 30, ?s1) (Subscribe (demo_moment 1000))
      (PollWaiting (wakeups demo_q ?s1) 31000, ?s2)"
    by (rule demo_subscribe)
  moreover have "poll_step demo_libs ref_engine demo_app demo_params demo_q (PollWaiting (wakeups demo_q ?s1) 31000, ?s2)
      (Expire (demo_moment 31000)) (PollDone (Inr []), ?s2)"
    by (rule poll_step.expired) (simp_all add: notified_iff)
  ultimately have "\<exists>evs. poll_trace demo_libs ref_engine demo_app demo_params demo_q (PollStart, demo_turso) evs (PollDone (Inr []), ?s2)"
    using demo_empty_first by (meson poll_trace_Cons poll_trace.start)
  moreover have "5 \<in> se_id ` set (live_envelopes demo_q t (turso_mails demo_libs (\<lambda>T. T) ?s2))" if "t < 61000" for t
  proof -
    let ?m = "new_mail (demo_moment 1000) demo_q \<lparr>ne_payload = [9], ne_ttl = clamp_ttl 60 (ctx_config demo_ctx)\<rparr>"
    have "turso_mails demo_libs (\<lambda>T. T) ?s2 = turso_mails demo_libs (\<lambda>T. T) s1" by (simp add: turso_mails_def)
    then have "?m \<in> set (turso_mails demo_libs (\<lambda>T. T) ?s2)" using insert_cases [OF demo_env demo_inv ins] by simp
    moreover have "live demo_q t ?m" using that by (simp add: live_def new_mail_def demo_expiry)
    ultimately have "mail_envelope ?m \<in> set (live_envelopes demo_q t (turso_mails demo_libs (\<lambda>T. T) ?s2))"
      unfolding set_live_envelopes by blast
    then have "se_id (mail_envelope ?m) \<in> se_id ` set (live_envelopes demo_q t (turso_mails demo_libs (\<lambda>T. T) ?s2))" by (rule imageI)
    then show ?thesis by (simp add: new_mail_def)
  qed
  ultimately show ?thesis by blast
qed

text \<open>
  Acknowledging does not look at the expiry: an expired envelope that has not been
  swept yet is acknowledged with the answer yes and a receipt, although no pull would
  return it.
\<close>

theorem expired_ack_accepted:
  assumes up: "turso_up L E view" and inv: "turso_inv L view s" and mb: "ctx_mailbox ctx = turso_repo L E"
    and m: "m \<in> set (turso_mails L view s)" "pending q i m" "se_expires_at (mail_envelope m) \<le> now_ms mo"
  shows "i \<notin> se_id ` set (live_envelopes q (now_ms mo) (turso_mails L view s)) \<and>
    (\<exists>s'. mailbox_ack ctx mo q i s = (s', Inr True) \<and>
      turso_receipts L view s' = turso_receipts L view s @ [(q, i, now_ms mo)])"
proof -
  obtain s' r where ack: "mailbox_ack ctx mo q i s = (s', r)" by (cases "mailbox_ack ctx mo q i s")
  with turso_avail.ack_up [OF up inv, of q i "now_ms mo"] mb obtain b where "r = Inr b"
    by (auto simp: mailbox_ack_def is_ok_iff)
  with turso.mailbox_ack_cases [OF turso_up_env [OF up] inv mb ack] m(1,2)
  have "b \<and> turso_receipts L view s' = turso_receipts L view s @ [(q, i, now_ms mo)]" by auto
  moreover have "i \<notin> se_id ` set (live_envelopes q (now_ms mo) (turso_mails L view s))"
  proof
    assume "i \<in> se_id ` set (live_envelopes q (now_ms mo) (turso_mails L view s))"
    then obtain m' where m': "m' \<in> set (turso_mails L view s)" "live q (now_ms mo) m'" "se_id (mail_envelope m') = i"
      by (auto simp: set_live_envelopes)
    with m(2) have "mail_key m' = mail_key m" by (simp add: live_def pending_def mail_key_def)
    with turso_inv_mails [OF inv] m(1) m'(1) have "m' = m"
      by (auto simp: mails_ok_def distinct_map dest: inj_onD)
    with m(3) m'(2) show False by (simp add: live_def)
  qed
  ultimately show ?thesis using ack \<open>r = Inr b\<close> by auto
qed

theorem expired_ack_accepted_witness:
  "\<exists>s'. mailbox_ack demo_ctx (demo_moment 99999) demo_q 1 demo_busy = (s', Inr True)"
proof -
  have "\<lparr>mail_queue = demo_q, mail_envelope = \<lparr>se_id = 1, se_payload = [1, 2, 3], se_received_at = 2000, se_expires_at = 62000\<rparr>,
      mail_delivered = None\<rparr> \<in> set (turso_mails demo_libs (\<lambda>T. T) demo_busy)" (is "?m \<in> _")
    by (simp add: demo_busy_mails)
  moreover have "pending demo_q 1 ?m" by (simp add: pending_def)
  ultimately show ?thesis
    using expired_ack_accepted [OF demo_up demo_busy_inv demo_ctx_mailbox, of ?m demo_q 1 "demo_moment 99999"] by auto
qed

text \<open>
  Marking an envelope delivered and recording its receipt are two statements
  without a transaction: when the second fails the answer is an error, the envelope is
  gone from the queue, no receipt exists, and repeating the acknowledgement answers
  that there was nothing to acknowledge.
\<close>

definition flaky_engine :: "tables engine" where
  "flaky_engine = ref_engine\<lparr>eng_execute := (\<lambda>st T. case st of
     InsertReceipt _ _ _ \<Rightarrow> (T, Inl ''disk I/O error'') | _ \<Rightarrow> eng_execute ref_engine st T)\<rparr>"

lemma flaky_sound: "sql_sound flaky_engine (\<lambda>T. T)"
proof -
  have same: "eng_query flaky_engine = eng_query ref_engine" "eng_get_value flaky_engine = eng_get_value ref_engine"
    by (simp_all add: flaky_engine_def)
  have good: "eng_execute ref_engine st T = (T', Inr n)" if "eng_execute flaky_engine st T = (T', Inr n)" for st T T' n
    using that by (cases st) (simp_all add: flaky_engine_def)
  have bad: "T' = T" if "eng_execute flaky_engine st T = (T', Inl e)" for st T T' e
    using that sql_soundD(2) [OF ref_engine_sound] by (cases st) (auto simp: flaky_engine_def)
  show ?thesis
    unfolding sql_sound_def same
    using ref_engine_sound [unfolded sql_sound_def] sql_soundD(1) [OF ref_engine_sound good] bad by blast
qed

theorem ack_can_lose_receipt:
  "\<exists>s1 s2. let ctx = demo_ctx\<lparr>ctx_mailbox := turso_repo demo_libs flaky_engine\<rparr> in
    turso_env demo_libs flaky_engine (\<lambda>T. T)
    \<and> mailbox_ack ctx (demo_moment 3000) demo_q 1 demo_busy = (s1, Inl (Repo ''disk I/O error''))
    \<and> 1 \<notin> se_id ` set (live_envelopes demo_q 3000 (turso_mails demo_libs (\<lambda>T. T) s1))
    \<and> mailbox_ack ctx (demo_moment 4000) demo_q 1 s1 = (s2, Inr False)
    \<and> turso_receipts demo_libs (\<lambda>T. T) s2 = []"
proof -
  let ?txt = "ustr (uuid_to_string demo_libs 1)"
  let ?ctx = "demo_ctx\<lparr>ctx_mailbox := turso_repo demo_libs flaky_engine\<rparr>"
  let ?rows = "mark_delivered demo_q ?txt 3000 (t_envelopes (tm_db demo_busy))"
  let ?s1 = "demo_busy\<lparr>tm_db := (tm_db demo_busy)\<lparr>t_envelopes := ?rows\<rparr>\<rparr>"
  have rows: "t_envelopes (tm_db demo_busy) = [demo_row 1 1 2000, demo_row 2 2 1000]"
    by (simp add: demo_busy_def turso_new_def)
  have und: "undelivered demo_q ?txt (demo_row 1 1 2000)" "\<not> undelivered demo_q ?txt (demo_row 2 2 1000)"
    by (simp_all add: undelivered_def demo_row_def uuid_string_inject [OF demo_uuid])
  have ack: "mailbox_ack ?ctx (demo_moment 3000) demo_q 1 demo_busy = (?s1, Inl (Repo ''disk I/O error''))"
    by (simp add: mailbox_ack_def turso_repo_def turso_ack_def turso_mark_def turso_receipt_def turso_execute_def flaky_engine_def ref_engine_def rows und)
  have none: "filter (undelivered demo_q ?txt) ?rows = []"
    by (auto simp: filter_empty_conv mark_delivered_def undelivered_def)
  have again: "mailbox_ack ?ctx (demo_moment 4000) demo_q 1 ?s1
      = (?s1\<lparr>tm_db := (tm_db ?s1)\<lparr>t_envelopes := mark_delivered demo_q ?txt 4000 ?rows\<rparr>\<rparr>, Inr False)"
    by (simp add: mailbox_ack_def turso_repo_def turso_ack_def turso_mark_def turso_receipt_def turso_execute_def flaky_engine_def ref_engine_def none)
  have "turso_mails demo_libs (\<lambda>T. T) ?s1 = deliver demo_q 1 3000 (turso_mails demo_libs (\<lambda>T. T) demo_busy)"
    using demo_busy_inv by (simp add: turso_mails_def turso_inv_def mark_delivered_mails demo_uuid)
  then have gone: "1 \<notin> se_id ` set (live_envelopes demo_q 3000 (turso_mails demo_libs (\<lambda>T. T) ?s1))"
    by (auto simp: live_envelopes_deliver)
  have "turso_env demo_libs flaky_engine (\<lambda>T. T)"
    using flaky_sound demo_libs_laws by (simp add: turso_env_def)
  moreover have "turso_receipts demo_libs (\<lambda>T. T) (?s1\<lparr>tm_db := (tm_db ?s1)\<lparr>t_envelopes := mark_delivered demo_q ?txt 4000 ?rows\<rparr>\<rparr>) = []"
    by (simp add: turso_receipts_def demo_busy_def turso_new_def)
  ultimately show ?thesis unfolding Let_def using ack again gone by blast
qed

end
