(* ===== verification/E2e_Properties.thy ===== *)
theory E2e_Properties
  imports E2e Handshake_Properties Cli_Properties Relay_Properties
begin

text \<open>
  The end-to-end client succeeds against a live node: the whole program, from the sealing of
  the first flight through JSON, HTTP, mutual TLS, the routes and handlers and the SQL
  mailbox and back to the opened plaintext and the emptied queue.
\<close>

section \<open>Requests over the link\<close>

definition node_link ::
  "('d, 'r, 'k, 'h) deps \<Rightarrow> web_libs \<Rightarrow> axum \<Rightarrow> 'c x509 \<Rightarrow> u64 \<Rightarrow> (nat \<times> 'db turso \<Rightarrow> tls_config) \<Rightarrow> 'db turso app_state \<Rightarrow>
   (nat \<Rightarrow> moment) \<Rightarrow> (nat \<times> 'db turso) tls_net \<Rightarrow> 'k node_ca \<Rightarrow> 'h e2e_conn \<Rightarrow> bool" where
  "node_link D W A X now srv app mos N ca c \<longleftrightarrow> web_laws W \<and> axum_laws A \<and> host_ok (ec_host c)
   \<and> mtls_serves (dp_libs D) X now srv (node_app A (dp_libs D) W app mos) (AddrPair (ec_host c) (ec_port c)) N
   \<and> (\<forall>k p. \<exists>cfg. client_config (dp_rustls D) (issue_leaf (dp_rcgen D) (dp_rand D k) (dp_now D) ca) (ec_tls c) = Inr cfg
        \<and> chain_accepted (dp_libs D) X now (tc_trust cfg) (tc_presented (srv p))
        \<and> chain_accepted (dp_libs D) X now (tc_trust (srv p)) (tc_presented cfg))"

lemma e2e_request_http:
  "e2e_request_text host meth path body = http_request_text meth path
     [ustr ''Host: '' @ host, CONTENT_JSON, content_length (length (utf8 body)), CONNECTION_CLOSE] body"
  by (simp add: e2e_request_text_def http_request_text_def header_block_def CONTENT_JSON_def content_length_def CONNECTION_CLOSE_def)

lemma e2e_response_read:
  assumes "http_response n (utf8 reply) resp" "text_ok reply"
  shows "e2e_response resp = Inr (n, reply)"
  using response_read(1,3) [OF assms] by (auto simp: e2e_response_def status_of_line_def)

lemma link_request:
  assumes link: "node_link D W A X now srv app mos N ca c"
    and "meth \<in> {ustr ''GET'', ustr ''POST'', ustr ''PUT'', ustr ''DELETE''}" "target_ok path" "\<And>b. body = Some b \<Longrightarrow> text_ok b"
  shows "\<exists>p n reply. conn_request D N ca c meth path body st = ((drawn st)\<lparr>e2_remote := p\<rparr>, Inr (n, reply))
    \<and> node_app A (dp_libs D) W app mos meth path (case body of None \<Rightarrow> [] | Some b \<Rightarrow> b) (e2_remote st) p n reply \<and> text_ok reply"
proof -
  let ?b = "case body of None \<Rightarrow> [] | Some b \<Rightarrow> b"
  let ?hs = "[ustr ''Host: '' @ ec_host c, CONTENT_JSON, content_length (length (utf8 ?b)), CONNECTION_CLOSE]"
  obtain cfg where cfg: "client_config (dp_rustls D) (issue_leaf (dp_rcgen D) (draw D st) (dp_now D) ca) (ec_tls c) = Inr cfg"
      and acc: "chain_accepted (dp_libs D) X now (tc_trust cfg) (tc_presented (srv (e2_remote st)))"
        "chain_accepted (dp_libs D) X now (tc_trust (srv (e2_remote st))) (tc_presented cfg)"
    using link unfolding node_link_def draw_def by blast
  have "mtls_serves (dp_libs D) X now srv (node_app A (dp_libs D) W app mos) (AddrPair (ec_host c) (ec_port c)) N" and host: "host_ok (ec_host c)"
    using link by (simp_all add: node_link_def)
  note up = this(1) [unfolded mtls_serves_def, rule_format, OF conjI, OF acc]
  have req: "request_ok meth path ?hs ?b"
    by (rule request_okI [OF host assms(2,3)]) (use assms(4) in \<open>auto split: option.splits\<close>)
  obtain p n reply resp where ex: "tn_exchange N (AddrPair (ec_host c) (ec_port c)) cfg (utf8 (http_request_text meth path ?hs ?b)) (e2_remote st) = (p, ReadOk resp)"
      and reply: "node_app A (dp_libs D) W app mos meth path ?b (e2_remote st) p n reply" "text_ok reply" "http_response n (utf8 reply) resp"
    using up req by blast
  have "e2_remote (drawn st) = e2_remote st" by (simp add: drawn_def)
  then have "conn_request D N ca c meth path body st = ((drawn st)\<lparr>e2_remote := p\<rparr>, Inr (n, reply))"
    using up cfg e2e_response_read [OF reply(3,2)] ex
    by (simp add: conn_request_def e2e_request_http Let_def) (simp add: option.case_eq_if)?
  then show ?thesis using reply by blast
qed

section \<open>The mailbox requests\<close>

text \<open>What the client relies on of the node: its mailbox answers.\<close>

definition relay_up :: "libs \<Rightarrow> 'db engine \<Rightarrow> ('db \<Rightarrow> tables) \<Rightarrow> 'db turso app_state \<Rightarrow> bool" where
  "relay_up L E view app \<longleftrightarrow> turso_up L E view \<and> ctx_mailbox (app_ctx app) = turso_repo L E"

lemma hex_segment:
  assumes "hex_laws L" "bs \<noteq> []"
  shows "seg_ok (ustr (hex_encode L bs))" "string_of (ustr (hex_encode L bs)) = hex_encode L bs"
proof -
  have c: "48 \<le> c \<and> c < 58 \<or> 97 \<le> c \<and> c < 123" if "c \<in> set (ustr (hex_encode L bs))" for c
    using that ustr_hex_range hex_encode_digits [OF assms(1)] by blast
  have "hex_encode L bs \<noteq> []" using length_hex_encode [OF assms(1), of bs] assms(2) by (metis length_0_conv mult_eq_0_iff zero_neq_numeral)
  then show "seg_ok (ustr (hex_encode L bs))"
    using c by (fastforce simp: seg_ok_def list_all_iff plain_char_def is_digit_def ustr_def)
  have "string_of (ustr s) = s" if "\<And>c. c \<in> set (ustr s) \<Longrightarrow> c < 128" for s
    using that by (induction s) (simp_all add: string_of_def utf8_def utf8_char_def ustr_def unat_byte)
  from this [of "hex_encode L bs"] c show "string_of (ustr (hex_encode L bs)) = hex_encode L bs" by fastforce
qed

lemma queue_target:
  assumes "seg_ok q"
  shows "target_ok (ustr ''/v1/queue/'' @ q @ ustr ''/envelopes'')"
    "target_path (ustr ''/v1/queue/'' @ q @ ustr ''/envelopes'') = ustr ''/v1/queue/'' @ q @ ustr ''/envelopes''"
proof -
  have q: "33 \<le> c \<and> c \<le> 126 \<and> c \<noteq> 63" if "c \<in> set q" for c
    using that assms by (auto simp: seg_ok_def list_all_iff plain_char_def is_digit_def)
  then show "target_ok (ustr ''/v1/queue/'' @ q @ ustr ''/envelopes'')" by (auto simp: target_ok_def ustr_def list_all_iff)
  show "target_path (ustr ''/v1/queue/'' @ q @ ustr ''/envelopes'') = ustr ''/v1/queue/'' @ q @ ustr ''/envelopes''"
    by (rule plain_target) (use q in \<open>auto simp: ustr_def\<close>)
qed

lemma turso_push_rowid:
  assumes "turso_env L E view" "turso_push L E mo q e s = (s', Inr i)"
  shows "next_rowid (t_envelopes (view (tm_db s'))) = next_rowid (t_envelopes (view (tm_db s))) + 1"
proof -
  have sound: "sql_sound E view" using turso_envD(3) [OF assms(1)] .
  from assms(2) obtain s1 n id received expires where s1: "turso_execute E (InsertEnvelope q id (ne_payload e) received expires) s = (s1, Inr n)" "tm_db s' = tm_db s1"
    unfolding turso_push_def turso_insert_def Let_def by (auto elim!: then_do_okE)
  have "fold max (xs @ [a]) 0 = max a (fold max xs (0 :: int))" for xs a by simp
  moreover from turso_execute_ok [OF sound s1(1)] have
    "insert_envelope q id (ne_payload e) received expires (t_envelopes (view (tm_db s))) = Inr (t_envelopes (view (tm_db s1)))"
    by (auto dest: arg_cong [of _ _ t_envelopes])
  moreover from this obtain row where "t_envelopes (view (tm_db s1)) = t_envelopes (view (tm_db s)) @ [row]"
      "er_id row = next_rowid (t_envelopes (view (tm_db s)))"
    by (fastforce simp: insert_envelope_def split: if_splits dest: sym)
  ultimately show ?thesis by (simp add: s1(2) next_rowid_def)
qed

lemma push_up:
  assumes up: "relay_up L E view app" and s: "turso_inv L view s" "turso_room view s"
    and q: "(q, fresh_uuid mo) \<notin> mail_key ` set (turso_mails L view s)"
    and req: "pe_payload req \<noteq> []" "length (pe_payload req) \<le> max_payload_bytes (ctx_config (app_ctx app))"
  shows "\<exists>s'. mailbox_push (app_ctx app) mo q req s = (s', Inr (fresh_uuid mo)) \<and> turso_inv L view s'
    \<and> turso_mails L view s' = turso_mails L view s
        @ [new_mail mo q \<lparr>ne_payload = pe_payload req, ne_ttl = clamp_ttl (pe_ttl req) (ctx_config (app_ctx app))\<rparr>]
    \<and> next_rowid (t_envelopes (view (tm_db s'))) = next_rowid (t_envelopes (view (tm_db s))) + 1"
proof -
  let ?e = "\<lparr>ne_payload = pe_payload req, ne_ttl = clamp_ttl (pe_ttl req) (ctx_config (app_ctx app))\<rparr>"
  have mb: "ctx_mailbox (app_ctx app) = turso_repo L E" and tu: "turso_up L E view" using up by (simp_all add: relay_up_def)
  note env = turso_up_env [OF tu]
  obtain s' i where push: "turso_push L E mo q ?e s = (s', Inr i)"
    using turso_avail.push_up [OF tu s q, of ?e] by (cases "turso_push L E mo q ?e s") (auto simp: turso_repo_def is_ok_iff)
  then have run: "mailbox_push (app_ctx app) mo q req s = (s', Inr i)"
    using req by (simp add: mailbox_push_def mb turso_repo_def)
  from turso.mailbox_push_cases [OF env s(1) mb run] turso_push_rowid [OF env push] run show ?thesis by auto
qed

lemma link_push:
  assumes link: "node_link D W A X now srv app mos N ca c" and up: "relay_up (dp_libs D) E view app"
    and s: "e2_remote st = (k, s)" "turso_inv (dp_libs D) view s" "turso_room view s"
    and q: "length q = 32" "(q, fresh_uuid (mos k)) \<notin> mail_key ` set (turso_mails (dp_libs D) view s)"
    and req: "payload \<noteq> []" "length payload \<le> max_payload_bytes (ctx_config (app_ctx app))" "I64_MIN \<le> ttl" "ttl \<le> I64_MAX"
  shows "\<exists>s'. conn_push D W N ca c (ustr (hex_encode (dp_libs D) q)) payload ttl st
      = ((drawn st)\<lparr>e2_remote := (Suc k, s')\<rparr>, Inr (ustr (uuid_to_string (dp_libs D) (fresh_uuid (mos k))))) \<and> turso_inv (dp_libs D) view s'
    \<and> turso_mails (dp_libs D) view s' = turso_mails (dp_libs D) view s
        @ [new_mail (mos k) q \<lparr>ne_payload = payload, ne_ttl = clamp_ttl ttl (ctx_config (app_ctx app))\<rparr>]
    \<and> next_rowid (t_envelopes (view (tm_db s'))) = next_rowid (t_envelopes (view (tm_db s))) + 1"
proof -
  let ?L = "dp_libs D" and ?req = "\<lparr>pe_payload = payload, pe_ttl = ttl\<rparr>"
  let ?hex = "ustr (hex_encode (dp_libs D) q)"
  let ?path = "ustr ''/v1/queue/'' @ ?hex @ ustr ''/envelopes''" and ?body = "js_print W (push_envelope_json W ?req)"
  have W: "web_laws W" and A: "axum_laws A" using link by (simp_all add: node_link_def)
  have laws: "hex_laws ?L" "uuid_laws ?L" using up by (auto simp: relay_up_def turso_up_def turso_env_def libs_laws_def)
  have "q \<noteq> []" using q(1) by auto
  note hex = hex_segment [OF laws(1) this]
  have path: "target_ok ?path" "target_path ?path = ?path" using queue_target [OF hex(1)] by simp_all
  have json: "json_ok (push_envelope_json W ?req)" "push_envelope_of W (canon (push_envelope_json W ?req)) = Some ?req"
    using push_envelope_roundtrip [OF W, of ?req] req by simp_all
  obtain p n reply where ask: "conn_request D N ca c (ustr ''POST'') ?path (Some ?body) st = ((drawn st)\<lparr>e2_remote := p\<rparr>, Inr (n, reply))"
      and app: "node_app A ?L W app mos (ustr ''POST'') ?path ?body (k, s) p n reply"
    using link_request [OF link, of "ustr ''POST''" ?path "Some ?body" st] path(1) web_lawsD(2) [OF W json(1)] s(1) by auto
  obtain s' where push: "mailbox_push (app_ctx app) (mos k) q ?req s = (s', Inr (fresh_uuid (mos k)))" and s': "turso_inv ?L view s'"
      "turso_mails ?L view s' = turso_mails ?L view s @ [new_mail (mos k) q \<lparr>ne_payload = payload, ne_ttl = clamp_ttl ttl (ctx_config (app_ctx app))\<rparr>]"
      "next_rowid (t_envelopes (view (tm_db s'))) = next_rowid (t_envelopes (view (tm_db s))) + 1"
    using push_up [OF up s(2,3) q(2), of ?req] req by auto
  have "queue_id_from_str ?L (hex_encode ?L q) = Inr q"
    using from_str_display [OF laws(1), of q] q(1) by (simp add: queue_id_display_def queue_id_ok_def queue_id_len_def)
  then have "handle_push ?L app (mos k) (hex_encode ?L q) ?req s = (s', EnvelopeAccepted (fresh_uuid (mos k)))"
    by (simp add: handle_push_def push respond_with_def)
  then have "p = (Suc k, s')" "n = 200" "reply = js_print W (envelope_accepted_json ?L (fresh_uuid (mos k)))"
    using app json web_lawsD(1) [OF W json(1)] queue_routes(1) [OF A hex(1)] hex(2)
    by (cases p; auto simp: node_app_def path node_reply_def)+
  then show ?thesis using ask s' envelope_accepted_roundtrip [OF laws(2), of "fresh_uuid (mos k)"] web_lawsD(1) [OF W]
    by (auto simp: conn_push_def Let_def)
qed

lemma pull_target:
  fixes w
  assumes "seg_ok q"
  defines "path \<equiv> ustr ''/v1/queue/'' @ q @ ustr ''/envelopes''"
  defines "target \<equiv> ustr ''/v1/queue/'' @ q @ ustr ''/envelopes?wait='' @ ustr (show_nat w) @ ustr ''&limit=16''"
  shows "target_ok target" "target_path target = path" "target_query target = pull_query w 16"
proof -
  have t: "target = path @ 63 # pull_query w 16"
    by (simp add: target_def path_def pull_query_def ustr_def) (simp add: show_nat.simps digit_code)?
  have p: "target_ok path" using queue_target(1) [OF assms(1)] by (simp add: path_def)
  have np: "63 \<notin> set path" using assms(1) by (auto simp: path_def ustr_def seg_ok_def list_all_iff plain_char_def is_digit_def)
  have "list_all (\<lambda>c. 33 \<le> c \<and> c \<le> 126) (ustr (show_nat n))" for n
    using show_nat_digits [of n] by (auto simp: list_all_iff is_digit_def)
  then have "list_all (\<lambda>c. 33 \<le> c \<and> c \<le> 126) (pull_query w 16)"
    by (simp add: pull_query_def) (simp add: ustr_def)
  then show "target_ok target" using p by (auto simp: t target_ok_def)
  show "target_path target = path" "target_query target = pull_query w 16"
    using np by (auto simp: t target_path_def target_query_def takeWhile_append dropWhile_append)
qed

lemma pull_up:
  assumes up: "relay_up L E view app" and s: "turso_inv L view s" "dates_ok (turso_mails L view s)"
    and "1 \<le> max_pull_limit (ctx_config (app_ctx app))" "pp_limit params = Some 16"
    and now: "live_envelopes q (now_ms mo) (turso_mails L view s) \<noteq> [] \<or> pp_wait params = Some 0"
  shows "pull_alone app params mo q s
    = (PollDone (Inr (take (batch (app_ctx app) 16) (live_envelopes q (now_ms mo) (turso_mails L view s)))), s)"
proof -
  let ?n = "max 1 (min (max_pull_limit (ctx_config (app_ctx app))) 16)"
  have mb: "ctx_mailbox (app_ctx app) = turso_repo L E" and tu: "turso_up L E view" using up by (simp_all add: relay_up_def)
  obtain es where pull: "mb_pull (turso_repo L E) mo q ?n s = Inr es"
    using turso_avail.pull_up [OF tu s, of ?n mo q] by (force simp: is_ok_iff)
  then have es: "es = take (batch (app_ctx app) 16) (live_envelopes q (now_ms mo) (turso_mails L view s))"
    using turso.pull_law [OF turso_up_env [OF tu] s(1) _ pull] assms(4) by (simp add: batch_def)
  have "mailbox_pull (app_ctx app) mo q (pull_limit app params) s = Some (Inr es)"
    using pull assms(4,5) by (simp add: mailbox_pull_def i64_clamp_def mb pull_limit_def)
  moreover have "es \<noteq> [] \<or> pp_wait params = Some 0" using now es assms(4) by (auto simp: batch_def)
  ultimately show ?thesis unfolding es [symmetric] by (auto simp: pull_alone_def poll_first_def)
qed

lemma link_pull:
  assumes link: "node_link D W A X now srv app mos N ca c" and up: "relay_up (dp_libs D) E view app"
    and s: "e2_remote st = (k, s)" "turso_inv (dp_libs D) view s" "dates_ok (turso_mails (dp_libs D) view s)"
    and q: "length q = 32" and w: "w < 2 ^ 64" "1 \<le> max_pull_limit (ctx_config (app_ctx app))"
      "live_envelopes q (now_ms (mos k)) (turso_mails (dp_libs D) view s) \<noteq> [] \<or> w = 0"
  shows "conn_pull D W N ca c (ustr (hex_encode (dp_libs D) q)) w st = ((drawn st)\<lparr>e2_remote := (Suc k, s)\<rparr>,
    Inr (take (batch (app_ctx app) 16) (live_envelopes q (now_ms (mos k)) (turso_mails (dp_libs D) view s))))"
proof -
  let ?L = "dp_libs D" and ?params = "\<lparr>pp_limit = Some 16, pp_wait = Some w\<rparr>"
  let ?hex = "ustr (hex_encode (dp_libs D) q)" and ?es = "take (batch (app_ctx app) 16) (live_envelopes q (now_ms (mos k)) (turso_mails (dp_libs D) view s))"
  let ?path = "ustr ''/v1/queue/'' @ ?hex @ ustr ''/envelopes?wait='' @ ustr (show_nat w) @ ustr ''&limit=16''"
  have W: "web_laws W" and A: "axum_laws A" using link by (simp_all add: node_link_def)
  have laws: "hex_laws ?L" "uuid_laws ?L" using up by (auto simp: relay_up_def turso_up_def turso_env_def libs_laws_def)
  have "q \<noteq> []" using q by auto
  note hex = hex_segment [OF laws(1) this]
  note path = pull_target [OF hex(1), of w]
  have query: "ax_query A (pull_query w 16) = Some ?params"
    using A w(1) unfolding axum_laws_def by (simp add: I64_MAX_def)
  obtain p n reply where ask: "conn_request D N ca c (ustr ''GET'') ?path None st = ((drawn st)\<lparr>e2_remote := p\<rparr>, Inr (n, reply))"
      and app: "node_app A ?L W app mos (ustr ''GET'') ?path [] (k, s) p n reply"
    using link_request [OF link, of "ustr ''GET''" ?path None st] path(1) s(1) by auto
  have "queue_id_from_str ?L (hex_encode ?L q) = Inr q"
    using from_str_display [OF laws(1), of q] q(1) by (simp add: queue_id_display_def queue_id_ok_def queue_id_len_def)
  moreover have "pull_alone app ?params (mos k) q s = (PollDone (Inr ?es), s)"
    using pull_up [OF up s(2,3) w(2), of ?params q "mos k"] w(3) by simp
  ultimately have r: "p = (Suc k, s)" "n = 200" "reply = js_print W (pull_response_json ?L W ?es)"
    using app queue_routes(2) [OF A hex(1)] hex(2) query
    by (cases p; auto simp: node_app_def path node_reply_def handle_pull_start_def handle_pull_response_def respond_with_def)+
  have "times_ok e" if "e \<in> set (live_envelopes q (now_ms (mos k)) (turso_mails ?L view s))" for e
    using that s(3) by (auto simp: set_live_envelopes dates_ok_def times_ok_def)
  then have "list_all times_ok ?es" by (auto simp: list_all_iff dest: in_set_takeD)
  then show ?thesis using ask r pull_response_roundtrip [OF laws(2) W, of ?es] web_lawsD(1) [OF W]
    by (auto simp: conn_pull_def Let_def)
qed

definition uuid_plain :: "libs \<Rightarrow> bool" where
  "uuid_plain L \<longleftrightarrow> (\<forall>u. seg_ok (ustr (uuid_to_string L u)))"

lemma ack_target:
  assumes "seg_ok q" "seg_ok i"
  defines "path \<equiv> ustr ''/v1/queue/'' @ q @ ustr ''/envelopes/'' @ i @ ustr ''/ack''"
  shows "target_ok path" "target_path path = path"
proof -
  have q: "33 \<le> c \<and> c \<le> 126 \<and> c \<noteq> 63" if "c \<in> set q \<union> set i" for c
    using that assms(1,2) by (auto simp: seg_ok_def list_all_iff plain_char_def is_digit_def)
  then show "target_ok path" by (auto simp: path_def target_ok_def ustr_def list_all_iff)
  show "target_path path = path" by (rule plain_target) (use q in \<open>auto simp: path_def ustr_def\<close>)
qed

lemma link_ack:
  assumes link: "node_link D W A X now srv app mos N ca c" and up: "relay_up (dp_libs D) E view app" "uuid_plain (dp_libs D)"
    and s: "e2_remote st = (k, s)" "turso_inv (dp_libs D) view s" and q: "length q = 32"
    and m: "m \<in> set (turso_mails (dp_libs D) view s)" "pending q i m"
  shows "\<exists>s'. conn_ack D W N ca c (ustr (hex_encode (dp_libs D) q)) (ustr (uuid_to_string (dp_libs D) i)) st
      = ((drawn st)\<lparr>e2_remote := (Suc k, s')\<rparr>, Inr True) \<and> turso_inv (dp_libs D) view s'
    \<and> turso_mails (dp_libs D) view s' = deliver q i (now_ms (mos k)) (turso_mails (dp_libs D) view s)"
proof -
  let ?L = "dp_libs D" and ?f = "ack_accepted_json True"
  let ?hex = "ustr (hex_encode (dp_libs D) q)" and ?id = "ustr (uuid_to_string (dp_libs D) i)"
  let ?path = "ustr ''/v1/queue/'' @ ?hex @ ustr ''/envelopes/'' @ ?id @ ustr ''/ack''"
  have mb: "ctx_mailbox (app_ctx app) = turso_repo ?L E" and tu: "turso_up ?L E view" using up(1) by (simp_all add: relay_up_def)
  have W: "web_laws W" and A: "axum_laws A" using link by (simp_all add: node_link_def)
  have laws: "hex_laws ?L" "uuid_laws ?L" using tu by (auto simp: turso_up_def turso_env_def libs_laws_def)
  have "q \<noteq> []" using q by auto
  note hex = hex_segment [OF laws(1) this]
  have id: "seg_ok ?id" using up(2) by (simp add: uuid_plain_def)
  note path = ack_target [OF hex(1) id]
  obtain p n reply where ask: "conn_request D N ca c (ustr ''POST'') ?path None st = ((drawn st)\<lparr>e2_remote := p\<rparr>, Inr (n, reply))"
      and app: "node_app A ?L W app mos (ustr ''POST'') ?path [] (k, s) p n reply"
    using link_request [OF link, of "ustr ''POST''" ?path None st] path(1) s(1) by auto
  obtain s' b where ack: "mailbox_ack (app_ctx app) (mos k) q i s = (s', Inr b)"
    using turso_avail.ack_up [OF tu s(2), of q i "now_ms (mos k)"]
    by (cases "mailbox_ack (app_ctx app) (mos k) q i s") (auto simp: mailbox_ack_def mb is_ok_iff)
  from turso.mailbox_ack_cases [OF turso_up_env [OF tu] s(2) mb ack] m
  have s': "b" "turso_inv ?L view s'" "turso_mails ?L view s' = deliver q i (now_ms (mos k)) (turso_mails ?L view s)" by auto
  have "queue_id_from_str ?L (hex_encode ?L q) = Inr q"
    using from_str_display [OF laws(1), of q] q(1) by (simp add: queue_id_display_def queue_id_ok_def queue_id_len_def)
  then have "handle_ack ?L app (mos k) (hex_encode ?L q) ?id s = (s', AckAccepted True)"
    using ack s'(1) laws(2) by (simp add: handle_ack_def respond_with_def)
  then have r: "p = (Suc k, s')" "n = 200" "reply = js_print W ?f"
    using app ack_route [OF A hex(1) id] hex(2) by (cases p; auto simp: node_app_def path node_reply_def)+
  have ok: "json_ok ?f" by (simp add: ack_accepted_json_def)
  have "json_get (ustr ''acknowledged'') (canon ?f) = Some (JBool True)"
    using json_get_canon [OF ok] by (simp add: ack_accepted_json_def)
  then show ?thesis using ask r s' web_lawsD(1) [OF W ok] by (auto simp: conn_ack_def Let_def)
qed

section \<open>The sealed flight\<close>

text \<open>The randomness has its sizes and the recipient's next ratchet key is a new one.\<close>

definition flight_rnd_ok :: "prims \<Rightarrow> e2e_rnd \<Rightarrow> bool" where
  "flight_rnd_ok K r \<longleftrightarrow> length (er_recipient r) = 32 \<and> length (er_sender r) = 32 \<and> length (er_ratchet r) = 32
     \<and> length (er_queue r) = 32 \<and> length (er_open r) = 32
     \<and> length (rnd_spk (er_prekeys r)) = 32 \<and> length (rnd_kem (er_prekeys r)) = 64 \<and> length (rnd_opk (er_prekeys r)) = 32
     \<and> length (rnd_ephemeral (er_handshake r)) = 32
     \<and> x25519_public_key K (x25519_generate K (er_open r)) \<notin>
         {x25519_public_key K (x25519_generate K (er_ratchet r)), x25519_public_key K (x25519_generate K (rnd_spk (er_prekeys r)))}"

lemma frame_encode_nonempty: "frame_encode f \<noteq> []"
  by (simp add: frame_encode_def)

lemma length_im_encode:
  assumes "im_ok K m" "length (im_kem_ciphertext m) = 1088"
  shows "length (im_encode m) \<le> 8192"
proof -
  have "(\<Sum>x\<leftarrow>field_list (im_frame m). 20 + length (val x)) \<le> 6600"
    using assms by (simp add: im_frame_def with_field_def frame_new_def im_ok_def TRANSCRIPT_CONTEXT_def)
  then show ?thesis using length_frame_encode [of "im_frame m"] by (simp add: im_encode_def)
qed

lemma length_encrypt:
  assumes "session_laws K" "ratchet_ok K st" "encrypt K st p = (st', Inr msg)"
  shows "msg \<noteq> [] \<and> length msg \<le> 8192 + length p"
proof -
  have x: "x25519_laws K" using assms(1) by (simp add: session_laws_def)
  have pub: "length (dhs_pub st) = 32" using assms(2) x25519_lengths [OF x] by (simp add: ratchet_ok_def)
  have len: "length (ratchet_message h c) \<le> 200 + length c" if "h_dh h = dhs_pub st" for h c
    unfolding ratchet_message_def
    by (rule order_trans [OF length_frame_encode]) (simp add: with_field_def frame_new_def pub that)
  from assms(3) obtain k n a c h where "seal K k n a p = Inr c" "msg = ratchet_message h c" "h_dh h = dhs_pub st"
    by (auto simp: encrypt_def Let_def split: option.splits prod.splits elim!: and_thenE)
  moreover from this have "length c = length p + 16"
    using seal_length session_laws_simps(4) [OF assms(1)] by blast
  ultimately show ?thesis using len [of h c] by (simp add: ratchet_message_def frame_encode_nonempty)
qed

text \<open>Whoever reads the two messages back in their order reads the message.\<close>

lemma flight_opens:
  assumes laws: "crypto_laws K" and r: "flight_rnd_ok K r" and p: "length p + 16 < 2 ^ 32"
  obtains secrets blob initial msg where "seal_flight K r p = Inr (secrets, blob, initial, msg)"
    "initial \<noteq> []" "length initial \<le> 8192" "msg \<noteq> []" "length msg \<le> 8192 + length p"
    "\<And>es. se_payload (es ! 0) = initial \<Longrightarrow> se_payload (es ! 1) = msg \<Longrightarrow> open_flight K r secrets blob es = Inr p"
proof -
  have l: "platform_ok K" "hkdf_laws K" "x25519_laws K" "kem_laws K" "dsa_laws K" "aead_laws K"
    using laws by (simp_all add: crypto_laws_def)
  then have sl: "session_laws K" by (simp add: session_laws_def)
  have n: "length (er_recipient r) = 32" "length (er_sender r) = 32" "length (er_ratchet r) = 32" "length (er_open r) = 32"
      "length (rnd_spk (er_prekeys r)) = 32" "length (rnd_kem (er_prekeys r)) = 64" "length (rnd_opk (er_prekeys r)) = 32"
      "length (rnd_ephemeral (er_handshake r)) = 32"
    using r by (simp_all add: flight_rnd_ok_def)
  obtain s b where g: "bundle_generate K (er_prekeys r) (er_recipient r) True = (s, b)" by force
  note ok = bundle_generate_ok [OF l(3-5) n(5-7,1) g] and match = bundle_generate_match [OF l(3-5) n(5-7,1) g]
  then have dec: "bundle_decode K (bundle_encode b) = Inr b" using bundle_decode_encode l(1) by blast
  have spk: "sec_signed_prekey s = x25519_generate K (rnd_spk (er_prekeys r))"
    using g by (auto simp: bundle_generate_def Let_def mlkem_generate_def)
  have pub: "pb_signed_prekey b = x25519_public_key K (sec_signed_prekey s)" "length (sec_signed_prekey s) = 32"
      "x25519_from_bytes K (sec_signed_prekey s) = sec_signed_prekey s"
    using match by (simp_all add: secrets_match_def secrets_ok_def)
  obtain m root where i: "initiate K (er_handshake r) (er_sender r) b = (m, root)" by force
  have kem: "length (pb_kem_key b) = 1184" using ok by (simp add: bundle_ok_def)
  note im = initiate_im_ok [OF laws n(2,8) kem i]
  have "m = fst (initiate K (er_handshake r) (er_sender r) b)" by (simp add: i)
  then have ct: "length (im_kem_ciphertext m) = 1088"
    using encapsulate_lengths(1) [OF l(4) kem] by (auto simp: initiate_def Let_def split: prod.splits)
  let ?a = "initiator K (er_ratchet r) root (pb_signed_prekey b)"
  have start: "start_ok K (er_ratchet r) root (sec_signed_prekey s)" using im pub n(3) by (simp add: start_ok_def)
  obtain ck where "cks ?a = Some ck" by (auto simp: initiator_def Let_def case_prod_beta)
  from encrypt_total [OF sl this, of p] p obtain st msg where e: "encrypt K ?a p = (st, Inr msg)" by auto
  have "ratchet_ok K ?a" using l n(3) pub by (intro initiator_ok) (simp_all add: x25519_lengths)
  note len = length_encrypt [OF sl this e]
  have "x25519_public_key K (x25519_generate K (er_open r)) \<notin> used (session_start K (er_ratchet r) root (sec_signed_prekey s))"
    using r by (simp add: flight_rnd_ok_def session_start_def initiator_def responder_def Let_def case_prod_beta spk)
  with first_message [OF sl start p n(4)] e
  have d: "snd (decrypt K (er_open r) (responder K root (sec_signed_prekey s)) msg) = Inr p" by (simp add: pub(1))
  show thesis
  proof (rule that)
    show "seal_flight K r p = Inr (s, bundle_encode b, im_encode m, msg)"
      by (simp add: seal_flight_def identity_from_seed_def g dec i e)
    show "open_flight K r s (bundle_encode b) es = Inr p" if "se_payload (es ! 0) = im_encode m" "se_payload (es ! 1) = msg" for es
      using that im initiate_respond [OF l(3-5) n(2,8) match i]
      by (simp add: open_flight_def dec im_decode_encode [OF l(1)] d)
  qed (use len length_im_encode [OF conjunct1 [OF im] ct] in \<open>simp_all add: im_encode_def frame_encode_nonempty\<close>)
qed

section \<open>The link under mutual trust\<close>

lemma link_up:
  assumes laws: "web_laws W" "axum_laws A" "rustls_ok (dp_rustls D)"
    and own: "pki_laws X (dp_rcgen D) pub" "authority_ok (dp_libs D) X pub ca" "\<And>n. is_ok (issue_leaf (dp_rcgen D) n (dp_now D) ca)"
    and clock: "dp_now D - CLOCK_SKEW \<le> u64_to_i64 now" "u64_to_i64 now \<le> dp_now D + nc_leaf_ttl ca"
      "DEFAULT_NOT_BEFORE \<le> u64_to_i64 now" "u64_to_i64 now \<le> DEFAULT_NOT_AFTER"
    and remote: "mtls_serves (dp_libs D) X now srv (node_app A (dp_libs D) W app mos) (AddrPair (ec_host c) (ec_port c)) N" "host_ok (ec_host c)"
      "\<And>p. leaf_valid (dp_libs D) X now (tc_presented (srv p)) peer"
    and trust: "\<And>p. ustr (nc_fingerprint ca) \<in> tc_trust (srv p)" "ustr (fingerprint (dp_libs D) peer) \<in> nt_trust (ec_tls c)"
  shows "node_link D W A X now srv app mos N ca c"
proof -
  have "\<exists>cfg. client_config (dp_rustls D) (issue_leaf (dp_rcgen D) (dp_rand D k) (dp_now D) ca) (ec_tls c) = Inr cfg
        \<and> chain_accepted (dp_libs D) X now (tc_trust cfg) (tc_presented (srv p))
        \<and> chain_accepted (dp_libs D) X now (tc_trust (srv p)) (tc_presented cfg)" for k p
  proof -
    obtain leaf where leaf: "issue_leaf (dp_rcgen D) (dp_rand D k) (dp_now D) ca = Inr leaf"
      using own(3) [of "dp_rand D k"] by (auto simp: is_ok_iff)
    obtain cfg where cfg: "client_config (dp_rustls D) (Inr leaf) (ec_tls c) = Inr cfg" using client_config_up [OF laws(3)] by blast
    have c: "tc_trust cfg = nt_trust (ec_tls c)" "tc_presented cfg = chain_der leaf" using client_config_fields [OF cfg] by auto
    have "ustr (fingerprint (dp_libs D) (nc_der ca)) \<in> tc_trust (srv p)" using own(2) trust(1) [of p] by (simp add: authority_ok_def)
    with issued_leaf_valid [OF own(1,2) leaf clock] have "chain_accepted (dp_libs D) X now (tc_trust (srv p)) (tc_presented cfg)"
      unfolding leaf_valid_def c by blast
    moreover have "chain_accepted (dp_libs D) X now (tc_trust cfg) (tc_presented (srv p))"
      using remote(3) [of p] trust(2) unfolding leaf_valid_def c by blast
    ultimately show ?thesis using leaf cfg by simp
  qed
  then show ?thesis using laws(1,2) remote(1,2) by (simp add: node_link_def)
qed

section \<open>The whole flow\<close>

text \<open>The two envelopes of the flight, alone on their queue.\<close>

lemma live_pair:
  assumes "\<And>m. m \<in> set ms \<Longrightarrow> mail_queue m \<noteq> q" "live q t m0" "live q t m1"
    and "se_received_at (mail_envelope m0) \<le> se_received_at (mail_envelope m1)"
  shows "live_envelopes q t (ms @ [m0, m1]) = [mail_envelope m0, mail_envelope m1]"
proof -
  have none: "\<not> live q t m" if "m \<in> set ms" for m using that assms(1) by (auto simp: live_def)
  then have "live_envelopes q t ms = []" by (simp add: live_envelopes_def filter_False)
  then have "live_envelopes q t (ms @ [m0]) = [mail_envelope m0]"
    using live_envelopes_snoc [OF assms(2), of ms] none by auto
  then have "live_envelopes q t ((ms @ [m0]) @ [m1]) = [mail_envelope m0, mail_envelope m1]"
    using live_envelopes_snoc [OF assms(3), of "ms @ [m0]"] none assms(4) by auto
  then show ?thesis by simp
qed

lemma deliver_pair:
  assumes "\<And>m. m \<in> set ms \<Longrightarrow> mail_queue m \<noteq> q" "pending q i m0" "pending q j m1" "i \<noteq> j"
  shows "deliver q i t (ms @ [m0, m1]) = ms @ [m0\<lparr>mail_delivered := Some t\<rparr>, m1]"
    "deliver q j t' (ms @ [m0\<lparr>mail_delivered := Some t\<rparr>, m1]) = ms @ [m0\<lparr>mail_delivered := Some t\<rparr>, m1\<lparr>mail_delivered := Some t'\<rparr>]"
proof -
  have "\<not> pending q k m" if "m \<in> set ms" for m k using that assms(1) by (auto simp: pending_def)
  then have "map (\<lambda>m. if pending q k m then m\<lparr>mail_delivered := Some t\<rparr> else m) ms = ms" for k t by (simp add: map_idI)
  then show "deliver q i t (ms @ [m0, m1]) = ms @ [m0\<lparr>mail_delivered := Some t\<rparr>, m1]"
    "deliver q j t' (ms @ [m0\<lparr>mail_delivered := Some t\<rparr>, m1]) = ms @ [m0\<lparr>mail_delivered := Some t\<rparr>, m1\<lparr>mail_delivered := Some t'\<rparr>]"
    using assms(2-4) by (auto simp: deliver_def pending_def)
qed

text \<open>What the flow needs of the node's mailbox, its configuration and its clock at the next five requests.\<close>

definition relay_ready :: "libs \<Rightarrow> ('db \<Rightarrow> tables) \<Rightarrow> 'db turso app_state \<Rightarrow> (nat \<Rightarrow> moment) \<Rightarrow> nat \<Rightarrow> bytes \<Rightarrow> nat \<Rightarrow> 'db turso \<Rightarrow> bool" where
  "relay_ready L view app mos k q n s \<longleftrightarrow> turso_inv L view s \<and> dates_ok (turso_mails L view s)
   \<and> next_rowid (t_envelopes (view (tm_db s))) < I64_MAX
   \<and> (\<forall>m \<in> set (turso_mails L view s). mail_queue m \<noteq> q)
   \<and> 8192 + n \<le> max_payload_bytes (ctx_config (app_ctx app)) \<and> 300 \<le> max_ttl_seconds (ctx_config (app_ctx app))
   \<and> 2 \<le> max_pull_limit (ctx_config (app_ctx app))
   \<and> fresh_uuid (mos k) \<noteq> fresh_uuid (mos (Suc k))
   \<and> 0 \<le> now_ms (mos k) \<and> now_ms (mos k) \<le> now_ms (mos (Suc k)) \<and> now_ms (mos (Suc k)) + 300000 \<le> LAST_MS
   \<and> now_ms (mos (Suc (Suc k))) < now_ms (mos k) + 300000"

lemma flight_mail:
  fixes p
  assumes "relay_ready L view app mos k q n s" "j = k \<or> j = Suc k"
  defines "m \<equiv> new_mail (mos j) q \<lparr>ne_payload = p, ne_ttl = clamp_ttl 300 (ctx_config (app_ctx app))\<rparr>"
  shows "m = \<lparr>mail_queue = q, mail_envelope = \<lparr>se_id = fresh_uuid (mos j), se_payload = p,
       se_received_at = now_ms (mos j), se_expires_at = now_ms (mos j) + 300000\<rparr>, mail_delivered = None\<rparr>"
    "live q (now_ms (mos (Suc (Suc k)))) m" "dates_ok [m]"
proof -
  have j: "0 \<le> now_ms (mos j)" "now_ms (mos j) + 300000 \<le> LAST_MS" "now_ms (mos k) \<le> now_ms (mos j)"
      "now_ms (mos (Suc (Suc k))) < now_ms (mos k) + 300000" "300 \<le> max_ttl_seconds (ctx_config (app_ctx app))"
    using assms(1,2) by (auto simp: relay_ready_def)
  then have "expiry (mos j) 300 = now_ms (mos j) + 300000"
    by (simp add: expiry_def i64_saturating_add_def i64_saturating_mul_def sat64_def LAST_MS_def I64_MAX_def I64_MIN_def)
  then show m: "m = \<lparr>mail_queue = q, mail_envelope = \<lparr>se_id = fresh_uuid (mos j), se_payload = p,
       se_received_at = now_ms (mos j), se_expires_at = now_ms (mos j) + 300000\<rparr>, mail_delivered = None\<rparr>"
    using j by (simp add: m_def new_mail_def clamp_ttl_def)
  show "live q (now_ms (mos (Suc (Suc k)))) m" "dates_ok [m]" using j by (simp_all add: m live_def dates_ok_def)
qed

lemma flight_pulled:
  fixes n k q initial msg
  assumes link: "node_link D W A X now srv app mos N ca c" and up: "relay_up (dp_libs D) E view app"
    and st: "e2_remote st = (k, s)" "relay_ready (dp_libs D) view app mos k q n s" "length q = 32"
    and pay: "initial \<noteq> []" "length initial \<le> 8192" "msg \<noteq> []" "length msg \<le> 8192 + n"
  defines "hex \<equiv> ustr (hex_encode (dp_libs D) q)"
  defines "m0 \<equiv> new_mail (mos k) q \<lparr>ne_payload = initial, ne_ttl = clamp_ttl 300 (ctx_config (app_ctx app))\<rparr>"
  defines "m1 \<equiv> new_mail (mos (Suc k)) q \<lparr>ne_payload = msg, ne_ttl = clamp_ttl 300 (ctx_config (app_ctx app))\<rparr>"
  obtains i0 i1 st1 st2 st3 s2 where
    "conn_push D W N ca c hex initial 300 st = (st1, Inr i0)" "conn_push D W N ca c hex msg 300 st1 = (st2, Inr i1)"
    "conn_pull D W N ca c hex 5 st2 = (st3, Inr [mail_envelope m0, mail_envelope m1])"
    "e2_remote st3 = (k + 3, s2)" "turso_inv (dp_libs D) view s2" "turso_mails (dp_libs D) view s2 = turso_mails (dp_libs D) view s @ [m0, m1]"
    "dates_ok (turso_mails (dp_libs D) view s2)"
proof -
  let ?L = "dp_libs D" and ?ms = "turso_mails (dp_libs D) view s" and ?t = "now_ms (mos (Suc (Suc k)))"
  have q: "m \<in> set ?ms \<Longrightarrow> mail_queue m \<noteq> q" for m using st(2) by (auto simp: relay_ready_def)
  have R: "turso_inv ?L view s" "dates_ok ?ms" "next_rowid (t_envelopes (view (tm_db s))) < I64_MAX"
      "8192 + n \<le> max_payload_bytes (ctx_config (app_ctx app))" "2 \<le> max_pull_limit (ctx_config (app_ctx app))"
      "fresh_uuid (mos k) \<noteq> fresh_uuid (mos (Suc k))" "now_ms (mos k) \<le> now_ms (mos (Suc k))"
    using st(2) by (simp_all add: relay_ready_def)
  have key: "(q, u) \<notin> mail_key ` set ?ms" for u using q by (auto simp: mail_key_def)
  note m0 = flight_mail [OF st(2), of k initial, simplified, folded m0_def]
  note m1 = flight_mail [OF st(2), of "Suc k" msg, simplified, folded m1_def]
  obtain s1 where p0: "conn_push D W N ca c hex initial 300 st
        = ((drawn st)\<lparr>e2_remote := (Suc k, s1)\<rparr>, Inr (ustr (uuid_to_string ?L (fresh_uuid (mos k)))))"
      and s1: "turso_inv ?L view s1" "turso_mails ?L view s1 = ?ms @ [m0]"
        "next_rowid (t_envelopes (view (tm_db s1))) = next_rowid (t_envelopes (view (tm_db s))) + 1"
    using link_push [where ttl = 300, OF link up(1) st(1) R(1) _ st(3) key pay(1)] R(3,4) pay(2)
    by (auto simp: turso_room_def I64_MAX_def I64_MIN_def hex_def m0_def)
  have "(q, fresh_uuid (mos (Suc k))) \<notin> mail_key ` set (turso_mails ?L view s1)"
    using key R(6) m0(1) by (auto simp: s1(2) mail_key_def)
  then obtain s2 where p1: "conn_push D W N ca c hex msg 300 ((drawn st)\<lparr>e2_remote := (Suc k, s1)\<rparr>)
        = ((drawn (drawn st))\<lparr>e2_remote := (Suc (Suc k), s2)\<rparr>, Inr (ustr (uuid_to_string ?L (fresh_uuid (mos (Suc k))))))"
      and s2: "turso_inv ?L view s2" "turso_mails ?L view s2 = ?ms @ [m0, m1]"
    using link_push [where ttl = 300, OF link up(1) _ s1(1) _ st(3) _ pay(3), of "(drawn st)\<lparr>e2_remote := (Suc k, s1)\<rparr>" "Suc k"]
      R(3,4) pay(4) s1(2,3)
    by (auto simp: turso_room_def I64_MAX_def I64_MIN_def hex_def drawn_def m1_def)
  let ?st2 = "(drawn (drawn st))\<lparr>e2_remote := (Suc (Suc k), s2)\<rparr>"
  have live: "live_envelopes q ?t (turso_mails ?L view s2) = [mail_envelope m0, mail_envelope m1]"
    unfolding s2(2) by (rule live_pair [OF q m0(2) m1(2)]) (use m0(1) m1(1) R(7) in simp_all)
  have batch: "take (batch (app_ctx app) 16) [mail_envelope m0, mail_envelope m1] = [mail_envelope m0, mail_envelope m1]"
    using R(5) by (simp add: batch_def)
  have d2: "dates_ok (turso_mails ?L view s2)" using R(2) m0(3) m1(3) by (auto simp: s2(2) dates_ok_def)
  have "conn_pull D W N ca c hex 5 ?st2 = ((drawn ?st2)\<lparr>e2_remote := (Suc (Suc (Suc k)), s2)\<rparr>, Inr [mail_envelope m0, mail_envelope m1])"
    using link_pull [OF link up(1) _ s2(1) d2 st(3), of ?st2 "Suc (Suc k)" 5] R(5) live batch by (simp add: hex_def)
  from that [OF p0 p1 this _ s2 d2] show thesis by simp
qed

text \<open>The two envelopes are acknowledged and the queue is empty.\<close>

lemma flight_acked:
  fixes k q
  assumes link: "node_link D W A X now srv app mos N ca c" and up: "relay_up (dp_libs D) E view app" "uuid_plain (dp_libs D)"
    and st: "e2_remote st = (k, s)" "turso_inv (dp_libs D) view s" "dates_ok (turso_mails (dp_libs D) view s)" "length q = 32"
      "1 \<le> max_pull_limit (ctx_config (app_ctx app))"
    and ms: "turso_mails (dp_libs D) view s = ms @ [m0, m1]" "\<And>m. m \<in> set ms \<Longrightarrow> mail_queue m \<noteq> q"
      "pending q (se_id (mail_envelope m0)) m0" "pending q (se_id (mail_envelope m1)) m1" "se_id (mail_envelope m0) \<noteq> se_id (mail_envelope m1)"
  defines "hex \<equiv> ustr (hex_encode (dp_libs D) q)"
  obtains st4 st5 s' where "ack_each D W N ca c hex [mail_envelope m0, mail_envelope m1] st = (st4, Inr ())"
    "conn_pull D W N ca c hex 0 st4 = (st5, Inr [])" "e2_remote st5 = (k + 3, s')"
    "turso_mails (dp_libs D) view s' = ms @ [m0\<lparr>mail_delivered := Some (now_ms (mos k))\<rparr>, m1\<lparr>mail_delivered := Some (now_ms (mos (Suc k)))\<rparr>]"
proof -
  let ?L = "dp_libs D" and ?st4 = "\<lambda>s. (drawn st)\<lparr>e2_remote := (Suc k, s)\<rparr>"
  note del = deliver_pair [OF ms(2-5)]
  obtain s3 where a0: "conn_ack D W N ca c hex (ustr (uuid_to_string ?L (se_id (mail_envelope m0)))) st = (?st4 s3, Inr True)"
      and s3: "turso_inv ?L view s3" "turso_mails ?L view s3 = ms @ [m0\<lparr>mail_delivered := Some (now_ms (mos k))\<rparr>, m1]"
    using link_ack [OF link up st(1,2,4) _ ms(3)] del(1) by (auto simp: ms(1) hex_def)
  obtain s4 where a1: "conn_ack D W N ca c hex (ustr (uuid_to_string ?L (se_id (mail_envelope m1)))) (?st4 s3)
        = ((drawn (?st4 s3))\<lparr>e2_remote := (Suc (Suc k), s4)\<rparr>, Inr True)"
      and s4: "turso_inv ?L view s4" "turso_mails ?L view s4
        = ms @ [m0\<lparr>mail_delivered := Some (now_ms (mos k))\<rparr>, m1\<lparr>mail_delivered := Some (now_ms (mos (Suc k)))\<rparr>]"
    using link_ack [OF link up _ s3(1) st(4) _ ms(4), of "?st4 s3" "Suc k"] del(2) by (auto simp: s3(2) hex_def)
  let ?st5 = "(drawn (?st4 s3))\<lparr>e2_remote := (Suc (Suc k), s4)\<rparr>"
  have d4: "dates_ok (turso_mails ?L view s4)" using st(3) by (auto simp: ms(1) s4(2) dates_ok_def)
  have gone: "live_envelopes q t (turso_mails ?L view s4) = []" for t
    using ms(2) by (auto simp: s4(2) live_envelopes_def live_def filter_empty_conv)
  have l4: "conn_pull D W N ca c hex 0 ?st5 = ((drawn ?st5)\<lparr>e2_remote := (Suc (Suc (Suc k)), s4)\<rparr>, Inr [])"
    using link_pull [OF link up(1) _ s4(1) d4 st(4), of ?st5 "Suc (Suc k)" 0] st(5) gone by (simp add: hex_def)
  have "ack_each D W N ca c hex [mail_envelope m0, mail_envelope m1] st = (?st5, Inr ())"
    using a0 a1 by (simp add: Let_def)
  from that [OF this l4 _ s4(2)] show thesis by simp
qed

text \<open>
  C3. The end-to-end client succeeds. Against a node that runs, trusts the client's authority
  and presents a valid leaf of the authority the client pins, \<open>send\<close> seals a first
  flight, pushes, pulls, opens and acknowledges it without an error; afterwards the queue
  is empty for every reader, and the mail of all other queues is as before.
\<close>

theorem e2e_send_succeeds:
  assumes crypto: "crypto_laws K" "flight_rnd_ok K r" "length (utf8 message) + 16 < 2 ^ 32"
    and own: "e2e_load_ca D dir st = (st0, Inr ca)" "pki_laws X (dp_rcgen D) pub" "authority_ok (dp_libs D) X pub ca"
      "\<And>n. is_ok (issue_leaf (dp_rcgen D) n (dp_now D) ca)" "rustls_ok (dp_rustls D)"
    and clock: "dp_now D - CLOCK_SKEW \<le> u64_to_i64 now" "u64_to_i64 now \<le> dp_now D + nc_leaf_ttl ca"
      "DEFAULT_NOT_BEFORE \<le> u64_to_i64 now" "u64_to_i64 now \<le> DEFAULT_NOT_AFTER"
    and address: "rsplit_once 58 node = Some (host, port_text)" "host_ok host" "tn_server_name N host" "parse_u16 port_text = Some port"
    and remote: "web_laws W" "axum_laws A"
      "mtls_serves (dp_libs D) X now srv (node_app A (dp_libs D) W app mos) (AddrPair host port) N"
      "\<And>p. leaf_valid (dp_libs D) X now (tc_presented (srv p)) peer"
    and trust: "\<And>p. ustr (nc_fingerprint ca) \<in> tc_trust (srv p)" "node_ca_fp = ustr (fingerprint (dp_libs D) peer)"
    and relay: "relay_up (dp_libs D) E view app" "uuid_plain (dp_libs D)" "e2_remote st = (k, s)"
      "relay_ready (dp_libs D) view app mos k (er_queue r) (length (utf8 message)) s"
  shows "\<exists>st' s'. e2e_send K D W N r dir node node_ca_fp message st = (st', Inr ()) \<and> e2_remote st' = (k + 6, s')
    \<and> (\<forall>t. live_envelopes (er_queue r) t (turso_mails (dp_libs D) view s') = [])
    \<and> filter (\<lambda>m. mail_queue m \<noteq> er_queue r) (turso_mails (dp_libs D) view s') = turso_mails (dp_libs D) view s"
proof -
  let ?L = "dp_libs D" and ?q = "er_queue r" and ?n = "length (utf8 message)" and ?hex = "ustr (hex_encode (dp_libs D) (er_queue r))"
  obtain leaf where leaf: "issue_leaf (dp_rcgen D) (draw D st0) (dp_now D) ca = Inr leaf" using own(4) [of "draw D st0"] by (auto simp: is_ok_iff)
  obtain tls where tls: "node_tls_new (dp_rustls D) (Inr leaf) (from_fingerprints [node_ca_fp]) = Inr tls" "nt_trust tls = from_fingerprints [node_ca_fp]"
    using node_tls_new_up [OF own(5)] by blast
  let ?c = "\<lparr>ec_host = host, ec_port = port, ec_tls = tls\<rparr>"
  have link: "node_link D W A X now srv app mos N ca ?c"
    by (rule link_up [OF remote(1,2) own(5,2-4) clock _ _ remote(4) trust(1)]) (use remote(3) address(2) tls(2) trust(2) in \<open>simp_all add: from_fingerprints_def\<close>)
  have conn: "conn_new N node tls = Inr ?c" using address by (simp add: conn_new_def)
  obtain secrets blob initial msg where seal: "seal_flight K r (utf8 message) = Inr (secrets, blob, initial, msg)"
      and pay: "initial \<noteq> []" "length initial \<le> 8192" "msg \<noteq> []" "length msg \<le> 8192 + ?n"
      and opens: "\<And>es. se_payload (es ! 0) = initial \<Longrightarrow> se_payload (es ! 1) = msg \<Longrightarrow> open_flight K r secrets blob es = Inr (utf8 message)"
    using flight_opens [OF crypto] by blast
  have q: "length ?q = 32" using crypto(2) by (simp add: flight_rnd_ok_def)
  have st0: "e2_remote (drawn st0) = (k, s)"
    using own(1) relay(3) by (auto simp: e2e_load_ca_def through_def put_e2_fs_def drawn_def split: prod.splits)
  let ?m = "\<lambda>j p. new_mail (mos j) ?q \<lparr>ne_payload = p, ne_ttl = clamp_ttl 300 (ctx_config (app_ctx app))\<rparr>"
  note m = flight_mail(1) [OF relay(4), of k initial, simplified] flight_mail(1) [OF relay(4), of "Suc k" msg, simplified]
  obtain i0 i1 st1 st2 st3 s2 where go: "conn_push D W N ca ?c ?hex initial 300 (drawn st0) = (st1, Inr i0)" "conn_push D W N ca ?c ?hex msg 300 st1 = (st2, Inr i1)"
      "conn_pull D W N ca ?c ?hex 5 st2 = (st3, Inr [mail_envelope (?m k initial), mail_envelope (?m (Suc k) msg)])" "e2_remote st3 = (k + 3, s2)"
      and s2: "turso_inv ?L view s2" "turso_mails ?L view s2 = turso_mails ?L view s @ [?m k initial, ?m (Suc k) msg]" "dates_ok (turso_mails ?L view s2)"
    using flight_pulled [OF link relay(1) st0 relay(4) q pay] by metis
  have R: "\<And>m. m \<in> set (turso_mails ?L view s) \<Longrightarrow> mail_queue m \<noteq> ?q" "fresh_uuid (mos k) \<noteq> fresh_uuid (mos (Suc k))" "1 \<le> max_pull_limit (ctx_config (app_ctx app))"
    using relay(4) by (auto simp: relay_ready_def)
  have P: "pending ?q (se_id (mail_envelope (?m k initial))) (?m k initial)" "pending ?q (se_id (mail_envelope (?m (Suc k) msg))) (?m (Suc k) msg)"
      "se_id (mail_envelope (?m k initial)) \<noteq> se_id (mail_envelope (?m (Suc k) msg))" using R(2) by (simp_all add: m pending_def)
  obtain st4 st5 s' where ack: "ack_each D W N ca ?c ?hex [mail_envelope (?m k initial), mail_envelope (?m (Suc k) msg)] st3 = (st4, Inr ())"
      "conn_pull D W N ca ?c ?hex 0 st4 = (st5, Inr [])" "e2_remote st5 = (k + 3 + 3, s')"
      and s': "turso_mails ?L view s' = turso_mails ?L view s @ [(?m k initial)\<lparr>mail_delivered := Some (now_ms (mos (k + 3)))\<rparr>,
        (?m (Suc k) msg)\<lparr>mail_delivered := Some (now_ms (mos (Suc (k + 3))))\<rparr>]"
    by (rule flight_acked [OF link relay(1,2) go(4) s2(1,3) q R(3) s2(2) R(1) P])
  have "e2e_send K D W N r dir node node_ca_fp message st = (st5, Inr ())"
    using own(1) leaf tls(1) conn seal go ack opens by (simp add: e2e_send_def m Let_def)
  moreover have "live_envelopes ?q t (turso_mails ?L view s') = []" for t
    using R(1) by (auto simp: s' live_envelopes_def live_def filter_empty_conv)
  moreover have "filter (\<lambda>m. mail_queue m \<noteq> ?q) (turso_mails ?L view s') = turso_mails ?L view s"
    using R(1) by (simp add: s' m filter_id_conv)
  ultimately show ?thesis using ack(3) by auto
qed

definition demo_flight_rnd :: e2e_rnd where
  "demo_flight_rnd = \<lparr>er_recipient = replicate 32 7, er_prekeys = demo_rnd, er_sender = replicate 32 8, er_handshake = demo_handshake,
     er_ratchet = replicate 32 1, er_queue = replicate 32 9, er_open = replicate 32 4\<rparr>"

definition demo_client :: "(nat \<times> tables turso) e2e" where
  "demo_client = \<lparr>e2_fs = empty_fs, e2_remote = (0, demo_turso), e2_draws = 0\<rparr>"

lemma demo_relay_ready:
  "relay_up demo_libs ref_engine (\<lambda>T. T) demo_node" "uuid_plain demo_libs"
  "relay_ready demo_libs (\<lambda>T. T) demo_node demo_mos 0 q 2 demo_turso"
proof -
  have hex: "hex_laws demo_libs" using demo_libs_laws by (simp add: libs_laws_def)
  have "to_be_bytes 16 u \<noteq> []" for u :: uuid by (metis length_to_be_bytes list.size(3) zero_neq_numeral)
  then have "seg_ok (ustr (hex_encode demo_libs (to_be_bytes 16 u)))" for u :: uuid using hex_segment(1) [OF hex] by blast
  then show "uuid_plain demo_libs" by (simp add: uuid_plain_def demo_libs_def)
  show "relay_up demo_libs ref_engine (\<lambda>T. T) demo_node" by (simp add: relay_up_def demo_up demo_node_def)
  show "relay_ready demo_libs (\<lambda>T. T) demo_node demo_mos 0 q 2 demo_turso"
    using demo_inv by (simp add: relay_ready_def demo_turso_def turso_mails_def turso_new_def dates_ok_def next_rowid_def I64_MAX_def
      demo_node_def demo_config core_config_default_def demo_mos_def LAST_MS_def empty_tables_def)
qed

theorem e2e_send_succeeds_witness:
  "\<exists>st'. e2e_send demo demo_deps toy_web demo_tls demo_flight_rnd ''pki'' (ustr ''peer:31415'') demo_fp (ustr ''hi'') demo_client = (st', Inr ())"
proof -
  obtain st0 ca where ca: "e2e_load_ca demo_deps ''pki'' demo_client = (st0, Inr ca)" "nc_key ca = nc_key demo_ca"
      "nc_der ca = nc_der demo_ca" "nc_fingerprint ca = nc_fingerprint demo_ca" "nc_leaf_ttl ca = 3600"
    using demo_ca_loads [of "[''buh-e2e-client'']" 3600] by (auto simp: e2e_load_ca_def through_def demo_client_def draw_def)
  have auth: "authority_ok demo_libs toy_x509 (\<lambda>k. [toy_bit k]) ca" using demo_ca_ok ca(2-4) by (simp add: authority_ok_def)
  have leaf: "is_ok (issue_leaf toy_rcgen n 1700000000 ca)" for n using demo_leaf_ok(1) ca(2,5) by (fastforce simp: is_ok_iff)
  have tls: "rustls_ok (dp_rustls demo_deps)" by (simp add: rustls_ok_def demo_deps_def)
  have addr: "rsplit_once 58 (ustr ''peer:31415'') = Some (ustr ''peer'', ustr ''31415'')" "parse_u16 (ustr ''31415'') = Some 31415"
    by (simp_all add: rsplit_once_def ustr_def parse_u16_def is_digit_def digits_value_def Let_def)
  have names: "host_ok (ustr ''peer'')" "tn_server_name demo_tls x" for x
    by (simp_all add: host_ok_def ustr_def is_scalar_def demo_tls_def ideal_tls_def)
  have fp: "demo_fp = ustr (fingerprint demo_libs (nc_der demo_ca))" using demo_ca_ok by (simp add: authority_ok_def demo_fp_def)
  have rnd: "flight_rnd_ok demo demo_flight_rnd"
    by (simp add: flight_rnd_ok_def demo_flight_rnd_def demo_rnd_def demo_handshake_def demo_keys)
  have msg: "length (utf8 (ustr ''hi'')) = 2" by (simp add: utf8_def utf8_char_def ustr_def)
  have trust: "ustr (nc_fingerprint ca) \<in> tc_trust (demo_srv p)" for p by (simp add: demo_srv_def demo_fp_def ca(4))
  from e2e_send_succeeds [OF demo_crypto rnd _ ca(1), of "ustr ''hi''" toy_x509 "\<lambda>k. [toy_bit k]" 1700000001 "ustr ''peer:31415''"
      "ustr ''peer''" "ustr ''31415''" demo_tls 31415 toy_web toy_axum demo_srv demo_node demo_mos "nc_der demo_ca" demo_fp
      ref_engine "\<lambda>T. T" 0 demo_turso]
  show ?thesis
    using auth leaf tls addr names fp msg trust demo_relay_ready demo_clock demo_clock(2) [of 3600] toy_pki_laws toy_web_laws toy_axum_laws
      demo_node_serves demo_node_leaf ca(5) by (auto simp: demo_client_def)
qed

end
