(* ===== verification/Serving.thy ===== *)
theory Serving
  imports Peer_Probe Daemon
begin

text \<open>
  The running node, \<open>crates/buh-api/src/serve.rs\<close>: the accept loop of the mutual-TLS
  listener, the handshakes it spawns, the requests of connected peers, the sweeper and the
  rotation timer, the admin API on the same registry and snapshot, and the shutdown. The tasks
  run concurrently on one state; a step of the relation \<open>serve_step\<close> is a stretch of
  one task. Reading the registry and replacing the snapshot
  are two steps, since both refreshes wait for the registry first. A mailbox request and an
  upload are one step each; \<open>Long_Poll\<close> and \<open>Blob_Concurrency\<close> split them.

  Times are milliseconds. A timer of \<open>tokio::time::interval\<close> is due a period after it was due
  before, however late it fires; the first, immediate tick is consumed.
\<close>

section \<open>The state\<close>

text \<open>A refresh of the snapshot that waits for the registry, or has its answer.\<close>

datatype refresh = Reading | Applying "ustring list"

record ('db, 'r, 'k, 'h, 'c) service =
  svc_deps :: "('db, 'r, 'k, 'h) deps"
  svc_x509 :: "'c x509"
  svc_ca :: "'k node_ca"
  svc_ctx :: "('db, 'r) world ctx"
  svc_rotate_every :: int
  svc_sweep_interval :: int

record ('db, 'r, 'h) server =
  sv_world :: "('db, 'r) world"
  sv_tls :: "'h node_tls"
  sv_now :: int
  sv_accepting :: bool
  sv_streams :: nat
  sv_peers :: "bytes list list"
  sv_rotate_due :: int
  sv_rotation :: "refresh option"
  sv_sweep_due :: int
  sv_admin :: "refresh list"

definition tick_period :: "int \<Rightarrow> int" where
  "tick_period secs = 1000 * max secs 1"

abbreviation svc_registry :: "('db, 'r, 'k, 'h, 'c) service \<Rightarrow> 'db registry_port" where
  "svc_registry S \<equiv> turso_registry (dp_libs (svc_deps S)) (dp_lower (svc_deps S)) (dp_engine (svc_deps S))"

abbreviation sv_db :: "('db, 'r, 'h) server \<Rightarrow> 'db" where
  "sv_db s \<equiv> tm_db (w_mail (sv_world s))"

definition unix_secs :: "int \<Rightarrow> u64" where
  "unix_secs ms = of_int (ms div 1000)"

text \<open>\<open>spawn_sweeper\<close> and \<open>serve_pqmtls\<close> up to the loop.\<close>

definition serve_init ::
  "('db, 'r, 'k, 'h, 'c) service \<Rightarrow> 'h node_tls \<Rightarrow> ('db, 'r) world \<Rightarrow> int \<Rightarrow> ('db, 'r, 'h) server" where
  "serve_init S n w now = \<lparr>
     sv_world = w,
     sv_tls = n\<lparr>nt_trust := adm_live (refresh_trust (svc_registry S) \<lparr>adm_store = tm_db (w_mail w), adm_live = nt_trust n\<rparr>)\<rparr>,
     sv_now = now, sv_accepting = True, sv_streams = 0, sv_peers = [],
     sv_rotate_due = now + tick_period (svc_rotate_every S), sv_rotation = None,
     sv_sweep_due = now + tick_period (svc_sweep_interval S), sv_admin = []\<rparr>"

section \<open>The steps\<close>

text \<open>
  The handshake of an accepted stream: the verifier reads the snapshot of this moment. It is a full
  handshake, in which the client presents its certificates; the resumption of an earlier TLS
  session is inside rustls and not modelled.
\<close>

definition serve_handshake ::
  "('db, 'r, 'k, 'h, 'c) service \<Rightarrow> bytes list \<Rightarrow> ('db, 'r, 'h) server \<Rightarrow> ('db, 'r, 'h) server" where
  "serve_handshake S chain s = (case chain of
       [] \<Rightarrow> s
     | ee # cas \<Rightarrow>
         (case verify_client_cert (dp_libs (svc_deps S)) (svc_x509 S) (nt_trust (sv_tls s)) ee cas (unix_secs (sv_now s)) of
            Inl _ \<Rightarrow> s
          | Inr _ \<Rightarrow> s\<lparr>sv_peers := chain # sv_peers s\<rparr>))"

definition sweep_tick ::
  "('db, 'r, 'k, 'h, 'c) service \<Rightarrow> moment \<Rightarrow> ('db, 'r, 'h) server \<Rightarrow> ('db, 'r, 'h) server" where
  "sweep_tick S mo s = s\<lparr>sv_world := fst (mailbox_sweep (svc_ctx S) mo (sv_world s)),
     sv_sweep_due := sv_sweep_due s + tick_period (svc_sweep_interval S)\<rparr>"

text \<open>A tick of the rotation: the leaf is replaced at once, a failure is logged; then the refresh begins.\<close>

definition rotate_tick ::
  "('db, 'r, 'k, 'h, 'c) service \<Rightarrow> nat \<Rightarrow> ('db, 'r, 'h) server \<Rightarrow> ('db, 'r, 'h) server" where
  "rotate_tick S rnd s = (let D = svc_deps S in s\<lparr>
     sv_tls := fst (rotate_leaf (dp_rustls D) (issue_leaf (dp_rcgen D) rnd (sv_now s div 1000) (svc_ca S)) (sv_tls s)),
     sv_rotate_due := sv_rotate_due s + tick_period (svc_rotate_every S), sv_rotation := Some Reading\<rparr>)"

text \<open>The answer of the registry; a failed listing ends the refresh.\<close>

definition serve_read :: "('db, 'r, 'k, 'h, 'c) service \<Rightarrow> ('db, 'r, 'h) server \<Rightarrow> refresh option" where
  "serve_read S s = (case reg_list (svc_registry S) (sv_db s) of
       Inl _ \<Rightarrow> None
     | Inr peers \<Rightarrow> Some (Applying (map tp_fingerprint peers)))"

definition serve_apply :: "ustring list \<Rightarrow> ('db, 'r, 'h) server \<Rightarrow> ('db, 'r, 'h) server" where
  "serve_apply fps s = s\<lparr>sv_tls := (sv_tls s)\<lparr>nt_trust := trust_store_replace fps (nt_trust (sv_tls s))\<rparr>\<rparr>"

text \<open>The first part of an admin request that changes trust; on success its refresh follows.\<close>

definition admin_change ::
  "('db \<Rightarrow> 'db \<times> (core_error + 'a)) \<Rightarrow> ('db, 'r, 'h) server \<Rightarrow> ('db, 'r, 'h) server" where
  "admin_change f s = (case f (sv_db s) of (db, r) \<Rightarrow>
     s\<lparr>sv_world := put_mail ((w_mail (sv_world s))\<lparr>tm_db := db\<rparr>) (sv_world s),
       sv_admin := sv_admin s @ (if is_ok r then [Reading] else [])\<rparr>)"

definition put_admin_task :: "nat \<Rightarrow> refresh option \<Rightarrow> ('db, 'r, 'h) server \<Rightarrow> ('db, 'r, 'h) server" where
  "put_admin_task i r s = s\<lparr>sv_admin := (case r of
       Some x \<Rightarrow> (sv_admin s)[i := x]
     | None \<Rightarrow> take i (sv_admin s) @ drop (Suc i) (sv_admin s))\<rparr>"

datatype serve_event =
    Wait int
  | Accept
  | Handshake "bytes list"
  | HandshakeFailed
  | Request relay_op
  | Upload string string bytes
  | Closed "bytes list"
  | SweepTick
  | RotateTick
  | RotateRead
  | RotateApply
  | AdminTrust ustring
  | AdminDistrust ustring
  | AdminRead nat
  | AdminApply nat
  | Shutdown

fun op_moment :: "relay_op \<Rightarrow> moment" where
  "op_moment (OpPush mo _ _) = mo"
| "op_moment (OpAck mo _ _) = mo"
| "op_moment (OpSweep mo) = mo"

inductive serve_step ::
  "('db, 'r, 'k, 'h, 'c) service \<Rightarrow> ('db, 'r, 'h) server \<Rightarrow> serve_event \<Rightarrow> ('db, 'r, 'h) server \<Rightarrow> bool"
  for S where
    wait: "0 \<le> t \<Longrightarrow> serve_step S s (Wait t) (s\<lparr>sv_now := sv_now s + t\<rparr>)"
  | accept: "sv_accepting s \<Longrightarrow> serve_step S s Accept (s\<lparr>sv_streams := Suc (sv_streams s)\<rparr>)"
  | handshake: "sv_streams s = Suc n \<Longrightarrow>
      serve_step S s (Handshake chain) (serve_handshake S chain (s\<lparr>sv_streams := n\<rparr>))"
  | handshake_failed: "sv_streams s = Suc n \<Longrightarrow> serve_step S s HandshakeFailed (s\<lparr>sv_streams := n\<rparr>)"
  | request: "sv_peers s \<noteq> [] \<Longrightarrow> now_ms (op_moment op) = sv_now s \<Longrightarrow> op \<noteq> OpSweep mo \<Longrightarrow>
      serve_step S s (Request op) (s\<lparr>sv_world := relay_exec (svc_ctx S) op (sv_world s)\<rparr>)"
  | upload: "sv_peers s \<noteq> [] \<Longrightarrow>
      serve_step S s (Upload b k bs) (s\<lparr>sv_world := fst (blob_put (svc_ctx S) b k bs (sv_world s))\<rparr>)"
  | closed: "chain \<in> set (sv_peers s) \<Longrightarrow>
      serve_step S s (Closed chain) (s\<lparr>sv_peers := remove1 chain (sv_peers s)\<rparr>)"
  | sweep: "sv_sweep_due s \<le> sv_now s \<Longrightarrow> now_ms mo = sv_now s \<Longrightarrow> serve_step S s SweepTick (sweep_tick S mo s)"
  | rotate: "sv_rotate_due s \<le> sv_now s \<Longrightarrow> sv_rotation s = None \<Longrightarrow> serve_step S s RotateTick (rotate_tick S rnd s)"
  | rotate_read: "sv_rotation s = Some Reading \<Longrightarrow>
      serve_step S s RotateRead (s\<lparr>sv_rotation := serve_read S s\<rparr>)"
  | rotate_apply: "sv_rotation s = Some (Applying fps) \<Longrightarrow>
      serve_step S s RotateApply ((serve_apply fps s)\<lparr>sv_rotation := None\<rparr>)"
  | admin_trust: "serve_step S s (AdminTrust fp) (admin_change (reg_trust (svc_registry S) fp note (sv_now s)) s)"
  | admin_distrust: "serve_step S s (AdminDistrust fp) (admin_change (reg_distrust (svc_registry S) fp) s)"
  | admin_read: "i < length (sv_admin s) \<Longrightarrow> sv_admin s ! i = Reading \<Longrightarrow>
      serve_step S s (AdminRead i) (put_admin_task i (serve_read S s) s)"
  | admin_apply: "i < length (sv_admin s) \<Longrightarrow> sv_admin s ! i = Applying fps \<Longrightarrow>
      serve_step S s (AdminApply i) (put_admin_task i None (serve_apply fps s))"
  | shutdown: "serve_step S s Shutdown (s\<lparr>sv_accepting := False\<rparr>)"

inductive serve_run ::
  "('db, 'r, 'k, 'h, 'c) service \<Rightarrow> ('db, 'r, 'h) server \<Rightarrow> serve_event list \<Rightarrow> ('db, 'r, 'h) server \<Rightarrow> bool"
  for S where
    stop: "serve_run S s [] s"
  | more: "serve_run S s evs s' \<Longrightarrow> serve_step S s' ev s'' \<Longrightarrow> serve_run S s (evs @ [ev]) s''"

lemma serve_run_trans:
  assumes "serve_run S s evs s'" "serve_run S s' evs' s''"
  shows "serve_run S s (evs @ evs') s''"
  using assms(2,1)
proof (induction rule: serve_run.induct)
  case (more s' evs' t ev t')
  from serve_run.more [OF more(3) [OF more(4)] more(2)] show ?case by simp
qed simp

lemma serve_run_Cons: "serve_step S s ev s' \<Longrightarrow> serve_run S s' evs s'' \<Longrightarrow> serve_run S s (ev # evs) s''"
  using serve_run_trans [OF serve_run.more [OF serve_run.stop]] by fastforce

section \<open>The mailbox and the registry share a database\<close>

lemma sql_exec_peers:
  "sql_exec st T = Inr (T', n) \<Longrightarrow> \<forall>fp n t. st \<noteq> UpsertPeer fp n t \<Longrightarrow> \<forall>fp. st \<noteq> DeletePeer fp \<Longrightarrow> t_peers T' = t_peers T"
  "sql_exec st T = Inr (T', n) \<Longrightarrow> st = UpsertPeer fp m t \<or> st = DeletePeer fp \<Longrightarrow> \<exists>ps. T' = T\<lparr>t_peers := ps\<rparr>"
  by (cases st; auto)+

lemma turso_execute_peers:
  assumes "sql_sound E view" "turso_execute E st s = (s', r)" "\<forall>fp n t. st \<noteq> UpsertPeer fp n t" "\<forall>fp. st \<noteq> DeletePeer fp"
  shows "t_peers (view (tm_db s')) = t_peers (view (tm_db s))"
proof (cases r)
  case (Inl e)
  then show ?thesis using turso_execute_err [OF assms(1)] assms(2) by auto
next
  case (Inr n)
  then have "sql_exec st (view (tm_db s)) = Inr (view (tm_db s'), n)" using turso_execute_ok [OF assms(1)] assms(2) by simp
  then show ?thesis using sql_exec_peers(1) assms(3,4) by blast
qed

lemma turso_ops_peers:
  assumes "sql_sound E view"
  shows "turso_push L E mo q e s = (s', r1) \<Longrightarrow> t_peers (view (tm_db s')) = t_peers (view (tm_db s))"
    "turso_ack L E q i t s = (s', r2) \<Longrightarrow> t_peers (view (tm_db s')) = t_peers (view (tm_db s))"
    "turso_expire E t s = (s', r3) \<Longrightarrow> t_peers (view (tm_db s')) = t_peers (view (tm_db s))"
  unfolding turso_push_def turso_insert_def turso_ack_def turso_mark_def turso_receipt_def turso_expire_def Let_def
  by (auto elim!: then_do_cases dest!: turso_execute_peers [OF assms] split: if_splits)

lemma relay_exec_peers:
  assumes "sql_sound E view" "ctx_mailbox ctx = on_mailbox w_mail put_mail (turso_repo L E)"
  shows "t_peers (view (tm_db (w_mail (relay_exec ctx op w)))) = t_peers (view (tm_db (w_mail w)))"
proof (cases op)
  case (OpPush mo q req)
  then show ?thesis using turso_ops_peers(1) [OF assms(1)] assms(2)
    by (auto simp: mailbox_push_def on_mailbox_def turso_repo_def through_def Let_def split: prod.splits)
next
  case (OpAck mo q i)
  then show ?thesis using turso_ops_peers(2) [OF assms(1)] assms(2)
    by (auto simp: mailbox_ack_def on_mailbox_def turso_repo_def through_def split: prod.splits)
next
  case (OpSweep mo)
  then show ?thesis using turso_ops_peers(3) [OF assms(1)] assms(2)
    by (auto simp: mailbox_sweep_def on_mailbox_def turso_repo_def through_def split: prod.splits)
qed

text \<open>A change of trust leaves every other table alone.\<close>

lemma registry_tables:
  assumes "sql_sound E view"
  shows "trust lower E fp n t db = (db', r1) \<Longrightarrow> \<exists>ps. view db' = (view db)\<lparr>t_peers := ps\<rparr>"
    "distrust lower E fp db = (db', r2) \<Longrightarrow> \<exists>ps. view db' = (view db)\<lparr>t_peers := ps\<rparr>"
proof -
  have same: "\<exists>ps. T = T\<lparr>t_peers := ps\<rparr>" for T :: tables by (rule exI [of _ "t_peers T"]) simp
  have ex: "\<exists>ps. view db' = (view db)\<lparr>t_peers := ps\<rparr>"
    if run: "registry_execute E st db = (db', r)" and st: "st = UpsertPeer f n t \<or> st = DeletePeer f" for st db db' r f
  proof (cases r)
    case (Inl e)
    with run have "view db' = view db" using registry_execute_err [OF assms] by simp
    then show ?thesis using same [of "view db"] by simp
  next
    case (Inr k)
    with run have "sql_exec st (view db) = Inr (view db', k)" using registry_execute_ok [OF assms] by simp
    then show ?thesis using st by (rule sql_exec_peers(2))
  qed
  have run: "db' = db \<or> (\<exists>r'. registry_execute E st db = (db', r'))"
    if "then_do (db, repo_err (eng_connect E db)) (\<lambda>db _. then_do (registry_execute E st db) (\<lambda>db x. (db, Inr (g x)))) = (db', r)"
    for st g db' and r :: "core_error + 'y"
    using that by (cases "eng_connect E db"; cases "registry_execute E st db"; cases "snd (registry_execute E st db)") auto
  show "trust lower E fp n t db = (db', r1) \<Longrightarrow> \<exists>ps. view db' = (view db)\<lparr>t_peers := ps\<rparr>"
    unfolding trust_def Let_def by (drule run) (use same [of "view db"] ex in auto)
  show "distrust lower E fp db = (db', r2) \<Longrightarrow> \<exists>ps. view db' = (view db)\<lparr>t_peers := ps\<rparr>"
    unfolding distrust_def Let_def by (drule run) (use same [of "view db"] ex in auto)
qed

section \<open>The invariants of a run\<close>

text \<open>The service runs on the SQL mailbox, and uploads do not touch the mailbox.\<close>

definition service_ok :: "('db \<Rightarrow> tables) \<Rightarrow> ('db, 'r, 'k, 'h, 'c) service \<Rightarrow> bool" where
  "service_ok view S \<longleftrightarrow> turso_env (dp_libs (svc_deps S)) (dp_engine (svc_deps S)) view
   \<and> ctx_mailbox (svc_ctx S) = on_mailbox w_mail put_mail (turso_repo (dp_libs (svc_deps S)) (dp_engine (svc_deps S)))
   \<and> (\<forall>B. ctx_blob (svc_ctx S) = Some B \<longrightarrow> (\<forall>b k bs w. w_mail (fst (bs_put B b k bs w)) = w_mail w))"

definition sv_ok :: "('db \<Rightarrow> tables) \<Rightarrow> ('db, 'r, 'k, 'h, 'c) service \<Rightarrow> ('db, 'r, 'h) server \<Rightarrow> bool" where
  "sv_ok view S s \<longleftrightarrow> turso_inv (dp_libs (svc_deps S)) view (w_mail (sv_world s)) \<and> registry_inv view (sv_db s)"

abbreviation sv_trusts :: "('db \<Rightarrow> tables) \<Rightarrow> ('db, 'r, 'h) server \<Rightarrow> ustring set" where
  "sv_trusts view s \<equiv> registry_trusted view (sv_db s)"

abbreviation sv_mails :: "('db \<Rightarrow> tables) \<Rightarrow> ('db, 'r, 'k, 'h, 'c) service \<Rightarrow> ('db, 'r, 'h) server \<Rightarrow> mail list" where
  "sv_mails view S s \<equiv> turso_mails (dp_libs (svc_deps S)) view (w_mail (sv_world s))"

lemma stack_blob_apart:
  "ctx_blob (ds_ctx (with_fs_blob D root st)) = Some B \<Longrightarrow> w_mail (fst (bs_put B b k bs w)) = w_mail w"
  "ctx_blob (ds_ctx (with_s3_blob D settings st)) = Some B \<Longrightarrow> w_mail (fst (bs_put B b k bs w)) = w_mail w"
  by (auto simp: with_fs_blob_def with_s3_blob_def on_blob_def through_def put_fs_def put_s3_def split: prod.splits)

lemma service_okD:
  assumes "service_ok view S"
  shows "turso_env (dp_libs (svc_deps S)) (dp_engine (svc_deps S)) view" "sql_sound (dp_engine (svc_deps S)) view"
    "ctx_mailbox (svc_ctx S) = on_mailbox w_mail put_mail (turso_repo (dp_libs (svc_deps S)) (dp_engine (svc_deps S)))"
    "registry_env (dp_libs (svc_deps S)) (dp_engine (svc_deps S)) view"
  using assms by (auto simp: service_ok_def registry_env_def turso_env_def libs_laws_def)

lemma upload_mail:
  assumes "service_ok view S"
  shows "w_mail (fst (blob_put (svc_ctx S) b k bs w)) = w_mail w"
  using assms unfolding service_ok_def
  by (cases "ctx_blob (svc_ctx S)") (auto simp: blob_put_def blob_store_of_def and_then_def then_do_def split: sum.splits prod.splits)

lemma admin_change_fields:
  assumes "f (sv_db s) = (db, r)"
  shows "sv_db (admin_change f s) = db" "sv_tls (admin_change f s) = sv_tls s" "sv_peers (admin_change f s) = sv_peers s"
    "sv_admin (admin_change f s) = sv_admin s @ (if is_ok r then [Reading] else [])"
    "sv_rotation (admin_change f s) = sv_rotation s" "sv_now (admin_change f s) = sv_now s"
  using assms by (simp_all add: admin_change_def put_mail_def)

text \<open>What an admin change does to the shared database.\<close>

lemma admin_change_keeps:
  assumes "sv_ok view S s" "f (sv_db s) = (db, r)" "registry_inv view db" "view db = (view (sv_db s))\<lparr>t_peers := ps\<rparr>"
  shows "sv_ok view S (admin_change f s) \<and> sv_mails view S (admin_change f s) = sv_mails view S s"
  using assms by (simp add: sv_ok_def admin_change_def turso_inv_def turso_mails_def put_mail_def)

lemma admin_change_db:
  fixes fp m t
  assumes ok: "service_ok view S" "sv_ok view S s"
  defines "f \<equiv> reg_trust (svc_registry S) fp m t" and "g \<equiv> reg_distrust (svc_registry S) fp"
  shows "sv_ok view S (admin_change f s) \<and> sv_mails view S (admin_change f s) = sv_mails view S s"
    "sv_ok view S (admin_change g s) \<and> sv_mails view S (admin_change g s) = sv_mails view S s"
proof -
  note env = service_okD(4) [OF ok(1)] and sound = service_okD(2) [OF ok(1)]
  have inv: "registry_inv view (sv_db s)" using ok(2) by (simp add: sv_ok_def)
  obtain db r where r: "f (sv_db s) = (db, r)" by force
  then obtain ps where "view db = (view (sv_db s))\<lparr>t_peers := ps\<rparr>"
    using registry_tables(1) [OF sound] unfolding f_def turso_registry_def registry_port.simps by blast
  then show "sv_ok view S (admin_change f s) \<and> sv_mails view S (admin_change f s) = sv_mails view S s"
    using turso_peers.trust_law [OF env inv] r unfolding f_def by (intro admin_change_keeps [OF ok(2)]) blast+
  obtain db r where r: "g (sv_db s) = (db, r)" by force
  then obtain ps where "view db = (view (sv_db s))\<lparr>t_peers := ps\<rparr>"
    using registry_tables(2) [OF sound] unfolding g_def turso_registry_def registry_port.simps by blast
  then show "sv_ok view S (admin_change g s) \<and> sv_mails view S (admin_change g s) = sv_mails view S s"
    using turso_peers.distrust_law [OF env inv] r unfolding g_def by (intro admin_change_keeps [OF ok(2)]) blast+
qed

text \<open>A step runs at most one operation on the mailbox, at the time of the clock.\<close>

definition mail_ops :: "('db, 'r, 'h) server \<Rightarrow> serve_event \<Rightarrow> relay_op set" where
  "mail_ops s ev = (case ev of Request op \<Rightarrow> {op} | SweepTick \<Rightarrow> {OpSweep mo |mo. now_ms mo = sv_now s} | _ \<Rightarrow> {})"

lemma relay_exec_ok:
  fixes op
  assumes "service_ok view S" "sv_ok view S s"
  defines "w \<equiv> relay_exec (svc_ctx S) op (sv_world s)"
  shows "turso_inv (dp_libs (svc_deps S)) view (w_mail w)" "registry_inv view (tm_db (w_mail w))"
  using node_relay.relay_exec_inv [OF service_okD(1) [OF assms(1)] _ service_okD(3) [OF assms(1)], of "sv_world s" op]
    relay_exec_peers [OF service_okD(2,3) [OF assms(1)], of op "sv_world s"] assms(2)
  by (simp_all add: w_def sv_ok_def registry_inv_def)

lemma serve_step_mails:
  assumes ok: "service_ok view S" "sv_ok view S s" and step: "serve_step S s ev s'"
  shows "sv_ok view S s' \<and> (sv_mails view S s' = sv_mails view S s
    \<or> (\<exists>op \<in> mail_ops s ev. now_ms (op_moment op) = sv_now s \<and> sv_world s' = relay_exec (svc_ctx S) op (sv_world s)))"
  using step
proof (cases rule: serve_step.cases)
  case (request op mo)
  then show ?thesis using relay_exec_ok [OF ok, of op] by (simp add: mail_ops_def sv_ok_def)
next
  case (sweep mo)
  then show ?thesis using relay_exec_ok [OF ok, of "OpSweep mo"] by (auto simp: mail_ops_def sv_ok_def sweep_tick_def)
next
  case (upload b k bs)
  then show ?thesis using ok(2) upload_mail [OF ok(1)] by (simp add: sv_ok_def)
next
  case (admin_trust fp m)
  then show ?thesis using admin_change_db(1) [OF ok] by simp
next
  case (admin_distrust fp)
  then show ?thesis using admin_change_db(2) [OF ok] by simp
qed (use ok(2) in \<open>auto simp: sv_ok_def serve_handshake_def rotate_tick_def serve_apply_def put_admin_task_def Let_def
      split: list.splits sum.splits\<close>)

lemma serve_run_ok:
  assumes "serve_run S s evs s'" "service_ok view S" "sv_ok view S s"
  shows "sv_ok view S s'"
  using assms by (induction rule: serve_run.induct) (use serve_step_mails in blast)+

lemma serve_step_clock: "serve_step S s ev s' \<Longrightarrow> sv_now s \<le> sv_now s'"
  by (cases rule: serve_step.cases) (auto simp: serve_handshake_def rotate_tick_def sweep_tick_def serve_apply_def put_admin_task_def
      admin_change_def Let_def split: list.splits sum.splits prod.splits)

lemma serve_run_clock: "serve_run S s evs s' \<Longrightarrow> sv_now s \<le> sv_now s'"
  by (induction rule: serve_run.induct) (use serve_step_clock in force)+

end
