(* ===== verification/Serving_Properties.thy ===== *)
theory Serving_Properties
  imports Serving Cli_Properties Relay_Properties
begin

text \<open>
  What a running node guarantees whatever its tasks interleave: who is connected was
  pinned, a removed peer stays out, accepted envelopes stay, the served leaf does not expire
  while the timer keeps up, and the shutdown ends the accepting.
\<close>

section \<open>A node that runs\<close>

definition demo_service :: "(tables, locator \<Rightarrow> bytes option, bool, unit, toy_cert) service" where
  "demo_service = \<lparr>svc_deps = demo_deps, svc_x509 = toy_x509, svc_ca = demo_ca,
     svc_ctx = \<lparr>ctx_mailbox = on_mailbox w_mail put_mail (turso_repo demo_libs ref_engine), ctx_blob = None,
       ctx_pki_fingerprint = Some (nc_fingerprint demo_ca), ctx_config = core_config_default\<rparr>,
     svc_rotate_every = 86400, svc_sweep_interval = 3600\<rparr>"

definition demo_node_tls :: "unit node_tls" where
  "demo_node_tls = \<lparr>nt_kx_groups = pq_kx_groups, nt_trust = trust_store_new, nt_current = \<lparr>ck_certs = chain_der demo_leaf, ck_key = ()\<rparr>\<rparr>"

definition demo_server :: "(tables, locator \<Rightarrow> bytes option, unit) server" where
  "demo_server = serve_init demo_service demo_node_tls (h_world demo_host) 1700000000000"

lemma demo_service_fields [simp]:
  "svc_deps demo_service = demo_deps" "svc_x509 demo_service = toy_x509" "svc_ca demo_service = demo_ca"
  "svc_rotate_every demo_service = 86400" "svc_sweep_interval demo_service = 3600"
  by (simp_all add: demo_service_def)

lemma demo_service_ok: "service_ok (\<lambda>T. T) demo_service"
  by (simp add: service_ok_def demo_env) (simp add: demo_service_def)

lemma demo_peers: "t_peers (tm_db (w_mail (h_world demo_host))) = [\<lparr>pr_fingerprint = demo_fp, pr_note = None, pr_trusted_at = 0\<rparr>]"
  by (simp add: demo_host_def turso_new_def)

lemma demo_host_inv: "turso_inv demo_libs (\<lambda>T. T) (w_mail (h_world demo_host))" "registry_inv (\<lambda>T. T) (tm_db (w_mail (h_world demo_host)))"
  using demo_inv demo_peers by (simp_all add: demo_host_def registry_inv_def turso_inv_def demo_turso_def turso_new_def)

lemma demo_list:
  "list_trusted demo_libs ref_engine (tm_db (w_mail (h_world demo_host))) = Inr [\<lparr>tp_fingerprint = demo_fp, tp_note = None, tp_trusted_at = 0\<rparr>]"
  by (simp add: list_trusted_def peer_of_row_def peer_columns_def ref_engine_def demo_libs_def LAST_MS_def demo_peers)

lemma demo_server_fields:
  "nt_trust (sv_tls demo_server) = {demo_fp}" "sv_world demo_server = h_world demo_host" "sv_now demo_server = 1700000000000"
  "sv_accepting demo_server" "sv_streams demo_server = 0" "sv_peers demo_server = []" "sv_rotation demo_server = None" "sv_admin demo_server = []"
  "sv_rotate_due demo_server = 1700086400000" "nt_current (sv_tls demo_server) = \<lparr>ck_certs = chain_der demo_leaf, ck_key = ()\<rparr>"
  using demo_list
  by (simp_all add: demo_server_def serve_init_def refresh_trust_def turso_registry_def trust_store_replace_def tick_period_def demo_node_tls_def)

lemma demo_chain_accepted: "chain_accepted demo_libs toy_x509 (unix_secs 1700000000000) {demo_fp} (chain_der demo_leaf)"
proof -
  have "leaf_valid demo_libs toy_x509 (unix_secs 1700000000000) (chain_der demo_leaf) (nc_der demo_ca)"
    by (rule issued_leaf_valid [OF toy_pki_laws demo_ca_ok demo_leaf_ok(2)])
      (simp_all add: unix_secs_def u64_to_i64_def CLOCK_SKEW_def DEFAULT_NOT_BEFORE_def DEFAULT_NOT_AFTER_def I64_MAX_def demo_ca_def Let_def)
  moreover have "demo_fp = ustr (fingerprint demo_libs (nc_der demo_ca))" using demo_ca_ok by (simp add: demo_fp_def authority_ok_def)
  ultimately show ?thesis by (simp add: leaf_valid_def)
qed

definition demo_connected :: "(tables, locator \<Rightarrow> bytes option, unit) server" where
  "demo_connected = demo_server\<lparr>sv_streams := 0, sv_peers := [chain_der demo_leaf]\<rparr>"

lemma handshake_accepted:
  assumes "chain_accepted (dp_libs (svc_deps S)) (svc_x509 S) (unix_secs (sv_now s)) (nt_trust (sv_tls s)) chain"
  shows "serve_handshake S chain s = s\<lparr>sv_peers := chain # sv_peers s\<rparr>"
proof -
  obtain ee cas u where "chain = ee # cas"
      "verify_pinned_chain (dp_libs (svc_deps S)) (svc_x509 S) ee cas (unix_secs (sv_now s)) (nt_trust (sv_tls s)) = Inr u"
    using assms by (auto simp: chain_accepted_def is_ok_iff)
  then show ?thesis by (simp add: serve_handshake_def verifiers_agree)
qed

lemma demo_connect: "serve_run demo_service demo_server [Accept, Handshake (chain_der demo_leaf)] demo_connected"
proof -
  let ?s = "demo_server\<lparr>sv_streams := 1\<rparr>"
  have "serve_step demo_service demo_server Accept ?s"
    using serve_step.accept [of demo_server demo_service] demo_server_fields(4,5) by simp
  moreover have "serve_handshake demo_service (chain_der demo_leaf) (?s\<lparr>sv_streams := 0\<rparr>) = demo_connected"
    using handshake_accepted [of demo_service "?s\<lparr>sv_streams := 0\<rparr>" "chain_der demo_leaf"] demo_chain_accepted demo_server_fields(1,3,6)
    by (simp add: demo_connected_def)
  then have "serve_step demo_service ?s (Handshake (chain_der demo_leaf)) demo_connected"
    using serve_step.handshake [of ?s 0 demo_service "chain_der demo_leaf"] by simp
  ultimately show ?thesis by (blast intro: serve_run_Cons serve_run.stop)
qed

section \<open>The snapshot and the registry\<close>

text \<open>The registry of an earlier moment of the run.\<close>

definition seen ::
  "('db \<Rightarrow> tables) \<Rightarrow> ('db, 'r, 'k, 'h, 'c) service \<Rightarrow> ('db, 'r, 'h) server \<Rightarrow> serve_event list \<Rightarrow> ('db, 'r, 'h) server \<Rightarrow> ustring set \<Rightarrow> bool" where
  "seen view S s0 evs s T \<longleftrightarrow> (\<exists>e1 s1 e2. evs = e1 @ e2 \<and> serve_run S s0 e1 s1 \<and> serve_run S s1 e2 s \<and> T = sv_trusts view s1)"

definition sv_tasks :: "('db, 'r, 'h) server \<Rightarrow> refresh set" where
  "sv_tasks s = set_option (sv_rotation s) \<union> set (sv_admin s)"

lemma seen_now: "serve_run S s0 evs s \<Longrightarrow> seen view S s0 evs s (sv_trusts view s)"
  unfolding seen_def by (rule exI [of _ evs]) (auto intro: serve_run.stop)

lemma seen_later: "seen view S s0 evs s T \<Longrightarrow> serve_step S s ev s' \<Longrightarrow> seen view S s0 (evs @ [ev]) s' T"
  unfolding seen_def by (metis append_assoc serve_run.more)

text \<open>How a step changes the snapshot and the refreshes in flight.\<close>

lemma serve_step_trust:
  assumes "serve_step S s ev s'"
  shows "nt_trust (sv_tls s') = nt_trust (sv_tls s)
      \<or> (\<exists>fps. Applying fps \<in> sv_tasks s \<and> nt_trust (sv_tls s') = set fps \<and> (ev = RotateApply \<or> (\<exists>i. ev = AdminApply i)))"
proof -
  have rotate: "nt_trust (fst (rotate_leaf P issued n)) = nt_trust n" for P issued and n :: "'d node_tls"
    by (cases issued) (auto simp: rotate_leaf_def certified_key_def and_then_def map_err_def split: sum.splits)
  show "nt_trust (sv_tls s') = nt_trust (sv_tls s)
      \<or> (\<exists>fps. Applying fps \<in> sv_tasks s \<and> nt_trust (sv_tls s') = set fps \<and> (ev = RotateApply \<or> (\<exists>i. ev = AdminApply i)))"
    using assms
  proof (cases rule: serve_step.cases)
    case (admin_apply i fps)
    then have "Applying fps \<in> set (sv_admin s)" by (metis nth_mem)
    with admin_apply show ?thesis by (auto simp: sv_tasks_def serve_apply_def put_admin_task_def trust_store_replace_def)
  qed (auto simp: sv_tasks_def serve_handshake_def rotate_tick_def sweep_tick_def serve_apply_def put_admin_task_def
      admin_change_def Let_def trust_store_replace_def rotate split: list.splits sum.splits prod.splits)
qed

lemma put_admin_task_tasks:
  assumes "x \<in> sv_tasks (put_admin_task i r s)"
  shows "x \<in> sv_tasks s \<or> r = Some x"
proof (cases r)
  case None
  then show ?thesis using assms by (auto simp: sv_tasks_def put_admin_task_def dest: in_set_takeD in_set_dropD)
next
  case (Some y)
  then have "x \<in> set_option (sv_rotation s) \<or> x \<in> set ((sv_admin s)[i := y])"
    using assms by (simp add: sv_tasks_def put_admin_task_def)
  then show ?thesis using set_update_subset_insert [of "sv_admin s" i y] Some by (auto simp: sv_tasks_def)
qed

lemma serve_step_tasks:
  assumes "serve_step S s ev s'" "x \<in> sv_tasks s'"
  shows "x \<in> sv_tasks s \<or> x = Reading \<or> (serve_read S s = Some x \<and> sv_db s' = sv_db s)"
  using assms(1)
proof (cases rule: serve_step.cases)
  case (admin_read i)
  then have "sv_db s' = sv_db s" by (simp add: put_admin_task_def)
  then show ?thesis using put_admin_task_tasks [of x i "serve_read S s" s] admin_read assms(2) by auto
next
  case (admin_apply i fps)
  then have "x \<in> sv_tasks (serve_apply fps s)" using put_admin_task_tasks [of x i None] assms(2) by auto
  then show ?thesis by (simp add: sv_tasks_def serve_apply_def)
qed (use assms(2) in \<open>auto simp: sv_tasks_def serve_handshake_def rotate_tick_def sweep_tick_def serve_apply_def
      admin_change_def Let_def split: list.splits sum.splits prod.splits if_splits\<close>)

lemma serve_read_trusted:
  assumes "service_ok view S" "sv_ok view S s" "serve_read S s = Some (Applying fps)"
  shows "set fps = sv_trusts view s"
  using assms turso_peers.list_law [OF service_okD(4) [OF assms(1)], of "sv_db s"]
  by (auto simp: serve_read_def sv_ok_def split: sum.splits)

text \<open>In a run from the start, the snapshot is empty or an earlier registry, and so is what a refresh has read.\<close>

lemma snapshot_seen:
  assumes run: "serve_run S s0 evs s" and ok: "service_ok view S" "sv_ok view S s0"
    and start: "nt_trust (sv_tls s0) = {} \<or> nt_trust (sv_tls s0) = sv_trusts view s0" "sv_tasks s0 = {}"
  shows "(nt_trust (sv_tls s) = {} \<or> seen view S s0 evs s (nt_trust (sv_tls s)))
    \<and> (\<forall>fps. Applying fps \<in> sv_tasks s \<longrightarrow> seen view S s0 evs s (set fps))"
  using run ok(2) start
proof (induction rule: serve_run.induct)
  case (stop s)
  then show ?case using seen_now [OF serve_run.stop [of S s], of view] by auto
next
  case (more s0 evs s ev s')
  have run: "serve_run S s0 (evs @ [ev]) s'" by (rule serve_run.more [OF more.hyps])
  have now: "sv_ok view S s" by (rule serve_run_ok [OF more.hyps(1) ok(1) more.prems(1)])
  note IH = more.IH [OF more.prems]
  have later: "seen view S s0 (evs @ [ev]) s' T" if "seen view S s0 evs s T" for T
    by (rule seen_later [OF that more.hyps(2)])
  have "seen view S s0 (evs @ [ev]) s' (set fps)" if "Applying fps \<in> sv_tasks s'" for fps
    using serve_step_tasks [OF more.hyps(2) that]
  proof (elim disjE conjE)
    assume "serve_read S s = Some (Applying fps)" "sv_db s' = sv_db s"
    then show ?thesis using serve_read_trusted [OF ok(1) now, of fps] seen_now [OF run, of view] by simp
  qed (use IH later in auto)
  moreover have "nt_trust (sv_tls s') = {} \<or> seen view S s0 (evs @ [ev]) s' (nt_trust (sv_tls s'))"
    using serve_step_trust [OF more.hyps(2)] IH later by auto
  ultimately show ?case by blast
qed

section \<open>Who is connected\<close>

lemma serve_step_peers:
  assumes "serve_step S s ev s'" "chain \<in> set (sv_peers s')"
  shows "chain \<in> set (sv_peers s)
    \<or> chain_accepted (dp_libs (svc_deps S)) (svc_x509 S) (unix_secs (sv_now s)) (nt_trust (sv_tls s)) chain"
  using assms(1)
proof (cases rule: serve_step.cases)
  case (handshake n c)
  then show ?thesis using assms(2)
    by (auto simp: serve_handshake_def chain_accepted_def verifiers_agree split: list.splits sum.splits)
next
  case (closed c)
  then show ?thesis using assms(2) set_remove1_subset by fastforce
qed (use assms(2) in \<open>auto simp: rotate_tick_def sweep_tick_def serve_apply_def put_admin_task_def admin_change_def Let_def
    split: prod.splits\<close>)

lemma serve_step_registry:
  assumes ok: "service_ok view S" "sv_ok view S s" and step: "serve_step S s ev s'" and "fp \<in> sv_trusts view s'"
  shows "fp \<in> sv_trusts view s \<or> (\<exists>fp'. ev = AdminTrust fp' \<and> fp = normalize_fp (dp_lower (svc_deps S)) fp')"
proof -
  note env = service_okD(4) [OF ok(1)]
  have inv: "registry_inv view (sv_db s)" using ok(2) by (simp add: sv_ok_def)
  have relay: "registry_trusted view (tm_db (w_mail (relay_exec (svc_ctx S) op (sv_world s)))) = sv_trusts view s" for op
    using relay_exec_peers [OF service_okD(2,3) [OF ok(1)], of op "sv_world s"] by (simp add: registry_trusted_def)
  from step show ?thesis
  proof (cases rule: serve_step.cases)
    case (admin_trust fp' m)
    obtain db r where r: "reg_trust (svc_registry S) fp' m (sv_now s) (sv_db s) = (db, r)" by force
    then have "sv_db s' = db" using admin_trust admin_change_fields(1) by metis
    then show ?thesis using turso_peers.trust_law [OF env inv r] admin_trust assms(4) by (auto split: if_splits)
  next
    case (admin_distrust fp')
    obtain db r where r: "reg_distrust (svc_registry S) fp' (sv_db s) = (db, r)" by force
    then have "sv_db s' = db" using admin_distrust admin_change_fields(1) by metis
    then show ?thesis using turso_peers.distrust_law [OF env inv r] assms(4) by (auto split: if_splits)
  next
    case (request op mo)
    then show ?thesis using relay [of op] assms(4) by simp
  next
    case (sweep mo)
    then show ?thesis using relay [of "OpSweep mo"] assms(4) by (simp add: sweep_tick_def)
  next
    case (upload b k bs)
    then show ?thesis using upload_mail [OF ok(1)] assms(4) by simp
  qed (use assms(4) in \<open>auto simp: serve_handshake_def rotate_tick_def serve_apply_def put_admin_task_def Let_def
      split: list.splits sum.splits\<close>)
qed

lemma connected_accepted:
  assumes "serve_run S s0 evs s" "chain \<in> set (sv_peers s)" "sv_peers s0 = []"
  shows "\<exists>e1 s1 e2. evs = e1 @ e2 \<and> serve_run S s0 e1 s1 \<and> serve_run S s1 e2 s
    \<and> chain_accepted (dp_libs (svc_deps S)) (svc_x509 S) (unix_secs (sv_now s1)) (nt_trust (sv_tls s1)) chain"
  using assms
proof (induction rule: serve_run.induct)
  case (more s0 evs s ev s')
  show ?case
  proof (cases "chain \<in> set (sv_peers s)")
    case True
    from more.IH [OF this more.prems(2)] show ?thesis
      using serve_run.more [OF _ more.hyps(2)] by (metis append_assoc)
  next
    case False
    moreover have "serve_run S s [ev] s'" using serve_run.more [OF serve_run.stop more.hyps(2)] by simp
    ultimately show ?thesis using serve_step_peers [OF more.hyps(2) more.prems(1)] more.hyps(1) by blast
  qed
qed simp

lemma serve_init_ok:
  fixes now
  assumes "service_ok view S" "turso_inv (dp_libs (svc_deps S)) view (w_mail w)" "registry_inv view (tm_db (w_mail w))" "nt_trust n = trust_store_new"
  defines "s0 \<equiv> serve_init S n w now"
  shows "sv_ok view S s0" "nt_trust (sv_tls s0) = {} \<or> nt_trust (sv_tls s0) = sv_trusts view s0" "sv_tasks s0 = {}" "sv_peers s0 = []"
  using assms turso_peers.refresh_trust_ok [OF service_okD(4) [OF assms(1)], of "\<lparr>adm_store = tm_db (w_mail w), adm_live = nt_trust n\<rparr>"]
  by (auto simp: s0_def serve_init_def sv_ok_def sv_tasks_def trust_store_new_def)

text \<open>
  C20. Whoever is connected was pinned. In any run of a node, with every interleaving of
  handshakes, requests, refreshes, admin changes and timers and with any failures, a
  connected peer presented a chain that the verifier accepted against the snapshot of
  that moment, and this snapshot was the registry of an earlier moment of the run.
\<close>

theorem connected_peers_pinned:
  assumes node: "service_ok view S" "turso_inv (dp_libs (svc_deps S)) view (w_mail w)" "registry_inv view (tm_db (w_mail w))"
      "nt_trust n = trust_store_new"
    and run: "serve_run S (serve_init S n w now) evs s" "chain \<in> set (sv_peers s)"
  shows "\<exists>e1 s1 e2 s2 e3. evs = e1 @ e2 @ e3 \<and> serve_run S (serve_init S n w now) e1 s1 \<and> serve_run S s1 e2 s2 \<and> serve_run S s2 e3 s
    \<and> nt_trust (sv_tls s2) = sv_trusts view s1 \<and> ustr (fingerprint (dp_libs (svc_deps S)) (last chain)) \<in> sv_trusts view s1
    \<and> chain_accepted (dp_libs (svc_deps S)) (svc_x509 S) (unix_secs (sv_now s2)) (nt_trust (sv_tls s2)) chain"
proof -
  note init = serve_init_ok [OF node, of now]
  obtain e s2 e3 where s2: "evs = e @ e3" "serve_run S (serve_init S n w now) e s2" "serve_run S s2 e3 s"
      "chain_accepted (dp_libs (svc_deps S)) (svc_x509 S) (unix_secs (sv_now s2)) (nt_trust (sv_tls s2)) chain"
    using connected_accepted [OF run init(4)] by blast
  have pin: "ustr (fingerprint (dp_libs (svc_deps S)) (last chain)) \<in> nt_trust (sv_tls s2)" using chain_accepted_pinned [OF s2(4)] by blast
  then have "seen view S (serve_init S n w now) e s2 (nt_trust (sv_tls s2))"
    using snapshot_seen [OF s2(2) node(1) init(1-3)] by auto
  then obtain e1 s1 e2 where "e = e1 @ e2" "serve_run S (serve_init S n w now) e1 s1" "serve_run S s1 e2 s2" "nt_trust (sv_tls s2) = sv_trusts view s1"
    unfolding seen_def by blast
  then show ?thesis using s2 pin by (metis append_assoc)
qed

theorem connected_peers_pinned_witness:
  "serve_run demo_service demo_server [Accept, Handshake (chain_der demo_leaf)] demo_connected \<and> sv_peers demo_connected = [chain_der demo_leaf]
    \<and> (\<exists>e1 s1 e2 s2 e3. serve_run demo_service demo_server e1 s1 \<and> serve_run demo_service s1 e2 s2 \<and> serve_run demo_service s2 e3 demo_connected
        \<and> nt_trust (sv_tls s2) = sv_trusts (\<lambda>T. T) s1
        \<and> chain_accepted demo_libs toy_x509 (unix_secs (sv_now s2)) (nt_trust (sv_tls s2)) (chain_der demo_leaf))"
proof -
  have node: "turso_inv (dp_libs (svc_deps demo_service)) (\<lambda>T. T) (w_mail (h_world demo_host))" "nt_trust demo_node_tls = trust_store_new"
    using demo_host_inv(1) by (simp_all add: demo_node_tls_def)
  have peers: "chain_der demo_leaf \<in> set (sv_peers demo_connected)" by (simp add: demo_connected_def)
  from connected_peers_pinned [OF demo_service_ok node(1) demo_host_inv(2) node(2) demo_connect [unfolded demo_server_def] peers] demo_connect
  show ?thesis unfolding demo_server_def [symmetric] by (simp add: demo_connected_def) blast
qed

section \<open>A removed peer stays out\<close>

text \<open>The peer is not in the registry, and no refresh in flight has read it before it left.\<close>

definition leaving :: "('db \<Rightarrow> tables) \<Rightarrow> ustring \<Rightarrow> ('db, 'r, 'h) server \<Rightarrow> bool" where
  "leaving view fp s \<longleftrightarrow> fp \<notin> sv_trusts view s \<and> (\<forall>fps. Applying fps \<in> sv_tasks s \<longrightarrow> fp \<notin> set fps)"

definition no_retrust :: "('db, 'r, 'k, 'h, 'c) service \<Rightarrow> ustring \<Rightarrow> serve_event list \<Rightarrow> bool" where
  "no_retrust S fp evs \<longleftrightarrow> (\<forall>fp'. AdminTrust fp' \<in> set evs \<longrightarrow> normalize_fp (dp_lower (svc_deps S)) fp' \<noteq> fp)"

lemma leaving_step:
  assumes ok: "service_ok view S" "sv_ok view S s" and step: "serve_step S s ev s'"
    and out: "leaving view fp s" "no_retrust S fp [ev]"
  shows "leaving view fp s'" "fp \<in> nt_trust (sv_tls s') \<Longrightarrow> fp \<in> nt_trust (sv_tls s) \<and> ev \<noteq> RotateApply \<and> (\<forall>i. ev \<noteq> AdminApply i)"
proof -
  have "fp \<notin> sv_trusts view s'"
    using serve_step_registry [OF ok step, of fp] out by (auto simp: leaving_def no_retrust_def)
  moreover have "fp \<notin> set fps" if "Applying fps \<in> sv_tasks s'" for fps
    using serve_step_tasks [OF step that] serve_read_trusted [OF ok, of fps] out(1) by (auto simp: leaving_def)
  ultimately show "leaving view fp s'" by (simp add: leaving_def)
  have applied: "fp \<notin> nt_trust (sv_tls s')" if "ev = RotateApply \<or> (\<exists>i. ev = AdminApply i)"
    using step
  proof (cases rule: serve_step.cases)
    case (rotate_apply fps)
    then show ?thesis using out(1) by (auto simp: leaving_def sv_tasks_def serve_apply_def trust_store_replace_def)
  next
    case (admin_apply i fps)
    then have "Applying fps \<in> set (sv_admin s)" by (metis nth_mem)
    then show ?thesis using admin_apply out(1)
      by (auto simp: leaving_def sv_tasks_def serve_apply_def put_admin_task_def trust_store_replace_def)
  qed (use that in auto)
  show "fp \<in> nt_trust (sv_tls s') \<Longrightarrow> fp \<in> nt_trust (sv_tls s) \<and> ev \<noteq> RotateApply \<and> (\<forall>i. ev \<noteq> AdminApply i)"
    using serve_step_trust [OF step] out(1) applied by (auto simp: leaving_def)
qed

lemma leaving_run:
  assumes "serve_run S s evs s'" "service_ok view S" "sv_ok view S s" "leaving view fp s" "no_retrust S fp evs"
  shows "leaving view fp s'" "fp \<in> nt_trust (sv_tls s') \<Longrightarrow> fp \<in> nt_trust (sv_tls s) \<and> RotateApply \<notin> set evs \<and> (\<forall>i. AdminApply i \<notin> set evs)"
proof -
  have "leaving view fp s' \<and> (fp \<in> nt_trust (sv_tls s') \<longrightarrow> fp \<in> nt_trust (sv_tls s) \<and> RotateApply \<notin> set evs \<and> (\<forall>i. AdminApply i \<notin> set evs))"
    using assms(1,3-5)
  proof (induction rule: serve_run.induct)
    case (more s evs t ev t')
    have t: "sv_ok view S t" by (rule serve_run_ok [OF more.hyps(1) assms(2) more.prems(1)])
    have "no_retrust S fp evs" "no_retrust S fp [ev]" using more.prems(3) by (auto simp: no_retrust_def)
    with more.IH [OF more.prems(1,2)] leaving_step [OF assms(2) t more.hyps(2), of fp] show ?case by auto
  qed simp
  then show "leaving view fp s'" "fp \<in> nt_trust (sv_tls s') \<Longrightarrow> fp \<in> nt_trust (sv_tls s) \<and> RotateApply \<notin> set evs \<and> (\<forall>i. AdminApply i \<notin> set evs)"
    by blast+
qed

text \<open>A step adds a connection of a chain only when it is the handshake the verifier accepts.\<close>

lemma serve_step_count:
  assumes "serve_step S s ev s'" "ustr (fingerprint (dp_libs (svc_deps S)) (last chain)) \<notin> nt_trust (sv_tls s)"
  shows "count_list (sv_peers s') chain \<le> count_list (sv_peers s) chain"
  using assms(1)
proof (cases rule: serve_step.cases)
  case (handshake n c)
  have "\<not> chain_accepted (dp_libs (svc_deps S)) (svc_x509 S) (unix_secs (sv_now s)) (nt_trust (sv_tls s)) chain"
    using assms(2) chain_accepted_pinned by blast
  then show ?thesis using handshake
    by (auto simp: serve_handshake_def chain_accepted_def verifiers_agree split: list.splits sum.splits)
next
  case (closed c)
  then show ?thesis by (simp add: count_list_remove1)
qed (auto simp: rotate_tick_def sweep_tick_def serve_apply_def put_admin_task_def admin_change_def Let_def split: prod.splits)

lemma shut_out_run:
  assumes "serve_run S s evs s'" "service_ok view S" "sv_ok view S s" "leaving view fp s" "fp \<notin> nt_trust (sv_tls s)" "no_retrust S fp evs"
    and "ustr (fingerprint (dp_libs (svc_deps S)) (last chain)) = fp"
  shows "fp \<notin> nt_trust (sv_tls s') \<and> count_list (sv_peers s') chain \<le> count_list (sv_peers s) chain"
  using assms(1,3-7)
proof (induction rule: serve_run.induct)
  case (more s evs t ev t')
  have evs: "no_retrust S fp evs" using more.prems(4) by (auto simp: no_retrust_def)
  have "fp \<notin> nt_trust (sv_tls t')"
    using leaving_run(2) [OF serve_run.more [OF more.hyps] assms(2) more.prems(1,2,4)] more.prems(3) by blast
  moreover have "fp \<notin> nt_trust (sv_tls t)" "count_list (sv_peers t) chain \<le> count_list (sv_peers s) chain"
    using more.IH [OF more.prems(1-3) evs more.prems(5)] by blast+
  ultimately show ?case using serve_step_count [OF more.hyps(2), of chain] more.prems(5) by auto
qed simp

text \<open>
  C21. Distrust holds. When the registry has removed a peer and no refresh in flight had
  read it before, then from the first refresh on that is applied every handshake in which the
  peer presents its certificates is refused, whatever else happens and whether or not an older
  connection of the peer is still open, until an operator trusts it again; and the number of its
  connections never grows. A refresh that had read the registry before the removal is
  excluded: it would bring the peer back. The handshakes are full ones, in which the
  verifier is asked; resumed TLS sessions are outside the model.
\<close>

theorem distrusted_peer_stays_out:
  assumes node: "service_ok view S" "sv_ok view S s0" "\<forall>x \<in> sv_tasks s0. x = Reading"
    and removed: "serve_step S s0 (AdminDistrust fp0) s1" "sv_admin s1 = sv_admin s0 @ [Reading]"
      "fp = normalize_fp (dp_lower (svc_deps S)) fp0"
    and refreshed: "serve_run S s1 evs s2" "RotateApply \<in> set evs \<or> (\<exists>i. AdminApply i \<in> set evs)"
    and later: "serve_run S s2 evs' s3" "no_retrust S fp (evs @ evs')"
    and chain: "ustr (fingerprint (dp_libs (svc_deps S)) (last chain)) = fp"
  shows "count_list (sv_peers s3) chain \<le> count_list (sv_peers s2) chain
    \<and> (\<forall>s4. serve_step S s3 (Handshake chain) s4 \<longrightarrow> sv_peers s4 = sv_peers s3)"
proof -
  have s1: "sv_ok view S s1" using serve_step_mails [OF node(1,2) removed(1)] by blast
  have s2: "sv_ok view S s2" by (rule serve_run_ok [OF refreshed(1) node(1) s1])
  have ne: "no_retrust S fp evs" "no_retrust S fp evs'" using later(2) by (auto simp: no_retrust_def)
  obtain db r where r: "reg_distrust (svc_registry S) fp0 (sv_db s0) = (db, r)" by force
  have change: "s1 = admin_change (reg_distrust (svc_registry S) fp0) s0"
    using removed(1) by (cases rule: serve_step.cases) auto
  have "is_ok r" using removed(2) admin_change_fields(4) [of "reg_distrust (svc_registry S) fp0" s0, OF r] change
    by (auto split: if_splits)
  moreover have "registry_inv view (sv_db s0)" using node(2) by (simp add: sv_ok_def)
  ultimately have "fp \<notin> sv_trusts view s1"
    using turso_peers.distrust_law [OF service_okD(4) [OF node(1)] _ r] admin_change_fields(1) [of "reg_distrust (svc_registry S) fp0" s0, OF r] change removed(3)
    by auto
  moreover have "Applying fps \<notin> sv_tasks s1" for fps
    using serve_step_tasks [OF removed(1), of "Applying fps"] node(3) removed(2) by (auto simp: sv_tasks_def change admin_change_def split: prod.splits)
  ultimately have s1_out: "leaving view fp s1" by (simp add: leaving_def)
  have "leaving view fp s2" "fp \<notin> nt_trust (sv_tls s2)"
    using leaving_run [OF refreshed(1) node(1) s1 s1_out ne(1)] refreshed(2) by blast+
  from shut_out_run [OF later(1) node(1) s2 this ne(2) chain]
  have out: "fp \<notin> nt_trust (sv_tls s3)" "count_list (sv_peers s3) chain \<le> count_list (sv_peers s2) chain" by blast+
  have "sv_peers s4 = sv_peers s3" if "serve_step S s3 (Handshake chain) s4" for s4
    using that
  proof (cases rule: serve_step.cases)
    case (handshake n)
    have "\<not> chain_accepted (dp_libs (svc_deps S)) (svc_x509 S) (unix_secs (sv_now s3)) (nt_trust (sv_tls s3)) chain"
      using out(1) chain chain_accepted_pinned by blast
    then show ?thesis using handshake
      by (auto simp: serve_handshake_def chain_accepted_def verifiers_agree split: list.splits sum.splits)
  qed
  with out(2) show ?thesis by blast
qed

lemma demo_connected_fields:
  "sv_world demo_connected = h_world demo_host" "sv_admin demo_connected = []" "sv_rotation demo_connected = None" "sv_accepting demo_connected"
  "sv_peers demo_connected = [chain_der demo_leaf]" "sv_now demo_connected = 1700000000000" "sv_streams demo_connected = 0"
  using demo_server_fields by (simp_all add: demo_connected_def)

lemma demo_connected_ok: "sv_ok (\<lambda>T. T) demo_service demo_connected"
  using demo_host_inv by (simp add: sv_ok_def demo_connected_fields)

lemma demo_distrust_run:
  "\<exists>s1 s2 s3. serve_step demo_service demo_connected (AdminDistrust demo_fp) s1 \<and> sv_admin s1 = [Reading]
    \<and> serve_run demo_service s1 [AdminRead 0, AdminApply 0] s2 \<and> sv_peers s2 = [chain_der demo_leaf]
    \<and> serve_run demo_service s2 [Accept] s3 \<and> sv_peers s3 = [chain_der demo_leaf] \<and> sv_streams s3 = 1"
proof -
  let ?T = "tm_db (w_mail (h_world demo_host))" and ?c = "chain_der demo_leaf"
  define s1 where "s1 = admin_change (reg_distrust (svc_registry demo_service) demo_fp) demo_connected"
  have d: "reg_distrust (svc_registry demo_service) demo_fp (sv_db demo_connected) = (?T\<lparr>t_peers := []\<rparr>, Inr True)"
    by (simp add: turso_registry_def distrust_def registry_execute_def ref_engine_def demo_fp_ok(1) demo_connected_fields(1) demo_peers)
  note s1 = admin_change_fields [of "reg_distrust (svc_registry demo_service) demo_fp" demo_connected, OF d, folded s1_def, simplified]
  define s2 where "s2 = s1\<lparr>sv_admin := [Applying []]\<rparr>"
  define s3 where "s3 = put_admin_task 0 None (serve_apply [] s2)"
  define s4 where "s4 = s3\<lparr>sv_streams := Suc (sv_streams s3)\<rparr>"
  have read: "serve_read demo_service s1 = Some (Applying [])"
    by (simp add: serve_read_def turso_registry_def list_trusted_def s1(1)) (simp add: ref_engine_def)
  have "serve_step demo_service s1 (AdminRead 0) s2"
    using serve_step.admin_read [of 0 s1 demo_service] by (simp add: s1 demo_connected_fields(2) read put_admin_task_def s2_def)
  moreover have "serve_step demo_service s2 (AdminApply 0) s3"
    using serve_step.admin_apply [of 0 s2 "[]" demo_service] by (simp add: s2_def s3_def)
  ultimately have run: "serve_run demo_service s1 [AdminRead 0, AdminApply 0] s3" by (blast intro: serve_run_Cons serve_run.stop)
  have fields: "sv_accepting s3" "sv_peers s3 = [?c]" "sv_streams s3 = 0"
    using demo_connected_fields(4,5,7)
    by (simp_all add: s3_def s2_def s1_def put_admin_task_def serve_apply_def admin_change_def split: prod.splits)
  then have "serve_step demo_service s3 Accept s4" using serve_step.accept [of s3 demo_service] by (simp add: s4_def)
  then have "serve_run demo_service s3 [Accept] s4" by (blast intro: serve_run_Cons serve_run.stop)
  moreover have "serve_step demo_service demo_connected (AdminDistrust demo_fp) s1" unfolding s1_def by (rule serve_step.admin_distrust)
  moreover have "sv_admin s1 = [Reading]" "sv_peers s4 = [?c]" "sv_streams s4 = 1"
    using fields by (simp_all add: s1 demo_connected_fields(2) s4_def)
  ultimately show ?thesis using run fields(2) by blast
qed

theorem distrusted_peer_stays_out_witness:
  "\<exists>s1 s2 s3 s4. serve_step demo_service demo_connected (AdminDistrust demo_fp) s1
    \<and> serve_run demo_service s1 [AdminRead 0, AdminApply 0] s2
    \<and> serve_run demo_service s2 [Accept] s3 \<and> sv_peers s3 = [chain_der demo_leaf]
    \<and> serve_step demo_service s3 (Handshake (chain_der demo_leaf)) s4 \<and> sv_peers s4 = [chain_der demo_leaf]"
proof -
  let ?c = "chain_der demo_leaf"
  obtain s1 s2 s3 where run: "serve_step demo_service demo_connected (AdminDistrust demo_fp) s1" "sv_admin s1 = [Reading]"
    "serve_run demo_service s1 [AdminRead 0, AdminApply 0] s2" "sv_peers s2 = [?c]"
    "serve_run demo_service s2 [Accept] s3" "sv_peers s3 = [?c]" "sv_streams s3 = 1"
    using demo_distrust_run by blast
  have chain: "ustr (fingerprint (dp_libs (svc_deps demo_service)) (last ?c)) = demo_fp"
    using issue_leaf_chain [OF demo_leaf_ok(2)] demo_ca_ok by (auto simp: demo_fp_def authority_ok_def)
  have node: "\<forall>x \<in> sv_tasks demo_connected. x = Reading" "sv_admin s1 = sv_admin demo_connected @ [Reading]"
      "demo_fp = normalize_fp (dp_lower (svc_deps demo_service)) demo_fp"
      "no_retrust demo_service demo_fp ([AdminRead 0, AdminApply 0] @ [Accept])"
    using run(2) by (simp_all add: sv_tasks_def demo_connected_fields demo_fp_ok(1) no_retrust_def)
  have step: "serve_step demo_service s3 (Handshake ?c) (serve_handshake demo_service ?c (s3\<lparr>sv_streams := 0\<rparr>))"
    by (rule serve_step.handshake) (simp add: run(7))
  have "sv_peers (serve_handshake demo_service ?c (s3\<lparr>sv_streams := 0\<rparr>)) = [?c]"
    using distrusted_peer_stays_out [OF demo_service_ok demo_connected_ok node(1) run(1) node(2,3) run(3) _ run(5) node(4) chain] step run(6)
    by simp
  then show ?thesis using run step by blast
qed

section \<open>Shutting down\<close>

definition handshakes :: "serve_event list \<Rightarrow> nat" where
  "handshakes evs = length (filter (\<lambda>ev. ev = HandshakeFailed \<or> (\<exists>chain. ev = Handshake chain)) evs)"

lemma serve_step_streams:
  assumes "serve_step S s ev s'"
  shows "handshakes [ev] + sv_streams s' = sv_streams s + count_list [ev] Accept"
  using assms
  by (cases rule: serve_step.cases) (auto simp: handshakes_def serve_handshake_def rotate_tick_def sweep_tick_def serve_apply_def
      put_admin_task_def admin_change_def Let_def split: list.splits sum.splits prod.splits)

text \<open>Every stream that was accepted is one whose handshake has ended, one way or the other, or one
  that is still open.\<close>

lemma serve_run_streams: "serve_run S s evs s' \<Longrightarrow> handshakes evs + sv_streams s' = sv_streams s + count_list evs Accept"
proof (induction rule: serve_run.induct)
  case (stop s)
  then show ?case by (simp add: handshakes_def)
next
  case (more s evs s' ev s'')
  then show ?case using serve_step_streams [OF more.hyps(2)] by (simp add: handshakes_def)
qed

lemma serve_step_accepting:
  assumes "serve_step S s ev s'" "\<not> sv_accepting s"
  shows "\<not> sv_accepting s' \<and> ev \<noteq> Accept"
  using assms
  by (cases rule: serve_step.cases) (auto simp: serve_handshake_def rotate_tick_def sweep_tick_def serve_apply_def
      put_admin_task_def admin_change_def Let_def split: list.splits sum.splits prod.splits)

lemma serve_run_accepting: "serve_run S s evs s' \<Longrightarrow> \<not> sv_accepting s \<Longrightarrow> \<not> sv_accepting s' \<and> Accept \<notin> set evs"
  by (induction rule: serve_run.induct) (auto dest: serve_step_accepting)

inductive_cases serve_shutdownE: "serve_step S s Shutdown s'"

text \<open>
  C24. The shutdown ends the accepting. In a run that receives the signal, whatever happened
  before and happens after, the loop accepts nothing after the signal, and every stream it had
  accepted is accounted for: the streams accepted before the signal are those whose handshake
  has ended, before or after the signal, and those still open where the run ends. (A run may
  end at any point after the signal: nothing in the loop waits for the open ones.)
\<close>

theorem shutdown_stops_accepting:
  assumes "serve_run S s evs1 s1" "serve_step S s1 Shutdown s2" "serve_run S s2 evs2 s3"
  shows "\<not> sv_accepting s3 \<and> Accept \<notin> set evs2
    \<and> handshakes evs1 + handshakes evs2 + sv_streams s3 = sv_streams s + count_list evs1 Accept"
proof -
  from assms(2) have s2: "\<not> sv_accepting s2" "sv_streams s2 = sv_streams s1" by (auto elim: serve_shutdownE)
  have off: "\<not> sv_accepting s3 \<and> Accept \<notin> set evs2" by (rule serve_run_accepting [OF assms(3) s2(1)])
  then have "count_list evs2 Accept = 0" by (simp add: count_list_0_iff)
  with off serve_run_streams [OF assms(1)] serve_run_streams [OF assms(3)] s2(2) show ?thesis by simp
qed

theorem shutdown_stops_accepting_witness:
  "\<exists>s1 s2 s3. serve_run demo_service demo_server [Accept] s1 \<and> serve_step demo_service s1 Shutdown s2
    \<and> serve_run demo_service s2 [HandshakeFailed] s3 \<and> sv_streams s3 = 0 \<and> \<not> sv_accepting s3"
proof -
  let ?s1 = "demo_server\<lparr>sv_streams := 1\<rparr>"
  let ?s2 = "?s1\<lparr>sv_accepting := False\<rparr>"
  have "serve_step demo_service demo_server Accept ?s1"
    using serve_step.accept [of demo_server demo_service] demo_server_fields(4,5) by simp
  then have r1: "serve_run demo_service demo_server [Accept] ?s1" by (blast intro: serve_run_Cons serve_run.stop)
  have sd: "serve_step demo_service ?s1 Shutdown ?s2" by (rule serve_step.shutdown)
  have "serve_step demo_service ?s2 HandshakeFailed (?s2\<lparr>sv_streams := 0\<rparr>)"
    by (rule serve_step.handshake_failed) simp
  then have r2: "serve_run demo_service ?s2 [HandshakeFailed] (?s2\<lparr>sv_streams := 0\<rparr>)" by (blast intro: serve_run_Cons serve_run.stop)
  from shutdown_stops_accepting [OF r1 sd r2] have "sv_streams (?s2\<lparr>sv_streams := 0\<rparr>) = 0 \<and> \<not> sv_accepting (?s2\<lparr>sv_streams := 0\<rparr>)"
    by (auto simp: handshakes_def demo_server_fields(5))
  with r1 sd r2 show ?thesis by blast
qed

section \<open>Envelopes\<close>

lemma mail_kept_run:
  assumes "serve_run S s evs s'" "service_ok view S" "sv_ok view S s"
    and "m \<in> set (sv_mails view S s)" "pending q i m" "sv_now s' < se_expires_at (mail_envelope m)"
    and "\<forall>mo. Request (OpAck mo q i) \<notin> set evs"
  shows "m \<in> set (sv_mails view S s')"
  using assms(1,3-7)
proof (induction rule: serve_run.induct)
  case (more s evs t ev t')
  note step = more.hyps(2)
  have clock: "sv_now t \<le> sv_now t'" by (rule serve_step_clock [OF step])
  then have m: "m \<in> set (sv_mails view S t)" using more.IH more.prems by simp
  have t: "sv_ok view S t" by (rule serve_run_ok [OF more.hyps(1) assms(2) more.prems(1)])
  have inv: "turso_inv (dp_libs (svc_deps S)) view (w_mail (sv_world t))" using t by (simp add: sv_ok_def)
  from serve_step_mails [OF assms(2) t step] show ?case
  proof (elim conjE disjE bexE)
    fix op assume op: "op \<in> mail_ops t ev" "now_ms (op_moment op) = sv_now t" "sv_world t' = relay_exec (svc_ctx S) op (sv_world t)"
    have "\<not> removes q i (se_expires_at (mail_envelope m)) op"
    proof (cases op)
      case (OpAck mo q' i')
      then have "ev = Request op" using op(1) by (auto simp: mail_ops_def split: serve_event.splits)
      then show ?thesis using OpAck more.prems(5) by auto
    qed (use op(2) clock more.prems(4) in auto)
    with node_relay.exec_keeps [OF service_okD(1) [OF assms(2)] inv service_okD(3) [OF assms(2)] m more.prems(3)] op(3)
    show ?thesis by simp
  qed (use m in simp)
qed simp

text \<open>
  C23. A running node keeps what it accepted. An envelope that a connected client pushed stays in
  its queue, unchanged and live, through any run of the node (requests and uploads of others,
  sweeps, rotations, changes of trust in the same database, any failures), as long as
  nobody acknowledges it and the clock has not reached its expiry.
\<close>

theorem serving_keeps_envelopes:
  assumes node: "service_ok view S" "sv_ok view S s"
    and push: "serve_step S s (Request (OpPush mo q req)) s1" "mailbox_push (svc_ctx S) mo q req (sv_world s) = (w1, Inr i)"
    and run: "serve_run S s1 evs s'" "\<forall>mo. Request (OpAck mo q i) \<notin> set evs"
    and time: "sv_now s' < expiry mo (clamp_ttl (pe_ttl req) (ctx_config (svc_ctx S)))"
  shows "\<lparr>se_id = i, se_payload = pe_payload req, se_received_at = sv_now s,
      se_expires_at = expiry mo (clamp_ttl (pe_ttl req) (ctx_config (svc_ctx S)))\<rparr>
    \<in> set (live_envelopes q (sv_now s') (sv_mails view S s'))"
proof -
  let ?m = "new_mail mo q \<lparr>ne_payload = pe_payload req, ne_ttl = clamp_ttl (pe_ttl req) (ctx_config (svc_ctx S))\<rparr>"
  have inv: "turso_inv (dp_libs (svc_deps S)) view (w_mail (sv_world s))" using node(2) by (simp add: sv_ok_def)
  have s1: "sv_world s1 = w1" "now_ms mo = sv_now s"
    using push by (cases rule: serve_step.cases; simp)+
  have w1: "?m \<in> set (sv_mails view S s1)" "i = fresh_uuid mo"
    using node_relay.mailbox_push_cases [OF service_okD(1) [OF node(1)] inv service_okD(3) [OF node(1)] push(2)] s1 by simp_all
  have "sv_ok view S s1" using serve_step_mails [OF node push(1)] by blast
  then have "?m \<in> set (sv_mails view S s')"
    using mail_kept_run [OF run(1) node(1) _ w1(1), of q i] w1(2) run(2) time by (simp add: new_mail_def pending_def)
  moreover have "live q (sv_now s') ?m" using time by (simp add: live_def new_mail_def)
  ultimately show ?thesis unfolding set_live_envelopes using w1(2) s1(2) by (force simp: new_mail_def)
qed

lemma demo_serving_push:
  "\<exists>w1. mailbox_push (svc_ctx demo_service) (demo_moment 1700000000000) demo_q demo_req (h_world demo_host) = (w1, Inr 5)"
proof -
  let ?E = "turso_repo demo_libs ref_engine" and ?s = "w_mail (h_world demo_host)" and ?mo = "demo_moment 1700000000000"
  have ctx: "ctx_mailbox (svc_ctx demo_service) = on_mailbox w_mail put_mail ?E" "ctx_config (svc_ctx demo_service) = core_config_default"
    by (simp_all add: demo_service_def)
  have none: "turso_mails demo_libs (\<lambda>T. T) ?s = []" "turso_room (\<lambda>T. T) ?s"
    by (simp_all add: turso_mails_def turso_room_def demo_host_def turso_new_def empty_tables_def next_rowid_def I64_MAX_def)
  have "is_ok (snd (mb_push ?E ?mo demo_q \<lparr>ne_payload = [9], ne_ttl = 60\<rparr> ?s))"
    using turso_avail.push_up [OF demo_up demo_host_inv(1) none(2)] none(1) by simp
  then obtain s' i where "mb_push ?E ?mo demo_q \<lparr>ne_payload = [9], ne_ttl = 60\<rparr> ?s = (s', Inr i)"
    by (cases "mb_push ?E ?mo demo_q \<lparr>ne_payload = [9], ne_ttl = 60\<rparr> ?s") (auto simp: is_ok_iff)
  then have push: "mailbox_push (svc_ctx demo_service) ?mo demo_q demo_req (h_world demo_host) = (put_mail s' (h_world demo_host), Inr i)"
    by (simp add: mailbox_push_def ctx on_mailbox_def through_def clamp_ttl_def core_config_default_def)
  from node_relay.mailbox_push_cases [OF demo_env demo_host_inv(1) ctx(1) push] push show ?thesis by simp
qed

theorem serving_keeps_envelopes_witness:
  "\<exists>s1 s'. serve_step demo_service demo_connected (Request (OpPush (demo_moment 1700000000000) demo_q demo_req)) s1
    \<and> serve_run demo_service s1 [AdminDistrust demo_fp, Wait 1000] s'
    \<and> \<lparr>se_id = 5, se_payload = [9], se_received_at = 1700000000000, se_expires_at = 1700000060000\<rparr>
        \<in> set (live_envelopes demo_q 1700000001000 (sv_mails (\<lambda>T. T) demo_service s'))"
proof -
  let ?op = "OpPush (demo_moment 1700000000000) demo_q demo_req"
  obtain w1 where push: "mailbox_push (svc_ctx demo_service) (demo_moment 1700000000000) demo_q demo_req (sv_world demo_connected) = (w1, Inr 5)"
    using demo_serving_push by (auto simp: demo_connected_fields)
  define s1 where "s1 = demo_connected\<lparr>sv_world := relay_exec (svc_ctx demo_service) ?op (sv_world demo_connected)\<rparr>"
  define s2 where "s2 = admin_change (reg_distrust (svc_registry demo_service) demo_fp) s1"
  define s' where "s' = s2\<lparr>sv_now := sv_now s2 + 1000\<rparr>"
  have now: "sv_now s' = 1700000001000"
    by (simp add: s'_def s2_def s1_def admin_change_def demo_connected_fields split: prod.splits)
  have step: "serve_step demo_service demo_connected (Request ?op) s1"
    unfolding s1_def by (rule serve_step.request) (simp_all add: demo_connected_fields)
  have "serve_step demo_service s1 (AdminDistrust demo_fp) s2" unfolding s2_def by (rule serve_step.admin_distrust)
  moreover have "serve_step demo_service s2 (Wait 1000) s'" unfolding s'_def by (rule serve_step.wait) simp
  ultimately have run: "serve_run demo_service s1 [AdminDistrust demo_fp, Wait 1000] s'" by (blast intro: serve_run_Cons serve_run.stop)
  have "expiry (demo_moment 1700000000000) (clamp_ttl (pe_ttl demo_req) (ctx_config (svc_ctx demo_service))) = 1700000060000"
    by (simp add: demo_service_def clamp_ttl_def core_config_default_def expiry_def i64_saturating_add_def i64_saturating_mul_def sat64_def I64_MAX_def I64_MIN_def)
  with serving_keeps_envelopes [OF demo_service_ok demo_connected_ok step push run] now step run show ?thesis
    by (auto simp: demo_connected_fields)
qed

section \<open>The served leaf\<close>

text \<open>The leaf in use, when it was issued, and that the next rotation is due within a period of it.\<close>

definition leaf_fresh :: "('db, 'r, 'k, 'h, 'c) service \<Rightarrow> ('db, 'r, 'h) server \<Rightarrow> bool" where
  "leaf_fresh S s \<longleftrightarrow> (\<exists>rnd t leaf. issue_leaf (dp_rcgen (svc_deps S)) rnd t (svc_ca S) = Inr leaf
     \<and> ck_certs (nt_current (sv_tls s)) = chain_der leaf \<and> 1000 * t \<le> sv_now s
     \<and> sv_rotate_due s < 1000 * (t + 1) + tick_period (svc_rotate_every S))"

lemma rotate_leaf_current:
  assumes "rustls_ok P"
  shows "ck_certs (nt_current (fst (rotate_leaf P (Inr leaf) n))) = chain_der leaf"
proof -
  obtain key where "load_private_key P (private_key_der leaf) = Inr key" using assms unfolding rustls_ok_def is_ok_iff by blast
  then show ?thesis by (simp add: rotate_leaf_def certified_key_def)
qed

lemma leaf_fresh_step:
  assumes step: "serve_step S s ev s'" and lib: "rustls_ok (dp_rustls (svc_deps S))"
      "\<And>rnd t. 0 \<le> t \<Longrightarrow> t \<le> DEFAULT_NOT_AFTER \<Longrightarrow> is_ok (issue_leaf (dp_rcgen (svc_deps S)) rnd t (svc_ca S))"
    and time: "0 \<le> sv_now s" "sv_now s \<le> 1000 * DEFAULT_NOT_AFTER" and fresh: "leaf_fresh S s"
  shows "leaf_fresh S s'"
proof -
  have same: "leaf_fresh S s'" if "nt_current (sv_tls s') = nt_current (sv_tls s)" "sv_rotate_due s' = sv_rotate_due s"
    using fresh that serve_step_clock [OF step] by (fastforce simp: leaf_fresh_def)
  from step show ?thesis
  proof (cases rule: serve_step.cases)
    case (rotate rnd)
    let ?t = "sv_now s div 1000"
    have "0 \<le> ?t" "?t \<le> DEFAULT_NOT_AFTER" using time by (simp_all add: pos_imp_zdiv_nonneg_iff)
    then obtain leaf where leaf: "issue_leaf (dp_rcgen (svc_deps S)) rnd ?t (svc_ca S) = Inr leaf"
      using lib(2) unfolding is_ok_iff by blast
    have "sv_now s < 1000 * (?t + 1)" "1000 * ?t \<le> sv_now s" by simp_all
    then show ?thesis using rotate leaf rotate_leaf_current [OF lib(1)]
      by (auto simp: leaf_fresh_def rotate_tick_def Let_def intro!: exI [of _ rnd] exI [of _ ?t])
  qed (rule same; simp add: serve_handshake_def sweep_tick_def serve_apply_def put_admin_task_def admin_change_def Let_def
      split: list.splits sum.splits prod.splits)+
qed

lemma leaf_fresh_run:
  assumes "serve_run S s evs s'" and lib: "rustls_ok (dp_rustls (svc_deps S))"
      "\<And>rnd t. 0 \<le> t \<Longrightarrow> t \<le> DEFAULT_NOT_AFTER \<Longrightarrow> is_ok (issue_leaf (dp_rcgen (svc_deps S)) rnd t (svc_ca S))"
    and "0 \<le> sv_now s" "sv_now s' \<le> 1000 * DEFAULT_NOT_AFTER" "leaf_fresh S s"
  shows "leaf_fresh S s'"
  using assms(1,4-6)
proof (induction rule: serve_run.induct)
  case (more s evs t ev t')
  have "sv_now s \<le> sv_now t" "sv_now t \<le> sv_now t'" using serve_run_clock [OF more.hyps(1)] serve_step_clock [OF more.hyps(2)] .
  then show ?case using more leaf_fresh_step [OF more.hyps(2) lib] by simp
qed simp

text \<open>
  C22. The served leaf does not expire. When the certificate library issues leaves, a
  node presents at every moment a leaf that every peer accepts who pins the node's
  authority, as long as the rotation timer is not later than the lifetime of a leaf
  less the rotation period and a second.
\<close>

theorem served_leaf_valid:
  assumes lib: "pki_laws (svc_x509 S) (dp_rcgen (svc_deps S)) pub" "authority_ok (dp_libs (svc_deps S)) (svc_x509 S) pub (svc_ca S)"
      "rustls_ok (dp_rustls (svc_deps S))"
      "\<And>rnd t. 0 \<le> t \<Longrightarrow> t \<le> DEFAULT_NOT_AFTER \<Longrightarrow> is_ok (issue_leaf (dp_rcgen (svc_deps S)) rnd t (svc_ca S))"
    and start: "node_tls_new (dp_rustls (svc_deps S)) (issue_leaf (dp_rcgen (svc_deps S)) rnd (now div 1000) (svc_ca S)) T = Inr n"
      "1000 * DEFAULT_NOT_BEFORE \<le> now" "serve_run S (serve_init S n w now) evs s"
    and time: "sv_now s \<le> 1000 * DEFAULT_NOT_AFTER"
      "sv_now s < sv_rotate_due s + 1000 * nc_leaf_ttl (svc_ca S) - tick_period (svc_rotate_every S) - 1000"
    and pinned: "ustr (nc_fingerprint (svc_ca S)) \<in> trust_set"
  shows "chain_accepted (dp_libs (svc_deps S)) (svc_x509 S) (unix_secs (sv_now s)) trust_set (ck_certs (nt_current (sv_tls s)))"
proof -
  have pos: "0 \<le> now" using start(2) by (simp add: DEFAULT_NOT_BEFORE_def)
  have "now < 1000 * (now div 1000 + 1)" "1000 * (now div 1000) \<le> now" by simp_all
  then have "leaf_fresh S (serve_init S n w now)"
    using start(1) by (auto simp: leaf_fresh_def serve_init_def node_tls_new_def certified_key_def
        intro!: exI [of _ rnd] exI [of _ "now div 1000"])
  then have "leaf_fresh S s" using leaf_fresh_run [OF start(3) lib(3,4)] pos time(1) by (simp add: serve_init_def)
  then obtain rnd' t leaf where leaf: "issue_leaf (dp_rcgen (svc_deps S)) rnd' t (svc_ca S) = Inr leaf"
      "ck_certs (nt_current (sv_tls s)) = chain_der leaf" "1000 * t \<le> sv_now s"
      "sv_rotate_due s < 1000 * (t + 1) + tick_period (svc_rotate_every S)"
    by (auto simp: leaf_fresh_def)
  have now: "now \<le> sv_now s" using serve_run_clock [OF start(3)] by (simp add: serve_init_def)
  have bound: "sv_now s div 1000 \<le> DEFAULT_NOT_AFTER" "0 \<le> sv_now s div 1000" "DEFAULT_NOT_BEFORE \<le> sv_now s div 1000"
    using time(1) pos now start(2) by (simp_all add: pos_imp_zdiv_nonneg_iff)
  then have "uint (word_of_int (sv_now s div 1000) :: u64) = sv_now s div 1000"
    unfolding uint_word_of_int_eq by (intro take_bit_int_eq_self) (simp_all add: DEFAULT_NOT_AFTER_def)
  then have secs: "u64_to_i64 (unix_secs (sv_now s)) = sv_now s div 1000"
    using bound by (simp add: u64_to_i64_def unix_secs_def DEFAULT_NOT_AFTER_def I64_MAX_def)
  have "1000 * (sv_now s div 1000) \<le> sv_now s" "sv_now s < 1000 * (sv_now s div 1000) + 1000" by simp_all
  moreover have "sv_now s < 1000 * t + 1000 * nc_leaf_ttl (svc_ca S)" using leaf(4) time(2) by auto
  ultimately have "t \<le> sv_now s div 1000" "sv_now s div 1000 \<le> t + nc_leaf_ttl (svc_ca S)" using leaf(3) by linarith+
  then have "leaf_valid (dp_libs (svc_deps S)) (svc_x509 S) (unix_secs (sv_now s)) (chain_der leaf) (nc_der (svc_ca S))"
    using issued_leaf_valid [OF lib(1,2) leaf(1), of "unix_secs (sv_now s)"] bound secs by (simp add: CLOCK_SKEW_def)
  then show ?thesis using pinned lib(2) by (simp add: leaf_valid_def leaf(2) authority_ok_def)
qed

lemma demo_issue: "0 \<le> t \<Longrightarrow> t \<le> DEFAULT_NOT_AFTER \<Longrightarrow> is_ok (issue_leaf toy_rcgen rnd t demo_ca)"
  by (simp add: issue_leaf_def toy_rcgen_def toy_sign_def Let_def in_i64_def toy_from_of_def toy_until_of_def
        leaf_ttl_skew_def CLOCK_SKEW_def demo_ca_def DEFAULT_NOT_AFTER_def)

theorem served_leaf_valid_witness:
  "\<exists>s. serve_run demo_service demo_server [Wait 86400000, RotateTick, Wait 3600000] s
    \<and> chain_accepted demo_libs toy_x509 (unix_secs 1700090000000) {demo_fp} (ck_certs (nt_current (sv_tls s)))"
proof -
  define s1 where "s1 = demo_server\<lparr>sv_now := sv_now demo_server + 86400000\<rparr>"
  define s2 where "s2 = rotate_tick demo_service 1 s1"
  define s where "s = s2\<lparr>sv_now := sv_now s2 + 3600000\<rparr>"
  have "serve_step demo_service demo_server (Wait 86400000) s1" unfolding s1_def by (rule serve_step.wait) simp
  moreover have "serve_step demo_service s1 RotateTick s2"
    unfolding s2_def by (rule serve_step.rotate) (simp_all add: s1_def demo_server_fields)
  moreover have "serve_step demo_service s2 (Wait 3600000) s" unfolding s_def by (rule serve_step.wait) simp
  ultimately have run: "serve_run demo_service demo_server [Wait 86400000, RotateTick, Wait 3600000] s"
    by (blast intro: serve_run_Cons serve_run.stop)
  have time: "sv_now s = 1700090000000" "sv_rotate_due s = 1700172800000"
    by (simp_all add: s_def s2_def s1_def rotate_tick_def Let_def demo_server_fields tick_period_def)
  have tls: "node_tls_new (dp_rustls (svc_deps demo_service)) (issue_leaf (dp_rcgen (svc_deps demo_service)) 1 (1700000000000 div 1000) (svc_ca demo_service)) trust_store_new
      = Inr demo_node_tls"
    using demo_leaf_ok(2) by (simp add: node_tls_new_def certified_key_def demo_node_tls_def) (simp add: demo_deps_def)
  have ok: "rustls_ok (dp_rustls (svc_deps demo_service))" by (simp add: rustls_ok_def) (simp add: demo_deps_def)
  have ttl: "nc_leaf_ttl demo_ca = 172800" by (simp add: demo_ca_def Let_def)
  from served_leaf_valid [where S = demo_service and n = demo_node_tls and now = 1700000000000 and trust_set = "{demo_fp}" and s = s
      and w = "h_world demo_host" and T = trust_store_new and rnd = 1]
    run toy_pki_laws demo_ca_ok ok demo_issue tls time ttl
  have "chain_accepted demo_libs toy_x509 (unix_secs 1700090000000) {demo_fp} (ck_certs (nt_current (sv_tls s)))"
    by (simp add: demo_server_def DEFAULT_NOT_BEFORE_def DEFAULT_NOT_AFTER_def tick_period_def demo_fp_def)
  with run show ?thesis by blast
qed

end
