(* ===== verification/Settlement.thy ===== *)
theory Settlement
  imports Entities "HOL-Library.Sublist"
begin

text \<open>
  The settlement seam, \<open>SettlementBackend\<close> of \<open>crates/buh-core/src/ports.rs\<close>, and its stub
  \<open>crates/buh-data/src/stub_settlement.rs\<close>. The stub never pays out, and no quote it gives
  names a chain or a currency, whatever the number of units.
\<close>

record settlement_port =
  sp_onramp_quote :: "credit \<Rightarrow> core_error + deposit_instructions"
  sp_confirm_deposit :: "deposit_proof \<Rightarrow> core_error + credit"
  sp_payout :: "credit \<Rightarrow> payout \<Rightarrow> core_error + tx_ref"
  sp_reserve_attestation :: "core_error + solvency_proof"

definition stub_onramp_quote :: "credit \<Rightarrow> core_error + deposit_instructions" where
  "stub_onramp_quote v = Inr (''stub-onramp:'' @ show_nat (unat (credit_units v)) @ ''-service-units'')"

definition stub_confirm_deposit :: "deposit_proof \<Rightarrow> core_error + credit" where
  "stub_confirm_deposit proof = Inr \<lparr>credit_units = 1024\<rparr>"

definition stub_payout :: "credit \<Rightarrow> payout \<Rightarrow> core_error + tx_ref" where
  "stub_payout redeemed dest = Inl (Unimplemented ''stub settlement backend cannot pay out'')"

definition stub_reserve_attestation :: "core_error + solvency_proof" where
  "stub_reserve_attestation = Inr ''stub-attestation:non-custodial''"

definition stub_settlement :: settlement_port where
  "stub_settlement = \<lparr>sp_onramp_quote = stub_onramp_quote, sp_confirm_deposit = stub_confirm_deposit,
     sp_payout = stub_payout, sp_reserve_attestation = stub_reserve_attestation\<rparr>"

section \<open>Nothing above the seam names a chain\<close>

text \<open>The identifiers the seam must not show.\<close>

definition FORBIDDEN :: "string list" where
  "FORBIDDEN = [''eth'', ''ethereum'', ''wei'', ''gwei'', ''erc20'', ''erc-20'', ''sol'', ''solana'', ''lamport'', ''spl'',
     ''btc'', ''bitcoin'', ''satoshi'', ''usdc'', ''usdt'', ''stablecoin'', ''wallet'', ''blockchain'', ''onchain'',
     ''on-chain'', ''fiat'', ''usd'', ''dollar'', ''0x'']"

definition DIGITS :: string where "DIGITS = ''0123456789''"

lemma digit_range: "d < 10 \<Longrightarrow> digit d \<in> set DIGITS"
proof -
  assume "d < 10"
  then have "d \<in> {0, 1, 2, 3, 4, 5, 6, 7, 8, 9}" by auto
  then show ?thesis by (elim insertE; simp add: digit_def DIGITS_def char_of_eq_iff take_bit_eq_mod)
qed

lemma show_nat_DIGITS: "set (show_nat n) \<subseteq> set DIGITS \<and> show_nat n \<noteq> []"
proof (induction n rule: show_nat.induct)
  case (1 n)
  then show ?case by (subst (1 2) show_nat.simps) (auto simp: digit_range)
qed

lemma sublist_around_digits:
  assumes "set ds \<subseteq> set DIGITS" "ds \<noteq> []" "set w \<inter> set DIGITS = {}" "w \<noteq> []" "sublist w (A @ ds @ B)"
  shows "sublist w A \<or> sublist w B"
proof -
  have apart: False if "xs = u @ v" "v \<noteq> []" "prefix v (ds @ C)" "set xs \<inter> set DIGITS = {}" for xs u v C
    using that assms(1,2) by (cases ds; cases v) auto
  have mid: "sublist w A \<or> sublist w (ds @ B)"
    using assms(3-5) apart [of w _ _ B] unfolding sublist_append
    by (metis append.right_neutral suffix_imp_sublist)
  have "\<not> sublist w ds"
    using assms(1,3,4) set_mono_sublist by (metis disjoint_iff hd_in_set subsetD)
  moreover have "sublist w B" if "w = u @ v" "suffix u ds" "prefix v B" for u v
  proof (cases "u = []")
    case False
    then have "last u \<in> set ds" using that(2) by (metis last_in_set set_mono_suffix subsetD)
    then have "last u \<in> set w \<inter> set DIGITS" using assms(1) False that(1) by auto
    then show ?thesis using assms(3) by simp
  qed (use that in \<open>auto simp: prefix_imp_sublist\<close>)
  ultimately show ?thesis using mid unfolding sublist_append by blast
qed

text \<open>A part of each identifier that is free of digits and occurs in neither half of a quote.\<close>

definition core_of :: "string \<Rightarrow> string" where
  "core_of w = (if w = ''0x'' then ''x'' else takeWhile (\<lambda>c. c \<notin> set DIGITS) w)"

lemma core_of_absent:
  "\<forall>w \<in> set FORBIDDEN. core_of w \<noteq> [] \<and> set (core_of w) \<inter> set DIGITS = {} \<and> sublist (core_of w) w
    \<and> \<not> sublist (core_of w) ''stub-onramp:'' \<and> \<not> sublist (core_of w) ''-service-units''
    \<and> \<not> sublist (core_of w) ''stub-attestation:non-custodial''"
  by code_simp

theorem no_chain_identifier_leaks:
  assumes "w \<in> set FORBIDDEN" "sp_onramp_quote stub_settlement v = Inr text \<or> sp_reserve_attestation stub_settlement = Inr text"
  shows "\<not> sublist w text"
proof
  note core = core_of_absent [rule_format, OF assms(1)]
  assume "sublist w text"
  then have "sublist (core_of w) text" using core by (meson sublist_order.order.trans)
  moreover have "\<not> sublist (core_of w) (''stub-onramp:'' @ show_nat n @ ''-service-units'')" for n
    using sublist_around_digits [of "show_nat n" "core_of w" "''stub-onramp:''" "''-service-units''"] core show_nat_DIGITS
    by blast
  ultimately show False using assms(2) core
    by (auto simp only: stub_settlement_def settlement_port.simps stub_onramp_quote_def stub_reserve_attestation_def sum.inject)
qed

theorem stub_never_pays_out: "\<not> is_ok (sp_payout stub_settlement redeemed dest)"
  by (simp add: stub_settlement_def stub_payout_def)

end
