(* ===== verification/Blob_Concurrency.thy ===== *)
theory Blob_Concurrency
  imports Blob_Properties
begin

text \<open>
  Uploads and downloads of \<open>fs_blob.rs\<close> that run at the same time, one system call
  after the other in any interleaving. Files are inodes: a name leads to an inode, an open
  file keeps its inode whatever happens to the name, a write goes to the inode, a rename
  moves the name. \<open>fs::write\<close> opens the file with truncation and writes until
  everything is written; \<open>fs::read\<close> opens it and reads until a read returns nothing;
  \<open>create_dir_all\<close> makes one directory at a time. The outcome of each call is
  chosen by the system: it fails, or it works and moves at most so many bytes.
\<close>

section \<open>The disk\<close>

datatype entry = DirEntry | FileEntry nat

record disk =
  d_names :: "path \<Rightarrow> entry option"
  d_inodes :: "nat \<Rightarrow> bytes"
  d_next :: nat

definition tree :: "disk \<Rightarrow> fs" where
  "tree d p = (case d_names d p of None \<Rightarrow> None | Some DirEntry \<Rightarrow> Some Dir | Some (FileEntry i) \<Rightarrow> Some (File (d_inodes d i)))"

text \<open>Names form a tree, no file has two names, and new inodes are new.\<close>

definition names_ok :: "(path \<Rightarrow> entry option) \<Rightarrow> bool" where
  "names_ok N \<longleftrightarrow> N [] = Some DirEntry \<and> (\<forall>p c. N (p @ [c]) \<noteq> None \<longrightarrow> N p = Some DirEntry)"

definition disk_ok :: "disk \<Rightarrow> bool" where
  "disk_ok d \<longleftrightarrow> names_ok (d_names d)
     \<and> (\<forall>p q i. d_names d p = Some (FileEntry i) \<and> d_names d q = Some (FileEntry i) \<longrightarrow> p = q)
     \<and> (\<forall>p i. d_names d p = Some (FileEntry i) \<longrightarrow> i < d_next d)"

text \<open>\<open>write\<close> at an offset; a hole reads as zeros.\<close>

definition write_at :: "nat \<Rightarrow> bytes \<Rightarrow> bytes \<Rightarrow> bytes" where
  "write_at off ws c = take off c @ replicate (off - length c) 0 @ ws @ drop (off + length ws) c"

definition open_truncated :: "path \<Rightarrow> disk \<Rightarrow> disk \<times> nat" where
  "open_truncated p d = (case d_names d p of
       Some (FileEntry i) \<Rightarrow> (d\<lparr>d_inodes := (d_inodes d)(i := [])\<rparr>, i)
     | _ \<Rightarrow> (d\<lparr>d_names := (d_names d)(p \<mapsto> FileEntry (d_next d)), d_inodes := (d_inodes d)(d_next d := []),
           d_next := Suc (d_next d)\<rparr>, d_next d))"

section \<open>Transfers\<close>

datatype outcome = Works nat | Fails string

datatype job = Put string string bytes | Get string string

datatype transfer_phase =
    Started
  | MakingDirs path nat
  | Opening path
  | Writing path nat nat
  | Renaming path
  | Stored "core_error + unit"
  | ReadingFile nat bytes
  | Fetched "core_error + bytes"

definition make_dir :: "path \<Rightarrow> nat \<Rightarrow> disk \<Rightarrow> disk \<times> transfer_phase" where
  "make_dir p n d = (let parent = butlast p; q = take n parent;
       next = (if n < length parent then MakingDirs p (Suc n) else Opening p) in
     case d_names d q of
       None \<Rightarrow> (d\<lparr>d_names := (d_names d)(q \<mapsto> DirEntry)\<rparr>, next)
     | Some DirEntry \<Rightarrow> (d, next)
     | Some (FileEntry _) \<Rightarrow> (d, Stored (Inl (Storage (if n < length parent then ''Not a directory'' else ''File exists'')))))"

definition open_tmp :: "path \<Rightarrow> disk \<Rightarrow> disk \<times> transfer_phase" where
  "open_tmp p d = (case can_create (tree d) (tmp_path p) of
       Inl e \<Rightarrow> (d, Stored (Inl (storage e)))
     | Inr _ \<Rightarrow> (case open_truncated (tmp_path p) d of (d', i) \<Rightarrow> (d', Writing p i 0)))"

definition write_some :: "path \<Rightarrow> nat \<Rightarrow> nat \<Rightarrow> bytes \<Rightarrow> nat \<Rightarrow> disk \<Rightarrow> disk \<times> transfer_phase" where
  "write_some p i off bs n d = (let ws = take (max 1 n) (drop off bs) in
     (d\<lparr>d_inodes := (d_inodes d)(i := write_at off ws (d_inodes d i))\<rparr>, Writing p i (off + length ws)))"

definition rename_tmp :: "path \<Rightarrow> disk \<Rightarrow> disk \<times> transfer_phase" where
  "rename_tmp p d = (case walk (tree d) [] (tmp_path p) of
       Found (File _) \<Rightarrow> (case can_create (tree d) p of
           Inl e \<Rightarrow> (d, Stored (Inl (storage e)))
         | Inr _ \<Rightarrow> (d\<lparr>d_names := (d_names d)(tmp_path p := None, p := d_names d (tmp_path p))\<rparr>, Stored (Inr ())))
     | Found Dir \<Rightarrow> (d, Stored (Inl (Storage ''Is a directory'')))
     | Missing \<Rightarrow> (d, Stored (Inl (Storage ''No such file or directory'')))
     | NotDir \<Rightarrow> (d, Stored (Inl (Storage ''Not a directory''))))"

fun put_step :: "path \<Rightarrow> string \<Rightarrow> string \<Rightarrow> bytes \<Rightarrow> outcome \<Rightarrow> transfer_phase \<Rightarrow> disk \<Rightarrow> disk \<times> transfer_phase" where
  "put_step root b k bs out Started d = (d, case fs_resolve root b k of Inl e \<Rightarrow> Stored (Inl e) | Inr p \<Rightarrow> MakingDirs p 0)"
| "put_step root b k bs (Works n) (MakingDirs p m) d = make_dir p m d"
| "put_step root b k bs (Works n) (Opening p) d = open_tmp p d"
| "put_step root b k bs out (Writing p i off) d =
     (if length bs \<le> off then (d, Renaming p) else case out of
        Fails e \<Rightarrow> (d, Stored (Inl (Storage e)))
      | Works n \<Rightarrow> write_some p i off bs n d)"
| "put_step root b k bs (Works n) (Renaming p) d = rename_tmp p d"
| "put_step root b k bs out (Stored r) d = (d, Stored r)"
| "put_step root b k bs out (ReadingFile i acc) d = (d, ReadingFile i acc)"
| "put_step root b k bs out (Fetched r) d = (d, Fetched r)"
| "put_step root b k bs (Fails e) ph d = (d, Stored (Inl (Storage e)))"

definition open_read :: "path \<Rightarrow> disk \<Rightarrow> transfer_phase" where
  "open_read p d = (case walk (tree d) [] p of
       Found (File _) \<Rightarrow> (case d_names d p of Some (FileEntry i) \<Rightarrow> ReadingFile i [] | _ \<Rightarrow> Fetched (Inl NotFound))
     | Found Dir \<Rightarrow> Fetched (Inl (Storage ''Is a directory''))
     | Missing \<Rightarrow> Fetched (Inl NotFound)
     | NotDir \<Rightarrow> Fetched (Inl (Storage ''Not a directory'')))"

definition read_some :: "nat \<Rightarrow> bytes \<Rightarrow> nat \<Rightarrow> disk \<Rightarrow> transfer_phase" where
  "read_some i acc n d = (let ws = take (max 1 n) (drop (length acc) (d_inodes d i)) in
     if ws = [] then Fetched (Inr acc) else ReadingFile i (acc @ ws))"

fun get_step :: "path \<Rightarrow> string \<Rightarrow> string \<Rightarrow> outcome \<Rightarrow> transfer_phase \<Rightarrow> disk \<Rightarrow> transfer_phase" where
  "get_step root b k out Started d = (case fs_resolve root b k of
       Inl e \<Rightarrow> Fetched (Inl e)
     | Inr p \<Rightarrow> (case out of Fails e \<Rightarrow> Fetched (Inl (Storage e)) | Works n \<Rightarrow> open_read p d))"
| "get_step root b k (Works n) (ReadingFile i acc) d = read_some i acc n d"
| "get_step root b k (Fails e) (ReadingFile i acc) d = Fetched (Inl (Storage e))"
| "get_step root b k out ph d = ph"

fun job_step :: "path \<Rightarrow> job \<Rightarrow> outcome \<Rightarrow> transfer_phase \<Rightarrow> disk \<Rightarrow> disk \<times> transfer_phase" where
  "job_step root (Put b k bs) out ph d = put_step root b k bs out ph d"
| "job_step root (Get b k) out ph d = (d, get_step root b k out ph d)"

inductive transfer_step :: "path \<Rightarrow> job list \<Rightarrow> disk \<times> (nat \<Rightarrow> transfer_phase) \<Rightarrow> disk \<times> (nat \<Rightarrow> transfer_phase) \<Rightarrow> bool" for root jobs where
  step: "i < length jobs \<Longrightarrow> job_step root (jobs ! i) out (ph i) d = (d', x) \<Longrightarrow> transfer_step root jobs (d, ph) (d', ph(i := x))"

inductive_cases transfer_stepE: "transfer_step root jobs s s'"

section \<open>Transfers that do not share names\<close>

fun job_path :: "path \<Rightarrow> job \<Rightarrow> core_error + path" where
  "job_path root (Put b k bs) = fs_resolve root b k"
| "job_path root (Get b k) = fs_resolve root b k"

fun is_put :: "job \<Rightarrow> bool" where
  "is_put (Put b k bs) = True"
| "is_put (Get b k) = False"

text \<open>No two uploads have the same target and nobody uses the temporary name of an upload.\<close>

definition isolated :: "path \<Rightarrow> job list \<Rightarrow> bool" where
  "isolated root jobs \<longleftrightarrow> (\<forall>i < length jobs. \<forall>j < length jobs. \<forall>p q.
     is_put (jobs ! i) \<and> job_path root (jobs ! i) = Inr p \<and> job_path root (jobs ! j) = Inr q \<longrightarrow>
       tmp_path p \<noteq> q \<and> (is_put (jobs ! j) \<and> i \<noteq> j \<longrightarrow> p \<noteq> q))"

text \<open>A whole object: what was there at the start, or all of what an upload brings.\<close>

definition whole :: "path \<Rightarrow> job list \<Rightarrow> disk \<Rightarrow> path \<Rightarrow> bytes \<Rightarrow> bool" where
  "whole root jobs d0 p bs \<longleftrightarrow> tree d0 p = Some (File bs) \<or> (\<exists>b k. Put b k bs \<in> set jobs \<and> fs_resolve root b k = Inr p)"

definition is_tmp :: "path \<Rightarrow> job list \<Rightarrow> path \<Rightarrow> bool" where
  "is_tmp root jobs q \<longleftrightarrow> (\<exists>j \<in> set jobs. \<exists>p. is_put j \<and> job_path root j = Inr p \<and> q = tmp_path p)"

text \<open>An inode that no upload writes to any more.\<close>

definition settled :: "path \<Rightarrow> job list \<Rightarrow> disk \<Rightarrow> nat \<Rightarrow> bool" where
  "settled root jobs d i \<longleftrightarrow> i < d_next d \<and> (\<forall>q. is_tmp root jobs q \<longrightarrow> d_names d q \<noteq> Some (FileEntry i))"

fun put_inv :: "path \<Rightarrow> bytes \<Rightarrow> disk \<Rightarrow> transfer_phase \<Rightarrow> bool" where
  "put_inv p bs d (MakingDirs q n) \<longleftrightarrow> q = p \<and> n \<le> length (butlast p) \<and> (\<forall>m < n. d_names d (take m (butlast p)) = Some DirEntry)"
| "put_inv p bs d (Opening q) \<longleftrightarrow> q = p"
| "put_inv p bs d (Writing q i off) \<longleftrightarrow> q = p \<and> d_names d (tmp_path p) = Some (FileEntry i) \<and> d_inodes d i = take off bs \<and> off \<le> length bs"
| "put_inv p bs d (Renaming q) \<longleftrightarrow> q = p \<and> (\<exists>i. d_names d (tmp_path p) = Some (FileEntry i) \<and> d_inodes d i = bs)"
| "put_inv p bs d (Stored r) \<longleftrightarrow> is_ok r \<longrightarrow> (\<exists>i. d_names d p = Some (FileEntry i) \<and> d_inodes d i = bs)"
| "put_inv p bs d ph \<longleftrightarrow> ph = Started"

fun get_inv :: "path \<Rightarrow> job list \<Rightarrow> disk \<Rightarrow> path \<Rightarrow> disk \<Rightarrow> transfer_phase \<Rightarrow> bool" where
  "get_inv root jobs d0 p d (ReadingFile i acc) \<longleftrightarrow> settled root jobs d i \<and> whole root jobs d0 p (d_inodes d i) \<and> acc = take (length acc) (d_inodes d i)"
| "get_inv root jobs d0 p d (Fetched r) \<longleftrightarrow> (case r of
     Inr bs \<Rightarrow> whole root jobs d0 p bs | Inl e \<Rightarrow> e = NotFound \<longrightarrow> (\<forall>bs. tree d0 p \<noteq> Some (File bs)))"
| "get_inv root jobs d0 p d ph \<longleftrightarrow> ph = Started"

definition phase_inv :: "path \<Rightarrow> job list \<Rightarrow> disk \<Rightarrow> disk \<Rightarrow> job \<Rightarrow> transfer_phase \<Rightarrow> bool" where
  "phase_inv root jobs d0 d j ph \<longleftrightarrow> (case job_path root j of
       Inl e \<Rightarrow> ph \<in> {Started, Stored (Inl e), Fetched (Inl e)}
     | Inr p \<Rightarrow> (case j of Put b k bs \<Rightarrow> put_inv p bs d ph | Get b k \<Rightarrow> get_inv root jobs d0 p d ph))"

text \<open>Below every name that is not a temporary one there is a whole object, and what was there at the start stays.\<close>

definition objects_inv :: "path \<Rightarrow> job list \<Rightarrow> disk \<Rightarrow> disk \<Rightarrow> bool" where
  "objects_inv root jobs d0 d \<longleftrightarrow> (\<forall>q. \<not> is_tmp root jobs q \<longrightarrow>
     (\<forall>i. d_names d q = Some (FileEntry i) \<longrightarrow> whole root jobs d0 q (d_inodes d i))
   \<and> (\<forall>bs. tree d0 q = Some (File bs) \<longrightarrow> (\<exists>i. d_names d q = Some (FileEntry i))))"

definition transfer_inv :: "path \<Rightarrow> job list \<Rightarrow> disk \<Rightarrow> disk \<times> (nat \<Rightarrow> transfer_phase) \<Rightarrow> bool" where
  "transfer_inv root jobs d0 s \<longleftrightarrow> disk_ok (fst s) \<and> objects_inv root jobs d0 (fst s)
     \<and> (\<forall>i < length jobs. phase_inv root jobs d0 (fst s) (jobs ! i) (snd s i))"

section \<open>What one call changes\<close>

text \<open>
  A call of an upload to \<open>p\<close> leaves every file alone but those at \<open>p\<close> and its temporary
  name, and every inode but the one at the temporary name; the object at \<open>p\<close> stays, or
  becomes what was written completely.
\<close>

definition touches :: "path \<Rightarrow> bytes \<Rightarrow> disk \<Rightarrow> disk \<Rightarrow> bool" where
  "touches p bs d d' \<longleftrightarrow> disk_ok d' \<and> d_next d \<le> d_next d' \<and> (\<forall>q. d_names d q = Some DirEntry \<longrightarrow> d_names d' q = Some DirEntry)
   \<and> (\<forall>q i. q \<noteq> p \<and> q \<noteq> tmp_path p \<longrightarrow> (d_names d' q = Some (FileEntry i) \<longleftrightarrow> d_names d q = Some (FileEntry i)))
   \<and> (\<forall>i < d_next d. d_names d (tmp_path p) \<noteq> Some (FileEntry i) \<longrightarrow> d_inodes d' i = d_inodes d i \<and> d_names d' (tmp_path p) \<noteq> Some (FileEntry i))
   \<and> (d_names d' p = d_names d p \<or> (\<exists>i. d_names d' p = Some (FileEntry i) \<and> d_inodes d' i = bs))"

lemma touches_refl: "disk_ok d \<Longrightarrow> touches p bs d d"
  by (simp add: touches_def)

lemma disk_okD:
  assumes "disk_ok d"
  shows "d_names d p = Some (FileEntry i) \<Longrightarrow> d_names d q = Some (FileEntry i) \<Longrightarrow> p = q" "d_names d p = Some (FileEntry i) \<Longrightarrow> i < d_next d"
  using assms by (auto simp: disk_ok_def)

lemma tree_simps:
  "tree d q = None \<longleftrightarrow> d_names d q = None" "tree d q = Some Dir \<longleftrightarrow> d_names d q = Some DirEntry"
  "tree d q = Some (File bs) \<longleftrightarrow> (\<exists>i. d_names d q = Some (FileEntry i) \<and> d_inodes d i = bs)"
  by (auto simp: tree_def split: option.splits entry.splits)

lemma disk_ok_tree: "disk_ok d \<Longrightarrow> fs_ok (tree d)"
  by (simp add: disk_ok_def names_ok_def fs_ok_def tree_simps)

lemma names_ok_set:
  assumes "names_ok N" "q \<noteq> [] \<Longrightarrow> N (butlast q) = Some DirEntry" "N q \<noteq> Some DirEntry"
  shows "names_ok (N(q \<mapsto> e))"
proof -
  have ne: "q \<noteq> []" using assms(1,3) by (auto simp: names_ok_def)
  have "(N(q \<mapsto> e)) p = Some DirEntry" if "(N(q \<mapsto> e)) (p @ [c]) \<noteq> None" for p c
  proof (cases "p @ [c] = q")
    case True
    then show ?thesis using assms(2) ne by auto
  next
    case False
    then have "N p = Some DirEntry" using that assms(1) unfolding names_ok_def by auto
    then show ?thesis using assms(3) by auto
  qed
  then show ?thesis using assms(1) ne by (simp add: names_ok_def)
qed

lemma names_ok_remove:
  assumes "names_ok N" "N q \<noteq> Some DirEntry"
  shows "names_ok (N(q := None))"
  using assms unfolding names_ok_def by (metis fun_upd_apply)

lemma disk_ok_dir:
  assumes "disk_ok d" "d_names d q = None" "q \<noteq> [] \<Longrightarrow> d_names d (butlast q) = Some DirEntry"
  shows "disk_ok (d\<lparr>d_names := (d_names d)(q \<mapsto> DirEntry)\<rparr>)"
proof -
  have "names_ok ((d_names d)(q \<mapsto> DirEntry))" by (rule names_ok_set) (use assms in \<open>simp_all add: disk_ok_def\<close>)
  then show ?thesis using assms(1) by (auto simp: disk_ok_def)
qed

lemma disk_ok_inodes [simp]: "disk_ok (d\<lparr>d_inodes := f\<rparr>) = disk_ok d"
  by (simp add: disk_ok_def)

lemma disk_ok_new:
  assumes "disk_ok d" "q \<noteq> []" "d_names d (butlast q) = Some DirEntry" "d_names d q \<noteq> Some DirEntry"
  shows "disk_ok (d\<lparr>d_names := (d_names d)(q \<mapsto> FileEntry (d_next d)), d_inodes := f, d_next := Suc (d_next d)\<rparr>)"
proof -
  have "names_ok ((d_names d)(q \<mapsto> FileEntry (d_next d)))" by (rule names_ok_set) (use assms in \<open>simp_all add: disk_ok_def\<close>)
  moreover have "d_names d r \<noteq> Some (FileEntry (d_next d))" for r using disk_okD(2) [OF assms(1)] by blast
  ultimately show ?thesis using assms(1) by (auto simp: disk_ok_def less_Suc_eq split: if_splits)
qed

lemma disk_ok_move:
  assumes "disk_ok d" "d_names d src = Some (FileEntry i)" "dst \<noteq> []" "d_names d (butlast dst) = Some DirEntry" "d_names d dst \<noteq> Some DirEntry"
  shows "disk_ok (d\<lparr>d_names := (d_names d)(src := None, dst \<mapsto> FileEntry i)\<rparr>)"
proof -
  have "names_ok ((d_names d)(src := None))" by (rule names_ok_remove) (use assms in \<open>simp_all add: disk_ok_def\<close>)
  then have "names_ok ((d_names d)(src := None, dst \<mapsto> FileEntry i))" by (rule names_ok_set) (use assms in auto)
  then show ?thesis using assms(1,2) by (auto simp: disk_ok_def split: if_splits)
qed

lemma tmp_path_ne: "p \<noteq> [] \<Longrightarrow> tmp_path p \<noteq> p"
  by (cases p rule: rev_cases) (simp_all add: tmp_path_def)

lemma tmp_path_inject: "p \<noteq> [] \<Longrightarrow> q \<noteq> [] \<Longrightarrow> tmp_path p = tmp_path q \<Longrightarrow> p = q"
  by (cases p rule: rev_cases; cases q rule: rev_cases) (simp_all add: tmp_path_def)

lemma make_dir_touches:
  assumes "disk_ok d" "p \<noteq> []" "put_inv p bs d (MakingDirs p n)" "make_dir p n d = (d', x)"
  shows "touches p bs d d' \<and> put_inv p bs d' x"
proof -
  let ?q = "take n (butlast p)"
  have "length ?q < length p" using assms(2) by (cases p rule: rev_cases) auto
  then have ne: "?q \<noteq> p" by (metis less_irrefl)
  have "butlast ?q = take (n - 1) (butlast p)" if "?q \<noteq> []"
    using assms(3) by (simp only: put_inv.simps butlast_take)
  then have "d_names d (butlast ?q) = Some DirEntry" if "?q \<noteq> []" using assms(3) that by simp
  then have new: "disk_ok (d\<lparr>d_names := (d_names d)(?q \<mapsto> DirEntry)\<rparr>)" if "d_names d ?q = None"
    by (rule disk_ok_dir [OF assms(1) that])
  show ?thesis
    using assms ne new by (auto simp: make_dir_def Let_def touches_def less_Suc_eq split: option.splits entry.splits if_splits)
qed

lemma open_tmp_touches:
  assumes "disk_ok d" "p \<noteq> []" "open_tmp p d = (d', x)"
  shows "touches p bs d d' \<and> put_inv p bs d' x"
proof -
  have "tmp_path p \<noteq> p" using tmp_path_ne assms(2) by blast
  moreover note can_create_ok [OF disk_ok_tree [OF assms(1)], of "tmp_path p"]
  ultimately show ?thesis using assms(1,3) disk_okD [OF assms(1)]
    by (auto simp: open_tmp_def open_truncated_def touches_def disk_ok_new tree_simps split: sum.splits option.splits entry.splits)
qed

lemma write_at_end: "length c = off \<Longrightarrow> write_at off ws c = c @ ws"
  by (simp add: write_at_def)

lemma write_some_touches:
  assumes "disk_ok d" "put_inv p bs d (Writing p i off)" "write_some p i off bs n d = (d', x)"
  shows "touches p bs d d' \<and> put_inv p bs d' x"
proof -
  have "take (length (take m ws)) ws = take m ws" for m and ws :: bytes by (simp add: min_def)
  then have w: "write_at off (take (max 1 n) (drop off bs)) (take off bs) = take (off + length (take (max 1 n) (drop off bs))) bs"
    using assms(2) by (simp only: put_inv.simps write_at_end length_take min_absorb2 take_add)
  show ?thesis using assms w disk_okD [OF assms(1)] by (auto simp: write_some_def Let_def touches_def)
qed

lemma rename_tmp_touches:
  assumes "disk_ok d" "p \<noteq> []" "put_inv p bs d (Renaming p)" "rename_tmp p d = (d', x)"
  shows "touches p bs d d' \<and> put_inv p bs d' x"
proof -
  have ne: "tmp_path p \<noteq> p" using tmp_path_ne assms(2) by blast
  obtain i where "d_names d (tmp_path p) = Some (FileEntry i)" "d_inodes d i = bs" using assms(3) by auto
  then show ?thesis using ne assms(1,4) disk_ok_move [OF assms(1), of "tmp_path p" i p] can_create_ok [OF disk_ok_tree [OF assms(1)], of p]
    by (auto simp: rename_tmp_def touches_def tree_simps split: walk_result.splits node.splits sum.splits)
qed

lemma put_step_touches:
  assumes "disk_ok d" "fs_resolve root b k = Inr p" "put_inv p bs d ph" "put_step root b k bs out ph d = (d', x)"
  shows "touches p bs d d' \<and> put_inv p bs d' x"
proof -
  have "p \<noteq> []" using fs_resolve_tmp(3) [OF assms(2)] .
  note calls = make_dir_touches [OF assms(1) this] open_tmp_touches [OF assms(1) this] write_some_touches [OF assms(1)]
    rename_tmp_touches [OF assms(1) this]
  show ?thesis
    using assms calls touches_refl [OF assms(1)]
    by (cases ph; cases out) (auto split: if_splits outcome.splits)
qed

section \<open>What others keep\<close>

lemma isolatedD:
  assumes "isolated root jobs" "i < length jobs" "is_put (jobs ! i)" "job_path root (jobs ! i) = Inr p"
  shows "j < length jobs \<Longrightarrow> job_path root (jobs ! j) = Inr q \<Longrightarrow> tmp_path p \<noteq> q"
    "j < length jobs \<Longrightarrow> job_path root (jobs ! j) = Inr q \<Longrightarrow> is_put (jobs ! j) \<Longrightarrow> i \<noteq> j \<Longrightarrow> p \<noteq> q"
    "is_tmp root jobs (tmp_path p)"
  using assms unfolding isolated_def is_tmp_def by (blast, blast, force)

lemma job_not_tmp:
  assumes "isolated root jobs" "j < length jobs" "job_path root (jobs ! j) = Inr q"
  shows "\<not> is_tmp root jobs q"
  using assms isolatedD(1) [OF assms(1) _ _ _ assms(2,3)] by (metis is_tmp_def in_set_conv_nth)

lemma job_path_ne: "job_path root j = Inr p \<Longrightarrow> p \<noteq> []"
  using fs_resolve_tmp(3) by (cases j) auto

lemma settled_kept:
  assumes "isolated root jobs" "i < length jobs" "is_put (jobs ! i)" "job_path root (jobs ! i) = Inr p" "touches p bs d d'" "settled root jobs d c"
  shows "settled root jobs d' c \<and> d_inodes d' c = d_inodes d c"
proof -
  have c: "c < d_next d" "d_names d (tmp_path p) \<noteq> Some (FileEntry c)"
    using assms(6) isolatedD(3) [OF assms(1-4)] by (auto simp: settled_def)
  have "d_names d' q \<noteq> Some (FileEntry c)" if "is_tmp root jobs q" for q
  proof (cases "q = tmp_path p")
    case True
    then show ?thesis using assms(5) c by (auto simp: touches_def)
  next
    case False
    then show ?thesis using that assms(5,6) job_not_tmp [OF assms(1,2,4)] by (auto simp: touches_def settled_def)
  qed
  then show ?thesis using assms(5) c by (auto simp: touches_def settled_def)
qed

lemma file_kept:
  assumes "disk_ok d" "touches p bs d d'" "q \<noteq> p" "q \<noteq> tmp_path p" "d_names d q = Some (FileEntry c)"
  shows "d_names d' q = Some (FileEntry c) \<and> d_inodes d' c = d_inodes d c"
proof -
  have "c < d_next d" "d_names d (tmp_path p) \<noteq> Some (FileEntry c)" using disk_okD [OF assms(1)] assms(4,5) by blast+
  then show ?thesis using assms(2-5) by (auto simp: touches_def)
qed

lemma put_inv_kept:
  assumes "\<And>r. d_names d r = Some DirEntry \<Longrightarrow> d_names d' r = Some DirEntry"
    and "\<And>r c. r \<in> {q, tmp_path q} \<Longrightarrow> d_names d r = Some (FileEntry c) \<Longrightarrow> d_names d' r = Some (FileEntry c) \<and> d_inodes d' c = d_inodes d c"
    and "put_inv q bs d ph"
  shows "put_inv q bs d' ph"
  using assms(3)
proof (cases ph)
  case (Renaming r)
  then show ?thesis using assms(2) [of "tmp_path q"] assms(3) by auto
next
  case (Stored r)
  then show ?thesis using assms(2) [of q] assms(3) by auto
next
  case (Writing r i off)
  then show ?thesis using assms(2) [of "tmp_path q"] assms(3) by auto
qed (use assms(1) in auto)

lemma phase_kept:
  assumes iso: "isolated root jobs" and i: "i < length jobs" "is_put (jobs ! i)" "job_path root (jobs ! i) = Inr p"
    and d: "disk_ok d" "touches p bs d d'" and j: "j < length jobs" "j \<noteq> i" "phase_inv root jobs d0 d (jobs ! j) ph"
  shows "phase_inv root jobs d0 d' (jobs ! j) ph"
proof (cases "job_path root (jobs ! j)")
  case (Inr q)
  show ?thesis
  proof (cases "jobs ! j")
    case (Put b k ws)
    note apart = isolatedD(1) [OF iso i j(1) Inr] isolatedD(2) [OF iso i j(1) Inr] isolatedD(1) [OF iso j(1) _ Inr i(1,3)]
      tmp_path_inject [OF job_path_ne [OF i(3)] job_path_ne [OF Inr]]
    then have "r \<noteq> p \<and> r \<noteq> tmp_path p" if "r \<in> {q, tmp_path q}" for r using that Put j(2) by auto
    then have "d_names d' r = Some (FileEntry c) \<and> d_inodes d' c = d_inodes d c"
      if "r \<in> {q, tmp_path q}" "d_names d r = Some (FileEntry c)" for r c using that file_kept [OF d] by blast
    then have "put_inv q ws d' ph"
      by (rule put_inv_kept [rotated]) (use d(2) j(3) Inr Put in \<open>simp_all add: phase_inv_def touches_def\<close>)
    then show ?thesis using Inr Put by (simp add: phase_inv_def)
  next
    case (Get b k)
    show ?thesis using j(3) Inr Get settled_kept [OF iso i d(2)]
      by (cases ph) (auto simp: phase_inv_def split: sum.splits)
  qed
qed (use j(3) in \<open>simp add: phase_inv_def\<close>)

lemma objects_kept:
  assumes iso: "isolated root jobs" and i: "i < length jobs" "jobs ! i = Put b k bs" "fs_resolve root b k = Inr p"
    and d: "disk_ok d" "touches p bs d d'" "objects_inv root jobs d0 d"
  shows "objects_inv root jobs d0 d'"
proof -
  have "(\<forall>c. d_names d' q = Some (FileEntry c) \<longrightarrow> whole root jobs d0 q (d_inodes d' c))
      \<and> (\<forall>ws. tree d0 q = Some (File ws) \<longrightarrow> (\<exists>c. d_names d' q = Some (FileEntry c)))" if q: "\<not> is_tmp root jobs q" for q
  proof -
    have ne: "q \<noteq> tmp_path p" using q isolatedD(3) [OF iso i(1)] i(2,3) by auto
    have old: "\<And>c. d_names d q = Some (FileEntry c) \<Longrightarrow> whole root jobs d0 q (d_inodes d c) \<and> d_inodes d' c = d_inodes d c"
      using d(3) q ne disk_okD [OF d(1)] d(2) unfolding objects_inv_def touches_def by metis
    have bs: "whole root jobs d0 p bs" using i by (auto simp: whole_def intro: nth_mem [of i jobs, unfolded i(2)])
    show ?thesis
    proof (cases "q = p \<and> d_names d' p \<noteq> d_names d p")
      case True
      then obtain c where "d_names d' p = Some (FileEntry c)" "d_inodes d' c = bs" using d(2) by (auto simp: touches_def)
      then show ?thesis using True bs by auto
    next
      case False
      then have "d_names d' q = Some (FileEntry c) \<longleftrightarrow> d_names d q = Some (FileEntry c)" for c
        using d(2) ne by (cases "q = p") (simp_all add: touches_def)
      then show ?thesis using old d(3) q unfolding objects_inv_def by metis
    qed
  qed
  then show ?thesis by (simp add: objects_inv_def)
qed

section \<open>Every run\<close>

lemma get_step_inv:
  assumes "disk_ok d" "objects_inv root jobs d0 d" "\<not> is_tmp root jobs p" "fs_resolve root b k = Inr p" "get_inv root jobs d0 p d ph"
  shows "get_inv root jobs d0 p d (get_step root b k out ph d)"
proof (cases ph)
  case Started
  have settled: "settled root jobs d i \<and> whole root jobs d0 p (d_inodes d i)" if "d_names d p = Some (FileEntry i)" for i
    using disk_okD [OF assms(1)] assms(2,3) that unfolding settled_def objects_inv_def by blast
  have "walk (tree d) [] p = Found (File bs) \<longleftrightarrow> (\<exists>i. d_names d p = Some (FileEntry i) \<and> d_inodes d i = bs)" for bs
    using walk_iff [OF disk_ok_tree [OF assms(1)]] by (simp add: tree_simps)
  moreover have "tree d0 p \<noteq> Some (File bs)" if "\<And>i. d_names d p \<noteq> Some (FileEntry i)" for bs
    using assms(2,3) that by (auto simp: objects_inv_def)
  ultimately have "get_inv root jobs d0 p d (open_read p d)"
    using settled by (fastforce simp: open_read_def split: walk_result.splits node.splits)
  then show ?thesis using Started assms(4) by (cases out) simp_all
next
  case (ReadingFile i acc)
  have "acc @ take m (drop (length acc) c) = take (length acc + length (take m (drop (length acc) c))) c" if "acc = take (length acc) c" for m c
    using that by (metis append_take_drop_id append_eq_conv_conj take_add take_all_iff length_take min.cobounded1 min_def)
  moreover have "acc = c" if "acc = take (length acc) c" "length c \<le> length acc" for c using that by simp
  ultimately show ?thesis using ReadingFile assms(5) by (cases out) (auto simp: read_some_def Let_def)
qed (use assms(5) in \<open>cases out; simp\<close>)+

lemma transfer_step_inv:
  assumes "isolated root jobs" "transfer_step root jobs s s'" "transfer_inv root jobs d0 s"
  shows "transfer_inv root jobs d0 s'"
  using assms(2)
proof (cases rule: transfer_step.cases)
  case (step i out ph d d' x)
  have d: "disk_ok d" "objects_inv root jobs d0 d" and inv: "\<And>j. j < length jobs \<Longrightarrow> phase_inv root jobs d0 d (jobs ! j) (ph j)"
    using assms(3) step(1) by (simp_all add: transfer_inv_def)
  note i = inv [OF step(3)]
  have "transfer_inv root jobs d0 (d', ph(i := x))"
  proof (cases "job_path root (jobs ! i)")
    case (Inl e)
    then have "d' = d \<and> x \<in> {Started, Stored (Inl e), Fetched (Inl e)}"
      using i step(4) by (cases "jobs ! i"; cases out) (auto simp: phase_inv_def)
    then show ?thesis using d inv Inl by (simp add: transfer_inv_def phase_inv_def)
  next
    case (Inr p)
    show ?thesis
    proof (cases "jobs ! i")
      case (Get b k)
      then have "get_inv root jobs d0 p d x" "d' = d"
        using get_step_inv [OF d job_not_tmp [OF assms(1) step(3) Inr]] i step(4) Inr by (auto simp: phase_inv_def)
      then show ?thesis using d inv Inr Get by (simp add: transfer_inv_def phase_inv_def)
    next
      case (Put b k bs)
      then have r: "fs_resolve root b k = Inr p" using Inr by simp
      have t: "touches p bs d d'" "put_inv p bs d' x"
        using put_step_touches [OF d(1) r] i step(4) Inr Put by (simp_all add: phase_inv_def)
      have "objects_inv root jobs d0 d'" by (rule objects_kept [OF assms(1) step(3) Put r d(1) t(1) d(2)])
      moreover have "phase_inv root jobs d0 d' (jobs ! j) (ph j)" if "j < length jobs" "j \<noteq> i" for j
        by (rule phase_kept [OF assms(1) step(3) _ Inr d(1) t(1) that inv]) (simp_all add: Put that(1))
      ultimately show ?thesis using t Put r by (auto simp: transfer_inv_def phase_inv_def touches_def)
    qed
  qed
  then show ?thesis using step(2) by simp
qed

lemma transfer_start_inv: "disk_ok d0 \<Longrightarrow> transfer_inv root jobs d0 (d0, \<lambda>_. Started)"
  by (auto simp: transfer_inv_def objects_inv_def phase_inv_def whole_def tree_simps split: sum.splits job.splits)

lemma transfer_run_inv:
  assumes "isolated root jobs" "disk_ok d0" "(transfer_step root jobs)\<^sup>*\<^sup>* (d0, \<lambda>_. Started) s"
  shows "transfer_inv root jobs d0 s"
  using assms(3)
proof (induction rule: rtranclp_induct)
  case base
  then show ?case using transfer_start_inv [OF assms(2)] .
next
  case (step s t)
  then show ?case using transfer_step_inv [OF assms(1)] by blast
qed

text \<open>
  C29. Concurrent uploads and downloads see whole objects. However the system calls of the
  transfers interleave, whatever fails and however the bytes are split: as long as no two uploads
  share a target and no transfer uses the temporary name of an upload, an upload that succeeds
  has stored its bytes, a download that succeeds has all bytes of the object at the start or of
  one upload, and an object that was there at the start is never reported missing.
\<close>

theorem concurrent_transfers_atomic:
  assumes "isolated root jobs" "disk_ok d0" "(transfer_step root jobs)\<^sup>*\<^sup>* (d0, \<lambda>_. Started) (d, ph)" "i < length jobs"
  shows "(jobs ! i = Put b k bs \<and> ph i = Stored (Inr ()) \<longrightarrow> fs_object root (tree d) (b, k) = Some bs)
    \<and> (jobs ! i = Get b k \<and> ph i = Fetched (Inr ws) \<longrightarrow> fs_object root (tree d0) (b, k) = Some ws \<or> Put b k ws \<in> set jobs)
    \<and> (jobs ! i = Get b k \<and> ph i = Fetched (Inl NotFound) \<longrightarrow> fs_object root (tree d0) (b, k) = None)"
proof -
  have inv: "phase_inv root jobs d0 d (jobs ! i) (ph i)"
    using transfer_run_inv [OF assms(1-3)] assms(4) by (simp add: transfer_inv_def)
  have "fs_object root (tree d) (b, k) = Some bs" if "jobs ! i = Put b k bs" "ph i = Stored (Inr ())"
    using inv that by (auto simp: phase_inv_def fs_object_def tree_def split: sum.splits)
  moreover have "fs_object root (tree d0) (b, k) = Some ws \<or> Put b k ws \<in> set jobs" if "jobs ! i = Get b k" "ph i = Fetched (Inr ws)"
    using inv that by (auto simp: phase_inv_def fs_object_def whole_def split: sum.splits dest: fs_resolve_inject)
  moreover have "fs_object root (tree d0) (b, k) = None" if "jobs ! i = Get b k" "ph i = Fetched (Inl NotFound)"
    using inv that by (auto simp: phase_inv_def fs_object_def split: sum.splits option.splits node.splits)
  ultimately show ?thesis by blast
qed

text \<open>A schedule: which transfer makes its next call, and how the call ends.\<close>

fun run_schedule :: "path \<Rightarrow> job list \<Rightarrow> (nat \<times> outcome) list \<Rightarrow> disk \<times> (nat \<Rightarrow> transfer_phase) \<Rightarrow> disk \<times> (nat \<Rightarrow> transfer_phase)" where
  "run_schedule root jobs [] s = s"
| "run_schedule root jobs ((i, out) # sched) s =
     (case job_step root (jobs ! i) out (snd s i) (fst s) of (d, x) \<Rightarrow> run_schedule root jobs sched (d, (snd s)(i := x)))"

lemma run_schedule_steps:
  "\<forall>(i, out) \<in> set sched. i < length jobs \<Longrightarrow> (transfer_step root jobs)\<^sup>*\<^sup>* s (run_schedule root jobs sched s)"
proof (induction root jobs sched s rule: run_schedule.induct)
  case (2 root jobs i out sched s)
  obtain d x where dx: "job_step root (jobs ! i) out (snd s i) (fst s) = (d, x)" by force
  then have "transfer_step root jobs (fst s, snd s) (d, (snd s)(i := x))" using 2(2) by (intro transfer_step.step) auto
  then show ?case using 2(1) [OF dx [symmetric]] 2(2) dx by (auto intro: converse_rtranclp_into_rtranclp)
qed simp

definition demo_disk :: disk where
  "demo_disk = \<lparr>d_names = [[] \<mapsto> DirEntry, [''data''] \<mapsto> DirEntry], d_inodes = (\<lambda>_. []), d_next = 0\<rparr>"

lemma demo_disk_ok: "disk_ok demo_disk"
  by (auto simp: disk_ok_def names_ok_def demo_disk_def)

lemmas transfer_eval = demo_disk_def fs_resolve_def safe_segment_def tmp_path_def Let_def make_dir_def open_tmp_def
  open_truncated_def write_some_def write_at_def rename_tmp_def open_read_def read_some_def can_create_def tree_def

theorem concurrent_transfers_atomic_witness:
  "\<exists>d ph. (transfer_step [''data''] [Put ''media'' ''a'' [1, 2], Get ''media'' ''a''])\<^sup>*\<^sup>* (demo_disk, \<lambda>_. Started) (d, ph)
    \<and> ph 0 = Stored (Inr ()) \<and> fs_object [''data''] (tree d) (''media'', ''a'') = Some [1, 2] \<and> ph 1 = Fetched (Inr [1, 2])"
proof -
  let ?jobs = "[Put ''media'' ''a'' [1, 2], Get ''media'' ''a'']"
  let ?sched = "replicate 9 (0 :: nat, Works 1) @ replicate 4 (1, Works 1)"
  obtain d ph where run: "run_schedule [''data''] ?jobs ?sched (demo_disk, \<lambda>_. Started) = (d, ph)" by force
  have ph: "ph 0 = Stored (Inr ())" "ph 1 = Fetched (Inr [1, 2])"
    using run by (auto simp: transfer_eval numeral_eq_Suc)
  have steps: "(transfer_step [''data''] ?jobs)\<^sup>*\<^sup>* (demo_disk, \<lambda>_. Started) (d, ph)"
    using run_schedule_steps [of ?sched ?jobs "[''data'']" "(demo_disk, \<lambda>_. Started)"] run by auto
  have iso: "isolated [''data''] ?jobs"
    by (auto simp: isolated_def less_Suc_eq fs_resolve_ok tmp_path_def safe_segment_def)
  from concurrent_transfers_atomic [OF iso demo_disk_ok steps, of 0 "''media''" "''a''" "[1, 2]"] ph steps show ?thesis by auto
qed

text \<open>
  Two uploads to one key can mix. Both write through the one temporary file; the first to
  rename publishes the file that the second still writes to. In this run the first upload is
  answered with success, and the object is the second's bytes over the first's:
  neither of the two.
\<close>

theorem concurrent_uploads_mix:
  "\<exists>d ph. (transfer_step [''data''] [Put ''media'' ''a'' [1, 2], Put ''media'' ''a'' [3]])\<^sup>*\<^sup>* (demo_disk, \<lambda>_. Started) (d, ph)
    \<and> ph 0 = Stored (Inr ()) \<and> fs_object [''data''] (tree d) (''media'', ''a'') = Some [3, 2]"
proof -
  let ?jobs = "[Put ''media'' ''a'' [1, 2], Put ''media'' ''a'' [3]]"
  let ?sched = "replicate 5 (0 :: nat, Works 2) @ replicate 5 (1, Works 2) @ replicate 3 (0, Works 2) @ [(1, Works 2)]"
  obtain d ph where run: "run_schedule [''data''] ?jobs ?sched (demo_disk, \<lambda>_. Started) = (d, ph)" by force
  have "ph 0 = Stored (Inr ())" "fs_object [''data''] (tree d) (''media'', ''a'') = Some [3, 2]"
    using run by (auto simp: transfer_eval numeral_eq_Suc fs_object_def)
  moreover have "(transfer_step [''data''] ?jobs)\<^sup>*\<^sup>* (demo_disk, \<lambda>_. Started) (d, ph)"
    using run_schedule_steps [of ?sched ?jobs "[''data'']" "(demo_disk, \<lambda>_. Started)"] run by auto
  ultimately show ?thesis by blast
qed

end
