(* ===== verification/Upload_Alone.thy ===== *)
theory Upload_Alone
  imports Blob_Concurrency
begin

text \<open>
  The system calls of one upload without company refine the store's operation \<open>fsblob_put\<close>,
  and every upload ends after a number of calls of its own that its path and its bytes bound.
\<close>

section \<open>One upload alone\<close>

lemma mkdirs_snoc:
  assumes "mkdirs F pre cs = Inr F'"
  shows "mkdirs F pre (cs @ [c]) = (case F' (pre @ cs @ [c]) of
      None \<Rightarrow> Inr (F'(pre @ cs @ [c] \<mapsto> Dir)) | Some Dir \<Rightarrow> Inr F' | Some (File _) \<Rightarrow> Inl (OtherError ''File exists''))"
  using assms by (induction cs arbitrary: F pre) (auto split: option.splits node.splits)

lemma mkdirs_blocked:
  assumes "mkdirs F pre cs = Inr F'" "F' (pre @ cs @ [c]) = Some (File w)"
  shows "mkdirs F pre (cs @ c # c' # cs') = Inl (OtherError ''Not a directory'')"
  using assms by (induction cs arbitrary: F pre) (auto split: option.splits node.splits)

text \<open>Where a file is in the way, no directory was missing before it.\<close>

lemma mkdirs_nothing:
  assumes "fs_ok F" "mkdirs F [] cs = Inr F'" "F' (cs @ [c]) = Some (File w)"
  shows "F' = F"
proof
  fix p
  have "F (cs @ [c]) = Some (File w)" using assms(3) mkdirs_effect [OF assms(2), of "cs @ [c]"] by (auto split: if_splits)
  then have "F (take m cs) = Some Dir" for m
    using fs_ok_ancestor [OF assms(1), of "take m cs" "drop m cs @ [c]"] append_take_drop_id [of m cs]
    by (metis Nil_is_append_conv append_assoc not_Cons_self2 option.distinct(1))
  then show "F' p = F p" using mkdirs_effect [OF assms(2), of p] by auto
qed

definition made :: "disk \<Rightarrow> path \<Rightarrow> fs \<Rightarrow> bool" where
  "made d0 p F \<longleftrightarrow> mkdirs (tree d0) [] (butlast p) = Inr F"

fun alone_inv :: "path \<Rightarrow> string \<Rightarrow> string \<Rightarrow> bytes \<Rightarrow> disk \<Rightarrow> disk \<Rightarrow> transfer_phase \<Rightarrow> bool" where
  "alone_inv root b k bs d0 d Started \<longleftrightarrow> d = d0"
| "alone_inv root b k bs d0 d (MakingDirs p n) \<longleftrightarrow> fs_resolve root b k = Inr p \<and> mkdirs (tree d0) [] (take (n - 1) (butlast p)) = Inr (tree d)"
| "alone_inv root b k bs d0 d (Opening p) \<longleftrightarrow> fs_resolve root b k = Inr p \<and> made d0 p (tree d)"
| "alone_inv root b k bs d0 d (Writing p i off) \<longleftrightarrow> fs_resolve root b k = Inr p \<and> (\<exists>F. made d0 p F \<and> can_create F (tmp_path p) = Inr ()
     \<and> tree d = F(tmp_path p \<mapsto> File (take off bs)))"
| "alone_inv root b k bs d0 d (Renaming p) \<longleftrightarrow> fs_resolve root b k = Inr p \<and> (\<exists>F. made d0 p F \<and> can_create F (tmp_path p) = Inr ()
     \<and> tree d = F(tmp_path p \<mapsto> File bs))"
| "alone_inv root b k bs d0 d (Stored r) \<longleftrightarrow> (\<exists>io. fsblob_put io root b k bs (tree d0) = (tree d, r))"
| "alone_inv root b k bs d0 d ph \<longleftrightarrow> False"

lemma tree_names: "tree (d\<lparr>d_names := (d_names d)(q \<mapsto> DirEntry)\<rparr>) = (tree d)(q \<mapsto> Dir)"
  by (rule ext) (simp add: tree_def split: option.split entry.split)

lemma tree_inode:
  assumes "disk_ok d" "d_names d q = Some (FileEntry i)"
  shows "tree (d\<lparr>d_inodes := (d_inodes d)(i := c)\<rparr>) = (tree d)(q \<mapsto> File c)"
proof
  fix r
  show "tree (d\<lparr>d_inodes := (d_inodes d)(i := c)\<rparr>) r = ((tree d)(q \<mapsto> File c)) r"
  proof (cases "r = q")
    case False
    then have "d_names d r \<noteq> Some (FileEntry i)" using disk_okD(1) [OF assms(1), of r i q] assms(2) by blast
    then show ?thesis using False by (simp add: tree_def split: option.split entry.split)
  qed (simp add: tree_def assms(2))
qed

text \<open>The steps of the store, stage by stage.\<close>

lemma fsblob_put_dirs_fail:
  assumes "fs_resolve root b k = Inr p" "p \<noteq> []" "mkdirs F [] (take n (butlast p)) = Inr F'"
  shows "\<exists>io. fsblob_put io root b k bs F = (F', Inl (Storage e))"
  by (rule exI [of _ "no_faults\<lparr>os_mkdirs := (\<lambda>_ _. Some (e, n))\<rparr>"])
    (use assms in \<open>simp add: fsblob_put_def fs_create_dir_all_def no_faults_def storage_def io_text_def\<close>)

lemma fsblob_put_made:
  assumes "fs_resolve root b k = Inr p" "p \<noteq> []" "mkdirs F [] (butlast p) = Inr F1" "\<And>q F. os_mkdirs io q F = None"
  shows "fsblob_put io root b k bs F = then_do (map_prod id (map_err storage) (fs_write io (tmp_path p) bs F1))
    (\<lambda>F _. map_prod id (map_err storage) (fs_rename io (tmp_path p) p F))"
  using assms by (simp add: fsblob_put_def fs_create_dir_all_def Let_def)

lemma mkdirs_at_file:
  assumes "mkdirs F [] (take m cs) = Inr G" "m < length cs" "G (take (Suc m) cs) = Some (File w)"
  shows "mkdirs F [] cs = Inl (OtherError (if Suc m < length cs then ''Not a directory'' else ''File exists''))"
proof -
  have q: "take (Suc m) cs = take m cs @ [cs ! m]" using assms(2) by (simp add: take_Suc_conv_app_nth)
  show ?thesis
  proof (cases "Suc m < length cs")
    case True
    then have "cs = take m cs @ cs ! m # cs ! Suc m # drop (Suc (Suc m)) cs"
      using q by (metis Cons_nth_drop_Suc append_Cons append_Nil append_assoc append_take_drop_id)
    then show ?thesis
      using True mkdirs_blocked [OF assms(1), of "cs ! m" w "cs ! Suc m" "drop (Suc (Suc m)) cs"] assms(3) q by simp
  next
    case False
    then have "cs = take m cs @ [cs ! m]" using q assms(2) by simp
    then show ?thesis using False mkdirs_snoc [OF assms(1), of "cs ! m"] assms(3) q by simp
  qed
qed

lemma make_dir_alone:
  assumes "disk_ok d0" "p \<noteq> []" "alone_inv root b k bs d0 d (MakingDirs p n)" "n \<le> length (butlast p)" "d_names d [] = Some DirEntry" "make_dir p n d = (d', x)"
  shows "alone_inv root b k bs d0 d' x"
proof (cases n)
  case 0
  then show ?thesis using assms by (auto simp: make_dir_def Let_def made_def split: if_splits)
next
  case (Suc m)
  let ?cs = "take m (butlast p)" and ?c = "butlast p ! m"
  have q: "take n (butlast p) = ?cs @ [?c]" using Suc assms(4) by (simp add: take_Suc_conv_app_nth)
  have mk: "mkdirs (tree d0) [] ?cs = Inr (tree d)" and r: "fs_resolve root b k = Inr p" using assms(3) Suc by simp_all
  note snoc = mkdirs_snoc [OF mk, of ?c]
  show ?thesis
  proof (cases "tree d (?cs @ [?c])")
    case None
    then have "d' = d\<lparr>d_names := (d_names d)(?cs @ [?c] \<mapsto> DirEntry)\<rparr>" "x = (if n < length (butlast p) then MakingDirs p (Suc n) else Opening p)"
      using assms(6) by (auto simp: make_dir_def Let_def q tree_simps)
    then show ?thesis using snoc None r q assms(4) by (auto simp: tree_names made_def)
  next
    case (Some e)
    show ?thesis
    proof (cases e)
      case Dir
      then have "d' = d" "x = (if n < length (butlast p) then MakingDirs p (Suc n) else Opening p)"
        using assms(6) Some by (auto simp: make_dir_def Let_def q tree_simps)
      then show ?thesis using snoc Some Dir r q assms(4) by (auto simp: made_def)
    next
      case (File w)
      then obtain i where "d_names d (?cs @ [?c]) = Some (FileEntry i)" using Some by (auto simp: tree_simps)
      then have x: "d' = d" "x = Stored (Inl (Storage (if n < length (butlast p) then ''Not a directory'' else ''File exists'')))"
        using assms(6) by (auto simp: make_dir_def Let_def q)
      have same: "tree d = tree d0" by (rule mkdirs_nothing [OF disk_ok_tree [OF assms(1)] mk]) (use Some File in simp)
      have "mkdirs (tree d0) [] (butlast p) = Inl (OtherError (if n < length (butlast p) then ''Not a directory'' else ''File exists''))"
        using mkdirs_at_file [OF mk, of w] Suc assms(4) q Some File by simp
      then have "fsblob_put no_faults root b k bs (tree d0) = (tree d, Inl (Storage (if n < length (butlast p) then ''Not a directory'' else ''File exists'')))"
        using r assms(2) same by (simp add: fsblob_put_def fs_create_dir_all_def no_faults_def storage_def io_text_def)
      then show ?thesis using x by auto
    qed
  qed
qed

lemma open_tmp_alone:
  assumes "disk_ok d" "p \<noteq> []" "alone_inv root b k bs d0 d (Opening p)" "open_tmp p d = (d', x)"
  shows "alone_inv root b k bs d0 d' x"
proof -
  have r: "fs_resolve root b k = Inr p" and mk: "mkdirs (tree d0) [] (butlast p) = Inr (tree d)" using assms(3) by (simp_all add: made_def)
  show ?thesis
  proof (cases "can_create (tree d) (tmp_path p)")
    case (Inl e)
    then have "fsblob_put no_faults root b k bs (tree d0) = (tree d, Inl (storage e))"
      by (simp add: fsblob_put_made [OF r assms(2) mk] no_faults_def fs_write_def)
    then show ?thesis using assms(4) Inl by (auto simp: open_tmp_def)
  next
    case (Inr u)
    have "tree (fst (open_truncated (tmp_path p) d)) = (tree d)(tmp_path p \<mapsto> File [])"
    proof (cases "\<exists>i. d_names d (tmp_path p) = Some (FileEntry i)")
      case True
      then show ?thesis using tree_inode [OF assms(1)] by (auto simp: open_truncated_def)
    next
      case False
      have "d_names d q \<noteq> Some (FileEntry (d_next d))" for q using disk_okD(2) [OF assms(1)] by blast
      then show ?thesis using False
        by (auto simp: open_truncated_def tree_def fun_eq_iff split: option.splits entry.splits)
    qed
    then show ?thesis using assms(3,4) Inr by (auto simp: open_tmp_def split: prod.splits)
  qed
qed

lemma put_fail_alone:
  assumes "p \<noteq> []" "alone_inv root b k bs d0 d ph" "put_inv p bs d ph" "fs_resolve root b k = Inr p" "put_step root b k bs (Fails e) ph d = (d', x)"
    and "tree d0 [] = Some Dir"
  shows "alone_inv root b k bs d0 d' x"
  using assms(2)
proof (cases ph)
  case (MakingDirs q n)
  then show ?thesis using assms fsblob_put_dirs_fail [of root b k p "tree d0" "n - 1" "tree d" bs e] by auto
next
  case (Opening q)
  then show ?thesis using assms fsblob_put_dirs_fail [of root b k p "tree d0" "length (butlast p)" "tree d" bs e] by (auto simp: made_def)
next
  case (Writing q i off)
  then obtain F where F: "mkdirs (tree d0) [] (butlast p) = Inr F" "can_create F (tmp_path p) = Inr ()" "tree d = F(tmp_path p \<mapsto> File (take off bs))"
    using assms(2-4) by (auto simp: made_def)
  let ?io = "no_faults\<lparr>os_write := (\<lambda>_ _ _. Some (e, Some (take off bs)))\<rparr>"
  have "fsblob_put ?io root b k bs (tree d0) = (tree d, Inl (Storage e))"
    using F fsblob_put_made [OF assms(4,1) F(1), of ?io bs] by (simp add: no_faults_def fs_write_def storage_def io_text_def)
  then show ?thesis using Writing assms(2,3,5) by (auto split: if_splits)
next
  case (Renaming q)
  then obtain F where F: "mkdirs (tree d0) [] (butlast p) = Inr F" "can_create F (tmp_path p) = Inr ()" "tree d = F(tmp_path p \<mapsto> File bs)"
    using assms(2-4) by (auto simp: made_def)
  let ?io = "no_faults\<lparr>os_rename := (\<lambda>_ _ _. Some e)\<rparr>"
  have "fsblob_put ?io root b k bs (tree d0) = (tree d, Inl (Storage e))"
    using F fsblob_put_made [OF assms(4,1) F(1), of ?io bs] by (simp add: no_faults_def fs_write_def fs_rename_def storage_def io_text_def)
  then show ?thesis using Renaming assms(5) by auto
qed (use assms in auto)

lemma rename_tmp_alone:
  assumes "disk_ok d" "p \<noteq> []" "alone_inv root b k bs d0 d (Renaming p)" "put_inv p bs d (Renaming p)" "rename_tmp p d = (d', x)"
  shows "alone_inv root b k bs d0 d' x"
proof -
  obtain F where r: "fs_resolve root b k = Inr p" and F: "mkdirs (tree d0) [] (butlast p) = Inr F" "can_create F (tmp_path p) = Inr ()" "tree d = F(tmp_path p \<mapsto> File bs)"
    using assms(3) by (auto simp: made_def)
  obtain i where i: "d_names d (tmp_path p) = Some (FileEntry i)" "d_inodes d i = bs" using assms(4) by auto
  have ne: "tmp_path p \<noteq> p" by (rule tmp_path_ne [OF assms(2)])
  have put: "fsblob_put no_faults root b k bs (tree d0) = map_prod id (map_err storage) (fs_rename no_faults (tmp_path p) p (tree d))"
    using F fsblob_put_made [OF r assms(2) F(1), of no_faults bs] by (simp add: no_faults_def fs_write_def)
  have w: "walk (tree d) [] (tmp_path p) = Found (File bs)" by (rule walk_some [OF disk_ok_tree [OF assms(1)]]) (simp add: F(3))
  have "tree (d\<lparr>d_names := (d_names d)(tmp_path p := None, p \<mapsto> FileEntry i)\<rparr>) = (tree d)(tmp_path p := None, p \<mapsto> File bs)"
    by (rule ext) (simp add: tree_def i(2) ne split: option.split entry.split)
  then show ?thesis using assms(5) put w i
    by (auto simp: rename_tmp_def fs_rename_def no_faults_def split: sum.splits)
qed

lemma put_step_alone:
  assumes "disk_ok d0" "disk_ok d" "fs_resolve root b k = Inr p" "alone_inv root b k bs d0 d ph" "put_inv p bs d ph" "put_step root b k bs out ph d = (d', x)"
  shows "alone_inv root b k bs d0 d' x"
proof (cases out)
  case (Fails e)
  then show ?thesis using put_fail_alone [OF fs_resolve_tmp(3) [OF assms(3)] assms(4,5,3)] assms(6) assms(1) by (simp add: disk_ok_def names_ok_def tree_simps)
next
  case (Works n)
  have ne: "p \<noteq> []" using fs_resolve_tmp(3) [OF assms(3)] .
  have root: "d_names d [] = Some DirEntry" using assms(2) by (simp add: disk_ok_def names_ok_def)
  show ?thesis
  proof (cases ph)
    case Started
    have "mkdirs (tree d0) [] [] = Inr (tree d0)" using assms(1) by (simp add: disk_ok_def names_ok_def tree_def)
    then show ?thesis using Started assms(3,4,6) by auto
  next
    case (Writing q i off)
    have i: "d_names d (tmp_path p) = Some (FileEntry i)" "d_inodes d i = take off bs" "off \<le> length bs" "q = p" using assms(5) Writing by simp_all
    show ?thesis
    proof (cases "length bs \<le> off")
      case False
      let ?ws = "take (max 1 n) (drop off bs)"
      have "x = Writing p i (off + length ?ws)" "put_inv p bs d' x"
        using write_some_touches [OF assms(2), of p bs i off n d' x] assms(5,6) Writing Works False i(4) by (auto simp: write_some_def Let_def)
      moreover obtain c where "tree d' = (tree d)(tmp_path p \<mapsto> File c)"
        using assms(6) Writing Works False i(4) tree_inode [OF assms(2) i(1)] by (auto simp: write_some_def Let_def)
      moreover from calculation have "c = take (off + length ?ws) bs"
        using tree_simps(3) [of d' "tmp_path p" c] by simp
      ultimately show ?thesis using assms(4) Writing i(4) by auto
    qed (use assms(4,6) Writing in auto)
  qed (use assms Works make_dir_alone [OF assms(1) ne] open_tmp_alone [OF assms(2) ne] rename_tmp_alone [OF assms(2) ne] root in auto)
qed

lemma alone_isolated: "isolated root [Put b k bs]"
  using fs_resolve_tmp(2) by (auto simp: isolated_def)

text \<open>
  C30. An upload that runs alone does what the store's operation does. Whatever its system
  calls answer, the tree and the answer it ends with are those of \<open>fsblob_put\<close> with
  suitable failures.
\<close>

theorem upload_alone_refines:
  assumes "disk_ok d0" "(transfer_step root [Put b k bs])\<^sup>*\<^sup>* (d0, \<lambda>_. Started) (d, ph)" "ph 0 = Stored r"
  shows "\<exists>io. fsblob_put io root b k bs (tree d0) = (tree d, r)"
proof (cases "fs_resolve root b k")
  case (Inl e)
  from assms(2) have "d = d0 \<and> ph 0 \<in> {Started, Stored (Inl e)}"
  proof (induction "(d, ph)" arbitrary: d ph rule: rtranclp_induct)
    case (step s)
    then show ?case using Inl by (cases s) (auto elim!: transfer_stepE)
  qed simp
  then show ?thesis using Inl assms(3) by (auto simp: fsblob_put_def)
next
  case (Inr p)
  from assms(2) have "alone_inv root b k bs d0 d (ph 0)"
  proof (induction "(d, ph)" arbitrary: d ph rule: rtranclp_induct)
    case (step s)
    obtain d1 ph1 where s: "s = (d1, ph1)" by force
    have "transfer_inv root [Put b k bs] d0 (d1, ph1)" using transfer_run_inv [OF alone_isolated assms(1)] step(1) s by blast
    then have "disk_ok d1" "put_inv p bs d1 (ph1 0)" using Inr by (simp_all add: transfer_inv_def phase_inv_def)
    then show ?case using step(2,3) s put_step_alone [OF assms(1) _ Inr] by (auto elim!: transfer_stepE)
  qed simp
  then show ?thesis using assms(3) by simp
qed

theorem upload_alone_refines_witness:
  "\<exists>io. fsblob_put io [''data''] ''media'' ''a'' [1, 2] (tree demo_disk)
     = (tree (fst (run_schedule [''data''] [Put ''media'' ''a'' [1, 2]] (replicate 9 (0, Works 1)) (demo_disk, \<lambda>_. Started))), Inr ())"
proof -
  let ?jobs = "[Put ''media'' ''a'' [1, 2]]" and ?sched = "replicate 9 (0 :: nat, Works 1)"
  obtain d ph where run: "run_schedule [''data''] ?jobs ?sched (demo_disk, \<lambda>_. Started) = (d, ph)" by force
  have "ph 0 = Stored (Inr ())" using run by (auto simp: transfer_eval numeral_eq_Suc)
  moreover have "(transfer_step [''data''] ?jobs)\<^sup>*\<^sup>* (demo_disk, \<lambda>_. Started) (d, ph)"
    using run_schedule_steps [of ?sched ?jobs "[''data'']" "(demo_disk, \<lambda>_. Started)"] run by auto
  ultimately show ?thesis using upload_alone_refines [OF demo_disk_ok] run by simp
qed

section \<open>Uploads end\<close>

text \<open>The calls an upload still has to make.\<close>

fun calls_left :: "path \<Rightarrow> bytes \<Rightarrow> transfer_phase \<Rightarrow> nat" where
  "calls_left p bs Started = length p + length bs + 4"
| "calls_left p bs (MakingDirs q n) = length p - n + length bs + 3"
| "calls_left p bs (Opening q) = length bs + 3"
| "calls_left p bs (Writing q i off) = length bs - off + 2"
| "calls_left p bs (Renaming q) = 1"
| "calls_left p bs ph = 0"

fun put_phase :: "path \<Rightarrow> transfer_phase \<Rightarrow> bool" where
  "put_phase p (MakingDirs q n) \<longleftrightarrow> q = p \<and> n < length p"
| "put_phase p (ReadingFile i acc) \<longleftrightarrow> False"
| "put_phase p (Fetched r) \<longleftrightarrow> False"
| "put_phase p ph \<longleftrightarrow> True"

lemma put_step_progress:
  assumes "fs_resolve root b k = Inr p" "put_phase p ph" "put_step root b k bs out ph d = (d', x)"
  shows "put_phase p x \<and> calls_left p bs x \<le> calls_left p bs ph - 1"
proof -
  have "p \<noteq> []" using fs_resolve_tmp(3) [OF assms(1)] .
  then show ?thesis using assms
    by (cases ph; cases out) (auto simp: make_dir_def open_tmp_def write_some_def rename_tmp_def Let_def
      split: if_splits option.splits entry.splits sum.splits prod.splits walk_result.splits node.splits)
qed

lemma run_progress:
  assumes "jobs ! i = Put b k bs" "fs_resolve root b k = Inr p" "put_phase p (snd s i)"
  shows "put_phase p (snd (run_schedule root jobs sched s) i)
    \<and> calls_left p bs (snd (run_schedule root jobs sched s) i) \<le> calls_left p bs (snd s i) - count_list (map fst sched) i"
  using assms
proof (induction root jobs sched s rule: run_schedule.induct)
  case (2 root jobs j out sched s)
  obtain d x where dx: "job_step root (jobs ! j) out (snd s j) (fst s) = (d, x)" by force
  have "put_phase p (((snd s)(j := x)) i) \<and> calls_left p bs (((snd s)(j := x)) i) \<le> calls_left p bs (snd s i) - (if j = i then 1 else 0)"
    using put_step_progress [OF 2(3,4)] dx 2(2,4) by auto
  with 2(1) [OF dx [symmetric] 2(2,3)] show ?case by (auto simp: dx)
qed simp

text \<open>
  C31. Every upload ends. After at most as many of its own system calls as its path has
  components and it has bytes, and four more, an upload has its answer,
  whatever other transfers do in between and whatever fails.
\<close>

theorem upload_terminates:
  assumes "jobs ! i = Put b k bs" "fs_resolve root b k = Inr p"
    and "length p + length bs + 4 \<le> count_list (map fst sched) i"
  shows "\<exists>r. snd (run_schedule root jobs sched (d0, \<lambda>_. Started)) i = Stored r"
proof -
  have "put_phase p (snd (run_schedule root jobs sched (d0, \<lambda>_. Started)) i)"
    "calls_left p bs (snd (run_schedule root jobs sched (d0, \<lambda>_. Started)) i) = 0"
    using run_progress [OF assms(1,2), of "(d0, \<lambda>_. Started)" sched] assms(3) by auto
  then show ?thesis by (cases "snd (run_schedule root jobs sched (d0, \<lambda>_. Started)) i") auto
qed

theorem upload_terminates_witness:
  "\<exists>r. snd (run_schedule [''data''] [Put ''media'' ''a'' [1, 2]] (replicate 9 (0, Fails ''EIO'')) (demo_disk, \<lambda>_. Started)) 0 = Stored r"
  by (rule upload_terminates [of _ _ "''media''" "''a''" "[1, 2]" _ "[''data'', ''media'', ''a'']"])
    (simp_all add: fs_resolve_def safe_segment_def numeral_eq_Suc)

end
