(* ===== verification/Media_Properties.thy ===== *)
theory Media_Properties
  imports Upload_Alone Handshake_Properties
begin

text \<open>
  Media from one client to another: a file is sealed, uploaded to a node, kept there
  while others upload, downloaded and opened.
\<close>

section \<open>An upload succeeds\<close>

text \<open>Nothing is in the way of a path: no file where a directory has to be, no directory at the names to be written.\<close>

definition path_free :: "fs \<Rightarrow> path \<Rightarrow> bool" where
  "path_free F p \<longleftrightarrow> (\<forall>n < length p. \<forall>w. F (take n p) \<noteq> Some (File w)) \<and> F p \<noteq> Some Dir \<and> F (tmp_path p) \<noteq> Some Dir"

lemma mkdirs_up:
  assumes "\<And>n w. n \<le> length cs \<Longrightarrow> F (pre @ take n cs) \<noteq> Some (File w)"
  shows "\<exists>F'. mkdirs F pre cs = Inr F'"
  using assms
proof (induction cs arbitrary: F pre)
  case Nil
  then show ?case using Nil [of 0] by (auto split: option.splits node.splits)
next
  case (Cons c cs)
  have pre: "F pre \<noteq> Some (File w)" for w using Cons.prems [of 0] by simp
  have "\<exists>F'. mkdirs G (pre @ [c]) cs = Inr F'" if "G = F \<or> G = F(pre \<mapsto> Dir)" for G
    by (rule Cons.IH) (use that Cons.prems [of "Suc n" for n] in auto)
  then show ?case using pre by (auto split: option.splits node.splits)
qed

lemma fsblob_put_up:
  assumes "fs_ok F" "fs_resolve root b k = Inr p" "path_free F p"
  shows "\<exists>F'. fsblob_put no_faults root b k bs F = (F', Inr ())"
proof -
  have ne: "p \<noteq> []" and tmp: "tmp_path p \<noteq> p" using fs_resolve_tmp [OF assms(2)] by simp_all
  have len: "length (tmp_path p) = length p" using ne by (simp add: tmp_path_def)
  have "F (take n (butlast p)) \<noteq> Some (File w)" if "n \<le> length (butlast p)" for n w
  proof -
    have "n < length p" using that ne by (cases p rule: rev_cases) simp_all
    then show ?thesis using assms(3) by (simp add: path_free_def take_butlast)
  qed
  then obtain F1 where F1: "mkdirs F [] (butlast p) = Inr F1" using mkdirs_up [of "butlast p" F "[]"] by auto
  note ok1 = mkdirs_ok [OF assms(1) F1]
  have "\<not> (\<exists>n \<le> length (butlast p). q = [] @ take n (butlast p))" if "length q = length p" for q
    using that ne by (cases p rule: rev_cases) auto
  then have keep: "F1 q = F q" if "length q = length p" for q using mkdirs_effect [OF F1, of q] that by simp
  have bt: "butlast (tmp_path p) = butlast p" "tmp_path p \<noteq> []" by (simp_all add: tmp_path_def)
  have free: "F1 p \<noteq> Some Dir" "F1 (tmp_path p) \<noteq> Some Dir" using keep len assms(3) by (simp_all add: path_free_def)
  have c1: "can_create F1 (tmp_path p) = Inr ()" using can_create_ok [of F1 "tmp_path p" "()"] ok1 bt free by simp
  let ?F2 = "F1(tmp_path p \<mapsto> File bs)"
  have F2: "fs_ok ?F2" by (rule fs_ok_set_file) (use ok1 bt free in simp_all)
  have "butlast p \<noteq> tmp_path p" using len ne by (metis length_butlast length_greater_0_conv diff_less less_irrefl zero_less_one)
  then have c2: "can_create ?F2 p = Inr ()" using can_create_ok [OF F2, of p "()"] ok1 ne tmp free by simp
  have "walk ?F2 [] (tmp_path p) = Found (File bs)" by (rule walk_some [OF F2]) simp
  then show ?thesis using fsblob_put_made [OF assms(2) ne F1, of no_faults bs] c1 c2
    by (simp add: no_faults_def fs_write_def fs_rename_def)
qed

section \<open>Media through a node\<close>

text \<open>
  C12. Media reaches its recipient. On a node whose disk works, a file within the size limit can
  be sealed, is accepted under any valid locator whose path is free, stays through every later
  upload to another locator but one, and whoever holds the key material downloads and opens it to
  the file. The exception is an upload to the key whose temporary name is this key
  (\<open>k = k' @ ''.tmp''\<close> in the same bucket), which does destroy it.
\<close>

theorem media_through_node:
  assumes crypto: "aead_laws K" "length key_rnd = 32" "length nonce_rnd = 24" "length media < 2 ^ 32"
    and store: "ctx_blob (app_ctx st) = Some (fs_blob_store no_faults root)" "length media + 16 \<le> max_blob_bytes (ctx_config (app_ctx st))"
    and disk: "fs_ok F" "fs_resolve root b k = Inr p" "path_free F p"
    and others: "\<forall>(b', k', _) \<in> set puts. (b', k') \<noteq> (b, k) \<and> \<not> (b' = b \<and> k = k' @ ''.tmp'')"
  shows "\<exists>sm F'. ffi_seal_media K key_rnd nonce_rnd media = Some sm
    \<and> handle_blob_put st b k (sm_ciphertext sm) F = (F', Created)
    \<and> (\<exists>ct. handle_blob_get st b k (later_puts st puts F') = OctetStream ct \<and> ffi_open_media K (sm_key_material sm) ct = Inr media)"
proof -
  obtain sm where sm: "ffi_seal_media K key_rnd nonce_rnd media = Some sm" "length (sm_ciphertext sm) = length media + 16"
      "ffi_open_media K (sm_key_material sm) (sm_ciphertext sm) = Inr media"
    using ffi_media_opens [OF crypto] by metis
  obtain F' where F': "fsblob_put no_faults root b k (sm_ciphertext sm) F = (F', Inr ())" using fsblob_put_up [OF disk] by blast
  have "sm_ciphertext sm \<noteq> []" using sm(2) by auto
  then have "blob_put (app_ctx st) b k (sm_ciphertext sm) F = (F', Inr ())"
    using F' sm(2) store by (simp add: blob_put_def blob_store_of_def fs_blob_store_def)
  then have put: "handle_blob_put st b k (sm_ciphertext sm) F = (F', Created)" by (simp add: handle_blob_put_created)
  have "fs_ok F'" "fs_object root F' (b, k) = Some (sm_ciphertext sm)" using fsblob_put_law [OF disk(1) F'] by simp_all
  then have "handle_blob_get st b k (later_puts st puts F') = OctetStream (sm_ciphertext sm)"
    by (rule later_puts_get [OF _ _ store(1) others]) (simp add: no_faults_def)
  then show ?thesis using sm put by blast
qed

theorem media_through_node_witness:
  "\<exists>sm F'. ffi_seal_media demo (replicate 32 1) (replicate 24 2) [9, 9] = Some sm
    \<and> handle_blob_put demo_blob_node ''media'' ''a'' (sm_ciphertext sm) root_fs = (F', Created)
    \<and> (\<exists>ct. handle_blob_get demo_blob_node ''media'' ''a'' (later_puts demo_blob_node [(''media'', ''b'', [7])] F') = OctetStream ct
        \<and> ffi_open_media demo (sm_key_material sm) ct = Inr [9, 9])"
proof (rule media_through_node [OF demo_aead, where root = "[''data'']" and p = "[''data'', ''media'', ''a'']"])
  show "path_free root_fs [''data'', ''media'', ''a'']" by (auto simp: path_free_def root_fs_def tmp_path_def less_Suc_eq numeral_eq_Suc)
qed (simp_all add: root_fs_ok core_config_default_def fs_resolve_def safe_segment_def)

end
