(* ===== verification/Facade_Types.thy ===== *)
theory Facade_Types
  imports Handshake_Properties
begin

text \<open>
  The types behind the byte strings of the facade. JavaScript holds every value of the
  client as bytes; here each kind of blob is the set of byte strings that decode to a
  value of the Rust type, with the sizes of its fixed-size fields.
\<close>

section \<open>Kinds of blobs\<close>

definition session_blob :: "prims \<Rightarrow> bytes \<Rightarrow> bool" where
  "session_blob K b \<longleftrightarrow> (\<exists>st. state_from_bytes K b = Inr st \<and> ratchet_ok K st)"

definition bundle_blob :: "prims \<Rightarrow> bytes \<Rightarrow> bool" where
  "bundle_blob K b \<longleftrightarrow> (\<exists>pb. bundle_decode K b = Inr pb \<and> bundle_ok K pb)"

definition secrets_blob :: "prims \<Rightarrow> bytes \<Rightarrow> bool" where
  "secrets_blob K b \<longleftrightarrow> (\<exists>s. secrets_from_bytes K b = Inr s \<and> secrets_ok K s)"

definition flight_blob :: "prims \<Rightarrow> bytes \<Rightarrow> bool" where
  "flight_blob K b \<longleftrightarrow> (\<exists>m. im_decode K b = Inr m \<and> im_ok K m)"

definition media_blob :: "bytes \<Rightarrow> bool" where
  "media_blob b \<longleftrightarrow> (\<exists>k. media_key_from_bytes b = Inr k \<and> media_key_ok k)"

lemma session_blobI: "ratchet_ok K st \<Longrightarrow> session_blob K (state_to_bytes st)"
  using state_from_to_bytes canonical_ok by (fastforce simp: session_blob_def)

lemma bundle_blobI: "platform_ok K \<Longrightarrow> bundle_ok K b \<Longrightarrow> bundle_authentic K b \<Longrightarrow> bundle_blob K (bundle_encode b)"
  using bundle_decode_encode by (auto simp: bundle_blob_def)

lemma flight_blobI: "platform_ok K \<Longrightarrow> im_ok K m \<Longrightarrow> flight_blob K (im_encode m)"
  using im_decode_encode by (auto simp: flight_blob_def)

lemma secrets_blobI: "secrets_ok K s \<Longrightarrow> secrets_blob K (secrets_to_bytes s)"
  using secrets_from_to_bytes by (auto simp: secrets_blob_def)

section \<open>What each call returns\<close>

lemma publishable_types:
  assumes "crypto_laws K" and "length (rnd_spk r) = 32" and "length (rnd_kem r) = 64" and "length (rnd_opk r) = 32"
    and "publishable_prekey_bundle K r identity = Inr pm"
  shows "secrets_blob K (pm_secrets pm) \<and> bundle_blob K (pm_bundle pm)"
proof -
  have l: "platform_ok K" "x25519_laws K" "kem_laws K" "dsa_laws K" using assms(1) by (simp_all add: crypto_laws_def)
  obtain s b where g: "bundle_generate K r (identity_from_seed identity) True = (s, b)" by force
  then have g': "bundle_generate K r identity True = (s, b)" by (simp add: identity_from_seed_def)
  from assms(5) have i: "length (identity_from_seed identity) = 32"
      and pm: "pm = \<lparr>pm_secrets = secrets_to_bytes s, pm_bundle = bundle_encode b\<rparr>"
    by (auto simp: publishable_prekey_bundle_def g' identity_from_seed_def SEED_LEN_def elim!: and_thenE)
  from bundle_generate_ok [OF l(2-4) assms(2-4) i g] show ?thesis
    using l(1) by (simp add: pm secrets_blobI bundle_blobI)
qed

lemma parse_invite_types:
  assumes "platform_ok K" and "parse_invite K uri = Inr v"
  shows "length (pi_queue_id v) = 32 \<and> length (pi_ca_fingerprint v) = 32 \<and> utf8_valid (pi_relay_url v)
    \<and> length (pi_identity_public_key v) = 1952 \<and> bundle_blob K (pi_bundle v)"
proof -
  from assms(2) obtain i where i: "invite_parse K uri = Inr i"
      and v: "pi_queue_id v = qd_queue_id (inv_queue i)" "pi_ca_fingerprint v = qd_ca_fingerprint (inv_queue i)"
        "pi_relay_url v = qd_relay_url (inv_queue i)" "pi_identity_public_key v = pb_identity (inv_bundle i)"
        "pi_bundle v = bundle_encode (inv_bundle i)"
    unfolding parse_invite_def by (elim and_thenE) auto
  have "invite_ok K i" using invite_parse_sound [OF i] by blast
  then show ?thesis using bundle_blobI [OF assms(1)] by (simp add: v invite_ok_def qd_ok_def bundle_ok_def)
qed

lemma initiate_types:
  assumes "crypto_laws K" and "length (rnd_ephemeral r) = 32" and "length rr = 32"
    and "initiate_session K r rr identity bundle = Inr ses"
  shows "session_blob K (is_session ses) \<and> flight_blob K (is_initial_message ses)"
proof -
  have l: "platform_ok K" "x25519_laws K" "hkdf_laws K" using assms(1) by (simp_all add: crypto_laws_def)
  from assms(4) obtain b where b: "bundle_decode K bundle = Inr b" and i: "length (identity_from_seed identity) = 32"
      and ses: "ses = (case initiate K r (identity_from_seed identity) b of (m, root) \<Rightarrow>
        \<lparr>is_session = state_to_bytes (initiator K rr root (pb_signed_prekey b)), is_initial_message = im_encode m\<rparr>)"
    unfolding initiate_session_def
    by (elim and_thenE) (auto simp: identity_from_seed_def SEED_LEN_def split: prod.splits sum.splits)
  obtain m root where m: "initiate K r (identity_from_seed identity) b = (m, root)" by force
  have "bundle_ok K b" using bundle_decode_sound [OF b] by simp
  then have pb: "length (pb_kem_key b) = 1184" "length (pb_signed_prekey b) = 32" by (simp_all add: bundle_ok_def)
  show ?thesis
    using initiate_im_ok [OF assms(1) i assms(2) pb(1) m] initiator_ok [OF l(2,3) assms(3) pb(2)] l(1)
    by (simp add: ses m session_blobI flight_blobI)
qed

lemma accept_types:
  assumes "crypto_laws K" and "accept_session K secrets bundle initial = Inr ses"
  shows "session_blob K ses"
proof -
  have l: "x25519_laws K" "hkdf_laws K" using assms(1) by (simp_all add: crypto_laws_def)
  from assms(2) obtain s b m root where s: "secrets_from_bytes K secrets = Inr s"
      and root: "respond K b s m = Inr root" and ses: "ses = state_to_bytes (responder K root (sec_signed_prekey s))"
    unfolding accept_session_def by (elim and_thenE) (auto split: sum.splits)
  have "length root = 32"
    using root hkdf_expand_length [OF l(2)] unfolding respond_def Let_def
    by (elim and_thenE) (auto simp: derive_root_def ROOT_KEY_LEN_def)
  then have "ratchet_ok K (responder K root (sec_signed_prekey s))"
    using secrets_from_bytes_ok [OF l(1) s] by (intro responder_ok) (simp_all add: secrets_ok_def)
  then show ?thesis unfolding ses by (rule session_blobI)
qed

lemma encrypt_types:
  assumes "crypto_laws K" and "encrypt_message K session p = Inr em"
  shows "session_blob K (em_session em)"
proof -
  have l: "x25519_laws K" "hkdf_laws K" using assms(1) by (simp_all add: crypto_laws_def)
  from assms(2) obtain st where st: "state_from_bytes K session = Inr st"
      and em: "em_session em = state_to_bytes (fst (encrypt K st p))"
    unfolding encrypt_message_def by (elim and_thenE) (auto split: prod.splits sum.splits)
  show ?thesis unfolding em by (intro session_blobI encrypt_ok state_from_bytes_ok [OF _ st] l)
qed

lemma decrypt_types:
  assumes "crypto_laws K" and "length rnd = 32" and "decrypt_message K rnd session msg = Inr dm"
  shows "session_blob K (dm_session dm)"
proof -
  have l: "x25519_laws K" "hkdf_laws K" using assms(1) by (simp_all add: crypto_laws_def)
  from assms(3) obtain st where st: "state_from_bytes K session = Inr st"
      and dm: "dm_session dm = state_to_bytes (fst (decrypt K rnd st msg))"
    unfolding decrypt_message_def by (elim and_thenE) (auto split: prod.splits sum.splits)
  show ?thesis unfolding dm by (intro session_blobI decrypt_ok state_from_bytes_ok [OF _ st] l assms(2))
qed

text \<open>
  C9. The facade is type safe. Whatever byte strings it is given, every blob it returns is of its
  kind: published secrets and bundles decode, the fields of a parsed invite have
  their fixed sizes, sessions load to a state that satisfies the ratchet invariant, the first flight parses
  and media keys load. So what one call returns another can take.
\<close>

theorem facade_well_typed:
  assumes "crypto_laws K"
    and "length (rnd_spk rp) = 32" "length (rnd_kem rp) = 64" "length (rnd_opk rp) = 32"
    and "length (rnd_ephemeral rh) = 32" "length rnd = 32" "length nonce = 24"
  shows "(publishable_prekey_bundle K rp identity = Inr pm \<longrightarrow> secrets_blob K (pm_secrets pm) \<and> bundle_blob K (pm_bundle pm))
    \<and> (parse_invite K uri = Inr v \<longrightarrow> length (pi_queue_id v) = 32 \<and> length (pi_ca_fingerprint v) = 32
        \<and> utf8_valid (pi_relay_url v) \<and> length (pi_identity_public_key v) = 1952 \<and> bundle_blob K (pi_bundle v))
    \<and> (initiate_session K rh rnd identity bundle = Inr ini \<longrightarrow>
        session_blob K (is_session ini) \<and> flight_blob K (is_initial_message ini))
    \<and> (accept_session K secrets bundle initial = Inr ses \<longrightarrow> session_blob K ses)
    \<and> (encrypt_message K session p = Inr em \<longrightarrow> session_blob K (em_session em))
    \<and> (decrypt_message K rnd session msg = Inr dm \<longrightarrow> session_blob K (dm_session dm))
    \<and> (ffi_seal_media K rnd nonce p = Some sm \<longrightarrow> media_blob (sm_key_material sm))"
proof -
  have "platform_ok K" using assms(1) by (simp add: crypto_laws_def)
  moreover have "media_blob (sm_key_material sm)" if "ffi_seal_media K rnd nonce p = Some sm"
    using that assms(6,7) media_key_from_to_bytes
    by (force simp: ffi_seal_media_def seal_media_def Let_def media_blob_def media_key_ok_def media_key_generate_def
        random_nonce_def split: option.splits sum.splits)
  ultimately show ?thesis
    using publishable_types [OF assms(1-4)] parse_invite_types initiate_types [OF assms(1,5,6)]
      accept_types [OF assms(1)] encrypt_types [OF assms(1)] decrypt_types [OF assms(1,6)] by simp
qed

theorem facade_well_typed_witness:
  "\<exists>pm ini ses. publishable_prekey_bundle demo demo_rnd (replicate 32 7) = Inr pm \<and> secrets_blob demo (pm_secrets pm)
    \<and> initiate_session demo demo_handshake (replicate 32 1) (replicate 32 8) (pm_bundle pm) = Inr ini
    \<and> flight_blob demo (is_initial_message ini)
    \<and> accept_session demo (pm_secrets pm) (pm_bundle pm) (is_initial_message ini) = Inr ses \<and> session_blob demo ses"
proof -
  obtain ini ses where hs: "initiate_session demo demo_handshake (replicate 32 1) (replicate 32 8) (bundle_encode demo_bundle) = Inr ini"
      "accept_session demo (secrets_to_bytes demo_secrets) (bundle_encode demo_bundle) (is_initial_message ini) = Inr ses"
    by (rule facade_handshake [OF demo_crypto _ demo_rnd_lengths(5) _ demo_bundle_ok(1,2) demo_match]) auto
  define pm where "pm = \<lparr>pm_secrets = secrets_to_bytes demo_secrets, pm_bundle = bundle_encode demo_bundle\<rparr>"
  have pub: "publishable_prekey_bundle demo demo_rnd (replicate 32 7) = Inr pm"
    by (simp add: publishable_prekey_bundle_def fixed_def SEED_LEN_def identity_from_seed_def demo_generate pm_def)
  note typed = facade_well_typed [OF demo_crypto demo_rnd_lengths(1-3,5), of "replicate 32 1" "replicate 24 2"]
  have "secrets_blob demo (pm_secrets pm)" using typed pub by simp
  moreover have "flight_blob demo (is_initial_message ini)" "session_blob demo ses" using typed hs by simp_all
  ultimately show ?thesis using pub hs by (auto simp: pm_def)
qed

end
